(* ===== verification/Prelude.thy ===== *)
theory Prelude
  imports Main "HOL-Library.Word" "HOL-Library.AList"
begin

text \<open>
  Shared vocabulary of the development: machine integers and byte strings, big-endian
  16-bit fields, decimal printing (Rust's \<open>Display\<close> of unsigned integers), the standard
  library's IPv4 address with its \<open>Display\<close> and \<open>FromStr\<close>, the hash maps the
  sources keep (association lists whose order stands for the unspecified iteration order of
  \<open>HashMap\<close>), and the framing interface that every byte-stream reader implements.
\<close>

named_theorems be_simps \<open>big-endian encoding and decoding\<close>
named_theorems frame_defs \<open>the encoders and decoders of the wire formats\<close>

section \<open>Integers and bytes\<close>

type_synonym byte = "8 word"
type_synonym u16 = "16 word"
type_synonym u32 = "32 word"
type_synonym u64 = "64 word"
type_synonym bytes = "byte list"

text \<open>\<open>u16::from_be_bytes\<close> and \<open>u16::to_be_bytes\<close>.\<close>

definition u16_from_be :: "byte \<Rightarrow> byte \<Rightarrow> u16" where
  "u16_from_be hi lo = word_of_nat (256 * unat hi + unat lo)"

definition u16_to_be :: "u16 \<Rightarrow> bytes" where
  "u16_to_be w = [word_of_nat (unat w div 256), word_of_nat (unat w mod 256)]"

lemma unat_byte_less [simp]: "unat (b :: byte) < 256"
  using unsigned_less [of b, where 'a = nat] by simp

lemma unat_u16_less [simp]: "unat (w :: u16) < 65536"
  using unsigned_less [of w, where 'a = nat] by simp

lemma unat_of_nat_byte [simp]: "n < 256 \<Longrightarrow> unat (word_of_nat n :: byte) = n"
  by (simp add: unat_of_nat)

lemma unat_of_nat_u16 [simp]: "n < 65536 \<Longrightarrow> unat (word_of_nat n :: u16) = n"
  by (simp add: unat_of_nat)

lemma unat_u16_from_be [be_simps]: "unat (u16_from_be a b) = 256 * unat a + unat b"
proof -
  have "256 * unat a + unat b < 65536"
    using unat_byte_less [of a] unat_byte_less [of b] by linarith
  then show ?thesis unfolding u16_from_be_def by (rule unat_of_nat_u16)
qed

lemma u16_from_to_be [be_simps]:
  "u16_from_be (word_of_nat (unat w div 256)) (word_of_nat (unat w mod 256)) = w"
proof -
  have "unat w div 256 < 256" using unat_u16_less [of w] by linarith
  then show ?thesis by (simp add: u16_from_be_def)
qed

lemma u16_to_from_be [be_simps]: "u16_to_be (u16_from_be a b) = [a, b]"
proof -
  have "(256 * unat a + unat b) div 256 = unat a" "(256 * unat a + unat b) mod 256 = unat b"
    using unat_byte_less [of b] by (simp_all add: div_nat_eqI)
  then show ?thesis by (simp add: u16_to_be_def unat_u16_from_be)
qed

lemma length_u16_to_be [simp]: "length (u16_to_be w) = 2"
  by (simp add: u16_to_be_def)

lemma u16_to_be_nth [be_simps]:
  "u16_from_be (u16_to_be w ! 0) (u16_to_be w ! Suc 0) = w"
  by (simp add: u16_to_be_def u16_from_to_be)

lemma u16_to_be_inject [simp]: "u16_to_be v = u16_to_be w \<longleftrightarrow> v = w"
  by (metis u16_to_be_nth)

text \<open>\<open>u16::try_from(usize)\<close> and the \<open>as u16\<close> cast of a length already checked.\<close>

definition u16_try_from :: "nat \<Rightarrow> u16 option" where
  "u16_try_from n = (if n < 65536 then Some (word_of_nat n) else None)"

text \<open>The slices \<open>\&xs[i..j]\<close> of the sources, within bounds.\<close>

definition slice :: "'a list \<Rightarrow> nat \<Rightarrow> nat \<Rightarrow> 'a list" where
  "slice xs i j = take (j - i) (drop i xs)"

lemma length_slice [simp]: "j \<le> length xs \<Longrightarrow> length (slice xs i j) = j - i"
  by (simp add: slice_def)

lemma slice_append [simp]: "j \<le> length xs \<Longrightarrow> slice (xs @ ys) i j = slice xs i j"
  by (cases "i \<le> j") (auto simp: slice_def)

lemma slice_middle: "slice (xs @ ys @ zs) (length xs) (length xs + length ys) = ys"
  by (simp add: slice_def)

lemma list_split4: "4 \<le> length xs \<Longrightarrow> xs = [xs ! 0, xs ! 1, xs ! 2, xs ! 3] @ drop 4 xs"
  by (cases xs; cases "tl xs"; cases "tl (tl xs)"; cases "tl (tl (tl xs))")
    (auto simp: numeral_eq_Suc)

lemma nth_append_first2:
  "2 \<le> length xs \<Longrightarrow> (xs @ ys) ! 0 = xs ! 0" "2 \<le> length xs \<Longrightarrow> (xs @ ys) ! Suc 0 = xs ! Suc 0"
  by (cases xs; cases "tl xs"; simp)+

lemma take4_nth: "4 \<le> length xs \<Longrightarrow> take 4 xs = [xs ! 0, xs ! 1, xs ! 2, xs ! 3]"
  by (subst list_split4) simp_all

text \<open>\<open>bytes\<close> of a Rust string: a model character is one UTF-8 byte.\<close>

definition as_bytes :: "string \<Rightarrow> bytes" where
  "as_bytes s = map (\<lambda>c. word_of_nat (of_char c)) s"

lemma length_as_bytes [simp]: "length (as_bytes s) = length s"
  by (simp add: as_bytes_def)

lemma as_bytes_inject [simp]: "as_bytes s = as_bytes t \<longleftrightarrow> s = t"
proof -
  have "inj (\<lambda>c. word_of_nat (of_char c) :: byte)"
  proof (rule injI)
    fix c d :: char
    assume "(word_of_nat (of_char c) :: byte) = word_of_nat (of_char d)"
    then have "unat (word_of_nat (of_char c) :: byte) = unat (word_of_nat (of_char d) :: byte)"
      by simp
    then have "(of_char c :: nat) = of_char d" by simp
    then show "c = d" by simp
  qed
  then show ?thesis unfolding as_bytes_def by (metis map_injective)
qed

section \<open>Decimal printing\<close>

definition digit_char :: "nat \<Rightarrow> char" where
  "digit_char d = char_of (48 + d)"

definition digit_value :: "char \<Rightarrow> nat" where
  "digit_value c = of_char c - 48"

definition is_digit :: "char \<Rightarrow> bool" where
  "is_digit c \<longleftrightarrow> 48 \<le> (of_char c :: nat) \<and> (of_char c :: nat) \<le> 57"

fun dec_string :: "nat \<Rightarrow> string" where
  "dec_string n =
     (if n < 10 then [digit_char n] else dec_string (n div 10) @ [digit_char (n mod 10)])"

declare dec_string.simps [simp del]

definition dec_value :: "string \<Rightarrow> nat" where
  "dec_value s = foldl (\<lambda>a c. 10 * a + digit_value c) 0 s"

lemma of_digit_char: "d < 10 \<Longrightarrow> (of_char (digit_char d) :: nat) = 48 + d"
  by (simp add: digit_char_def)

lemma digit_value_digit_char [simp]: "d < 10 \<Longrightarrow> digit_value (digit_char d) = d"
  by (simp add: digit_value_def of_digit_char)

lemma is_digit_digit_char [simp]: "d < 10 \<Longrightarrow> is_digit (digit_char d)"
  by (simp add: is_digit_def of_digit_char)

lemma dec_string_digits: "c \<in> set (dec_string n) \<Longrightarrow> is_digit c"
proof (induction n rule: dec_string.induct)
  case (1 n)
  then show ?case by (auto simp: dec_string.simps [of n] split: if_splits)
qed

lemma dec_string_nonempty [simp]: "dec_string n \<noteq> []"
  by (subst dec_string.simps) simp

lemma dec_value_dec_string [simp]: "dec_value (dec_string n) = n"
proof (induction n rule: dec_string.induct)
  case (1 n)
  then show ?case by (simp add: dec_string.simps [of n] dec_value_def)
qed

lemma dec_string_inject [simp]: "dec_string m = dec_string n \<longleftrightarrow> m = n"
  by (metis dec_value_dec_string)

lemma not_digit_dec_string: "\<not> is_digit c \<Longrightarrow> c \<notin> set (dec_string n)"
  using dec_string_digits by blast

lemma separators_not_digits [simp]:
  "\<not> is_digit CHR '':''" "\<not> is_digit CHR ''.''" "\<not> is_digit CHR ''-''"
  by (simp_all add: is_digit_def)

text \<open>Splitting at the first occurrence of a separator is unambiguous.\<close>

lemma sep_inject:
  assumes "c \<notin> set a" and "c \<notin> set a'" and "a @ c # b = a' @ c # b'"
  shows "a = a' \<and> b = b'"
proof -
  have "takeWhile (\<lambda>x. x \<noteq> c) (a @ c # b) = a" "takeWhile (\<lambda>x. x \<noteq> c) (a' @ c # b') = a'"
    using assms(1,2) by (auto simp: takeWhile_tail)
  then have "a = a'" using assms(3) by metis
  then show ?thesis using assms(3) by simp
qed

section \<open>IPv4 addresses\<close>

datatype ipv4 = Ipv4 byte byte byte byte

primrec octets :: "ipv4 \<Rightarrow> bytes" where
  "octets (Ipv4 a b c d) = [a, b, c, d]"

lemma length_octets [simp]: "length (octets ip) = 4"
  by (cases ip) simp

lemma octets_inject [simp]: "octets a = octets b \<longleftrightarrow> a = b"
  by (cases a; cases b) simp

text \<open>\<open>Display\<close> for \<open>Ipv4Addr\<close>.\<close>

primrec ipv4_to_string :: "ipv4 \<Rightarrow> string" where
  "ipv4_to_string (Ipv4 a b c d) =
     dec_string (unat a) @ CHR ''.'' # dec_string (unat b) @ CHR ''.'' #
     dec_string (unat c) @ CHR ''.'' # dec_string (unat d)"

lemma unat_inject [simp]: "unat (a :: 'a :: len word) = unat b \<longleftrightarrow> a = b"
  by (simp add: word_unat_eq_iff)

lemma ipv4_to_string_inject [simp]: "ipv4_to_string x = ipv4_to_string y \<longleftrightarrow> x = y"
proof
  assume eq: "ipv4_to_string x = ipv4_to_string y"
  obtain a b c d where x: "x = Ipv4 a b c d" by (cases x)
  obtain a' b' c' d' where y: "y = Ipv4 a' b' c' d'" by (cases y)
  note dot = not_digit_dec_string [OF separators_not_digits(2)]
  from sep_inject [OF dot dot eq [unfolded x y ipv4_to_string.simps]]
  have a: "a = a'" and r: "dec_string (unat b) @ CHR ''.'' # dec_string (unat c) @ CHR ''.'' # dec_string (unat d)
      = dec_string (unat b') @ CHR ''.'' # dec_string (unat c') @ CHR ''.'' # dec_string (unat d')"
    by simp_all
  from sep_inject [OF dot dot r]
  have b: "b = b'" and r': "dec_string (unat c) @ CHR ''.'' # dec_string (unat d)
      = dec_string (unat c') @ CHR ''.'' # dec_string (unat d')"
    by simp_all
  from sep_inject [OF dot dot r'] have "c = c'" "d = d'" by simp_all
  with a b show "x = y" by (simp add: x y)
qed simp

lemma ipv4_to_string_no_colon [simp]: "CHR '':'' \<notin> set (ipv4_to_string ip)"
  using not_digit_dec_string [OF separators_not_digits(1)] by (cases ip) simp

lemma ipv4_to_string_no_dash [simp]: "CHR ''-'' \<notin> set (ipv4_to_string ip)"
  using not_digit_dec_string [OF separators_not_digits(3)] by (cases ip) simp

lemma ipv4_to_string_nonempty [simp]: "ipv4_to_string ip \<noteq> []"
  by (cases ip) simp

text \<open>
  \<open>FromStr\<close> for \<open>Ipv4Addr\<close>: four decimal octets of one to three digits separated by
  dots, each at most 255 and without a leading zero, and nothing after them.
\<close>

fun split_on :: "char \<Rightarrow> string \<Rightarrow> string list" where
  "split_on c [] = [[]]"
| "split_on c (x # xs) =
     (if x = c then [] # split_on c xs
      else case split_on c xs of [] \<Rightarrow> [[x]] | s # ss \<Rightarrow> (x # s) # ss)"

definition parse_octet :: "string \<Rightarrow> byte option" where
  "parse_octet s =
     (if s \<noteq> [] \<and> length s \<le> 3 \<and> list_all is_digit s \<and> dec_value s \<le> 255
         \<and> (length s = 1 \<or> hd s \<noteq> CHR ''0'')
      then Some (word_of_nat (dec_value s)) else None)"

definition parse_ipv4 :: "string \<Rightarrow> ipv4 option" where
  "parse_ipv4 s =
     (case split_on CHR ''.'' s of
        [a, b, c, d] \<Rightarrow>
          (case (parse_octet a, parse_octet b, parse_octet c, parse_octet d) of
             (Some w, Some x, Some y, Some z) \<Rightarrow> Some (Ipv4 w x y z)
           | _ \<Rightarrow> None)
      | _ \<Rightarrow> None)"

lemma split_on_nosep: "c \<notin> set s \<Longrightarrow> split_on c s = [s]"
  by (induction s) auto

lemma split_on_sep: "c \<notin> set a \<Longrightarrow> split_on c (a @ c # b) = a # split_on c b"
  by (induction a) auto

lemma dec_string_len: "n < 10 ^ Suc k \<Longrightarrow> length (dec_string n) \<le> Suc k"
proof (induction k arbitrary: n)
  case 0
  then show ?case by (subst dec_string.simps) simp
next
  case (Suc k)
  show ?case
  proof (cases "n < 10")
    case True
    then show ?thesis by (subst dec_string.simps) simp
  next
    case False
    from Suc.prems have "n div 10 < 10 ^ Suc k" by (simp add: less_mult_imp_div_less)
    then have "length (dec_string (n div 10)) \<le> Suc k" by (rule Suc.IH)
    with False show ?thesis by (simp add: dec_string.simps [of n])
  qed
qed

lemma hd_dec_string: "0 < n \<Longrightarrow> hd (dec_string n) \<noteq> CHR ''0''"
proof (induction n rule: dec_string.induct)
  case (1 n)
  show ?case
  proof (cases "n < 10")
    case True
    have "(of_char (digit_char n) :: nat) \<noteq> of_char CHR ''0''"
      using True \<open>0 < n\<close> by (simp add: of_digit_char)
    then have "digit_char n \<noteq> CHR ''0''" by metis
    then show ?thesis using True by (subst dec_string.simps) simp
  next
    case False
    then have "hd (dec_string (n div 10)) \<noteq> CHR ''0''" using 1 by simp
    then show ?thesis using False by (simp add: dec_string.simps [of n] hd_append)
  qed
qed

lemma parse_octet_dec_string: "parse_octet (dec_string (unat (b :: byte))) = Some b"
proof -
  have len: "length (dec_string (unat b)) \<le> 3"
    using dec_string_len [of "unat b" 2] unat_byte_less [of b] by simp
  have lead: "length (dec_string (unat b)) = 1 \<or> hd (dec_string (unat b)) \<noteq> CHR ''0''"
    using hd_dec_string [of "unat b"] by (cases "unat b = 0") (auto simp: dec_string.simps [of 0])
  have "list_all is_digit (dec_string (unat b))"
    by (simp add: list_all_iff dec_string_digits)
  moreover have "unat b \<le> 255" using unat_byte_less [of b] by linarith
  ultimately show ?thesis using len lead by (simp add: parse_octet_def)
qed

lemma parse_ipv4_to_string [simp]: "parse_ipv4 (ipv4_to_string ip) = Some ip"
proof (cases ip)
  case (Ipv4 a b c d)
  note dot = not_digit_dec_string [OF separators_not_digits(2)]
  show ?thesis
    by (simp add: Ipv4 parse_ipv4_def split_on_sep split_on_nosep dot parse_octet_dec_string)
qed

section \<open>Text helpers\<close>

text \<open>Upper-case hexadecimal, two digits per byte (\<open>{:02X}\<close>), and lower case (\<open>{:02x}\<close>).\<close>

definition hex_digit :: "bool \<Rightarrow> nat \<Rightarrow> char" where
  "hex_digit upper n = (if n < 10 then char_of (48 + n)
     else if upper then char_of (55 + n) else char_of (87 + n))"

definition hex_byte :: "bool \<Rightarrow> byte \<Rightarrow> string" where
  "hex_byte upper b = [hex_digit upper (unat b div 16), hex_digit upper (unat b mod 16)]"

definition hex_upper :: "bytes \<Rightarrow> string" where
  "hex_upper bs = concat (map (hex_byte True) bs)"

lemma length_hex_upper: "length (hex_upper bs) = 2 * length bs"
  by (induction bs) (simp_all add: hex_upper_def hex_byte_def)

text \<open>\<open>Display\<close> of a signed integer.\<close>

definition int_string :: "int \<Rightarrow> string" where
  "int_string i = (if i < 0 then CHR ''-'' # dec_string (nat (- i)) else dec_string (nat i))"

text \<open>
  \<open>str::trim\<close>: the UTF-8 encodings of the characters with the Unicode property
  \<open>White_Space\<close>, removed from both ends.
\<close>

definition white_space :: "string list" where
  "white_space = map (\<lambda>c. [char_of (c :: nat)]) [9, 10, 11, 12, 13, 32]
     @ map (map char_of) [[0xC2, 0x85 :: nat], [0xC2, 0xA0], [0xE1, 0x9A, 0x80]]
     @ map (\<lambda>c. [char_of (0xE2 :: nat), char_of (0x80 :: nat), char_of c])
         [0x80, 0x81, 0x82, 0x83, 0x84, 0x85, 0x86, 0x87, 0x88, 0x89, 0x8A, 0xA8, 0xA9, 0xAF :: nat]
     @ map (map char_of) [[0xE2, 0x81, 0x9F :: nat], [0xE3, 0x80, 0x80]]"

definition leading :: "string list \<Rightarrow> string \<Rightarrow> string option" where
  "leading ws s = find (\<lambda>w. w \<noteq> [] \<and> take (length w) s = w) ws"

lemma leading_shrinks: "leading ws s = Some w \<Longrightarrow> length (drop (length w) s) < length s"
proof -
  assume "leading ws s = Some w"
  then have "w \<noteq> []" "take (length w) s = w" by (auto simp: leading_def find_Some_iff)
  then show ?thesis by (cases s) auto
qed

function strip_leading :: "string list \<Rightarrow> string \<Rightarrow> string" where
  "strip_leading ws s =
     (case leading ws s of None \<Rightarrow> s | Some w \<Rightarrow> strip_leading ws (drop (length w) s))"
  by pat_completeness auto
termination
  by (relation "measure (\<lambda>(ws, s). length s)") (simp_all add: leading_shrinks del: length_drop)

declare strip_leading.simps [simp del]

definition str_trim :: "string \<Rightarrow> string" where
  "str_trim s = rev (strip_leading (map rev white_space) (rev (strip_leading white_space s)))"

lemma strip_leading_none: "leading ws (strip_leading ws s) = None"
proof (induction ws s rule: strip_leading.induct)
  case (1 ws s)
  then show ?case by (cases "leading ws s") (simp_all add: strip_leading.simps [of ws s])
qed

lemma strip_leading_id: "leading ws s = None \<Longrightarrow> strip_leading ws s = s"
  by (simp add: strip_leading.simps)

text \<open>
  \<open>String::from_utf8_lossy\<close>: valid UTF-8 is kept, every maximal ill-formed prefix becomes
  the replacement character U+FFFD.
\<close>

definition in_range :: "byte \<Rightarrow> nat \<Rightarrow> nat \<Rightarrow> bool" where
  "in_range b lo hi \<longleftrightarrow> lo \<le> unat b \<and> unat b \<le> hi"

definition utf8_second_ok :: "byte \<Rightarrow> byte \<Rightarrow> bool" where
  "utf8_second_ok b c =
     (if unat b = 0xE0 then in_range c 0xA0 0xBF
      else if unat b = 0xED then in_range c 0x80 0x9F
      else if unat b = 0xF0 then in_range c 0x90 0xBF
      else if unat b = 0xF4 then in_range c 0x80 0x8F
      else in_range c 0x80 0xBF)"

text \<open>The number of continuation bytes a lead byte announces.\<close>

definition utf8_extra :: "byte \<Rightarrow> nat" where
  "utf8_extra b =
     (if in_range b 0xC2 0xDF then 1 else if in_range b 0xE0 0xEF then 2
      else if in_range b 0xF0 0xF4 then 3 else 0)"

text \<open>How many continuation bytes follow a lead byte before the sequence ends or breaks.\<close>

definition utf8_run :: "byte \<Rightarrow> bytes \<Rightarrow> nat" where
  "utf8_run b bs =
     (case bs of [] \<Rightarrow> 0
      | c # cs \<Rightarrow>
          if \<not> utf8_second_ok b c then 0
          else 1 + length (takeWhile (\<lambda>x. in_range x 0x80 0xBF) (take (utf8_extra b - 1) cs)))"

function from_utf8_lossy :: "bytes \<Rightarrow> string" where
  "from_utf8_lossy [] = []"
| "from_utf8_lossy (b # bs) =
     (if unat b < 0x80 then char_of (unat b) # from_utf8_lossy bs
      else if 0 < utf8_extra b \<and> utf8_run b bs = utf8_extra b
      then map (\<lambda>x. char_of (unat x)) (b # take (utf8_extra b) bs) @ from_utf8_lossy (drop (utf8_extra b) bs)
      else map char_of [0xEF, 0xBF, 0xBD :: nat]
           @ from_utf8_lossy (if 0 < utf8_extra b then drop (utf8_run b bs) bs else bs))"
  by pat_completeness auto
termination
  by (relation "measure length") auto

section \<open>Hash maps\<close>

text \<open>
  A \<open>HashMap\<close> is an association list with distinct keys. The order of the list is one
  iteration order of the map; every property is stated for all lists, hence for all orders.
\<close>

type_synonym ('k, 'v) hmap = "('k \<times> 'v) list"

abbreviation hm_get :: "('k, 'v) hmap \<Rightarrow> 'k \<Rightarrow> 'v option" where
  "hm_get \<equiv> map_of"

abbreviation hm_insert :: "'k \<Rightarrow> 'v \<Rightarrow> ('k, 'v) hmap \<Rightarrow> ('k, 'v) hmap" where
  "hm_insert \<equiv> AList.update"

abbreviation hm_remove :: "'k \<Rightarrow> ('k, 'v) hmap \<Rightarrow> ('k, 'v) hmap" where
  "hm_remove \<equiv> AList.delete"

abbreviation hm_distinct :: "('k, 'v) hmap \<Rightarrow> bool" where
  "hm_distinct m \<equiv> distinct (map fst m)"

declare map_of_eq_Some_iff [simp del]

lemma hm_get_insert [simp]: "hm_get (hm_insert k v m) = (hm_get m)(k \<mapsto> v)"
  by (rule update_conv')

lemma hm_get_remove [simp]: "hm_get (hm_remove k m) = (hm_get m)(k := None)"
  by (rule delete_conv')

lemma hm_distinct_insert [simp]: "hm_distinct m \<Longrightarrow> hm_distinct (hm_insert k v m)"
  by (rule distinct_update)

lemma hm_distinct_remove [simp]: "hm_distinct m \<Longrightarrow> hm_distinct (hm_remove k m)"
  by (rule distinct_delete)

lemma length_hm_insert:
  "hm_get m k = None \<Longrightarrow> length (hm_insert k v m) = Suc (length m)"
  by (induction m) (auto split: if_splits)

lemma length_hm_insert_present:
  "hm_get m k = Some w \<Longrightarrow> length (hm_insert k v m) = length m"
  by (induction m) (auto split: if_splits)

lemma hm_insert_absent: "hm_get m k = None \<Longrightarrow> hm_insert k v m = m @ [(k, v)]"
  by (induction m) (auto split: if_splits)

lemma hm_remove_absent: "hm_get m k = None \<Longrightarrow> hm_remove k m = m"
  by (induction m) (auto split: if_splits)

lemma length_hm_remove:
  "hm_distinct m \<Longrightarrow> hm_get m k = Some v \<Longrightarrow> Suc (length (hm_remove k m)) = length m"
proof (induction m)
  case (Cons x m)
  show ?case
  proof (cases "fst x = k")
    case True
    then have "hm_get m k = None" using Cons.prems(1) by (auto simp: map_of_eq_None_iff)
    with True show ?thesis by (cases x) (simp add: hm_remove_absent)
  next
    case False
    with Cons show ?thesis by (cases x) (auto split: if_splits)
  qed
qed simp

lemma hm_mem_iff: "hm_distinct m \<Longrightarrow> (k, v) \<in> set m \<longleftrightarrow> hm_get m k = Some v"
  by (auto simp: map_of_eq_Some_iff)


lemma find_SomeD: "find P xs = Some r \<Longrightarrow> r \<in> set xs \<and> P r"
  by (auto simp: find_Some_iff)

section \<open>Bounded channels\<close>

text \<open>A bounded \<open>mpsc\<close> channel: its queue, its capacity, and whether the receiver lives.\<close>

record 'a chan =
  ch_queue :: "'a list"
  ch_cap :: nat
  ch_open :: bool

datatype try_send_error = Full | Closed

definition try_send :: "'a \<Rightarrow> 'a chan \<Rightarrow> 'a chan \<times> (try_send_error + unit)" where
  "try_send x ch =
     (if \<not> ch_open ch then (ch, Inl Closed)
      else if ch_cap ch \<le> length (ch_queue ch) then (ch, Inl Full)
      else (ch\<lparr>ch_queue := ch_queue ch @ [x]\<rparr>, Inr ()))"

definition chan_new :: "nat \<Rightarrow> 'a chan" where
  "chan_new cap = \<lparr>ch_queue = [], ch_cap = cap, ch_open = True\<rparr>"

definition chan_ok :: "'a chan \<Rightarrow> bool" where
  "chan_ok ch \<longleftrightarrow> length (ch_queue ch) \<le> ch_cap ch"

lemma chan_ok_new [simp]: "chan_ok (chan_new n)"
  by (simp add: chan_ok_def chan_new_def)

lemma chan_ok_try_send [simp]: "chan_ok ch \<Longrightarrow> chan_ok (fst (try_send x ch))"
  by (simp add: chan_ok_def try_send_def)

section \<open>JSON values\<close>

text \<open>\<open>serde_json::Value\<close>: a number is kept as its literal, an object as its fields in order.\<close>

datatype json_value =
    JNull | JBool bool | JNumber string | JString string
  | JArray "json_value list" | JObject "(string \<times> json_value) list"

end
