(* ===== verification/Signed_Json.thy ===== *)
theory Signed_Json
  imports Prelude
begin

text \<open>
  \<open>crates/atrust-protocol/src/{json,signing,tcp_init,l3_auth}.rs\<close>: the signed JSON bodies
  of the TCP tunnel init and of the per-flow L3 authorization, and the reply of the latter.
  The data transfer objects are records with the source's fields. SHA-256, HMAC-SHA-256 and
  the serialization of \<open>serde_json\<close> are third-party code and parameters: \<open>sha256\<close>,
  \<open>hmac\<close> (key, then message), \<open>to_vec\<close> and \<open>from_slice\<close>.
\<close>

section \<open>Signing\<close>

definition calculate_request_signature :: "(bytes \<Rightarrow> bytes \<Rightarrow> bytes) \<Rightarrow> bytes \<Rightarrow> bytes \<Rightarrow> string" where
  "calculate_request_signature hmac key unsigned_json = hex_upper (hmac key unsigned_json)"

text \<open>\<open>to_wire_json\<close> wraps the serializer's error.\<close>

datatype 'se protocol_json_error = Serialize 'se

definition to_wire_json :: "('w \<Rightarrow> 'se + bytes) \<Rightarrow> 'w \<Rightarrow> 'se protocol_json_error + bytes" where
  "to_wire_json to_vec value = (case to_vec value of Inl e \<Rightarrow> Inl (Serialize e) | Inr b \<Rightarrow> Inr b)"

section \<open>Process identity\<close>

record process_identity =
  pi_name :: string
  pi_path :: string

definition default_for_port :: "u16 \<Rightarrow> process_identity" where
  "default_for_port port =
     (if port = 22 then \<lparr>pi_name = ''ssh'', pi_path = ''/usr/bin/ssh''\<rparr>
      else \<lparr>pi_name = ''google-chrome-stable'', pi_path = ''/usr/bin/google-chrome-stable''\<rparr>)"

definition proc_hash :: "(bytes \<Rightarrow> bytes) \<Rightarrow> process_identity \<Rightarrow> string" where
  "proc_hash sha256 p = hex_upper (sha256 (as_bytes (pi_path p)))"

text \<open>The \<open>env.application.runtime\<close> object both requests carry.\<close>

record wire_process =
  wp_name :: string
  wp_digital_signature :: string
  wp_platform :: string
  wp_fingerprint :: string
  wp_description :: string
  wp_path :: string
  wp_version :: string
  wp_security_env :: string

record wire_runtime =
  wr_process :: wire_process
  wr_process_trusted :: string

definition runtime_env :: "process_identity \<Rightarrow> string \<Rightarrow> wire_runtime" where
  "runtime_env p hash =
     \<lparr>wr_process =
        \<lparr>wp_name = pi_name p, wp_digital_signature = ''TrustAppClosed'', wp_platform = ''Linux'',
         wp_fingerprint = hash, wp_description = ''TrustAppClosed'', wp_path = pi_path p,
         wp_version = ''TrustAppClosed'', wp_security_env = ''normal''\<rparr>,
      wr_process_trusted = ''TRUSTED''\<rparr>"

section \<open>TCP init\<close>

record tcp_init_params =
  tp_sid :: string
  tp_app_id :: string
  tp_dest_host :: string
  tp_dest_port :: u16
  tp_device_id :: string
  tp_connection_id :: string
  tp_username :: string
  tp_process :: process_identity
  tp_lang :: string

record tcp_init_wire =
  tw_sid :: string
  tw_app_id :: string
  tw_url :: string
  tw_device_id :: string
  tw_connection_id :: string
  tw_proc_hash :: string
  tw_user_name :: string
  tw_rc_applied_info :: int
  tw_lang :: string
  tw_dest_addr :: string
  tw_env :: wire_runtime
  tw_x_request_sig :: string

datatype 'se tcp_init_error =
    TcpEmptyAppId | EmptyDestHost | InvalidPort | TcpJson "'se protocol_json_error"

definition tcp_init_unsigned :: "(bytes \<Rightarrow> bytes) \<Rightarrow> tcp_init_params \<Rightarrow> tcp_init_wire" where
  "tcp_init_unsigned sha256 ps =
     (let dest_addr = tp_dest_host ps @ '':'' @ dec_string (unat (tp_dest_port ps));
          hash = proc_hash sha256 (tp_process ps)
      in \<lparr>tw_sid = tp_sid ps, tw_app_id = tp_app_id ps, tw_url = ''tcp://'' @ dest_addr,
          tw_device_id = tp_device_id ps, tw_connection_id = tp_connection_id ps,
          tw_proc_hash = hash, tw_user_name = tp_username ps, tw_rc_applied_info = 0,
          tw_lang = tp_lang ps, tw_dest_addr = dest_addr,
          tw_env = runtime_env (tp_process ps) hash, tw_x_request_sig = ''''\<rparr>)"

definition build_signed_tcp_init_json ::
  "(bytes \<Rightarrow> bytes) \<Rightarrow> (bytes \<Rightarrow> bytes \<Rightarrow> bytes) \<Rightarrow> (tcp_init_wire \<Rightarrow> 'se + bytes)
    \<Rightarrow> tcp_init_params \<Rightarrow> bytes \<Rightarrow> 'se tcp_init_error + bytes" where
  "build_signed_tcp_init_json sha256 hmac to_vec ps sign_key =
     (if tp_app_id ps = [] then Inl TcpEmptyAppId
      else if tp_dest_host ps = [] then Inl EmptyDestHost
      else if tp_dest_port ps = 0 then Inl InvalidPort
      else let unsigned = tcp_init_unsigned sha256 ps in
        case to_wire_json to_vec unsigned of
          Inl e \<Rightarrow> Inl (TcpJson e)
        | Inr unsigned_bytes \<Rightarrow>
            (case to_wire_json to_vec
                (unsigned\<lparr>tw_x_request_sig := calculate_request_signature hmac sign_key unsigned_bytes\<rparr>) of
               Inl e \<Rightarrow> Inl (TcpJson e)
             | Inr b \<Rightarrow> Inr b))"

section \<open>L3 flow authorization\<close>

datatype l3_ip_protocol = Icmp | Tcp | Udp

fun scheme :: "l3_ip_protocol \<Rightarrow> string" where
  "scheme Icmp = ''icmp''"
| "scheme Tcp = ''tcp''"
| "scheme Udp = ''udp''"

fun protocol_as_u8 :: "l3_ip_protocol \<Rightarrow> byte" where
  "protocol_as_u8 Icmp = 1"
| "protocol_as_u8 Tcp = 6"
| "protocol_as_u8 Udp = 17"

definition protocol_from_u8 :: "byte \<Rightarrow> l3_ip_protocol option" where
  "protocol_from_u8 v =
     (if v = 1 then Some Icmp else if v = 6 then Some Tcp else if v = 17 then Some Udp else None)"

record l3_five_tuple =
  ft_atype :: u32
  ft_protocol :: l3_ip_protocol
  ft_dest_addr :: string
  ft_dest_port :: u16
  ft_src_addr :: string
  ft_src_port :: u16

definition ATYPE_IPV4 :: u32 where "ATYPE_IPV4 = 0x0800"

definition five_tuple_ipv4 ::
  "l3_ip_protocol \<Rightarrow> string \<Rightarrow> u16 \<Rightarrow> string \<Rightarrow> u16 \<Rightarrow> l3_five_tuple" where
  "five_tuple_ipv4 protocol src_addr src_port dest_addr dest_port =
     \<lparr>ft_atype = ATYPE_IPV4, ft_protocol = protocol, ft_dest_addr = dest_addr,
      ft_dest_port = dest_port, ft_src_addr = src_addr, ft_src_port = src_port\<rparr>"

record l3_auth_params =
  ap_sid :: string
  ap_app_id :: string
  ap_device_id :: string
  ap_connection_id :: string
  ap_conntrack_hash :: u64
  ap_five_tuple :: l3_five_tuple
  ap_process :: process_identity
  ap_lang :: string

record l3_auth_ip_wire =
  iw_atype :: u32
  iw_protocol :: u32
  iw_dest_addr :: string
  iw_dest_port :: u16
  iw_src_addr :: string
  iw_src_port :: u16

record l3_auth_wire =
  aw_sid :: string
  aw_app_id :: string
  aw_url :: string
  aw_device_id :: string
  aw_connection_id :: string
  aw_env :: wire_runtime
  aw_conntrack_hash :: u64
  aw_lang :: string
  aw_ip :: l3_auth_ip_wire
  aw_proc_hash :: string
  aw_domain :: "string option"
  aw_x_request_sig :: string

datatype ('se, 'de) l3_auth_error =
    AuthEmptyAppId | EmptyDestAddr | EmptySrcAddr
  | AuthJson "'se protocol_json_error" | ResponseJson 'de

definition l3_auth_unsigned ::
  "(bytes \<Rightarrow> bytes) \<Rightarrow> l3_auth_params \<Rightarrow> string option \<Rightarrow> l3_auth_wire" where
  "l3_auth_unsigned sha256 ps domain =
     (let ft = ap_five_tuple ps; hash = proc_hash sha256 (ap_process ps)
      in \<lparr>aw_sid = ap_sid ps, aw_app_id = ap_app_id ps,
          aw_url = scheme (ft_protocol ft) @ '':'' @ ft_dest_addr ft @ '':''
                   @ dec_string (unat (ft_dest_port ft)),
          aw_device_id = ap_device_id ps, aw_connection_id = ap_connection_id ps,
          aw_env = runtime_env (ap_process ps) hash,
          aw_conntrack_hash = ap_conntrack_hash ps, aw_lang = ap_lang ps,
          aw_ip = \<lparr>iw_atype = ft_atype ft, iw_protocol = ucast (protocol_as_u8 (ft_protocol ft)),
                   iw_dest_addr = ft_dest_addr ft, iw_dest_port = ft_dest_port ft,
                   iw_src_addr = ft_src_addr ft, iw_src_port = ft_src_port ft\<rparr>,
          aw_proc_hash = hash, aw_domain = domain, aw_x_request_sig = ''''\<rparr>)"

definition build_signed_l3_auth_json_for_domain ::
  "(bytes \<Rightarrow> bytes) \<Rightarrow> (bytes \<Rightarrow> bytes \<Rightarrow> bytes) \<Rightarrow> (l3_auth_wire \<Rightarrow> 'se + bytes)
    \<Rightarrow> l3_auth_params \<Rightarrow> bytes \<Rightarrow> string option \<Rightarrow> ('se, 'de) l3_auth_error + bytes" where
  "build_signed_l3_auth_json_for_domain sha256 hmac to_vec ps sign_key domain =
     (if ap_app_id ps = [] then Inl AuthEmptyAppId
      else if ft_dest_addr (ap_five_tuple ps) = [] then Inl EmptyDestAddr
      else if ft_src_addr (ap_five_tuple ps) = [] then Inl EmptySrcAddr
      else let unsigned = l3_auth_unsigned sha256 ps domain in
        case to_wire_json to_vec unsigned of
          Inl e \<Rightarrow> Inl (AuthJson e)
        | Inr unsigned_bytes \<Rightarrow>
            (case to_wire_json to_vec
                (unsigned\<lparr>aw_x_request_sig := calculate_request_signature hmac sign_key unsigned_bytes\<rparr>) of
               Inl e \<Rightarrow> Inl (AuthJson e)
             | Inr b \<Rightarrow> Inr b))"

definition build_signed_l3_auth_json ::
  "(bytes \<Rightarrow> bytes) \<Rightarrow> (bytes \<Rightarrow> bytes \<Rightarrow> bytes) \<Rightarrow> (l3_auth_wire \<Rightarrow> 'se + bytes)
    \<Rightarrow> l3_auth_params \<Rightarrow> bytes \<Rightarrow> ('se, 'de) l3_auth_error + bytes" where
  "build_signed_l3_auth_json sha256 hmac to_vec ps sign_key =
     build_signed_l3_auth_json_for_domain sha256 hmac to_vec ps sign_key None"

text \<open>The reply body, as the derived deserializer delivers it (absent fields are defaults).\<close>

record l3_auth_response_data_wire =
  rd_conntrack_hash :: u64
  rd_connect_token :: "string option"
  rd_token :: "string option"

record l3_auth_response_wire =
  rw_code :: int
  rw_message :: "string option"
  rw_data :: l3_auth_response_data_wire

record l3_auth_response =
  ar_code :: int
  ar_message :: string
  ar_conntrack_hash :: u64
  ar_connect_token :: string

definition trimmed_nonempty :: "string option \<Rightarrow> string option" where
  "trimmed_nonempty v =
     (case v of None \<Rightarrow> None | Some s \<Rightarrow> if str_trim s = [] then None else Some (str_trim s))"

definition parse_l3_auth_response ::
  "(bytes \<Rightarrow> 'de + l3_auth_response_wire) \<Rightarrow> bytes \<Rightarrow> ('se, 'de) l3_auth_error + l3_auth_response" where
  "parse_l3_auth_response from_slice json =
     (case from_slice json of
        Inl e \<Rightarrow> Inl (ResponseJson e)
      | Inr raw \<Rightarrow>
          Inr \<lparr>ar_code = rw_code raw,
               ar_message = (case rw_message raw of None \<Rightarrow> '''' | Some m \<Rightarrow> m),
               ar_conntrack_hash = rd_conntrack_hash (rw_data raw),
               ar_connect_token =
                 (case trimmed_nonempty (rd_connect_token (rw_data raw)) of
                    Some t \<Rightarrow> t
                  | None \<Rightarrow> (case trimmed_nonempty (rd_token (rw_data raw)) of
                               Some t \<Rightarrow> t | None \<Rightarrow> ''''))\<rparr>)"

section \<open>Properties\<close>

text \<open>
  What the gateway checks: it blanks the signature field, serializes the object again and
  compares the HMAC of those bytes with the field.
\<close>

definition l3_sig_valid ::
  "(bytes \<Rightarrow> bytes \<Rightarrow> bytes) \<Rightarrow> (l3_auth_wire \<Rightarrow> 'se + bytes) \<Rightarrow> bytes \<Rightarrow> l3_auth_wire \<Rightarrow> bool" where
  "l3_sig_valid hmac to_vec key w \<longleftrightarrow>
     (case to_vec (w\<lparr>aw_x_request_sig := ''''\<rparr>) of
        Inl _ \<Rightarrow> False | Inr b \<Rightarrow> aw_x_request_sig w = hex_upper (hmac key b))"

definition tcp_sig_valid ::
  "(bytes \<Rightarrow> bytes \<Rightarrow> bytes) \<Rightarrow> (tcp_init_wire \<Rightarrow> 'se + bytes) \<Rightarrow> bytes \<Rightarrow> tcp_init_wire \<Rightarrow> bool" where
  "tcp_sig_valid hmac to_vec key w \<longleftrightarrow>
     (case to_vec (w\<lparr>tw_x_request_sig := ''''\<rparr>) of
        Inl _ \<Rightarrow> False | Inr b \<Rightarrow> tw_x_request_sig w = hex_upper (hmac key b))"

lemma to_wire_json_Inr [simp]: "to_wire_json to_vec w = Inr b \<longleftrightarrow> to_vec w = Inr b"
  by (simp add: to_wire_json_def split: sum.splits)

lemma unsigned_sig [simp]:
  "aw_x_request_sig (l3_auth_unsigned sha256 ps domain) = ''''"
  "tw_x_request_sig (tcp_init_unsigned sha256 tps) = ''''"
  by (simp_all add: l3_auth_unsigned_def tcp_init_unsigned_def Let_def)

lemma unsigned_blank [simp]:
  "(l3_auth_unsigned sha256 ps domain)\<lparr>aw_x_request_sig := ''''\<rparr> = l3_auth_unsigned sha256 ps domain"
  "(tcp_init_unsigned sha256 tps)\<lparr>tw_x_request_sig := ''''\<rparr> = tcp_init_unsigned sha256 tps"
  by (simp_all add: l3_auth_unsigned_def tcp_init_unsigned_def Let_def)

lemma build_l3_sig:
  assumes "build_signed_l3_auth_json_for_domain sha256 hmac to_vec ps key domain = Inr out"
  shows "\<exists>w. to_vec w = Inr out \<and> l3_sig_valid hmac to_vec key w
      \<and> w\<lparr>aw_x_request_sig := ''''\<rparr> = l3_auth_unsigned sha256 ps domain"
proof -
  from assms obtain ub where "to_vec (l3_auth_unsigned sha256 ps domain) = Inr ub"
    and "to_vec ((l3_auth_unsigned sha256 ps domain)
       \<lparr>aw_x_request_sig := calculate_request_signature hmac key ub\<rparr>) = Inr out"
    by (auto simp: build_signed_l3_auth_json_for_domain_def Let_def split: if_splits sum.splits)
  then show ?thesis
    by (intro exI [of _ "(l3_auth_unsigned sha256 ps domain)
         \<lparr>aw_x_request_sig := calculate_request_signature hmac key ub\<rparr>"])
      (simp add: l3_sig_valid_def calculate_request_signature_def)
qed

lemma build_tcp_sig:
  assumes "build_signed_tcp_init_json sha256 hmac to_vec ps key = Inr out"
  shows "\<exists>w. to_vec w = Inr out \<and> tcp_sig_valid hmac to_vec key w
      \<and> w\<lparr>tw_x_request_sig := ''''\<rparr> = tcp_init_unsigned sha256 ps"
proof -
  from assms obtain ub where "to_vec (tcp_init_unsigned sha256 ps) = Inr ub"
    and "to_vec ((tcp_init_unsigned sha256 ps)
       \<lparr>tw_x_request_sig := calculate_request_signature hmac key ub\<rparr>) = Inr out"
    by (auto simp: build_signed_tcp_init_json_def Let_def split: if_splits sum.splits)
  then show ?thesis
    by (intro exI [of _ "(tcp_init_unsigned sha256 ps)
         \<lparr>tw_x_request_sig := calculate_request_signature hmac key ub\<rparr>"])
      (simp add: tcp_sig_valid_def calculate_request_signature_def)
qed

lemma protocol_roundtrip [simp]: "protocol_from_u8 (protocol_as_u8 p) = Some p"
  by (cases p) (simp_all add: protocol_from_u8_def)

lemma protocol_from_u8_Some: "protocol_from_u8 v = Some p \<longleftrightarrow> v = protocol_as_u8 p"
  by (cases p) (auto simp: protocol_from_u8_def)

lemma protocol_as_u8_inject [simp]: "protocol_as_u8 p = protocol_as_u8 q \<longleftrightarrow> p = q"
  by (cases p; cases q) simp_all


definition sample_auth_params :: l3_auth_params where
  "sample_auth_params = \<lparr>ap_sid = ''s'', ap_app_id = ''app'', ap_device_id = ''d'', ap_connection_id = ''c'',
     ap_conntrack_hash = 1, ap_five_tuple = five_tuple_ipv4 Tcp ''10.0.0.1'' 1000 ''10.0.0.2'' 80,
     ap_process = default_for_port 80, ap_lang = ''en''\<rparr>"


text \<open>
  the same for the TCP tunnel's init request: with an application id, a host and a non-zero
  port it is always built and its signature verifies; otherwise it is refused.
\<close>

theorem tcp_init_signature_verifies:
  fixes to_vec :: "tcp_init_wire \<Rightarrow> 'se + bytes"
  assumes serializes: "\<And>w. \<exists>b. to_vec w = Inr b"
  shows "if tp_app_id ps = [] \<or> tp_dest_host ps = [] \<or> tp_dest_port ps = 0
    then \<exists>e. build_signed_tcp_init_json sha256 hmac to_vec ps key = Inl e
    else \<exists>out w. build_signed_tcp_init_json sha256 hmac to_vec ps key = Inr out
         \<and> to_vec w = Inr out \<and> tcp_sig_valid hmac to_vec key w
         \<and> w\<lparr>tw_x_request_sig := ''''\<rparr> = tcp_init_unsigned sha256 ps"
proof (cases "tp_app_id ps = [] \<or> tp_dest_host ps = [] \<or> tp_dest_port ps = 0")
  case True
  then show ?thesis by (auto simp: build_signed_tcp_init_json_def)
next
  case False
  obtain ub where ub: "to_vec (tcp_init_unsigned sha256 ps) = Inr ub" using serializes by blast
  obtain out where "to_vec ((tcp_init_unsigned sha256 ps)
      \<lparr>tw_x_request_sig := calculate_request_signature hmac key ub\<rparr>) = Inr out" using serializes by blast
  with False ub have "build_signed_tcp_init_json sha256 hmac to_vec ps key = Inr out"
    by (simp add: build_signed_tcp_init_json_def to_wire_json_def)
  with False build_tcp_sig [OF this] show ?thesis by auto
qed

definition sample_init_params :: tcp_init_params where
  "sample_init_params = \<lparr>tp_sid = ''s'', tp_app_id = ''app'', tp_dest_host = ''h'', tp_dest_port = 443,
     tp_device_id = ''d'', tp_connection_id = ''c'', tp_username = ''u'',
     tp_process = default_for_port 22, tp_lang = ''en''\<rparr>"

theorem tcp_init_signature_verifies_witness:
  "\<exists>out w. build_signed_tcp_init_json id append
        (\<lambda>w. Inr (as_bytes (tw_sid w @ tw_x_request_sig w)) :: unit + bytes) sample_init_params [7] = Inr out
     \<and> as_bytes (tw_sid w @ tw_x_request_sig w) = out
     \<and> tcp_sig_valid append (\<lambda>w. Inr (as_bytes (tw_sid w @ tw_x_request_sig w)) :: unit + bytes) [7] w
     \<and> w\<lparr>tw_x_request_sig := ''''\<rparr> = tcp_init_unsigned id sample_init_params"
  using tcp_init_signature_verifies [of "\<lambda>w. Inr (as_bytes (tw_sid w @ tw_x_request_sig w)) :: unit + bytes"
      sample_init_params id append "[7]"]
  by (simp add: sample_init_params_def)

end
