(* ===== verification/Ipv4_Packet.thy ===== *)
theory Ipv4_Packet
  imports Signed_Json
begin

unbundle bit_operations_syntax

text \<open>
  \<open>crates/atrust-l3/src/packet.rs\<close> and the flow key of \<open>conntrack.rs\<close>: the five-tuple of
  a raw IPv4 packet, and the string that identifies the flow in the conntrack table.
\<close>

section \<open>Flow keys\<close>

datatype flow_key = FlowKey (key_str: string)

definition flow_key_new :: "byte \<Rightarrow> byte \<Rightarrow> string \<Rightarrow> u16 \<Rightarrow> string \<Rightarrow> u16 \<Rightarrow> flow_key" where
  "flow_key_new atype protocol src src_port dst dst_port =
     FlowKey (dec_string (unat atype) @ CHR '':'' # dec_string (unat protocol) @ CHR '':'' #
       src @ CHR '':'' # dec_string (unat src_port) @ CHR ''-'' # dst @ CHR '':'' #
       dec_string (unat dst_port))"

definition FLOW_KEY_ATYPE_IPV4 :: byte where "FLOW_KEY_ATYPE_IPV4 = 4"

record ipv4_flow =
  fl_protocol :: l3_ip_protocol
  fl_src_addr :: ipv4
  fl_src_port :: u16
  fl_dst_addr :: ipv4
  fl_dst_port :: u16

definition to_five_tuple :: "ipv4_flow \<Rightarrow> l3_five_tuple" where
  "to_five_tuple f =
     five_tuple_ipv4 (fl_protocol f) (ipv4_to_string (fl_src_addr f)) (fl_src_port f)
       (ipv4_to_string (fl_dst_addr f)) (fl_dst_port f)"

definition flow_key_of :: "ipv4_flow \<Rightarrow> flow_key" where
  "flow_key_of f =
     flow_key_new FLOW_KEY_ATYPE_IPV4 (protocol_as_u8 (fl_protocol f))
       (ipv4_to_string (fl_src_addr f)) (fl_src_port f)
       (ipv4_to_string (fl_dst_addr f)) (fl_dst_port f)"

definition reverse_flow_key :: "ipv4_flow \<Rightarrow> flow_key" where
  "reverse_flow_key f =
     flow_key_new FLOW_KEY_ATYPE_IPV4 (protocol_as_u8 (fl_protocol f))
       (ipv4_to_string (fl_dst_addr f)) (fl_dst_port f)
       (ipv4_to_string (fl_src_addr f)) (fl_src_port f)"

section \<open>Parsing a packet\<close>

datatype packet_error =
    Fragmented u16 bool
  | PktTruncated nat nat
  | NotIpv4 byte
  | BadHeaderLength nat
  | UnsupportedProtocol byte

definition MIN_IPV4_HEADER :: nat where "MIN_IPV4_HEADER = 20"

definition packet_ports :: "bytes \<Rightarrow> nat \<Rightarrow> l3_ip_protocol \<Rightarrow> packet_error + u16 \<times> u16" where
  "packet_ports packet ihl protocol =
     (case protocol of
        Icmp \<Rightarrow> Inr (0, 0)
      | _ \<Rightarrow>
          let payload = drop ihl packet in
          if length payload < 4 then Inl (PktTruncated (ihl + 4) (length packet))
          else Inr (u16_from_be (payload ! 0) (payload ! 1), u16_from_be (payload ! 2) (payload ! 3)))"

definition parse_ipv4_flow :: "bytes \<Rightarrow> packet_error + ipv4_flow" where
  "parse_ipv4_flow packet =
     (if length packet < MIN_IPV4_HEADER then Inl (PktTruncated MIN_IPV4_HEADER (length packet))
      else let version = drop_bit 4 (packet ! 0); ihl = unat (packet ! 0 AND 0x0f) * 4;
               flags_offset = u16_from_be (packet ! 6) (packet ! 7);
               fragment_offset = flags_offset AND 0x1fff;
               more_fragments = (flags_offset AND 0x2000 \<noteq> 0)
      in if version \<noteq> 4 then Inl (NotIpv4 version)
      else if ihl < MIN_IPV4_HEADER then Inl (BadHeaderLength ihl)
      else if length packet < ihl then Inl (PktTruncated ihl (length packet))
      else if fragment_offset \<noteq> 0 \<or> more_fragments
      then Inl (Fragmented fragment_offset more_fragments)
      else case protocol_from_u8 (packet ! 9) of
        None \<Rightarrow> Inl (UnsupportedProtocol (packet ! 9))
      | Some protocol \<Rightarrow>
          (case packet_ports packet ihl protocol of
             Inl e \<Rightarrow> Inl e
           | Inr (src_port, dst_port) \<Rightarrow>
               Inr \<lparr>fl_protocol = protocol,
                    fl_src_addr = Ipv4 (packet ! 12) (packet ! 13) (packet ! 14) (packet ! 15),
                    fl_src_port = src_port,
                    fl_dst_addr = Ipv4 (packet ! 16) (packet ! 17) (packet ! 18) (packet ! 19),
                    fl_dst_port = dst_port\<rparr>))"

section \<open>Properties\<close>

text \<open>A key determines its five components, for address strings without the separators.\<close>

lemma flow_key_new_inject:
  assumes eq: "flow_key_new t p s sp d dp = flow_key_new t' p' s' sp' d' dp'"
    and sep: "CHR '':'' \<notin> set s" "CHR '':'' \<notin> set s'" "CHR '':'' \<notin> set d" "CHR '':'' \<notin> set d'"
  shows "t = t' \<and> p = p' \<and> s = s' \<and> sp = sp' \<and> d = d' \<and> dp = dp'"
proof -
  note colon = not_digit_dec_string [OF separators_not_digits(1)]
  note dash = not_digit_dec_string [OF separators_not_digits(3)]
  from sep_inject [OF colon colon eq [unfolded flow_key_new_def flow_key.inject]]
  have t: "t = t'" and e1: "dec_string (unat p) @ CHR '':'' # s @ CHR '':'' # dec_string (unat sp)
       @ CHR ''-'' # d @ CHR '':'' # dec_string (unat dp)
    = dec_string (unat p') @ CHR '':'' # s' @ CHR '':'' # dec_string (unat sp')
       @ CHR ''-'' # d' @ CHR '':'' # dec_string (unat dp')" by simp_all
  from sep_inject [OF colon colon e1]
  have p: "p = p'" and e2: "s @ CHR '':'' # dec_string (unat sp) @ CHR ''-'' # d @ CHR '':'' # dec_string (unat dp)
    = s' @ CHR '':'' # dec_string (unat sp') @ CHR ''-'' # d' @ CHR '':'' # dec_string (unat dp')" by simp_all
  from sep_inject [OF sep(1,2) e2]
  have s: "s = s'" and e3: "dec_string (unat sp) @ CHR ''-'' # d @ CHR '':'' # dec_string (unat dp)
    = dec_string (unat sp') @ CHR ''-'' # d' @ CHR '':'' # dec_string (unat dp')" by simp_all
  from sep_inject [OF dash dash e3]
  have sp: "sp = sp'" and e4: "d @ CHR '':'' # dec_string (unat dp) = d' @ CHR '':'' # dec_string (unat dp')"
    by simp_all
  from sep_inject [OF sep(3,4) e4] have "d = d'" "dp = dp'" by simp_all
  with t p s sp show ?thesis by simp
qed

lemma flow_key_of_eq: "flow_key_of f = flow_key_of g \<longleftrightarrow> f = g"
proof
  assume "flow_key_of f = flow_key_of g"
  then show "f = g"
    unfolding flow_key_of_def by (auto dest!: flow_key_new_inject intro: ipv4_flow.equality)
qed simp

definition reverse_flow :: "ipv4_flow \<Rightarrow> ipv4_flow" where
  "reverse_flow f =
     \<lparr>fl_protocol = fl_protocol f, fl_src_addr = fl_dst_addr f, fl_src_port = fl_dst_port f,
      fl_dst_addr = fl_src_addr f, fl_dst_port = fl_src_port f\<rparr>"

lemma reverse_flow_key_eq: "reverse_flow_key f = flow_key_of (reverse_flow f)"
  by (simp add: reverse_flow_key_def flow_key_of_def reverse_flow_def)

lemma reverse_reverse [simp]: "reverse_flow (reverse_flow f) = f"
  by (simp add: reverse_flow_def)

text \<open>The reference: what the header fields of an accepted packet are.\<close>

definition ipv4_header_ok :: "bytes \<Rightarrow> bool" where
  "ipv4_header_ok packet \<longleftrightarrow>
     20 \<le> length packet \<and> drop_bit 4 (packet ! 0) = 4 \<and> 5 \<le> unat (packet ! 0 AND 0x0f)
     \<and> unat (packet ! 0 AND 0x0f) * 4 \<le> length packet
     \<and> u16_from_be (packet ! 6) (packet ! 7) AND 0x1fff = 0
     \<and> u16_from_be (packet ! 6) (packet ! 7) AND 0x2000 = 0"

lemma packet_ports_Inr:
  "packet_ports packet ihl protocol = Inr (sp, dp) \<longleftrightarrow>
     (protocol = Icmp \<and> sp = 0 \<and> dp = 0) \<or>
     (protocol \<noteq> Icmp \<and> ihl + 4 \<le> length packet
      \<and> sp = u16_from_be (packet ! ihl) (packet ! (ihl + 1))
      \<and> dp = u16_from_be (packet ! (ihl + 2)) (packet ! (ihl + 3)))"
  by (cases protocol) (auto simp: packet_ports_def Let_def)

lemma parse_ipv4_flow_Inr:
  "parse_ipv4_flow packet = Inr f \<longleftrightarrow>
     ipv4_header_ok packet
     \<and> packet ! 9 = protocol_as_u8 (fl_protocol f)
     \<and> octets (fl_src_addr f) = slice packet 12 16
     \<and> octets (fl_dst_addr f) = slice packet 16 20
     \<and> packet_ports packet (unat (packet ! 0 AND 0x0f) * 4) (fl_protocol f)
         = Inr (fl_src_port f, fl_dst_port f)"
  (is "?l \<longleftrightarrow> ?r")
proof (cases "ipv4_header_ok packet")
  case True
  then have len: "20 \<le> length packet" by (simp add: ipv4_header_ok_def)
  let ?ihl = "unat (packet ! 0 AND 0x0f) * 4"
  have oct: "slice packet 12 16 = [packet ! 12, packet ! 13, packet ! 14, packet ! 15]"
    "slice packet 16 20 = [packet ! 16, packet ! 17, packet ! 18, packet ! 19]"
    using len by (simp_all add: slice_def take_Suc_conv_app_nth numeral_eq_Suc)
  have eq: "parse_ipv4_flow packet =
      (case protocol_from_u8 (packet ! 9) of
        None \<Rightarrow> Inl (UnsupportedProtocol (packet ! 9))
      | Some protocol \<Rightarrow>
          (case packet_ports packet ?ihl protocol of
             Inl e \<Rightarrow> Inl e
           | Inr (src_port, dst_port) \<Rightarrow>
               Inr \<lparr>fl_protocol = protocol,
                    fl_src_addr = Ipv4 (packet ! 12) (packet ! 13) (packet ! 14) (packet ! 15),
                    fl_src_port = src_port,
                    fl_dst_addr = Ipv4 (packet ! 16) (packet ! 17) (packet ! 18) (packet ! 19),
                    fl_dst_port = dst_port\<rparr>))"
    using True by (simp add: parse_ipv4_flow_def ipv4_header_ok_def MIN_IPV4_HEADER_def Let_def)
  show ?thesis
    unfolding eq oct using True
    by (cases f; cases "fl_src_addr f"; cases "fl_dst_addr f")
      (auto simp: protocol_from_u8_Some split: option.splits sum.splits)
next
  case False
  then show ?thesis
    by (auto simp: parse_ipv4_flow_def ipv4_header_ok_def MIN_IPV4_HEADER_def Let_def)
qed

text \<open>
  flow keys identify flows: two flows have the same key exactly when protocol, addresses
  and ports agree (so a TCP and a UDP flow between the same endpoints never share a conntrack
  entry), and the key computed for a packet of the reverse direction is the key of exactly the
  flow it answers.
\<close>

theorem flow_key_identifies_flow:
  "(flow_key_of f = flow_key_of g \<longleftrightarrow> f = g)
   \<and> (reverse_flow_key g = flow_key_of f \<longleftrightarrow>
        fl_protocol g = fl_protocol f \<and> fl_src_addr g = fl_dst_addr f \<and> fl_src_port g = fl_dst_port f
        \<and> fl_dst_addr g = fl_src_addr f \<and> fl_dst_port g = fl_src_port f)"
  by (cases f, cases g) (auto simp: reverse_flow_key_eq flow_key_of_eq reverse_flow_def)

text \<open>
  a packet is accepted as a flow exactly when it is an unfragmented IPv4 packet with a
  complete header and, unless it is ICMP, four bytes of ports; the flow then holds the
  protocol, the addresses and the ports at their offsets in the header and the payload.
\<close>

theorem parse_ipv4_flow_iff:
  "parse_ipv4_flow packet = Inr f \<longleftrightarrow>
     ipv4_header_ok packet
     \<and> packet ! 9 = protocol_as_u8 (fl_protocol f)
     \<and> octets (fl_src_addr f) = slice packet 12 16
     \<and> octets (fl_dst_addr f) = slice packet 16 20
     \<and> (let ihl = unat (packet ! 0 AND 0x0f) * 4
        in if fl_protocol f = Icmp then fl_src_port f = 0 \<and> fl_dst_port f = 0
           else ihl + 4 \<le> length packet
             \<and> fl_src_port f = u16_from_be (packet ! ihl) (packet ! (ihl + 1))
             \<and> fl_dst_port f = u16_from_be (packet ! (ihl + 2)) (packet ! (ihl + 3)))"
  unfolding parse_ipv4_flow_Inr packet_ports_Inr Let_def by (cases "fl_protocol f") simp_all

end
