(* ===== verification/Verdict_Store.thy ===== *)
theory Verdict_Store
  imports Prelude
begin

text \<open>
  What the session relies on when it settles authorizations: a store of entries by id, where
  settling records the first verdict only and discarding removes an id for good. The lemmas
  hold for any sequence of the two operations, in particular for late and duplicate replies.
\<close>

datatype ('i, 'v) reply = Settle 'i 'v | Discard 'i

fun run_replies :: "('i \<Rightarrow> 'v \<Rightarrow> 't \<Rightarrow> 't) \<Rightarrow> ('i \<Rightarrow> 't \<Rightarrow> 't) \<Rightarrow> ('i, 'v) reply list \<Rightarrow> 't \<Rightarrow> 't" where
  "run_replies settle discard [] t = t"
| "run_replies settle discard (Settle i v # rs) t = run_replies settle discard rs (settle i v t)"
| "run_replies settle discard (Discard i # rs) t = run_replies settle discard rs (discard i t)"

locale verdict_store =
  fixes store_inv :: "'t \<Rightarrow> bool"
    and find_id :: "'t \<Rightarrow> 'i \<Rightarrow> 'e option"
    and verdict :: "'e \<Rightarrow> 'v option"
    and settle :: "'i \<Rightarrow> 'v \<Rightarrow> 't \<Rightarrow> 't"
    and discard :: "'i \<Rightarrow> 't \<Rightarrow> 't"
  assumes settle_inv: "store_inv t \<Longrightarrow> store_inv (settle i v t)"
    and discard_inv: "store_inv t \<Longrightarrow> store_inv (discard i t)"
    and settle_absent: "store_inv t \<Longrightarrow> find_id t j = None \<Longrightarrow> find_id (settle i v t) j = None"
    and settle_found: "store_inv t \<Longrightarrow> find_id t j = Some e \<Longrightarrow>
      \<exists>e'. find_id (settle i v t) j = Some e'
        \<and> verdict e' = (if j = i \<and> verdict e = None then Some v else verdict e)"
    and discard_gone: "store_inv t \<Longrightarrow> find_id (discard i t) = (find_id t)(i := None)"
begin

lemma run_inv: "store_inv t \<Longrightarrow> store_inv (run_replies settle discard rs t)"
proof (induction rs arbitrary: t)
  case (Cons r rs)
  then show ?case by (cases r) (simp_all add: settle_inv discard_inv)
qed simp

lemma no_revival:
  "store_inv t \<Longrightarrow> find_id t i = None \<Longrightarrow> find_id (run_replies settle discard rs t) i = None"
proof (induction rs arbitrary: t)
  case (Cons r rs)
  then show ?case by (cases r) (simp_all add: settle_inv discard_inv settle_absent discard_gone)
qed simp

lemma first_verdict:
  assumes "store_inv t" "find_id t i = Some e" "verdict e = Some v"
  shows "find_id (run_replies settle discard rs t) i = None
    \<or> (\<exists>e'. find_id (run_replies settle discard rs t) i = Some e' \<and> verdict e' = Some v)"
  using assms
proof (induction rs arbitrary: t e)
  case (Cons r rs)
  show ?case
  proof (cases r)
    case (Settle j w)
    from settle_found [OF Cons.prems(1,2), of j w] Cons.prems(3) obtain e'
      where "find_id (settle j w t) i = Some e'" "verdict e' = Some v" by auto
    then show ?thesis using Cons.IH [of "settle j w t" e'] settle_inv [OF Cons.prems(1)] Settle by simp
  next
    case (Discard j)
    have d: "store_inv (discard j t)" using Cons.prems(1) by (rule discard_inv)
    show ?thesis
    proof (cases "i = j")
      case True
      then have "find_id (discard j t) i = None" using discard_gone [OF Cons.prems(1)] by simp
      then show ?thesis using no_revival [OF d, of i rs] Discard by simp
    next
      case False
      then have "find_id (discard j t) i = Some e" using discard_gone [OF Cons.prems(1)] Cons.prems(2) by simp
      then show ?thesis using Cons.IH [OF d _ Cons.prems(3)] Discard by simp
    qed
  qed
qed simp

end

end
