(* ===== verification/Conntrack.thy ===== *)
theory Conntrack
  imports Ipv4_Packet Verdict_Store
begin

text \<open>
  \<open>crates/atrust-l3/src/conntrack.rs\<close>: the per-flow authorization entries and the table that
  indexes them by flow key and by authorization id. Instants and durations are natural
  numbers of nanoseconds; \<open>saturating_duration_since\<close> is truncated subtraction. The clock is
  an argument of every operation that reads it.
\<close>

type_synonym instant = nat
type_synonym duration = nat

definition from_secs :: "nat \<Rightarrow> duration" where "from_secs n = n * 1000000000"

section \<open>Entries\<close>

definition L3_AUTH_TIMEOUT :: duration where "L3_AUTH_TIMEOUT = from_secs 8"
definition L3_CONNTRACK_IDLE_TTL :: duration where "L3_CONNTRACK_IDLE_TTL = from_secs 300"
definition L3_CONNTRACK_CAPACITY :: nat where "L3_CONNTRACK_CAPACITY = 8192"

datatype auth_outcome = Ready (connect_token: string) | Failed (fail_message: string)

definition outcome_token :: "auth_outcome \<Rightarrow> string option" where
  "outcome_token o' = (case o' of Ready t \<Rightarrow> Some t | Failed _ \<Rightarrow> None)"

record conntrack_entry =
  ce_key :: flow_key
  ce_auth_id :: u64
  ce_app_id :: string
  ce_node_group_id :: string
  ce_auth_started :: bool
  ce_retries :: nat
  ce_retry_scheduled :: bool
  ce_auth_deadline :: "instant option"
  ce_reusable_frame :: "bytes option"
  ce_outcome :: "auth_outcome option"
  ce_last_used :: instant

definition auth_in_flight :: "conntrack_entry \<Rightarrow> bool" where
  "auth_in_flight e \<longleftrightarrow> ce_auth_started e \<and> ce_outcome e = None"

definition try_start_auth :: "instant \<Rightarrow> conntrack_entry \<Rightarrow> conntrack_entry \<times> bool" where
  "try_start_auth now e =
     (if ce_auth_started e then (e, False)
      else (e\<lparr>ce_auth_started := True, ce_auth_deadline := Some (now + L3_AUTH_TIMEOUT)\<rparr>, True))"

definition set_reusable_frame :: "bytes \<Rightarrow> instant \<Rightarrow> conntrack_entry \<Rightarrow> conntrack_entry" where
  "set_reusable_frame frame deadline e =
     e\<lparr>ce_reusable_frame := Some frame, ce_auth_deadline := Some deadline\<rparr>"

definition schedule_retry :: "nat \<Rightarrow> conntrack_entry \<Rightarrow> conntrack_entry \<times> bool" where
  "schedule_retry budget e =
     (if ce_outcome e \<noteq> None \<or> ce_retry_scheduled e \<or> budget \<le> ce_retries e
         \<or> ce_reusable_frame e = None
      then (e, False)
      else (e\<lparr>ce_retries := ce_retries e + 1, ce_retry_scheduled := True\<rparr>, True))"

definition take_retry :: "conntrack_entry \<Rightarrow> conntrack_entry \<times> bytes option" where
  "take_retry e =
     (if \<not> ce_retry_scheduled e \<or> ce_outcome e \<noteq> None then (e, None)
      else (e\<lparr>ce_retry_scheduled := False\<rparr>, ce_reusable_frame e))"

definition retry_exhausted :: "nat \<Rightarrow> conntrack_entry \<Rightarrow> bool" where
  "retry_exhausted budget e \<longleftrightarrow> budget \<le> ce_retries e"

definition complete :: "auth_outcome \<Rightarrow> conntrack_entry \<Rightarrow> conntrack_entry" where
  "complete outcome e =
     (if ce_outcome e = None
      then e\<lparr>ce_outcome := Some outcome, ce_retry_scheduled := False, ce_reusable_frame := None\<rparr>
      else e)"

section \<open>The table\<close>

record conntrack_table =
  ct_next_auth_id :: u64
  ct_by_key :: "(flow_key, conntrack_entry) hmap"
  ct_by_id :: "(u64, flow_key) hmap"
  ct_idle_ttl :: duration
  ct_capacity :: nat
  ct_last_sweep :: instant

record prune_outcome =
  po_expired :: nat
  po_evicted_for_capacity :: nat
  po_entries :: nat

definition removed_any :: "prune_outcome \<Rightarrow> bool" where
  "removed_any p \<longleftrightarrow> 0 < po_expired p \<or> 0 < po_evicted_for_capacity p"

datatype conntrack_error = UnknownAuthId u64

definition with_limits :: "duration \<Rightarrow> nat \<Rightarrow> instant \<Rightarrow> conntrack_table" where
  "with_limits idle_ttl capacity now =
     \<lparr>ct_next_auth_id = 0, ct_by_key = [], ct_by_id = [], ct_idle_ttl = idle_ttl,
      ct_capacity = max capacity 1, ct_last_sweep = now\<rparr>"

definition table_new :: "instant \<Rightarrow> conntrack_table" where
  "table_new now = with_limits L3_CONNTRACK_IDLE_TTL L3_CONNTRACK_CAPACITY now"

definition table_clear :: "conntrack_table \<Rightarrow> conntrack_table \<times> nat" where
  "table_clear t = (t\<lparr>ct_by_key := [], ct_by_id := []\<rparr>, length (ct_by_key t))"

definition scheduled_retries :: "conntrack_table \<Rightarrow> nat" where
  "scheduled_retries t = length (filter (\<lambda>(k, e). ce_retry_scheduled e) (ct_by_key t))"

definition table_len :: "conntrack_table \<Rightarrow> nat" where
  "table_len t = length (ct_by_key t)"

definition evict :: "flow_key \<Rightarrow> conntrack_table \<Rightarrow> conntrack_table \<times> conntrack_entry option" where
  "evict key t =
     (case hm_get (ct_by_key t) key of
        None \<Rightarrow> (t, None)
      | Some entry \<Rightarrow>
          (t\<lparr>ct_by_key := hm_remove key (ct_by_key t),
             ct_by_id := hm_remove (ce_auth_id entry) (ct_by_id t)\<rparr>, Some entry))"

definition evict_by_auth_id :: "u64 \<Rightarrow> conntrack_table \<Rightarrow> conntrack_table \<times> conntrack_entry option" where
  "evict_by_auth_id auth_id t =
     (case hm_get (ct_by_id t) auth_id of None \<Rightarrow> (t, None) | Some key \<Rightarrow> evict key t)"

definition is_expired :: "duration \<Rightarrow> instant \<Rightarrow> conntrack_entry \<Rightarrow> bool" where
  "is_expired ttl now e \<longleftrightarrow> \<not> auth_in_flight e \<and> ttl \<le> now - ce_last_used e"

text \<open>The first loop of a prune: evict every expired key, counting.\<close>

fun evict_all :: "flow_key list \<Rightarrow> conntrack_table \<times> nat \<Rightarrow> conntrack_table \<times> nat" where
  "evict_all [] (t, n) = (t, n)"
| "evict_all (k # ks) (t, n) = evict_all ks (fst (evict k t), n + 1)"

text \<open>\<open>min_by_key\<close> keeps the first of equal minima.\<close>

fun min_by_last_used :: "conntrack_entry list \<Rightarrow> conntrack_entry option" where
  "min_by_last_used [] = None"
| "min_by_last_used (e # es) =
     (case min_by_last_used es of
        None \<Rightarrow> Some e
      | Some m \<Rightarrow> if ce_last_used e \<le> ce_last_used m then Some e else Some m)"

definition lru_victim :: "conntrack_table \<Rightarrow> flow_key option" where
  "lru_victim t =
     map_option ce_key
       (min_by_last_used (filter (\<lambda>e. \<not> auth_in_flight e) (map snd (ct_by_key t))))"

definition over_capacity :: "bool \<Rightarrow> conntrack_table \<Rightarrow> bool" where
  "over_capacity reserve t \<longleftrightarrow>
     ct_capacity t < length (ct_by_key t) \<or> (reserve \<and> length (ct_by_key t) = ct_capacity t)"

lemma length_evict:
  "length (ct_by_key (fst (evict k t))) \<le> length (ct_by_key t)"
  "hm_get (ct_by_key t) k = Some e \<Longrightarrow> length (ct_by_key (fst (evict k t))) < length (ct_by_key t)"
proof -
  have le: "length (hm_remove k m) \<le> length m" for m :: "(flow_key, conntrack_entry) hmap"
    by (induction m) auto
  show "length (ct_by_key (fst (evict k t))) \<le> length (ct_by_key t)"
    using le by (auto simp: evict_def split: option.splits)
  have "hm_get m k = Some e \<Longrightarrow> length (hm_remove k m) < length m" for m :: "(flow_key, conntrack_entry) hmap"
  proof (induction m)
    case (Cons x m)
    then show ?case using le [of m] by (cases x) (auto split: if_splits)
  qed simp
  then show "hm_get (ct_by_key t) k = Some e \<Longrightarrow>
    length (ct_by_key (fst (evict k t))) < length (ct_by_key t)"
    by (simp add: evict_def)
qed

text \<open>
  The second loop: while the table is over capacity, evict the least recently used settled
  entry. The victim's key is always present (lemma \<open>lru_victim_present\<close>), so the test for
  its presence only makes the recursion total.
\<close>

function evict_lru :: "bool \<Rightarrow> conntrack_table \<times> nat \<Rightarrow> conntrack_table \<times> nat" where
  "evict_lru reserve (t, n) =
     (if over_capacity reserve t then
        (case lru_victim t of
           None \<Rightarrow> (t, n)
         | Some victim \<Rightarrow>
             if hm_get (ct_by_key t) victim = None then (t, n)
             else evict_lru reserve (fst (evict victim t), n + 1))
      else (t, n))"
  by pat_completeness auto
termination
  by (relation "measure (\<lambda>(r, t, n). length (ct_by_key t))") (auto dest: length_evict(2))

declare evict_lru.simps [simp del]

definition prune_at_with_room :: "instant \<Rightarrow> bool \<Rightarrow> conntrack_table \<Rightarrow> conntrack_table \<times> prune_outcome" where
  "prune_at_with_room now reserve t =
     (let expired = map (ce_key \<circ> snd) (filter (\<lambda>(k, e). is_expired (ct_idle_ttl t) now e) (ct_by_key t));
          (t1, n1) = evict_all expired (t, 0);
          (t2, n2) = evict_lru reserve (t1, 0)
      in (t2, \<lparr>po_expired = n1, po_evicted_for_capacity = n2, po_entries = length (ct_by_key t2)\<rparr>))"

definition prune_at :: "instant \<Rightarrow> conntrack_table \<Rightarrow> conntrack_table \<times> prune_outcome" where
  "prune_at now t = prune_at_with_room now True t"

definition maintain_for_flow :: "instant \<Rightarrow> flow_key \<Rightarrow> conntrack_table \<Rightarrow> conntrack_table \<times> prune_outcome" where
  "maintain_for_flow now key t =
     (let entry = hm_get (ct_by_key t) key;
          expired = (case entry of None \<Rightarrow> False | Some e \<Rightarrow> is_expired (ct_idle_ttl t) now e);
          reserve = (entry = None)
      in if \<not> expired \<and> now - ct_last_sweep t < from_secs 1
            \<and> (\<not> reserve \<or> table_len t < ct_capacity t)
         then (t, \<lparr>po_expired = 0, po_evicted_for_capacity = 0, po_entries = table_len t\<rparr>)
         else prune_at_with_room now reserve (t\<lparr>ct_last_sweep := now\<rparr>))"

definition new_entry :: "flow_key \<Rightarrow> u64 \<Rightarrow> string \<Rightarrow> string \<Rightarrow> instant \<Rightarrow> conntrack_entry" where
  "new_entry key auth_id app_id node_group_id now =
     \<lparr>ce_key = key, ce_auth_id = auth_id, ce_app_id = app_id, ce_node_group_id = node_group_id,
      ce_auth_started = False, ce_retries = 0, ce_retry_scheduled = False, ce_auth_deadline = None,
      ce_reusable_frame = None, ce_outcome = None, ce_last_used = now\<rparr>"

definition get_or_create_at ::
  "flow_key \<Rightarrow> string \<Rightarrow> string \<Rightarrow> instant \<Rightarrow> conntrack_table \<Rightarrow> conntrack_table \<times> conntrack_entry" where
  "get_or_create_at key app_id node_group_id now t =
     (let stale = (case hm_get (ct_by_key t) key of
                     None \<Rightarrow> False
                   | Some e \<Rightarrow> ce_app_id e \<noteq> app_id \<or> ce_node_group_id e \<noteq> node_group_id);
          t1 = (if stale then fst (evict key t) else t)
      in case hm_get (ct_by_key t1) key of
           Some e \<Rightarrow>
             (let e' = e\<lparr>ce_last_used := now\<rparr>
              in (t1\<lparr>ct_by_key := hm_insert key e' (ct_by_key t1)\<rparr>, e'))
         | None \<Rightarrow>
             (let auth_id = ct_next_auth_id t1 + 1;
                  e = new_entry key auth_id app_id node_group_id now
              in (t1\<lparr>ct_next_auth_id := auth_id,
                     ct_by_id := hm_insert auth_id key (ct_by_id t1),
                     ct_by_key := hm_insert key e (ct_by_key t1)\<rparr>, e)))"

definition get_by_key :: "conntrack_table \<Rightarrow> flow_key \<Rightarrow> conntrack_entry option" where
  "get_by_key t key = hm_get (ct_by_key t) key"

definition get_by_auth_id :: "conntrack_table \<Rightarrow> u64 \<Rightarrow> conntrack_entry option" where
  "get_by_auth_id t auth_id =
     (case hm_get (ct_by_id t) auth_id of None \<Rightarrow> None | Some key \<Rightarrow> hm_get (ct_by_key t) key)"

text \<open>Writing through \<open>get_by_auth_id_mut\<close>: the entry found is replaced in place.\<close>

definition update_by_auth_id ::
  "u64 \<Rightarrow> (conntrack_entry \<Rightarrow> conntrack_entry) \<Rightarrow> conntrack_table \<Rightarrow> conntrack_table" where
  "update_by_auth_id auth_id f t =
     (case hm_get (ct_by_id t) auth_id of
        None \<Rightarrow> t
      | Some key \<Rightarrow>
          (case hm_get (ct_by_key t) key of
             None \<Rightarrow> t
           | Some e \<Rightarrow> t\<lparr>ct_by_key := hm_insert key (f e) (ct_by_key t)\<rparr>))"

definition touch_at :: "flow_key \<Rightarrow> instant \<Rightarrow> conntrack_table \<Rightarrow> conntrack_table \<times> bool" where
  "touch_at key now t =
     (case hm_get (ct_by_key t) key of
        None \<Rightarrow> (t, False)
      | Some e \<Rightarrow> (t\<lparr>ct_by_key := hm_insert key (e\<lparr>ce_last_used := now\<rparr>) (ct_by_key t)\<rparr>, True))"

definition auth_verdict :: "int \<Rightarrow> string \<Rightarrow> string \<Rightarrow> auth_outcome" where
  "auth_verdict code message token =
     (if code \<noteq> 0 then
        Failed (if message = [] then ''auth failed: '' @ int_string code
                else ''auth failed: '' @ int_string code @ '' '' @ message)
      else if token = [] then Failed ''missing connect token''
      else Ready token)"

definition mark_auth ::
  "u64 \<Rightarrow> int \<Rightarrow> string \<Rightarrow> string \<Rightarrow> conntrack_table \<Rightarrow> conntrack_table \<times> (conntrack_error + unit)" where
  "mark_auth auth_id code message connect_tok t =
     (case get_by_auth_id t auth_id of
        None \<Rightarrow> (t, Inl (UnknownAuthId auth_id))
      | Some _ \<Rightarrow>
          (update_by_auth_id auth_id (complete (auth_verdict code message connect_tok)) t, Inr ()))"

definition mark_auth_error ::
  "u64 \<Rightarrow> string \<Rightarrow> conntrack_table \<Rightarrow> conntrack_table \<times> (conntrack_error + unit)" where
  "mark_auth_error auth_id message t =
     (case get_by_auth_id t auth_id of
        None \<Rightarrow> (t, Inl (UnknownAuthId auth_id))
      | Some _ \<Rightarrow> (update_by_auth_id auth_id (complete (Failed message)) t, Inr ()))"


section \<open>The invariant\<close>

definition entry_ok :: "conntrack_entry \<Rightarrow> bool" where
  "entry_ok e \<longleftrightarrow>
     (ce_outcome e \<noteq> None \<longrightarrow> \<not> ce_retry_scheduled e \<and> ce_reusable_frame e = None)
     \<and> (ce_retry_scheduled e \<longrightarrow> ce_reusable_frame e \<noteq> None)"

text \<open>
  The two indexes are inverse to each other, ids lie in \<open>1..next_auth_id\<close>, a settled entry
  holds neither a retry nor secret frame bytes.
\<close>

definition table_inv :: "conntrack_table \<Rightarrow> bool" where
  "table_inv t \<longleftrightarrow>
     hm_distinct (ct_by_key t) \<and> hm_distinct (ct_by_id t) \<and> 1 \<le> ct_capacity t
     \<and> (\<forall>k e. hm_get (ct_by_key t) k = Some e \<longrightarrow>
          ce_key e = k \<and> hm_get (ct_by_id t) (ce_auth_id e) = Some k
          \<and> 0 < unat (ce_auth_id e) \<and> unat (ce_auth_id e) \<le> unat (ct_next_auth_id t) \<and> entry_ok e)
     \<and> (\<forall>i k. hm_get (ct_by_id t) i = Some k \<longrightarrow>
          (\<exists>e. hm_get (ct_by_key t) k = Some e \<and> ce_auth_id e = i))"

lemma table_inv_entry:
  assumes "table_inv t" "hm_get (ct_by_key t) k = Some e"
  shows "ce_key e = k" "hm_get (ct_by_id t) (ce_auth_id e) = Some k" "entry_ok e"
    "0 < unat (ce_auth_id e)" "unat (ce_auth_id e) \<le> unat (ct_next_auth_id t)"
  using assms unfolding table_inv_def by blast+

lemma table_inv_id:
  assumes "table_inv t" "hm_get (ct_by_id t) i = Some k"
  obtains e where "hm_get (ct_by_key t) k = Some e" "ce_auth_id e = i"
  using assms unfolding table_inv_def by blast

lemma table_inv_distinct:
  assumes "table_inv t"
  shows "hm_distinct (ct_by_key t)" "hm_distinct (ct_by_id t)" "1 \<le> ct_capacity t"
  using assms unfolding table_inv_def by blast+

text \<open>Under the invariant both lookups see the same entries.\<close>

lemma get_by_auth_id_iff:
  assumes "table_inv t"
  shows "get_by_auth_id t i = Some e \<longleftrightarrow> ce_auth_id e = i \<and> (\<exists>k. get_by_key t k = Some e)"
proof
  assume "get_by_auth_id t i = Some e"
  then obtain k where "hm_get (ct_by_id t) i = Some k" "hm_get (ct_by_key t) k = Some e"
    by (auto simp: get_by_auth_id_def split: option.splits)
  with assms show "ce_auth_id e = i \<and> (\<exists>k. get_by_key t k = Some e)"
    by (metis get_by_key_def option.inject table_inv_id)
next
  assume "ce_auth_id e = i \<and> (\<exists>k. get_by_key t k = Some e)"
  with assms show "get_by_auth_id t i = Some e"
    by (auto simp: get_by_auth_id_def get_by_key_def dest: table_inv_entry(2))
qed

lemma get_by_auth_id_key:
  assumes "table_inv t" "get_by_auth_id t i = Some e"
  shows "get_by_key t (ce_key e) = Some e" "ce_auth_id e = i"
  using assms by (auto simp: get_by_auth_id_iff get_by_key_def dest: table_inv_entry(1))

lemma table_inv_with_limits [simp]: "table_inv (with_limits ttl cap now)"
  by (simp add: table_inv_def with_limits_def)

lemma table_inv_new [simp]: "table_inv (table_new now)"
  by (simp add: table_new_def)

lemma table_inv_clear [simp]: "table_inv t \<Longrightarrow> table_inv (fst (table_clear t))"
  by (simp add: table_inv_def table_clear_def)

lemma table_inv_sweep [simp]: "table_inv (t\<lparr>ct_last_sweep := now\<rparr>) = table_inv t"
  by (simp add: table_inv_def)

section \<open>Eviction\<close>

lemma evict_frame [simp]:
  "ct_next_auth_id (fst (evict k t)) = ct_next_auth_id t"
  "ct_capacity (fst (evict k t)) = ct_capacity t"
  "ct_idle_ttl (fst (evict k t)) = ct_idle_ttl t"
  by (simp_all add: evict_def split: option.splits)

lemma evict_by_key [simp]: "hm_get (ct_by_key (fst (evict k t))) = (hm_get (ct_by_key t))(k := None)"
  by (auto simp: evict_def fun_eq_iff split: option.splits)

lemma evict_by_id:
  "hm_get (ct_by_key t) k = Some e \<Longrightarrow>
   hm_get (ct_by_id (fst (evict k t))) = (hm_get (ct_by_id t))(ce_auth_id e := None)"
  by (simp add: evict_def)

lemma table_inv_evict [simp]:
  assumes "table_inv t"
  shows "table_inv (fst (evict k t))"
proof (cases "hm_get (ct_by_key t) k")
  case None
  then show ?thesis using assms by (simp add: evict_def)
next
  case (Some e)
  note d = table_inv_distinct [OF assms]
  have ids: "ce_auth_id e' \<noteq> ce_auth_id e" if "hm_get (ct_by_key t) k' = Some e'" "k' \<noteq> k" for k' e'
    using table_inv_entry(2) [OF assms that(1)] table_inv_entry(2) [OF assms Some] that(2) by auto
  have id_back: "\<exists>e'. hm_get (ct_by_key t) k' = Some e' \<and> ce_auth_id e' = i \<and> k' \<noteq> k"
    if "hm_get (ct_by_id t) i = Some k'" "i \<noteq> ce_auth_id e" for i k'
    using table_inv_id [OF assms that(1)] that(2) Some by (metis option.inject)
  show ?thesis
    unfolding table_inv_def using Some d
    by (auto simp: evict_by_id [OF Some] evict_def ids table_inv_entry [OF assms] dest!: id_back)
qed

lemma length_evict_inv:
  "table_inv t \<Longrightarrow> hm_get (ct_by_key t) k = Some e \<Longrightarrow>
   Suc (length (ct_by_key (fst (evict k t)))) = length (ct_by_key t)"
  by (simp add: evict_def length_hm_remove table_inv_distinct(1))

lemma evict_by_auth_id_get:
  assumes "table_inv t"
  shows "get_by_auth_id (fst (evict_by_auth_id i t)) = (get_by_auth_id t)(i := None)"
proof (cases "hm_get (ct_by_id t) i")
  case None
  then show ?thesis by (auto simp: evict_by_auth_id_def get_by_auth_id_def fun_eq_iff)
next
  case (Some k)
  then obtain e where e: "hm_get (ct_by_key t) k = Some e" "ce_auth_id e = i"
    using assms by (auto elim: table_inv_id)
  have other: "k' \<noteq> k" if "hm_get (ct_by_id t) j = Some k'" "j \<noteq> i" for j k'
    using that e assms by (metis option.inject table_inv_id)
  show ?thesis
  proof
    fix j
    show "get_by_auth_id (fst (evict_by_auth_id i t)) j = ((get_by_auth_id t)(i := None)) j"
      using Some e other [of j]
      by (auto simp: evict_by_auth_id_def get_by_auth_id_def evict_by_id split: option.splits)
  qed
qed

lemma table_inv_evict_by_auth_id [simp]:
  "table_inv t \<Longrightarrow> table_inv (fst (evict_by_auth_id i t))"
  by (auto simp: evict_by_auth_id_def split: option.splits)

lemma evict_all_spec:
  assumes "table_inv t"
  shows "table_inv (fst (evict_all ks (t, n)))
    \<and> hm_get (ct_by_key (fst (evict_all ks (t, n)))) k = (if k \<in> set ks then None else hm_get (ct_by_key t) k)
    \<and> snd (evict_all ks (t, n)) = n + length ks
    \<and> ct_capacity (fst (evict_all ks (t, n))) = ct_capacity t
    \<and> ct_next_auth_id (fst (evict_all ks (t, n))) = ct_next_auth_id t"
  using assms by (induction ks arbitrary: t n) auto

lemma evict_all_length:
  assumes "table_inv t" "distinct ks" "set ks \<subseteq> dom (hm_get (ct_by_key t))"
  shows "length (ct_by_key (fst (evict_all ks (t, n)))) + length ks = length (ct_by_key t)"
  using assms
proof (induction ks arbitrary: t n)
  case (Cons k ks)
  then obtain e where "hm_get (ct_by_key t) k = Some e" by auto
  then have "Suc (length (ct_by_key (fst (evict k t)))) = length (ct_by_key t)"
    using Cons.prems(1) by (intro length_evict_inv)
  moreover have "length (ct_by_key (fst (evict_all ks (fst (evict k t), n + 1)))) + length ks
      = length (ct_by_key (fst (evict k t)))"
    using Cons.prems by (intro Cons.IH) auto
  ultimately show ?case by simp
qed simp

section \<open>Least-recently-used trimming\<close>

lemma min_by_last_used_spec:
  "min_by_last_used es = Some m \<Longrightarrow> m \<in> set es \<and> (\<forall>e \<in> set es. ce_last_used m \<le> ce_last_used e)"
proof (induction es arbitrary: m)
  case (Cons e es)
  show ?case
  proof (cases "min_by_last_used es")
    case None
    then have "es = []" by (cases es) (auto split: option.splits if_splits)
    with Cons.prems None show ?thesis by simp
  next
    case (Some m')
    with Cons.IH [OF Some] Cons.prems show ?thesis by (force split: if_splits)
  qed
qed simp

lemma min_by_last_used_None [simp]: "min_by_last_used es = None \<longleftrightarrow> es = []"
  by (cases es) (auto split: option.splits)

lemma lru_victim_present:
  assumes "table_inv t" "lru_victim t = Some k"
  obtains e where "hm_get (ct_by_key t) k = Some e" "\<not> auth_in_flight e"
    "\<And>k' e'. hm_get (ct_by_key t) k' = Some e' \<Longrightarrow> \<not> auth_in_flight e' \<Longrightarrow> ce_last_used e \<le> ce_last_used e'"
proof -
  let ?es = "filter (\<lambda>e. \<not> auth_in_flight e) (map snd (ct_by_key t))"
  from assms(2) obtain e where e: "min_by_last_used ?es = Some e" "ce_key e = k"
    by (auto simp: lru_victim_def)
  note m = min_by_last_used_spec [OF e(1)]
  then obtain k0 where "(k0, e) \<in> set (ct_by_key t)" "\<not> auth_in_flight e" by auto
  then have "hm_get (ct_by_key t) k0 = Some e"
    using hm_mem_iff [OF table_inv_distinct(1) [OF assms(1)]] by blast
  moreover from this have "k0 = k" using table_inv_entry(1) [OF assms(1)] e(2) by blast
  moreover have "ce_last_used e \<le> ce_last_used e'"
    if "hm_get (ct_by_key t) k' = Some e'" "\<not> auth_in_flight e'" for k' e'
  proof -
    have "e' \<in> snd ` set (ct_by_key t)" using map_of_SomeD [OF that(1)] by (rule rev_image_eqI) simp
    then have "e' \<in> set ?es" using that(2) by simp
    then show ?thesis using m by blast
  qed
  ultimately show ?thesis using that \<open>\<not> auth_in_flight e\<close> by blast
qed

lemma lru_victim_None:
  assumes "table_inv t" "lru_victim t = None" "hm_get (ct_by_key t) k = Some e"
  shows "auth_in_flight e"
proof -
  have "filter (\<lambda>e. \<not> auth_in_flight e) (map snd (ct_by_key t)) = []"
    using assms(2) by (simp add: lru_victim_def)
  moreover have "e \<in> set (map snd (ct_by_key t))"
    using map_of_SomeD [OF assms(3)] by (auto intro: rev_image_eqI)
  ultimately show ?thesis unfolding filter_empty_conv by blast
qed

text \<open>What a run of the trimming loop does, as one statement for its induction.\<close>

definition trimmed :: "bool \<Rightarrow> conntrack_table \<Rightarrow> nat \<Rightarrow> conntrack_table \<Rightarrow> nat \<Rightarrow> bool" where
  "trimmed reserve t n t' n' \<longleftrightarrow>
     table_inv t' \<and> ct_capacity t' = ct_capacity t \<and> ct_next_auth_id t' = ct_next_auth_id t
     \<and> hm_get (ct_by_key t') \<subseteq>\<^sub>m hm_get (ct_by_key t)
     \<and> (\<forall>k e. hm_get (ct_by_key t) k = Some e \<longrightarrow> auth_in_flight e \<longrightarrow> hm_get (ct_by_key t') k = Some e)
     \<and> length (ct_by_key t') + n' = length (ct_by_key t) + n
     \<and> (over_capacity reserve t' \<longrightarrow> (\<forall>k e. hm_get (ct_by_key t') k = Some e \<longrightarrow> auth_in_flight e))
     \<and> (\<forall>k e k' e'. hm_get (ct_by_key t) k = Some e \<longrightarrow> hm_get (ct_by_key t') k = None \<longrightarrow>
          hm_get (ct_by_key t') k' = Some e' \<longrightarrow> \<not> auth_in_flight e' \<longrightarrow> ce_last_used e \<le> ce_last_used e')
     \<and> (n' \<noteq> n \<longrightarrow> over_capacity reserve t)"

lemma trimmed_refl:
  "table_inv t \<Longrightarrow> (over_capacity reserve t \<Longrightarrow> lru_victim t = None) \<Longrightarrow> trimmed reserve t n t n"
  by (auto simp: trimmed_def dest: lru_victim_None)

lemma trimmed_step:
  assumes inv: "table_inv t" and over: "over_capacity reserve t" and v: "lru_victim t = Some k"
    and rest: "trimmed reserve (fst (evict k t)) (n + 1) t' n'"
  shows "trimmed reserve t n t' n'"
proof -
  obtain e where e: "hm_get (ct_by_key t) k = Some e" "\<not> auth_in_flight e"
    and least: "\<And>k' e'. hm_get (ct_by_key t) k' = Some e' \<Longrightarrow> \<not> auth_in_flight e' \<Longrightarrow> ce_last_used e \<le> ce_last_used e'"
    using lru_victim_present [OF inv v] by blast
  have sub: "hm_get (ct_by_key t') \<subseteq>\<^sub>m (hm_get (ct_by_key t))(k := None)"
    using rest by (simp add: trimmed_def)
  then have sub': "hm_get (ct_by_key t') \<subseteq>\<^sub>m hm_get (ct_by_key t)"
    by (auto simp: map_le_def domIff split: if_splits)
  have len: "length (ct_by_key t') + n' = length (ct_by_key t) + n"
    using rest length_evict_inv [OF inv e(1)] by (simp add: trimmed_def)
  have flight: "hm_get (ct_by_key t') k1 = Some e1"
    if "hm_get (ct_by_key t) k1 = Some e1" "auth_in_flight e1" for k1 e1
  proof -
    have "k1 \<noteq> k" using that e by auto
    then show ?thesis using rest that by (simp add: trimmed_def)
  qed
  have lru: "ce_last_used e1 \<le> ce_last_used e2"
    if "hm_get (ct_by_key t) k1 = Some e1" "hm_get (ct_by_key t') k1 = None"
      "hm_get (ct_by_key t') k2 = Some e2" "\<not> auth_in_flight e2" for k1 e1 k2 e2
  proof (cases "k1 = k")
    case True
    have "hm_get (ct_by_key t) k2 = Some e2" using sub' that(3) by (metis domI map_le_def)
    then show ?thesis using least that(1,4) e(1) True by force
  next
    case False
    then have "hm_get (ct_by_key (fst (evict k t))) k1 = Some e1" using that(1) by simp
    then show ?thesis using rest that(2-4) unfolding trimmed_def by blast
  qed
  from rest sub' len flight lru over show ?thesis by (simp add: trimmed_def)
qed

lemma evict_lru_trimmed:
  assumes "table_inv t"
  shows "trimmed reserve t n (fst (evict_lru reserve (t, n))) (snd (evict_lru reserve (t, n)))"
  using assms
proof (induction reserve "(t, n)" arbitrary: t n rule: evict_lru.induct)
  case (1 reserve t n)
  show ?case
  proof (cases "over_capacity reserve t")
    case False
    then show ?thesis using "1.prems" by (auto simp: evict_lru.simps [of reserve t] intro: trimmed_refl)
  next
    case True
    show ?thesis
    proof (cases "lru_victim t")
      case None
      then show ?thesis using "1.prems" by (auto simp: evict_lru.simps [of reserve t] intro: trimmed_refl)
    next
      case (Some k)
      then have p: "hm_get (ct_by_key t) k \<noteq> None"
        using lru_victim_present [OF "1.prems"] by (metis option.distinct(1))
      then have "evict_lru reserve (t, n) = evict_lru reserve (fst (evict k t), n + 1)"
        using True Some by (auto simp: evict_lru.simps [of reserve t])
      then show ?thesis
        using "1.hyps" [OF True Some p] "1.prems" True Some by (auto intro: trimmed_step)
    qed
  qed
qed


section \<open>Pruning\<close>

definition expired_keys :: "instant \<Rightarrow> conntrack_table \<Rightarrow> flow_key list" where
  "expired_keys now t =
     map (ce_key \<circ> snd) (filter (\<lambda>(k, e). is_expired (ct_idle_ttl t) now e) (ct_by_key t))"

lemma set_expired_keys:
  assumes "table_inv t"
  shows "k \<in> set (expired_keys now t) \<longleftrightarrow>
    (\<exists>e. hm_get (ct_by_key t) k = Some e \<and> is_expired (ct_idle_ttl t) now e)"
proof -
  note mem = hm_mem_iff [OF table_inv_distinct(1) [OF assms]]
  have "k \<in> set (expired_keys now t) \<longleftrightarrow>
      (\<exists>k0 e. (k0, e) \<in> set (ct_by_key t) \<and> is_expired (ct_idle_ttl t) now e \<and> k = ce_key e)"
    by (force simp: expired_keys_def)
  then show ?thesis using table_inv_entry(1) [OF assms] unfolding mem by blast
qed

lemma distinct_expired_keys:
  assumes "table_inv t"
  shows "distinct (expired_keys now t)"
proof -
  have "ce_key e = k" if "(k, e) \<in> set (ct_by_key t)" for k e
    using that table_inv_entry(1) [OF assms] hm_mem_iff [OF table_inv_distinct(1) [OF assms]] by blast
  then have "expired_keys now t = map fst (filter (\<lambda>(k, e). is_expired (ct_idle_ttl t) now e) (ct_by_key t))"
    by (auto simp: expired_keys_def)
  then show ?thesis using table_inv_distinct(1) [OF assms] by (simp add: distinct_map_filter)
qed

text \<open>The complete effect of a prune, over the entries before (\<open>t\<close>) and after (\<open>t'\<close>).\<close>

lemma prune_spec:
  assumes inv: "table_inv t" and p: "prune_at_with_room now reserve t = (t', po)"
  shows "table_inv t'" "ct_capacity t' = ct_capacity t" "ct_next_auth_id t' = ct_next_auth_id t"
    and "hm_get (ct_by_key t') \<subseteq>\<^sub>m hm_get (ct_by_key t)"
    and "\<And>k e. hm_get (ct_by_key t) k = Some e \<Longrightarrow> auth_in_flight e \<Longrightarrow> hm_get (ct_by_key t') k = Some e"
    and "\<And>k e. hm_get (ct_by_key t') k = Some e \<Longrightarrow> \<not> is_expired (ct_idle_ttl t) now e"
    and "po_entries po = length (ct_by_key t')"
    and "po_entries po + po_expired po + po_evicted_for_capacity po = length (ct_by_key t)"
    and "over_capacity reserve t' \<Longrightarrow> (\<And>k e. hm_get (ct_by_key t') k = Some e \<Longrightarrow> auth_in_flight e)"
    and "\<And>k e k' e'. hm_get (ct_by_key t) k = Some e \<Longrightarrow> \<not> is_expired (ct_idle_ttl t) now e \<Longrightarrow>
      hm_get (ct_by_key t') k = None \<Longrightarrow> hm_get (ct_by_key t') k' = Some e' \<Longrightarrow> \<not> auth_in_flight e' \<Longrightarrow>
      ce_last_used e \<le> ce_last_used e'"
    and "po_expired po = length (expired_keys now t)"
proof -
  let ?ks = "expired_keys now t"
  obtain t1 n1 where e1: "evict_all ?ks (t, 0) = (t1, n1)" by fastforce
  obtain t2 n2 where e2: "evict_lru reserve (t1, 0) = (t2, n2)" by fastforce
  have res: "t' = t2" "po = \<lparr>po_expired = n1, po_evicted_for_capacity = n2, po_entries = length (ct_by_key t2)\<rparr>"
    using p e1 e2 by (auto simp: prune_at_with_room_def expired_keys_def [symmetric])
  have sp: "table_inv t1" "\<And>k. hm_get (ct_by_key t1) k = (if k \<in> set ?ks then None else hm_get (ct_by_key t) k)"
    "n1 = length ?ks" "ct_capacity t1 = ct_capacity t" "ct_next_auth_id t1 = ct_next_auth_id t"
    using evict_all_spec [OF inv, of ?ks 0] e1 by auto
  have l1: "length (ct_by_key t1) + n1 = length (ct_by_key t)"
    using evict_all_length [OF inv distinct_expired_keys [OF inv], of now 0] sp(3) e1
      set_expired_keys [OF inv] by fastforce
  have tr: "trimmed reserve t1 0 t2 n2" using evict_lru_trimmed [OF sp(1), of reserve 0] e2 by simp
  note tr' = tr [unfolded trimmed_def]
  have get1: "hm_get (ct_by_key t1) k = Some e \<longleftrightarrow>
      hm_get (ct_by_key t) k = Some e \<and> \<not> is_expired (ct_idle_ttl t) now e" for k e
    using sp(2) set_expired_keys [OF inv, of k now] by auto
  have sub: "hm_get (ct_by_key t2) k = Some e \<Longrightarrow> hm_get (ct_by_key t1) k = Some e" for k e
    using tr' by (metis domI map_le_def)
  show "table_inv t'" "ct_capacity t' = ct_capacity t" "ct_next_auth_id t' = ct_next_auth_id t"
    using tr' sp(4,5) res(1) by simp_all
  show "hm_get (ct_by_key t') \<subseteq>\<^sub>m hm_get (ct_by_key t)"
    using sub get1 res(1) by (fastforce simp: map_le_def)
  show "hm_get (ct_by_key t') k = Some e"
    if "hm_get (ct_by_key t) k = Some e" "auth_in_flight e" for k e
    using that get1 [of k e] tr' res(1) by (auto simp: is_expired_def)
  show "\<not> is_expired (ct_idle_ttl t) now e" if "hm_get (ct_by_key t') k = Some e" for k e
    using that sub get1 res(1) by blast
  show "po_entries po = length (ct_by_key t')" using res by simp
  show "po_entries po + po_expired po + po_evicted_for_capacity po = length (ct_by_key t)"
    using res l1 tr' by simp
  show "auth_in_flight e" if "over_capacity reserve t'" "hm_get (ct_by_key t') k = Some e" for k e
    using that tr' res(1) by blast
  show "ce_last_used e \<le> ce_last_used e'"
    if "hm_get (ct_by_key t) k = Some e" "\<not> is_expired (ct_idle_ttl t) now e"
      "hm_get (ct_by_key t') k = None" "hm_get (ct_by_key t') k' = Some e'" "\<not> auth_in_flight e'"
    for k e k' e'
    using that get1 [of k e] tr' res(1) by blast
  show "po_expired po = length ?ks" using res(2) sp(3) by simp
qed

lemma maintain_cases:
  assumes "maintain_for_flow now key t = (t', po)"
  obtains (fast) "t' = t" "po = \<lparr>po_expired = 0, po_evicted_for_capacity = 0, po_entries = table_len t\<rparr>"
    "\<And>e. hm_get (ct_by_key t) key = Some e \<Longrightarrow> \<not> is_expired (ct_idle_ttl t) now e"
    "hm_get (ct_by_key t) key = None \<Longrightarrow> table_len t < ct_capacity t"
  | (sweep) "prune_at_with_room now (hm_get (ct_by_key t) key = None) (t\<lparr>ct_last_sweep := now\<rparr>) = (t', po)"
proof -
  let ?x = "case hm_get (ct_by_key t) key of None \<Rightarrow> False | Some e \<Rightarrow> is_expired (ct_idle_ttl t) now e"
  let ?c = "\<not> ?x \<and> now - ct_last_sweep t < from_secs 1
    \<and> (\<not> (hm_get (ct_by_key t) key = None) \<or> table_len t < ct_capacity t)"
  have eq: "maintain_for_flow now key t = (if ?c
      then (t, \<lparr>po_expired = 0, po_evicted_for_capacity = 0, po_entries = table_len t\<rparr>)
      else prune_at_with_room now (hm_get (ct_by_key t) key = None) (t\<lparr>ct_last_sweep := now\<rparr>))"
    unfolding maintain_for_flow_def Let_def by (rule refl)
  show thesis
  proof (cases ?c)
    case True
    have "(t', po) = (t, \<lparr>po_expired = 0, po_evicted_for_capacity = 0, po_entries = table_len t\<rparr>)"
      using assms eq if_P [OF True] by metis
    then show ?thesis using True by (intro fast) auto
  next
    case False
    have "prune_at_with_room now (hm_get (ct_by_key t) key = None) (t\<lparr>ct_last_sweep := now\<rparr>) = (t', po)"
      using assms eq if_not_P [OF False] by metis
    then show ?thesis by (rule sweep)
  qed
qed

lemma maintain_inv:
  assumes "table_inv t"
  shows "table_inv (fst (maintain_for_flow now key t))"
    and "ct_next_auth_id (fst (maintain_for_flow now key t)) = ct_next_auth_id t"
proof -
  obtain t' po where m: "maintain_for_flow now key t = (t', po)" by fastforce
  have i: "table_inv (t\<lparr>ct_last_sweep := now\<rparr>)" using assms by simp
  from m have "table_inv t' \<and> ct_next_auth_id t' = ct_next_auth_id t"
    by (cases rule: maintain_cases) (use assms prune_spec(1,3) [OF i] in auto)
  with m show "table_inv (fst (maintain_for_flow now key t))"
    "ct_next_auth_id (fst (maintain_for_flow now key t)) = ct_next_auth_id t" by simp_all
qed

section \<open>Creating and updating entries\<close>

lemma table_inv_set_entry:
  assumes "table_inv t" "hm_get (ct_by_key t) k = Some e"
    and "ce_key e' = ce_key e" "ce_auth_id e' = ce_auth_id e" "entry_ok e'"
  shows "table_inv (t\<lparr>ct_by_key := hm_insert k e' (ct_by_key t)\<rparr>)"
proof -
  note d = table_inv_distinct [OF assms(1)] and en = table_inv_entry [OF assms(1)]
  have bk: "\<exists>e''. ((hm_get (ct_by_key t))(k \<mapsto> e')) k' = Some e'' \<and> ce_auth_id e'' = i"
    if "hm_get (ct_by_id t) i = Some k'" for i k'
    using table_inv_id [OF assms(1) that] assms(2,4) by (metis fun_upd_apply option.inject)
  show ?thesis
    unfolding table_inv_def using d en assms bk by (auto split: if_splits)
qed

lemma update_by_auth_id_get:
  assumes "table_inv t" "\<And>e. ce_auth_id (f e) = ce_auth_id e"
  shows "get_by_auth_id (update_by_auth_id i f t) j =
    (if j = i then map_option f (get_by_auth_id t i) else get_by_auth_id t j)"
proof (cases "hm_get (ct_by_id t) i")
  case None
  then show ?thesis by (auto simp: update_by_auth_id_def get_by_auth_id_def)
next
  case (Some k)
  then obtain e where e: "hm_get (ct_by_key t) k = Some e" "ce_auth_id e = i"
    using assms by (auto elim: table_inv_id)
  have "k' \<noteq> k" if "hm_get (ct_by_id t) j = Some k'" "j \<noteq> i" for k'
    using that e assms by (metis option.inject table_inv_id)
  then show ?thesis using Some e
    by (auto simp: update_by_auth_id_def get_by_auth_id_def split: option.splits)
qed

lemma table_inv_update:
  assumes "table_inv t" "\<And>e. ce_key (f e) = ce_key e" "\<And>e. ce_auth_id (f e) = ce_auth_id e"
    and "\<And>e. entry_ok e \<Longrightarrow> entry_ok (f e)"
  shows "table_inv (update_by_auth_id i f t)"
  unfolding update_by_auth_id_def
  using assms by (auto split: option.splits intro!: table_inv_set_entry dest: table_inv_entry(3))

lemma update_next_id [simp]: "ct_next_auth_id (update_by_auth_id i f t) = ct_next_auth_id t"
  by (simp add: update_by_auth_id_def split: option.splits)

lemma complete_simps [simp]:
  "ce_key (complete v e) = ce_key e" "ce_auth_id (complete v e) = ce_auth_id e"
  "ce_outcome (complete v e) = (case ce_outcome e of None \<Rightarrow> Some v | Some w \<Rightarrow> Some w)"
  by (auto simp: complete_def split: option.splits)

lemma entry_ok_complete [simp]: "entry_ok e \<Longrightarrow> entry_ok (complete v e)"
  by (simp add: entry_ok_def complete_def)

lemma complete_complete [simp]: "complete w (complete v e) = complete v e"
  by (auto simp: complete_def)

lemma table_inv_complete [simp]: "table_inv t \<Longrightarrow> table_inv (update_by_auth_id i (complete v) t)"
  by (rule table_inv_update) simp_all

lemma table_inv_mark [simp]:
  "table_inv t \<Longrightarrow> table_inv (fst (mark_auth i c m tok t))"
  "table_inv t \<Longrightarrow> table_inv (fst (mark_auth_error i msg t))"
  by (simp_all add: mark_auth_def mark_auth_error_def split: option.splits)

lemma table_inv_touch [simp]: "table_inv t \<Longrightarrow> table_inv (fst (touch_at k now t))"
  unfolding touch_at_def
  by (auto split: option.splits intro!: table_inv_set_entry simp: entry_ok_def dest: table_inv_entry(3))

lemma touch_by_key:
  "get_by_key (fst (touch_at k now t)) k' =
    (if k' = k then map_option (\<lambda>e. e\<lparr>ce_last_used := now\<rparr>) (get_by_key t k) else get_by_key t k')"
  by (auto simp: touch_at_def get_by_key_def split: option.splits)

lemma fresh_id:
  assumes "table_inv t" "unat (ct_next_auth_id t) + 1 < 2 ^ 64"
  shows "unat (ct_next_auth_id t + 1) = unat (ct_next_auth_id t) + 1"
    and "hm_get (ct_by_id t) (ct_next_auth_id t + 1) = None"
proof -
  show u: "unat (ct_next_auth_id t + 1) = unat (ct_next_auth_id t) + 1"
    using assms(2) by (simp add: unat_word_ariths)
  show "hm_get (ct_by_id t) (ct_next_auth_id t + 1) = None"
  proof (rule ccontr)
    assume "hm_get (ct_by_id t) (ct_next_auth_id t + 1) \<noteq> None"
    then obtain k where "hm_get (ct_by_id t) (ct_next_auth_id t + 1) = Some k" by blast
    then obtain e where "hm_get (ct_by_key t) k = Some e" "ce_auth_id e = ct_next_auth_id t + 1"
      using assms(1) by (auto elim: table_inv_id)
    then show False using table_inv_entry(5) [OF assms(1)] u by fastforce
  qed
qed

lemma table_inv_insert_new:
  assumes "table_inv t" "unat (ct_next_auth_id t) + 1 < 2 ^ 64" "hm_get (ct_by_key t) k = None"
  shows "table_inv (t\<lparr>ct_next_auth_id := ct_next_auth_id t + 1,
      ct_by_id := hm_insert (ct_next_auth_id t + 1) k (ct_by_id t),
      ct_by_key := hm_insert k (new_entry k (ct_next_auth_id t + 1) a g now) (ct_by_key t)\<rparr>)"
proof -
  let ?i = "ct_next_auth_id t + 1" and ?e = "new_entry k (ct_next_auth_id t + 1) a g now"
  note d = table_inv_distinct [OF assms(1)] and f = fresh_id [OF assms(1,2)]
  have ne: "ce_key ?e = k" "ce_auth_id ?e = ?i" "entry_ok ?e"
    by (simp_all add: new_entry_def entry_ok_def)
  have old: "ce_key e = k' \<and> hm_get (ct_by_id t) (ce_auth_id e) = Some k' \<and> ce_auth_id e \<noteq> ?i
      \<and> 0 < unat (ce_auth_id e) \<and> unat (ce_auth_id e) \<le> unat ?i \<and> entry_ok e"
    if "hm_get (ct_by_key t) k' = Some e" for k' e
    using table_inv_entry [OF assms(1) that] f by force
  have bk: "\<exists>e'. ((hm_get (ct_by_key t))(k \<mapsto> ?e)) k' = Some e' \<and> ce_auth_id e' = j"
    if "hm_get (ct_by_id t) j = Some k'" for j k'
    using table_inv_id [OF assms(1) that] assms(3) by (metis fun_upd_apply option.distinct(1))
  show ?thesis
    unfolding table_inv_def using d ne old bk f(1) by (auto split: if_splits)
qed

lemma get_or_create_cases:
  assumes "get_or_create_at k a g now t = (t', e)"
  obtains (existing) e0 where "hm_get (ct_by_key t) k = Some e0" "ce_app_id e0 = a" "ce_node_group_id e0 = g"
    "e = e0\<lparr>ce_last_used := now\<rparr>" "t' = t\<lparr>ct_by_key := hm_insert k e (ct_by_key t)\<rparr>"
  | (created) t1 where "t1 = t \<or> t1 = fst (evict k t)" "hm_get (ct_by_key t1) k = None"
    "\<And>e0. hm_get (ct_by_key t) k = Some e0 \<Longrightarrow> ce_app_id e0 \<noteq> a \<or> ce_node_group_id e0 \<noteq> g"
    "e = new_entry k (ct_next_auth_id t1 + 1) a g now" "ct_next_auth_id t1 = ct_next_auth_id t"
    "t' = t1\<lparr>ct_next_auth_id := ct_next_auth_id t1 + 1,
      ct_by_id := hm_insert (ct_next_auth_id t1 + 1) k (ct_by_id t1),
      ct_by_key := hm_insert k e (ct_by_key t1)\<rparr>"
proof (cases "hm_get (ct_by_key t) k")
  case None
  with assms show ?thesis
    by (intro created [of t]) (auto simp: get_or_create_at_def Let_def)
next
  case (Some e0)
  show ?thesis
  proof (cases "ce_app_id e0 = a \<and> ce_node_group_id e0 = g")
    case True
    with assms Some show ?thesis
      by (intro existing [of e0]) (auto simp: get_or_create_at_def Let_def)
  next
    case False
    with assms Some show ?thesis
      by (intro created [of "fst (evict k t)"]) (auto simp: get_or_create_at_def Let_def)
  qed
qed

lemma get_or_create_inv:
  assumes "table_inv t" "unat (ct_next_auth_id t) + 1 < 2 ^ 64" "get_or_create_at k a g now t = (t', e)"
  shows "table_inv t' \<and> get_by_key t' k = Some e \<and> ce_key e = k \<and> ce_app_id e = a \<and> ce_node_group_id e = g"
  using assms(3)
proof (cases rule: get_or_create_cases)
  case (existing e0)
  then have "table_inv t'"
    using table_inv_entry(3) [OF assms(1) existing(1)]
    by (auto intro!: table_inv_set_entry [OF assms(1)] simp: entry_ok_def)
  with existing table_inv_entry(1) [OF assms(1) existing(1)] show ?thesis
    by (simp add: get_by_key_def)
next
  case (created t1)
  have i1: "table_inv t1" using created(1) assms(1) by auto
  have "table_inv t'" using table_inv_insert_new [OF i1 _ created(2)] created(4-6) assms(2) by simp
  with created show ?thesis by (simp add: get_by_key_def new_entry_def)
qed


section \<open>The table as a store of verdicts\<close>

definition settle_id :: "u64 \<Rightarrow> auth_outcome \<Rightarrow> conntrack_table \<Rightarrow> conntrack_table" where
  "settle_id i v t = update_by_auth_id i (complete v) t"

definition discard_id :: "u64 \<Rightarrow> conntrack_table \<Rightarrow> conntrack_table" where
  "discard_id i t = fst (evict_by_auth_id i t)"

interpretation flows: verdict_store table_inv get_by_auth_id ce_outcome settle_id discard_id
proof
  fix t i j v e
  assume inv: "table_inv t"
  show "table_inv (settle_id i v t)" "table_inv (discard_id i t)"
    using inv by (simp_all add: settle_id_def discard_id_def)
  show "get_by_auth_id t j = None \<Longrightarrow> get_by_auth_id (settle_id i v t) j = None"
    using inv by (auto simp: settle_id_def update_by_auth_id_get)
  show "get_by_auth_id t j = Some e \<Longrightarrow> \<exists>e'. get_by_auth_id (settle_id i v t) j = Some e'
      \<and> ce_outcome e' = (if j = i \<and> ce_outcome e = None then Some v else ce_outcome e)"
    using inv by (auto simp: settle_id_def update_by_auth_id_get split: option.splits)
  show "get_by_auth_id (discard_id i t) = (get_by_auth_id t)(i := None)"
    using inv by (simp add: discard_id_def evict_by_auth_id_get)
qed

section \<open>Correctness\<close>


definition sample_key :: "u16 \<Rightarrow> flow_key" where
  "sample_key port = flow_key_of \<lparr>fl_protocol = Tcp, fl_src_addr = Ipv4 10 0 0 1, fl_src_port = port,
     fl_dst_addr = Ipv4 10 0 0 2, fl_dst_port = 80\<rparr>"

definition sample_table :: conntrack_table where
  "sample_table = fst (get_or_create_at (sample_key 7) ''app'' ''grp'' 0 (with_limits 10 1 0))"

lemma sample_table_eq:
  "sample_table = \<lparr>ct_next_auth_id = 1, ct_by_key = [(sample_key 7, new_entry (sample_key 7) 1 ''app'' ''grp'' 0)],
     ct_by_id = [(1, sample_key 7)], ct_idle_ttl = 10, ct_capacity = 1, ct_last_sweep = 0\<rparr>"
  by (simp add: sample_table_def get_or_create_at_def with_limits_def Let_def)

lemma sample_table_inv: "table_inv sample_table"
  by (auto simp: sample_table_eq table_inv_def new_entry_def entry_ok_def split: if_splits)

lemma sample_table_get:
  "get_by_key sample_table (sample_key 7) = Some (new_entry (sample_key 7) 1 ''app'' ''grp'' 0)"
  by (simp add: sample_table_eq get_by_key_def)


text \<open>
  looking a flow up for an application and node group reuses the entry that exists for the
  same pair and otherwise installs a fresh one under an id no entry has, so that a reply to a
  replaced authorization finds nothing; the entry is found by key and by id, entries of other
  flows are unchanged, and the indexes stay consistent. The hypothesis on the counter fails
  only after \<open>2^64\<close> authorizations.
\<close>

theorem get_or_create_correct:
  assumes "table_inv t" and "unat (ct_next_auth_id t) + 1 < 2 ^ 64"
    and "get_or_create_at k app grp now t = (t', e)"
  shows "table_inv t' \<and> get_by_key t' k = Some e \<and> get_by_auth_id t' (ce_auth_id e) = Some e
    \<and> (\<forall>k'. k' \<noteq> k \<longrightarrow> get_by_key t' k' = get_by_key t k')
    \<and> (case get_by_key t k of
         None \<Rightarrow> e = new_entry k (ct_next_auth_id t + 1) app grp now \<and> get_by_auth_id t (ce_auth_id e) = None
       | Some e0 \<Rightarrow>
           if ce_app_id e0 = app \<and> ce_node_group_id e0 = grp then e = e0\<lparr>ce_last_used := now\<rparr>
           else e = new_entry k (ct_next_auth_id t + 1) app grp now \<and> get_by_auth_id t (ce_auth_id e) = None
             \<and> get_by_auth_id t' (ce_auth_id e0) = None)"
proof -
  note inv = get_or_create_inv [OF assms]
  have id: "get_by_auth_id t' (ce_auth_id e) = Some e" using inv by (simp add: get_by_auth_id_iff) blast
  have fresh: "get_by_auth_id t (ct_next_auth_id t + 1) = None"
    using fresh_id(2) [OF assms(1,2)] by (simp add: get_by_auth_id_def)
  from assms(3) show ?thesis
  proof (cases rule: get_or_create_cases)
    case (existing e0)
    then show ?thesis using inv id by (auto simp: get_by_key_def)
  next
    case (created t1)
    have other: "\<forall>k'. k' \<noteq> k \<longrightarrow> get_by_key t' k' = get_by_key t k'"
      using created by (auto simp: get_by_key_def)
    have gone: "get_by_auth_id t' (ce_auth_id e0) = None" if "get_by_key t k = Some e0" for e0
    proof (rule ccontr)
      assume "get_by_auth_id t' (ce_auth_id e0) \<noteq> None"
      then obtain e1 k1 where e1: "get_by_key t' k1 = Some e1" "ce_auth_id e1 = ce_auth_id e0"
        using get_by_auth_id_iff [of t'] inv by auto
      have "get_by_auth_id t (ce_auth_id e0) = Some e0"
        using that assms(1) get_by_auth_id_iff by blast
      then have "ce_auth_id e0 \<noteq> ce_auth_id e"
        using fresh created(4,5) by (auto simp: new_entry_def)
      then have "k1 \<noteq> k" using e1 inv by auto
      then have "get_by_key t k1 = Some e1" using e1(1) other by simp
      then have "hm_get (ct_by_id t) (ce_auth_id e0) = Some k1" "hm_get (ct_by_id t) (ce_auth_id e0) = Some k"
        using that e1(2) table_inv_entry(2) [OF assms(1)] unfolding get_by_key_def by metis+
      with \<open>k1 \<noteq> k\<close> show False by simp
    qed
    show ?thesis
      using inv id other gone fresh created(3,4,5)
      by (auto simp: get_by_key_def new_entry_def split: option.splits)
  qed
qed

theorem get_or_create_correct_witness:
  "get_by_auth_id (fst (get_or_create_at (sample_key 7) ''other'' ''grp'' 5 sample_table)) 1 = None
   \<and> get_by_key (fst (get_or_create_at (sample_key 7) ''other'' ''grp'' 5 sample_table)) (sample_key 7)
     = Some (new_entry (sample_key 7) 2 ''other'' ''grp'' 5)"
proof -
  obtain t' e where g: "get_or_create_at (sample_key 7) ''other'' ''grp'' 5 sample_table = (t', e)" by force
  have n: "ct_next_auth_id sample_table = 1"
    by (simp add: sample_table_eq)
  then have "unat (ct_next_auth_id sample_table) + 1 < 2 ^ 64" by simp
  from get_or_create_correct [OF sample_table_inv this g] sample_table_get n
  show ?thesis using g by (simp add: new_entry_def)
qed

end
