(* ===== verification/Framing.thy ===== *)
theory Framing
  imports Prelude
begin

text \<open>
  The interface of a byte-stream splitter and the read loop over it. A splitter looks at the
  unparsed bytes and either reports an error, asks for more bytes, or hands back one frame
  and the number of bytes it used. The loop drains every complete frame, running an action
  per frame that may stop the loop, and keeps the rest. The laws of the locale are what makes
  the loop independent of how the transport cuts the stream into chunks.
\<close>

datatype ('b, 'e, 'r) drain_end = Pending "'b list" | SplitError 'e | Stopped 'r

function drain_with ::
  "('b list \<Rightarrow> 'e + ('f \<times> nat) option) \<Rightarrow> ('f \<Rightarrow> 's \<Rightarrow> 's \<times> 'r option) \<Rightarrow> 's \<Rightarrow> 'b list
    \<Rightarrow> 's \<times> ('b, 'e, 'r) drain_end" where
  "drain_with splitter act st buf =
     (case splitter buf of
        Inl e \<Rightarrow> (st, SplitError e)
      | Inr None \<Rightarrow> (st, Pending buf)
      | Inr (Some (f, n)) \<Rightarrow>
          (case act f st of
             (st', Some r) \<Rightarrow> (st', Stopped r)
           | (st', None) \<Rightarrow>
               if 0 < n \<and> n \<le> length buf then drain_with splitter act st' (drop n buf)
               else (st', Pending buf)))"
  by pat_completeness auto
termination
  by (relation "measure (\<lambda>(sp, a, st, buf). length buf)") auto

declare drain_with.simps [simp del]

text \<open>Reading chunk after chunk: append to what is pending, then drain.\<close>

fun feed_with ::
  "('b list \<Rightarrow> 'e + ('f \<times> nat) option) \<Rightarrow> ('f \<Rightarrow> 's \<Rightarrow> 's \<times> 'r option)
    \<Rightarrow> 's \<times> ('b, 'e, 'r) drain_end \<Rightarrow> 'b list list \<Rightarrow> 's \<times> ('b, 'e, 'r) drain_end" where
  "feed_with splitter act (st, Pending p) (c # cs) =
     feed_with splitter act (drain_with splitter act st (p @ c)) cs"
| "feed_with splitter act res cs = res"

locale framing =
  fixes splitter :: "'b list \<Rightarrow> 'e + ('f \<times> nat) option"
  assumes frame_size: "splitter buf = Inr (Some (f, n)) \<Longrightarrow> 0 < n \<and> n \<le> length buf"
    and frame_stable: "splitter buf = Inr (Some (f, n)) \<Longrightarrow> splitter (buf @ extra) = Inr (Some (f, n))"
    and error_stable: "splitter buf = Inl e \<Longrightarrow> splitter (buf @ extra) = Inl e"
begin

lemma drain_error: "splitter buf = Inl e \<Longrightarrow> drain_with splitter act st buf = (st, SplitError e)"
  by (simp add: drain_with.simps)

lemma drain_more: "splitter buf = Inr None \<Longrightarrow> drain_with splitter act st buf = (st, Pending buf)"
  by (simp add: drain_with.simps)

lemma drain_frame:
  assumes "splitter buf = Inr (Some (f, n))"
  shows "drain_with splitter act st buf =
    (case act f st of (st', Some r) \<Rightarrow> (st', Stopped r)
     | (st', None) \<Rightarrow> drain_with splitter act st' (drop n buf))"
  using assms frame_size [OF assms]
  by (simp add: drain_with.simps [of splitter act st buf] split: option.splits prod.splits)

lemma drain_append:
  "drain_with splitter act st (a @ b) =
    (case drain_with splitter act st a of
       (st', Pending p) \<Rightarrow> drain_with splitter act st' (p @ b)
     | (st', SplitError e) \<Rightarrow> (st', SplitError e)
     | (st', Stopped r) \<Rightarrow> (st', Stopped r))"
proof (induction "length a" arbitrary: a st rule: less_induct)
  case less
  show ?case
  proof (cases "splitter a")
    case (Inl e)
    then show ?thesis by (simp add: drain_error error_stable)
  next
    case (Inr r)
    show ?thesis
    proof (cases r)
      case None
      with Inr show ?thesis by (simp add: drain_more)
    next
      case (Some fn)
      then obtain f n where s: "splitter a = Inr (Some (f, n))"
        using Inr by (cases fn) simp
      note n = frame_size [OF s]
      obtain st' o' where act: "act f st = (st', o')" by (cases "act f st")
      have "drain_with splitter act st' (drop n a @ b) =
         (case drain_with splitter act st' (drop n a) of
           (st', Pending p) \<Rightarrow> drain_with splitter act st' (p @ b)
         | (st', SplitError e) \<Rightarrow> (st', SplitError e)
         | (st', Stopped r) \<Rightarrow> (st', Stopped r))"
        using n by (intro less.hyps) auto
      then show ?thesis
        using n by (cases o') (simp_all add: drain_frame [OF s] drain_frame [OF frame_stable [OF s]] act)
    qed
  qed
qed

lemma drain_pending: "drain_with splitter act st buf = (st', Pending p) \<Longrightarrow> splitter p = Inr None"
proof (induction "length buf" arbitrary: buf st rule: less_induct)
  case less
  show ?case
  proof (cases "splitter buf")
    case (Inl e)
    with less.prems show ?thesis by (simp add: drain_error)
  next
    case (Inr r)
    show ?thesis
    proof (cases r)
      case None
      with Inr less.prems show ?thesis by (simp add: drain_more)
    next
      case (Some fn)
      then obtain f n where s: "splitter buf = Inr (Some (f, n))"
        using Inr by (cases fn) simp
      from less.prems obtain st1 where "drain_with splitter act st1 (drop n buf) = (st', Pending p)"
        by (auto simp: drain_frame [OF s] split: prod.splits option.splits)
      then show ?thesis using frame_size [OF s] by (intro less.hyps) auto
    qed
  qed
qed

lemma drain_idle:
  assumes "drain_with splitter act st buf = (st', Pending p)"
  shows "drain_with splitter act st'' p = (st'', Pending p)"
  using drain_pending [OF assms] by (rule drain_more)

text \<open>Chunking does not matter: feeding the pieces is draining their concatenation.\<close>

lemma feed_concat:
  assumes "splitter p = Inr None"
  shows "feed_with splitter act (st, Pending p) cs = drain_with splitter act st (p @ concat cs)"
  using assms
proof (induction cs arbitrary: p st)
  case Nil
  then show ?case by (simp add: drain_more)
next
  case (Cons c cs)
  have app: "drain_with splitter act st (p @ concat (c # cs)) =
    drain_with splitter act st ((p @ c) @ concat cs)" by simp
  show ?case
  proof (cases "drain_with splitter act st (p @ c)")
    case (Pair st' e)
    then show ?thesis
    proof (cases e)
      case (Pending q)
      with Pair have "splitter q = Inr None" by (auto intro: drain_pending)
      from Cons.IH [OF this] show ?thesis
        unfolding app drain_append [of act st "p @ c"] using Pair Pending by simp
    qed (simp_all only: app drain_append [of act st "p @ c"] feed_with.simps Pair prod.case drain_end.case)
  qed
qed

corollary feed_chunking:
  assumes "splitter [] = Inr None" and "concat cs = concat ds"
  shows "feed_with splitter act (st, Pending []) cs = feed_with splitter act (st, Pending []) ds"
  using assms by (simp add: feed_concat)

end

end
