(* ===== verification/L3_Frame.thy ===== *)
theory L3_Frame
  imports Framing
begin

unbundle bit_operations_syntax

text \<open>
  \<open>crates/atrust-protocol/src/l3_frame.rs\<close>: the binary frames of the L3 tunnel, with the
  two layouts of the data response body and the discriminant that tells them apart.
\<close>

section \<open>Definitions\<close>

datatype l3_frame_error =
    TokenTooLong nat
  | TooManyPackets nat
  | PacketTooLarge nat
  | JsonTooLarge nat
  | EmptyLengthPrefixedPacket
  | Truncated nat nat
  | UnexpectedHeader byte byte

definition L3_VERSION :: byte where "L3_VERSION = 0x05"

definition AUTH_REQ :: byte where "AUTH_REQ = 0x13"
definition AUTH_RESP :: byte where "AUTH_RESP = 0x93"
definition DATA_REQ :: byte where "DATA_REQ = 0x14"
definition DATA_RESP :: byte where "DATA_RESP = 0x94"
definition HEARTBEAT_REQ :: byte where "HEARTBEAT_REQ = 0x15"
definition HEARTBEAT_RESP :: byte where "HEARTBEAT_RESP = 0x95"

definition MAX_LENGTH_PREFIXED_DATA_RESP :: u16 where
  "MAX_LENGTH_PREFIXED_DATA_RESP = 4096"

definition L3_HEARTBEAT_REQ :: bytes where
  "L3_HEARTBEAT_REQ = [L3_VERSION, HEARTBEAT_REQ, 0x00, 0x00]"

definition L3_HEARTBEAT_RESP_HEADER :: "byte \<times> byte" where
  "L3_HEARTBEAT_RESP_HEADER = (L3_VERSION, HEARTBEAT_RESP)"

lemmas l3_consts =
  L3_VERSION_def AUTH_REQ_def AUTH_RESP_def DATA_REQ_def DATA_RESP_def
  HEARTBEAT_REQ_def HEARTBEAT_RESP_def MAX_LENGTH_PREFIXED_DATA_RESP_def

datatype data_resp_layout = LayoutLengthPrefixed u16 | LayoutTokenFramed

datatype data_resp_packets = LengthPrefixed bytes | TokenFramed "bytes list"

definition classify_data_resp_prefix :: "byte \<Rightarrow> byte \<Rightarrow> data_resp_layout" where
  "classify_data_resp_prefix b0 b1 =
     (let n = u16_from_be b0 b1 in
      if 0 < n \<and> n \<le> MAX_LENGTH_PREFIXED_DATA_RESP then LayoutLengthPrefixed n
      else LayoutTokenFramed)"

datatype large_packet_check = NeedMore nat | Valid | NotIp

definition large_length_prefixed_packet :: "bytes \<Rightarrow> nat \<Rightarrow> large_packet_check" where
  "large_length_prefixed_packet body packet_len =
     (if length body \<le> 2 then NeedMore 3
      else let version = drop_bit 4 (body ! 2) in
        if version = 4 \<and> 20 \<le> packet_len then
          (if length body < 6 then NeedMore 6
           else let ihl = unat (body ! 2 AND 0x0f) * 4 in
             if 20 \<le> ihl \<and> ihl \<le> packet_len
                \<and> unat (u16_from_be (body ! 4) (body ! 5)) = packet_len
             then Valid else NotIp)
        else if version = 6 \<and> 40 \<le> packet_len then
          (if length body < 8 then NeedMore 8
           else if unat (u16_from_be (body ! 6) (body ! 7)) + 40 = packet_len
             then Valid else NotIp)
        else NotIp)"

definition encode_l3_auth_req :: "bytes \<Rightarrow> l3_frame_error + bytes" where
  "encode_l3_auth_req json =
     (if 65535 < length json then Inl (JsonTooLarge (length json))
      else Inr ([L3_VERSION, AUTH_REQ] @ u16_to_be (word_of_nat (length json)) @ json))"

definition encode_l3_heartbeat_req :: bytes where
  "encode_l3_heartbeat_req = L3_HEARTBEAT_REQ"

definition is_l3_heartbeat_resp :: "byte \<times> byte \<Rightarrow> bool" where
  "is_l3_heartbeat_resp header \<longleftrightarrow> header = L3_HEARTBEAT_RESP_HEADER"

text \<open>The size check of the packet loop: the first packet over the limit is reported.\<close>

fun check_packets :: "bytes list \<Rightarrow> l3_frame_error option" where
  "check_packets [] = None"
| "check_packets (p # ps) =
     (if 65535 < length p then Some (PacketTooLarge (length p)) else check_packets ps)"

definition encode_packets :: "bytes list \<Rightarrow> bytes" where
  "encode_packets ps = concat (map (\<lambda>p. u16_to_be (word_of_nat (length p)) @ p) ps)"

definition encode_l3_data_req :: "bytes \<Rightarrow> bytes list \<Rightarrow> l3_frame_error + bytes" where
  "encode_l3_data_req token packets =
     (if 255 < length token then Inl (TokenTooLong (length token))
      else if 255 < length packets then Inl (TooManyPackets (length packets))
      else case check_packets packets of
             Some e \<Rightarrow> Inl e
           | None \<Rightarrow>
               Inr ([L3_VERSION, DATA_REQ] @ [word_of_nat (length token)] @ token @ [0x00, 0x00]
                    @ [word_of_nat (length packets)] @ encode_packets packets))"

definition encode_l3_data_resp_length_prefixed :: "bytes \<Rightarrow> l3_frame_error + bytes" where
  "encode_l3_data_resp_length_prefixed packet =
     (if packet = [] then Inl EmptyLengthPrefixedPacket
      else if 65535 < length packet then Inl (PacketTooLarge (length packet))
      else Inr ([L3_VERSION, DATA_RESP] @ u16_to_be (word_of_nat (length packet)) @ packet))"

text \<open>The loop over \<open>count\<close> length-prefixed packets, from index \<open>idx\<close>.\<close>

fun parse_packets :: "bytes \<Rightarrow> nat \<Rightarrow> nat \<Rightarrow> l3_frame_error + bytes list" where
  "parse_packets body 0 idx = Inr []"
| "parse_packets body (Suc count) idx =
     (if length body < idx + 2 then Inl (Truncated (idx + 2) (length body))
      else let plen = unat (u16_from_be (body ! idx) (body ! (idx + 1))) in
        if length body < idx + 2 + plen then Inl (Truncated (idx + 2 + plen) (length body))
        else case parse_packets body count (idx + 2 + plen) of
               Inl e \<Rightarrow> Inl e
             | Inr ps \<Rightarrow> Inr (slice body (idx + 2) (idx + 2 + plen) # ps))"

definition parse_l3_token_data_body :: "bytes \<Rightarrow> l3_frame_error + bytes list" where
  "parse_l3_token_data_body body =
     (if length body < 4 then Inl (Truncated 4 (length body))
      else let idx = 1 + unat (body ! 0) in
        if length body < idx + 3 then Inl (Truncated (idx + 3) (length body))
        else parse_packets body (unat (body ! (idx + 2))) (idx + 3))"

fun packets_end :: "bytes \<Rightarrow> nat \<Rightarrow> nat \<Rightarrow> l3_frame_error + nat" where
  "packets_end body 0 idx = Inr idx"
| "packets_end body (Suc count) idx =
     (if length body < idx + 2 then Inl (Truncated (idx + 2) (length body))
      else let next = idx + 2 + unat (u16_from_be (body ! idx) (body ! (idx + 1))) in
        if length body < next then Inl (Truncated next (length body))
        else packets_end body count next)"

definition token_body_len :: "bytes \<Rightarrow> l3_frame_error + nat" where
  "token_body_len body =
     (if body = [] then Inl (Truncated 1 0)
      else let idx = 1 + unat (body ! 0) in
        if length body < idx + 3 then Inl (Truncated (idx + 3) (length body))
        else packets_end body (unat (body ! (idx + 2))) (idx + 3))"

text \<open>
  The layout a body selects: the two-byte prefix decides, except that a prefix above 4096
  still selects the length-prefixed layout when the following bytes are an IP header whose
  own length field agrees.
\<close>

definition data_resp_layout_of :: "bytes \<Rightarrow> l3_frame_error + data_resp_layout" where
  "data_resp_layout_of body =
     (let packet_len = unat (u16_from_be (body ! 0) (body ! 1)) in
      case classify_data_resp_prefix (body ! 0) (body ! 1) of
        LayoutTokenFramed \<Rightarrow>
          if unat MAX_LENGTH_PREFIXED_DATA_RESP < packet_len then
            (case large_length_prefixed_packet body packet_len of
               NeedMore needed \<Rightarrow> Inl (Truncated needed (length body))
             | Valid \<Rightarrow> Inr (LayoutLengthPrefixed (word_of_nat packet_len))
             | NotIp \<Rightarrow> Inr LayoutTokenFramed)
          else Inr LayoutTokenFramed
      | layout \<Rightarrow> Inr layout)"

definition decode_l3_data_resp_body :: "bytes \<Rightarrow> l3_frame_error + data_resp_packets \<times> nat" where
  "decode_l3_data_resp_body body =
     (if length body < 2 then Inl (Truncated 2 (length body))
      else case data_resp_layout_of body of
        Inl e \<Rightarrow> Inl e
      | Inr (LayoutLengthPrefixed packet_len) \<Rightarrow>
          (let need = 2 + unat packet_len in
           if length body < need then Inl (Truncated need (length body))
           else Inr (LengthPrefixed (slice body 2 need), need))
      | Inr LayoutTokenFramed \<Rightarrow>
          (case token_body_len body of
             Inl e \<Rightarrow> Inl e
           | Inr consumed \<Rightarrow>
               (case parse_l3_token_data_body (slice body 0 consumed) of
                  Inl e \<Rightarrow> Inl e
                | Inr packets \<Rightarrow> Inr (TokenFramed packets, consumed))))"

definition decode_l3_data_resp_frame :: "bytes \<Rightarrow> l3_frame_error + data_resp_packets \<times> nat" where
  "decode_l3_data_resp_frame frame =
     (if length frame < 2 then Inl (Truncated 2 (length frame))
      else if frame ! 0 \<noteq> L3_VERSION \<or> frame ! 1 \<noteq> DATA_RESP
      then Inl (UnexpectedHeader (frame ! 0) (frame ! 1))
      else case decode_l3_data_resp_body (drop 2 frame) of
             Inl e \<Rightarrow> Inl e
           | Inr (packets, body_len) \<Rightarrow> Inr (packets, 2 + body_len))"

section \<open>The packet loop\<close>

lemma check_packets_None: "check_packets ps = None \<longleftrightarrow> (\<forall>p \<in> set ps. length p < 65536)"
  by (induction ps) auto

lemma encode_packets_simps [simp]:
  "encode_packets [] = []"
  "encode_packets (p # ps) = u16_to_be (word_of_nat (length p)) @ p @ encode_packets ps"
  by (simp_all add: encode_packets_def)

lemma be_at [be_simps]:
  "u16_from_be ((pre @ u16_to_be w @ rest) ! length pre) ((pre @ u16_to_be w @ rest) ! Suc (length pre)) = w"
  by (simp add: nth_append u16_to_be_nth)

lemma parse_packets_encode:
  assumes "\<forall>p \<in> set ps. length p < 65536"
  shows "parse_packets (pre @ encode_packets ps @ rest) (length ps) (length pre) = Inr ps"
  using assms
proof (induction ps arbitrary: pre)
  case (Cons p ps)
  let ?hd = "u16_to_be (word_of_nat (length p))"
  have "parse_packets ((pre @ ?hd @ p) @ encode_packets ps @ rest) (length ps) (length (pre @ ?hd @ p)) = Inr ps"
    using Cons.prems by (intro Cons.IH) simp
  then have rec: "parse_packets (pre @ ?hd @ p @ encode_packets ps @ rest) (length ps)
      (length pre + 2 + length p) = Inr ps"
    by (simp add: add.assoc)
  have cut: "slice (pre @ ?hd @ p @ encode_packets ps @ rest) (length pre + 2) (length pre + 2 + length p) = p"
    using slice_middle [of "pre @ ?hd" p "encode_packets ps @ rest"] by simp
  show ?case
    using Cons.prems rec cut be_at [of pre "word_of_nat (length p)" "p @ encode_packets ps @ rest"]
    by (simp add: Let_def add.assoc)
qed simp

lemma packets_end_encode:
  assumes "\<forall>p \<in> set ps. length p < 65536"
  shows "packets_end (pre @ encode_packets ps @ rest) (length ps) (length pre)
    = Inr (length pre + length (encode_packets ps))"
  using assms
proof (induction ps arbitrary: pre)
  case (Cons p ps)
  let ?hd = "u16_to_be (word_of_nat (length p))"
  have "packets_end ((pre @ ?hd @ p) @ encode_packets ps @ rest) (length ps) (length (pre @ ?hd @ p))
      = Inr (length (pre @ ?hd @ p) + length (encode_packets ps))"
    using Cons.prems by (intro Cons.IH) simp
  then have rec: "packets_end (pre @ ?hd @ p @ encode_packets ps @ rest) (length ps)
      (length pre + 2 + length p) = Inr (length pre + 2 + length p + length (encode_packets ps))"
    by (simp add: add.assoc)
  show ?case
    using Cons.prems rec be_at [of pre "word_of_nat (length p)" "p @ encode_packets ps @ rest"]
    by (simp add: Let_def add.assoc)
qed simp

text \<open>The two loops agree: the second only skips what the first collects.\<close>

lemma packets_end_bounds: "packets_end body c idx = Inr e \<Longrightarrow> idx \<le> e \<and> (c = 0 \<or> e \<le> length body)"
  by (induction body c idx rule: packets_end.induct)
    (fastforce simp: Let_def split: if_splits)+

lemma parse_packets_iff_end:
  "(\<exists>ps. parse_packets body c idx = Inr ps) \<longleftrightarrow> (\<exists>e. packets_end body c idx = Inr e)"
  by (induction body c idx rule: packets_end.induct)
    (auto simp: Let_def split: sum.splits)

lemma parse_packets_error:
  "parse_packets body c idx = Inl e \<longleftrightarrow> packets_end body c idx = Inl e"
  by (induction body c idx rule: packets_end.induct)
    (auto simp: Let_def split: sum.splits)

lemma parse_packets_take:
  assumes "packets_end body c idx = Inr e" and "e \<le> k" and "k \<le> length body"
  shows "parse_packets (take k body) c idx = parse_packets body c idx"
  using assms
proof (induction body c idx rule: packets_end.induct)
  case (2 body c idx)
  let ?next = "idx + 2 + unat (u16_from_be (body ! idx) (body ! (idx + 1)))"
  from "2.prems"(1) have l: "idx + 2 \<le> length body" "?next \<le> length body"
    and rec: "packets_end body c ?next = Inr e"
    by (auto simp: Let_def split: if_splits)
  have "?next \<le> k" using packets_end_bounds [OF rec] "2.prems"(2) by simp
  with "2.IH" "2.prems" l rec show ?case
    by (auto simp: Let_def slice_def min_def drop_take split: sum.splits)
qed simp

lemma packets_end_append:
  "packets_end body c idx = Inr e \<Longrightarrow> packets_end (body @ extra) c idx = Inr e"
  by (induction body c idx rule: packets_end.induct)
    (auto simp: Let_def nth_append split: if_splits)


section \<open>The token-framed body\<close>

lemma packets_end_le:
  "packets_end body c idx = Inr e \<Longrightarrow> idx \<le> length body \<Longrightarrow> idx \<le> e \<and> e \<le> length body"
  using packets_end_bounds [of body c idx e] by (cases c) auto

lemma token_body_len_bounds:
  assumes "token_body_len body = Inr n"
  shows "4 + unat (body ! 0) \<le> n \<and> n \<le> length body"
proof -
  let ?i = "1 + unat (body ! 0)"
  from assms have "?i + 3 \<le> length body" "packets_end body (unat (body ! (?i + 2))) (?i + 3) = Inr n"
    by (simp_all add: token_body_len_def Let_def split: if_splits)
  then show ?thesis using packets_end_le [of body _ "?i + 3" n] by simp
qed

lemma token_body_len_append:
  "token_body_len body = Inr n \<Longrightarrow> token_body_len (body @ extra) = Inr n"
  by (auto simp: token_body_len_def Let_def nth_append packets_end_append split: if_splits)

text \<open>Once the length is known, parsing the prefix of that length cannot fail.\<close>

lemma token_body_parse:
  assumes "token_body_len body = Inr n"
  shows "\<exists>ps. parse_l3_token_data_body (slice body 0 n) = Inr ps
    \<and> parse_packets body (unat (body ! (3 + unat (body ! 0)))) (4 + unat (body ! 0)) = Inr ps"
proof -
  let ?i = "1 + unat (body ! 0)"
  from assms have ne: "body \<noteq> []" and l: "?i + 3 \<le> length body"
    and e: "packets_end body (unat (body ! (?i + 2))) (?i + 3) = Inr n"
    by (auto simp: token_body_len_def Let_def split: if_splits)
  have n: "?i + 3 \<le> n" "n \<le> length body"
    using packets_end_bounds [OF e] token_body_len_bounds [OF assms] by auto
  obtain ps where ps: "parse_packets body (unat (body ! (?i + 2))) (?i + 3) = Inr ps"
    using e parse_packets_iff_end by blast
  have "parse_l3_token_data_body (take n body) = parse_packets (take n body) (unat (body ! (?i + 2))) (?i + 3)"
    using n by (simp add: parse_l3_token_data_body_def Let_def)
  also have "\<dots> = Inr ps" using parse_packets_take [OF e _ n(2)] ps by simp
  finally show ?thesis using ps by (simp add: slice_def numeral_eq_Suc)
qed

definition token_body :: "bytes \<Rightarrow> bytes list \<Rightarrow> bytes" where
  "token_body token ps =
     [word_of_nat (length token)] @ token @ [0x00, 0x00] @ [word_of_nat (length ps)] @ encode_packets ps"

lemma encode_l3_data_req_Inr:
  "encode_l3_data_req token ps = Inr f \<longleftrightarrow>
     length token < 256 \<and> length ps < 256 \<and> (\<forall>p \<in> set ps. length p < 65536)
     \<and> f = [L3_VERSION, DATA_REQ] @ token_body token ps"
  by (auto simp: encode_l3_data_req_def token_body_def check_packets_None [symmetric] split: option.splits)

lemma token_body_nth:
  assumes "length token < 256"
  shows "token_body token ps ! 0 = word_of_nat (length token)"
    "(token_body token ps @ rest) ! (3 + length token) = word_of_nat (length ps)"
  using assms by (simp_all add: token_body_def nth_append numeral_eq_Suc)

lemma token_body_split:
  "token_body token ps @ rest =
    ([word_of_nat (length token)] @ token @ [0x00, 0x00] @ [word_of_nat (length ps)]) @ encode_packets ps @ rest"
  by (simp add: token_body_def)

lemma token_body_loops:
  assumes "length token < 256" "length ps < 256" "\<forall>p \<in> set ps. length p < 65536"
  shows "token_body_len (token_body token ps @ rest) = Inr (length (token_body token ps))"
    and "parse_l3_token_data_body (token_body token ps @ rest) = Inr ps"
proof -
  let ?b = "token_body token ps @ rest"
  let ?pre = "[word_of_nat (length token)] @ token @ [0x00, 0x00] @ [word_of_nat (length ps) :: byte]"
  have pre: "length ?pre = 4 + length token" by simp
  have b0: "unat (?b ! 0) = length token" and cnt: "unat (?b ! (3 + length token)) = length ps"
    using assms(1,2) token_body_nth(2) [OF assms(1)] by (simp_all add: token_body_def)
  have len: "length ?b = 4 + length token + length (encode_packets ps) + length rest"
    by (simp add: token_body_def)
  have "packets_end ?b (length ps) (4 + length token) = Inr (4 + length token + length (encode_packets ps))"
    using packets_end_encode [OF assms(3), of ?pre rest] unfolding token_body_split pre by simp
  then show "token_body_len ?b = Inr (length (token_body token ps))"
    using b0 cnt len by (simp add: token_body_len_def Let_def token_body_def add.commute add.left_commute numeral_eq_Suc)
  have "parse_packets ?b (length ps) (4 + length token) = Inr ps"
    using parse_packets_encode [OF assms(3), of ?pre rest] unfolding token_body_split pre by simp
  then show "parse_l3_token_data_body ?b = Inr ps"
    using b0 cnt len by (simp add: parse_l3_token_data_body_def Let_def numeral_eq_Suc)
qed

section \<open>The dual-format decoder\<close>

lemma large_check_append:
  assumes "large_length_prefixed_packet body n = v" and "v = Valid \<or> v = NotIp"
  shows "large_length_prefixed_packet (body @ extra) n = v"
proof -
  from assms have l: "2 < length body"
    by (auto simp: large_length_prefixed_packet_def split: if_splits)
  let ?v = "drop_bit 4 (body ! 2)"
  consider (four) "?v = 4" "20 \<le> n" | (six) "\<not> (?v = 4 \<and> 20 \<le> n)" "?v = 6" "40 \<le> n"
    | (other) "\<not> (?v = 4 \<and> 20 \<le> n)" "\<not> (?v = 6 \<and> 40 \<le> n)" by blast
  then show ?thesis
  proof cases
    case four
    with assms l have "6 \<le> length body"
      by (auto simp: large_length_prefixed_packet_def Let_def split: if_splits)
    with assms(1) l four show ?thesis
      by (simp add: large_length_prefixed_packet_def nth_append_left)
  next
    case six
    with assms l have "8 \<le> length body"
      by (auto simp: large_length_prefixed_packet_def Let_def split: if_splits)
    with assms(1) l six show ?thesis
      by (simp add: large_length_prefixed_packet_def nth_append_left)
  next
    case other
    with assms(1) l show ?thesis
      by (auto simp: large_length_prefixed_packet_def nth_append_left Let_def)
  qed
qed

lemma layout_of_append:
  "2 \<le> length body \<Longrightarrow> data_resp_layout_of body = Inr l \<Longrightarrow> data_resp_layout_of (body @ extra) = Inr l"
  by (auto simp: data_resp_layout_of_def Let_def nth_append large_check_append
      split: data_resp_layout.splits if_splits large_packet_check.splits)

lemma decode_body_frame:
  assumes "decode_l3_data_resp_body body = Inr (ps, n)"
  shows "2 \<le> n \<and> n \<le> length body"
  using assms token_body_len_bounds
  by (fastforce simp: decode_l3_data_resp_body_def Let_def
      split: if_splits sum.splits data_resp_layout.splits)

lemma decode_body_append:
  assumes "decode_l3_data_resp_body body = Inr (ps, n)"
  shows "decode_l3_data_resp_body (body @ extra) = Inr (ps, n)"
proof -
  from assms obtain l where l2: "2 \<le> length body" and l: "data_resp_layout_of body = Inr l"
    by (auto simp: decode_l3_data_resp_body_def split: if_splits sum.splits)
  note lay = layout_of_append [OF l2 l]
  show ?thesis
  proof (cases l)
    case (LayoutLengthPrefixed w)
    with assms l2 l lay show ?thesis
      by (auto simp: decode_l3_data_resp_body_def Let_def split: if_splits)
  next
    case LayoutTokenFramed
    with assms l2 l obtain q where t: "token_body_len body = Inr n"
      and q: "parse_l3_token_data_body (slice body 0 n) = Inr q" and ps: "ps = TokenFramed q"
      by (auto simp: decode_l3_data_resp_body_def split: sum.splits)
    have "slice (body @ extra) 0 n = slice body 0 n"
      using token_body_len_bounds [OF t] by simp
    with l2 lay LayoutTokenFramed q ps show ?thesis
      by (simp add: decode_l3_data_resp_body_def token_body_len_append [OF t])
  qed
qed

text \<open>Every failure asks for more bytes: no body is rejected outright.\<close>

lemma packets_end_truncated: "packets_end body c idx = Inl e \<Longrightarrow> \<exists>k. e = Truncated k (length body)"
  by (induction body c idx rule: packets_end.induct) (auto simp: Let_def split: if_splits)

lemma decode_body_truncated:
  assumes "decode_l3_data_resp_body body = Inl e"
  shows "\<exists>k. e = Truncated k (length body)"
proof (cases "2 \<le> length body \<and> data_resp_layout_of body = Inr LayoutTokenFramed")
  case True
  with assms consider (len) "token_body_len body = Inl e"
    | (parse) n where "token_body_len body = Inr n" "parse_l3_token_data_body (slice body 0 n) = Inl e"
    by (auto simp: decode_l3_data_resp_body_def split: sum.splits)
  then show ?thesis
  proof cases
    case len
    then show ?thesis
      by (auto simp: token_body_len_def Let_def split: if_splits dest: packets_end_truncated)
  next
    case parse
    then show ?thesis using token_body_parse [of body n] by auto
  qed
next
  case False
  with assms show ?thesis
    by (auto simp: decode_l3_data_resp_body_def data_resp_layout_of_def Let_def
        split: if_splits sum.splits data_resp_layout.splits large_packet_check.splits)
qed

section \<open>Round trips of the data response\<close>

lemma length_prefixed_layout:
  assumes "0 < n" "n \<le> 4096"
  shows "data_resp_layout_of (u16_to_be (word_of_nat n) @ rest) = Inr (LayoutLengthPrefixed (word_of_nat n))"
proof -
  have "(0 :: u16) < word_of_nat n" "word_of_nat n \<le> (4096 :: u16)"
    using assms by (simp_all add: word_less_nat_alt word_le_nat_alt)
  then show ?thesis
    using u16_to_be_nth [of "word_of_nat n"]
    by (simp add: data_resp_layout_of_def classify_data_resp_prefix_def Let_def nth_append
        MAX_LENGTH_PREFIXED_DATA_RESP_def)
qed

lemma decode_length_prefixed:
  assumes "data_resp_layout_of (u16_to_be (word_of_nat (length p)) @ p @ rest)
      = Inr (LayoutLengthPrefixed (word_of_nat (length p)))" and "length p < 65536"
  shows "decode_l3_data_resp_body (u16_to_be (word_of_nat (length p)) @ p @ rest)
    = Inr (LengthPrefixed p, 2 + length p)"
  using assms by (simp add: decode_l3_data_resp_body_def Let_def slice_def)

text \<open>When the leading two bytes of a token body select the token-framed layout.\<close>

lemma token_body_prefix:
  assumes "token \<noteq> []" "length token < 256"
  shows "unat (u16_from_be ((token_body token ps @ rest) ! 0) ((token_body token ps @ rest) ! 1))
    = 256 * length token + unat (token ! 0)"
  using assms by (simp add: token_body_def unat_u16_from_be nth_append)

lemma layout_token_body:
  assumes "16 < length token" "length token < 256"
    and "large_length_prefixed_packet (token_body token ps @ rest) (256 * length token + unat (token ! 0)) = NotIp"
  shows "data_resp_layout_of (token_body token ps @ rest) = Inr LayoutTokenFramed"
proof -
  let ?b = "token_body token ps @ rest"
  have p: "unat (u16_from_be (?b ! 0) (?b ! 1)) = 256 * length token + unat (token ! 0)"
    using assms(1,2) by (intro token_body_prefix) auto
  then have "\<not> u16_from_be (?b ! 0) (?b ! 1) \<le> 4096"
    using assms(1) by (simp add: word_le_nat_alt)
  then show ?thesis
    using p assms(1,3) unfolding data_resp_layout_of_def classify_data_resp_prefix_def Let_def
    by (simp add: MAX_LENGTH_PREFIXED_DATA_RESP_def)
qed

lemma decode_token_body:
  assumes "data_resp_layout_of (token_body token ps @ rest) = Inr LayoutTokenFramed"
    and "length token < 256" "length ps < 256" "\<forall>p \<in> set ps. length p < 65536"
  shows "decode_l3_data_resp_body (token_body token ps @ rest)
    = Inr (TokenFramed ps, length (token_body token ps))"
proof -
  have "slice (token_body token ps @ rest) 0 (length (token_body token ps)) = token_body token ps"
    by (simp add: slice_def)
  moreover have "2 \<le> length (token_body token ps @ rest)" by (simp add: token_body_def)
  ultimately show ?thesis
    using assms(1) token_body_loops [OF assms(2-4)] token_body_loops(2) [OF assms(2-4), of "[]"]
    by (simp add: decode_l3_data_resp_body_def)
qed

lemma large_check_not_ip:
  assumes "2 < length body" "drop_bit 4 (body ! 2) \<noteq> 4" "drop_bit 4 (body ! 2) \<noteq> 6"
  shows "large_length_prefixed_packet body n = NotIp"
  using assms by (simp add: large_length_prefixed_packet_def Let_def)

section \<open>Correctness\<close>

text \<open>
  the dual-format decoder of the data response is stable under further input: once a body
  decodes, appending bytes changes neither the packets nor the number of bytes consumed, and
  the consumed bytes lie inside the buffer.
\<close>

theorem decode_data_resp_stable:
  assumes "decode_l3_data_resp_body body = Inr (packets, n)"
  shows "decode_l3_data_resp_body (body @ extra) = Inr (packets, n) \<and> 2 \<le> n \<and> n \<le> length body"
  using assms decode_body_append decode_body_frame by blast

theorem decode_data_resp_stable_witness:
  "decode_l3_data_resp_body ([0, 3, 7, 8, 9] @ [1, 2]) = Inr (LengthPrefixed [7, 8, 9], 5)
     \<and> (2 :: nat) \<le> 5 \<and> 5 \<le> length ([0, 3, 7, 8, 9] :: bytes)"
  by (rule decode_data_resp_stable)
    (simp add: decode_l3_data_resp_body_def data_resp_layout_of_def classify_data_resp_prefix_def
      u16_from_be_def MAX_LENGTH_PREFIXED_DATA_RESP_def slice_def Let_def)

text \<open>
  round trip of the token-framed layout. For a token of at least 17 bytes whose second byte
  does not look like an IP version, the body of an encoded data frame parses back to its
  packets, and the response decoder recognises it as token framed, returns the packets and
  consumes exactly the frame whatever follows.
\<close>

theorem token_framed_roundtrip:
  assumes "encode_l3_data_req token packets = Inr frame" and "17 \<le> length token"
    and "drop_bit 4 (token ! 1) \<noteq> 4" and "drop_bit 4 (token ! 1) \<noteq> 6"
  shows "parse_l3_token_data_body (drop 2 frame) = Inr packets
    \<and> decode_l3_data_resp_body (drop 2 frame @ rest) = Inr (TokenFramed packets, length frame - 2)"
proof -
  from assms(1) have e: "length token < 256" "length packets < 256" "\<forall>p \<in> set packets. length p < 65536"
    "drop 2 frame = token_body token packets" "length frame - 2 = length (token_body token packets)"
    by (auto simp: encode_l3_data_req_Inr)
  have "(token_body token packets @ rest) ! 2 = token ! 1"
    using assms(2) by (simp add: token_body_def nth_append numeral_eq_Suc)
  then have "data_resp_layout_of (token_body token packets @ rest) = Inr LayoutTokenFramed"
    using assms(2-4) e(1) by (intro layout_token_body large_check_not_ip) (auto simp: token_body_def)
  then show ?thesis
    using decode_token_body [OF _ e(1-3)] token_body_loops(2) [OF e(1-3), of "[]"] e(4,5) by simp
qed

theorem token_framed_roundtrip_witness:
  "parse_l3_token_data_body (drop 2 ([5, 0x14, 17] @ replicate 17 0x30 @ [0, 0, 1, 0, 2, 7, 8])) = Inr [[7, 8]]
    \<and> decode_l3_data_resp_body (drop 2 ([5, 0x14, 17] @ replicate 17 0x30 @ [0, 0, 1, 0, 2, 7, 8]) @ [9])
      = Inr (TokenFramed [[7, 8]], length ([5, 0x14, 17] @ replicate 17 0x30 @ [0, 0, 1, 0, 2, 7, 8] :: bytes) - 2)"
  by (rule token_framed_roundtrip [of "replicate 17 0x30"])
    (simp_all add: encode_l3_data_req_Inr token_body_def encode_packets_def u16_to_be_def L3_VERSION_def DATA_REQ_def)

text \<open>
  round trip of the length-prefixed layout: a response encoded for a packet of at most 4096
  bytes decodes to that packet and consumes exactly the frame whatever follows.
\<close>

theorem length_prefixed_roundtrip:
  assumes "encode_l3_data_resp_length_prefixed packet = Inr frame" and "length packet \<le> 4096"
  shows "decode_l3_data_resp_frame (frame @ rest) = Inr (LengthPrefixed packet, length frame)"
proof -
  from assms(1) have f: "packet \<noteq> []" "length packet < 65536"
    "frame = [L3_VERSION, DATA_RESP] @ u16_to_be (word_of_nat (length packet)) @ packet"
    by (auto simp: encode_l3_data_resp_length_prefixed_def split: if_splits)
  have "data_resp_layout_of (u16_to_be (word_of_nat (length packet)) @ packet @ rest)
      = Inr (LayoutLengthPrefixed (word_of_nat (length packet)))"
    using f(1) assms(2) by (intro length_prefixed_layout) simp_all
  from decode_length_prefixed [OF this f(2)] f(3) show ?thesis
    by (simp add: decode_l3_data_resp_frame_def)
qed

theorem length_prefixed_roundtrip_witness:
  "decode_l3_data_resp_frame ([5, 0x94, 0, 2, 7, 8] @ [1]) = Inr (LengthPrefixed [7, 8], length ([5, 0x94, 0, 2, 7, 8] :: bytes))"
  by (rule length_prefixed_roundtrip)
    (simp_all add: encode_l3_data_resp_length_prefixed_def u16_to_be_def L3_VERSION_def DATA_RESP_def)

text \<open>
  the data response decoder never rejects a body: it returns packets, or asks for more
  input and reports how many bytes it has.
\<close>

theorem decode_data_resp_never_rejects:
  "(\<exists>packets n. decode_l3_data_resp_body body = Inr (packets, n))
   \<or> (\<exists>k. decode_l3_data_resp_body body = Inl (Truncated k (length body)))"
  using decode_body_truncated [of body] by (cases "decode_l3_data_resp_body body") auto

end
