(* ===== verification/Flow_Auth.thy ===== *)
theory Flow_Auth
  imports Conntrack L3_Frame
begin

text \<open>
  \<open>crates/atrust-l3/src/auth.rs\<close>: building the \<open>0x13\<close> request of a flow and applying the
  \<open>0x93\<close> reply to the conntrack table.
\<close>

section \<open>Definitions\<close>

datatype auth_wire_disposition = Settled | RetryImmediate | RetryDelayed byte | Terminal byte

definition classify_auth_wire_status :: "byte \<Rightarrow> auth_wire_disposition" where
  "classify_auth_wire_status status =
     (if status = 0 then Settled
      else if status = 0x84 then RetryImmediate
      else if 0x85 \<le> status \<and> status \<le> 0x87 then RetryDelayed status
      else Terminal status)"

record l3_auth_context =
  ac_sid :: string
  ac_device_id :: string
  ac_connection_id :: string
  ac_sign_key :: bytes
  ac_process :: process_identity
  ac_lang :: string
  ac_domain :: "string option"

datatype ('se, 'de) flow_auth_error =
    FaProtocol "('se, 'de) l3_auth_error"
  | FaFrame l3_frame_error
  | FaConntrack conntrack_error
  | MissingConntrackHash
  | WireStatus byte
  | AuthFailed string

definition flow_auth_params :: "l3_auth_context \<Rightarrow> string \<Rightarrow> u64 \<Rightarrow> l3_five_tuple \<Rightarrow> l3_auth_params" where
  "flow_auth_params ctx app_id auth_id five_tuple =
     \<lparr>ap_sid = ac_sid ctx, ap_app_id = app_id, ap_device_id = ac_device_id ctx,
      ap_connection_id = ac_connection_id ctx, ap_conntrack_hash = auth_id,
      ap_five_tuple = five_tuple, ap_process = ac_process ctx, ap_lang = ac_lang ctx\<rparr>"

definition build_flow_auth_frame ::
  "(bytes \<Rightarrow> bytes) \<Rightarrow> (bytes \<Rightarrow> bytes \<Rightarrow> bytes) \<Rightarrow> (l3_auth_wire \<Rightarrow> 'se + bytes) \<Rightarrow> l3_auth_context
    \<Rightarrow> string \<Rightarrow> u64 \<Rightarrow> l3_five_tuple \<Rightarrow> ('se, 'de) flow_auth_error + bytes" where
  "build_flow_auth_frame sha256 hmac to_vec ctx app_id auth_id five_tuple =
     (case build_signed_l3_auth_json_for_domain sha256 hmac to_vec
             (flow_auth_params ctx app_id auth_id five_tuple) (ac_sign_key ctx) (ac_domain ctx) of
        Inl e \<Rightarrow> Inl (FaProtocol e)
      | Inr json \<Rightarrow> (case encode_l3_auth_req json of Inl e \<Rightarrow> Inl (FaFrame e) | Inr f \<Rightarrow> Inr f))"

definition apply_auth_response_json ::
  "(bytes \<Rightarrow> 'de + l3_auth_response_wire) \<Rightarrow> bytes \<Rightarrow> conntrack_table
    \<Rightarrow> conntrack_table \<times> (('se, 'de) flow_auth_error + l3_auth_response)" where
  "apply_auth_response_json from_slice json t =
     (case parse_l3_auth_response from_slice json of
        Inl e \<Rightarrow> (t, Inl (FaProtocol e))
      | Inr resp \<Rightarrow>
          if ar_conntrack_hash resp = 0 then (t, Inl MissingConntrackHash)
          else (case mark_auth (ar_conntrack_hash resp) (ar_code resp) (ar_message resp)
                       (ar_connect_token resp) t of
                  (t', Inl e) \<Rightarrow> (t', Inl (FaConntrack e))
                | (t', Inr _) \<Rightarrow> (t', Inr resp)))"

text \<open>\<open>format!("auth status {status:#04x}")\<close>.\<close>

definition auth_status_message :: "byte \<Rightarrow> string" where
  "auth_status_message status = ''auth status 0x'' @ hex_byte False status"

definition apply_auth_wire_status ::
  "(bytes \<Rightarrow> 'de + l3_auth_response_wire) \<Rightarrow> byte \<Rightarrow> bytes \<Rightarrow> conntrack_table
    \<Rightarrow> conntrack_table \<times> (('se, 'de) flow_auth_error + u64)" where
  "apply_auth_wire_status from_slice status json t =
     (if classify_auth_wire_status status = Settled then
        (case apply_auth_response_json from_slice json t of
           (t', Inl e) \<Rightarrow> (t', Inl e)
         | (t', Inr resp) \<Rightarrow> (t', Inr (ar_conntrack_hash resp)))
      else case (parse_l3_auth_response from_slice json :: ('se, 'de) l3_auth_error + l3_auth_response) of
        Inl _ \<Rightarrow> (t, Inl (WireStatus status))
      | Inr resp \<Rightarrow>
          if ar_conntrack_hash resp \<noteq> 0 then
            (case mark_auth_error (ar_conntrack_hash resp) (auth_status_message status) t of
               (t', Inl e) \<Rightarrow> (t', Inl (FaConntrack e))
             | (t', Inr _) \<Rightarrow> (t', Inr (ar_conntrack_hash resp)))
          else (t, Inl (WireStatus status)))"

definition ready_token :: "auth_outcome \<Rightarrow> ('se, 'de) flow_auth_error + string" where
  "ready_token outcome = (case outcome of Ready tok \<Rightarrow> Inr tok | Failed m \<Rightarrow> Inl (AuthFailed m))"

section \<open>Properties\<close>

text \<open>What a reply settles: the verdict for the id it names, if it can be attributed.\<close>

definition reply_verdict :: "(bytes \<Rightarrow> 'de + l3_auth_response_wire) \<Rightarrow> byte \<Rightarrow> bytes \<Rightarrow> (u64 \<times> auth_outcome) option" where
  "reply_verdict from_slice status json =
     (case (parse_l3_auth_response from_slice json :: (unit, 'de) l3_auth_error + l3_auth_response) of
        Inl _ \<Rightarrow> None
      | Inr r \<Rightarrow>
          if ar_conntrack_hash r = 0 then None
          else Some (ar_conntrack_hash r,
            if status = 0 then auth_verdict (ar_code r) (ar_message r) (ar_connect_token r)
            else Failed (auth_status_message status)))"

lemma classify_settled [simp]: "classify_auth_wire_status status = Settled \<longleftrightarrow> status = 0"
  by (simp add: classify_auth_wire_status_def)

lemma parse_error_irrelevant:
  "(case (parse_l3_auth_response fs j :: ('a, 'de) l3_auth_error + l3_auth_response) of Inl _ \<Rightarrow> x | Inr r \<Rightarrow> f r)
   = (case (parse_l3_auth_response fs j :: ('b, 'de) l3_auth_error + l3_auth_response) of Inl _ \<Rightarrow> x | Inr r \<Rightarrow> f r)"
  by (simp add: parse_l3_auth_response_def split: sum.splits)

text \<open>
  The single effect of a reply on the table: the entry of the id is completed with the
  verdict; a reply without an attributable id, or for an id the table does not hold, changes
  nothing and is an error.
\<close>

lemma apply_auth_wire_status_eq:
  "fst (apply_auth_wire_status fs status json t :: _ \<times> (('se, 'de) flow_auth_error + u64)) =
     (case reply_verdict fs status json of
        Some (i, v) \<Rightarrow> (case get_by_auth_id t i of None \<Rightarrow> t | Some _ \<Rightarrow> update_by_auth_id i (complete v) t)
      | None \<Rightarrow> t)"
  by (cases "fs json")
    (auto simp: apply_auth_wire_status_def apply_auth_response_json_def reply_verdict_def
      parse_l3_auth_response_def mark_auth_def mark_auth_error_def split: option.splits)

lemma apply_auth_wire_status_Inr:
  "snd (apply_auth_wire_status fs status json t :: _ \<times> (('se, 'de) flow_auth_error + u64)) = Inr i \<longleftrightarrow>
     (\<exists>v. reply_verdict fs status json = Some (i, v) \<and> get_by_auth_id t i \<noteq> None)"
  by (cases "fs json")
    (auto simp: apply_auth_wire_status_def apply_auth_response_json_def reply_verdict_def
      parse_l3_auth_response_def mark_auth_def mark_auth_error_def split: option.splits)

lemma table_inv_apply [simp]:
  "table_inv t \<Longrightarrow> table_inv (fst (apply_auth_wire_status fs status json t :: _ \<times> (('se, 'de) flow_auth_error + u64)))"
  by (auto simp: apply_auth_wire_status_eq split: option.splits)

section \<open>Sequences of replies\<close>

text \<open>The reader applies replies in arrival order; each is the wire status and the JSON body.\<close>

definition apply_replies ::
  "(bytes \<Rightarrow> 'de + l3_auth_response_wire) \<Rightarrow> (byte \<times> bytes) list \<Rightarrow> conntrack_table \<Rightarrow> conntrack_table" where
  "apply_replies from_slice replies t =
     fold (\<lambda>(status, json) t. fst (apply_auth_wire_status from_slice status json t
       :: _ \<times> ((unit, 'de) flow_auth_error + u64))) replies t"

definition settles_of :: "(bytes \<Rightarrow> 'de + l3_auth_response_wire) \<Rightarrow> (byte \<times> bytes) list \<Rightarrow> (u64, auth_outcome) reply list" where
  "settles_of from_slice replies =
     concat (map (\<lambda>(status, json). case reply_verdict from_slice status json of
       None \<Rightarrow> [] | Some (i, v) \<Rightarrow> [Settle i v]) replies)"

lemma settle_absent_id: "table_inv t \<Longrightarrow> get_by_auth_id t i = None \<Longrightarrow> settle_id i v t = t"
  by (auto simp: settle_id_def update_by_auth_id_def get_by_auth_id_def split: option.splits)

lemma apply_replies_run:
  "table_inv t \<Longrightarrow> apply_replies fs replies t = run_replies settle_id discard_id (settles_of fs replies) t"
proof (induction replies arbitrary: t)
  case (Cons r replies)
  obtain status json where r: "r = (status, json)" by (cases r)
  let ?t = "fst (apply_auth_wire_status fs status json t :: _ \<times> ((unit, _) flow_auth_error + u64))"
  have "run_replies settle_id discard_id (settles_of fs (r # replies)) t
      = run_replies settle_id discard_id (settles_of fs replies) ?t"
    using Cons.prems settle_absent_id [OF Cons.prems]
    by (auto simp: r settles_of_def apply_auth_wire_status_eq settle_id_def split: option.splits)
  moreover have "apply_replies fs (r # replies) t = apply_replies fs replies ?t"
    by (simp add: r apply_replies_def)
  ultimately show ?case using Cons.IH [of ?t] Cons.prems by simp
qed (simp add: apply_replies_def settles_of_def)

text \<open>
  a late reply never revives an authorization. Once an id has been evicted from the table
  (on timeout, on a failed write, when its flow was replaced), no sequence of replies brings it
  back, whatever ids, codes and tokens they carry.
\<close>

theorem late_replies_never_revive:
  assumes "table_inv t"
  shows "get_by_auth_id (apply_replies fs replies (fst (evict_by_auth_id i t))) i = None"
proof -
  have "get_by_auth_id (fst (evict_by_auth_id i t)) i = None"
    using assms by (simp add: evict_by_auth_id_get)
  then show ?thesis
    using assms flows.no_revival [of "fst (evict_by_auth_id i t)" i "settles_of fs replies"]
    by (simp add: apply_replies_run)
qed

theorem late_replies_never_revive_witness:
  "get_by_auth_id (apply_replies (\<lambda>_. Inr \<lparr>rw_code = 0, rw_message = None,
       rw_data = \<lparr>rd_conntrack_hash = 1, rd_connect_token = Some ''tok'', rd_token = None\<rparr>\<rparr> :: unit + _)
     [(0, [])] (fst (evict_by_auth_id 1 sample_table))) 1 = None"
  using sample_table_inv by (rule late_replies_never_revive)

lemma reply_outcome:
  assumes "table_inv t" "get_by_auth_id t i = Some e"
  shows "\<exists>e1. get_by_auth_id (fst (apply_auth_wire_status fs status json t
      :: _ \<times> (('se, 'de) flow_auth_error + u64))) i = Some e1
    \<and> ce_outcome e1 = (case ce_outcome e of Some v \<Rightarrow> Some v
      | None \<Rightarrow> (case reply_verdict fs status json of Some (j, v) \<Rightarrow> if j = i then Some v else None | None \<Rightarrow> None))"
proof (cases "reply_verdict fs status json")
  case None
  then show ?thesis using assms by (auto simp: apply_auth_wire_status_eq split: option.splits)
next
  case (Some r)
  then show ?thesis
    using assms by (cases r) (auto simp: apply_auth_wire_status_eq update_by_auth_id_get split: option.splits)
qed

text \<open>
  the first verdict wins. An entry that has its verdict keeps exactly that verdict under
  every further sequence of replies; one that is still open takes the first verdict that names
  its id, and only that one.
\<close>

theorem first_reply_wins:
  assumes "table_inv t" and "get_by_auth_id t i = Some e"
  shows "\<exists>e'. get_by_auth_id (apply_replies fs replies t) i = Some e'
    \<and> ce_outcome e' =
        (case ce_outcome e of
           Some v \<Rightarrow> Some v
         | None \<Rightarrow> map_option snd (find (\<lambda>(j, v). j = i)
             (List.map_filter (\<lambda>(status, json). reply_verdict fs status json) replies)))"
  using assms
proof (induction replies arbitrary: t e)
  case (Cons r replies)
  obtain status json where r: "r = (status, json)" by (cases r)
  let ?t = "fst (apply_auth_wire_status fs status json t :: _ \<times> ((unit, _) flow_auth_error + u64))"
  have step: "apply_replies fs (r # replies) t = apply_replies fs replies ?t"
    by (simp add: r apply_replies_def)
  obtain e1 where e1: "get_by_auth_id ?t i = Some e1"
    and o1: "ce_outcome e1 = (case ce_outcome e of Some v \<Rightarrow> Some v
      | None \<Rightarrow> (case reply_verdict fs status json of Some (j, v) \<Rightarrow> if j = i then Some v else None | None \<Rightarrow> None))"
    using reply_outcome [OF Cons.prems] by blast
  from Cons.IH [OF table_inv_apply [OF Cons.prems(1)] e1] show ?case
    unfolding step o1 by (cases "ce_outcome e"; cases "reply_verdict fs status json")
      (auto simp: r map_filter_simps)
qed (simp add: apply_replies_def map_filter_simps split: option.splits)

theorem first_reply_wins_witness:
  "\<exists>e'. get_by_auth_id (apply_replies (\<lambda>j. Inr \<lparr>rw_code = (if j = [] then 7 else 0), rw_message = None,
       rw_data = \<lparr>rd_conntrack_hash = 1, rd_connect_token = None, rd_token = None\<rparr>\<rparr> :: unit + _)
     [(0, []), (0, [1])] sample_table) 1 = Some e' \<and> ce_outcome e' = Some (Failed (''auth failed: '' @ int_string 7))"
proof -
  let ?fs = "\<lambda>j. Inr \<lparr>rw_code = (if j = [] then 7 else 0), rw_message = None,
       rw_data = \<lparr>rd_conntrack_hash = 1, rd_connect_token = None, rd_token = None\<rparr>\<rparr>
     :: unit + l3_auth_response_wire"
  have g: "get_by_auth_id sample_table 1 = Some (new_entry (sample_key 7) 1 ''app'' ''grp'' 0)"
    by (simp add: sample_table_eq get_by_auth_id_def)
  have "reply_verdict ?fs 0 [] = Some (1, Failed (''auth failed: '' @ int_string 7))"
    "reply_verdict ?fs 0 [1] = Some (1, Failed ''missing connect token'')"
    by (simp_all add: reply_verdict_def parse_l3_auth_response_def trimmed_nonempty_def auth_verdict_def)
  with first_reply_wins [OF sample_table_inv g, of ?fs "[(0, []), (0, [1])]"] show ?thesis
    by (simp add: new_entry_def map_filter_simps)
qed

end
