(* ===== verification/Get_Ip.thy ===== *)
theory Get_Ip
  imports L3_Frame
begin

text \<open>
  \<open>crates/atrust-l3/src/get_ip.rs\<close>: the SID-only exchange that assigns the virtual IPv4.
  The stream is what the peer sends before it closes the connection; \<open>read_exact\<close> fails at
  its end. Serialization of the request is a parameter. Timeouts, TLS and the diagnostic read
  after an unexpected header (which cannot change the result) are not part of the model.
\<close>

section \<open>Definitions\<close>

datatype 'se get_ipv4_error =
    GetIpTimeout | GetIpTls | GetIpIo | GetIpJson 'se | RequestTooLarge | ResponseTooLarge nat
  | GetIpProtocolRejected byte | GetIpUnexpectedHeader byte byte | TooManyResponseFrames
  | AddressRejected byte | UnsupportedAddressType byte

record get_ipv4_response =
  gr_address :: ipv4
  gr_address_type :: byte
  gr_vip_data :: bytes
  gr_status_bodies :: "bytes list"

definition MAX_PROTOCOL_RESPONSE :: nat where "MAX_PROTOCOL_RESPONSE = 64 * 1024"
definition MAX_RESPONSE_FRAMES :: nat where "MAX_RESPONSE_FRAMES = 8"

definition read_exact :: "nat \<Rightarrow> bytes \<Rightarrow> (bytes \<times> bytes) option" where
  "read_exact n inp = (if n \<le> length inp then Some (take n inp, drop n inp) else None)"

definition read_u16 :: "bytes \<Rightarrow> (u16 \<times> bytes) option" where
  "read_u16 inp = map_option (\<lambda>(b, r). (u16_from_be (b ! 0) (b ! 1), r)) (read_exact 2 inp)"

definition vip_payload_length :: "byte \<Rightarrow> nat" where
  "vip_payload_length address_type =
     (if address_type = 1 then 6 else if address_type = 4 then 18
      else if address_type = 5 then 22 else 4)"

definition ipv4_from_vip_data :: "byte \<Rightarrow> bytes \<Rightarrow> ipv4 option" where
  "ipv4_from_vip_data address_type vip_data =
     (if (address_type = 1 \<or> address_type = 5) \<and> 4 \<le> length vip_data
      then Some (Ipv4 (vip_data ! 0) (vip_data ! 1) (vip_data ! 2) (vip_data ! 3)) else None)"

text \<open>The \<open>05 00\<close> branch: status, address type, then a body whose size the type decides.\<close>

definition read_vip_reply :: "bytes list \<Rightarrow> bytes \<Rightarrow> 'se get_ipv4_error + get_ipv4_response \<times> bytes" where
  "read_vip_reply status_bodies inp =
     (case read_exact 2 inp of
        None \<Rightarrow> Inl GetIpIo
      | Some (tail, inp1) \<Rightarrow>
          if tail ! 0 \<noteq> 0 then Inl (AddressRejected (tail ! 0))
          else case read_exact (vip_payload_length (tail ! 1)) inp1 of
            None \<Rightarrow> Inl GetIpIo
          | Some (vip_data, inp2) \<Rightarrow>
              (case ipv4_from_vip_data (tail ! 1) vip_data of
                 None \<Rightarrow> Inl (UnsupportedAddressType (tail ! 1))
               | Some address \<Rightarrow>
                   Inr (\<lparr>gr_address = address, gr_address_type = tail ! 1, gr_vip_data = vip_data,
                         gr_status_bodies = status_bodies\<rparr>, inp2)))"

text \<open>The loop over at most \<open>MAX_RESPONSE_FRAMES\<close> two-byte headers.\<close>

fun get_ip_loop :: "nat \<Rightarrow> bytes list \<Rightarrow> bytes \<Rightarrow> 'se get_ipv4_error + get_ipv4_response \<times> bytes" where
  "get_ip_loop 0 status_bodies inp = Inl TooManyResponseFrames"
| "get_ip_loop (Suc budget) status_bodies inp =
     (case read_exact 2 inp of
        None \<Rightarrow> Inl GetIpIo
      | Some (header, inp1) \<Rightarrow>
          if header = [0x05, 0xd0] then get_ip_loop budget status_bodies inp1
          else if header ! 0 = 0x53 then
            (if header ! 1 \<noteq> 0 then Inl (GetIpProtocolRejected (header ! 1))
             else case read_u16 inp1 of
               None \<Rightarrow> Inl GetIpIo
             | Some (response_len, inp2) \<Rightarrow>
                 if MAX_PROTOCOL_RESPONSE < unat response_len
                 then Inl (ResponseTooLarge (unat response_len))
                 else case read_exact (unat response_len) inp2 of
                   None \<Rightarrow> Inl GetIpIo
                 | Some (response, inp3) \<Rightarrow> get_ip_loop budget (status_bodies @ [response]) inp3)
          else if header = [0x05, 0x00] then read_vip_reply status_bodies inp1
          else Inl (GetIpUnexpectedHeader (header ! 0) (header ! 1)))"

text \<open>The request: the SID object in an init frame, then the address request.\<close>

definition get_ip_request :: "bytes \<Rightarrow> bytes option" where
  "get_ip_request json =
     (case u16_try_from (length json) of
        None \<Rightarrow> None
      | Some json_len \<Rightarrow>
          Some ([0x05, 0x01, 0xd0, 0x53, 0x00] @ u16_to_be json_len @ json
                @ [0x05, 0x04, 0x00, 0x01, 0x00, 0x00, 0x00, 0x00, 0x00, 0x00]))"

definition request_ipv4 ::
  "(string \<Rightarrow> 'se + bytes) \<Rightarrow> bool \<Rightarrow> string \<Rightarrow> bytes
    \<Rightarrow> bytes \<times> ('se get_ipv4_error + get_ipv4_response \<times> bytes)" where
  "request_ipv4 to_vec write_ok sid inp =
     (case to_vec sid of
        Inl e \<Rightarrow> ([], Inl (GetIpJson e))
      | Inr json \<Rightarrow>
          (case get_ip_request json of
             None \<Rightarrow> ([], Inl RequestTooLarge)
           | Some req \<Rightarrow>
               if write_ok then (req, get_ip_loop MAX_RESPONSE_FRAMES [] inp)
               else ([], Inl GetIpIo)))"

section \<open>Properties\<close>

text \<open>What a conforming node sends before the address: method acks and status bodies.\<close>

datatype node_frame = MethodAck | StatusBody bytes

fun node_frame_bytes :: "node_frame \<Rightarrow> bytes" where
  "node_frame_bytes MethodAck = [0x05, 0xd0]"
| "node_frame_bytes (StatusBody b) = [0x53, 0x00] @ u16_to_be (word_of_nat (length b)) @ b"

fun node_frame_ok :: "node_frame \<Rightarrow> bool" where
  "node_frame_ok MethodAck = True"
| "node_frame_ok (StatusBody b) = (length b < 65536)"

fun status_of :: "node_frame \<Rightarrow> bytes list" where
  "status_of MethodAck = []"
| "status_of (StatusBody b) = [b]"

lemma read_exact_append [simp]: "length a = n \<Longrightarrow> read_exact n (a @ b) = Some (a, b)"
  by (auto simp: read_exact_def)

lemma read_exact_two [simp]: "read_exact 2 (x # y # r) = Some ([x, y], r)"
  by (simp add: read_exact_def)

lemma read_u16_append [simp]: "read_u16 (u16_to_be w @ r) = Some (w, r)"
  using read_exact_append [of "u16_to_be w" 2 r] u16_to_be_nth [of w] by (simp add: read_u16_def)

lemma loop_node_frame:
  assumes "node_frame_ok f"
  shows "get_ip_loop (Suc budget) ss (node_frame_bytes f @ rest) = get_ip_loop budget (ss @ status_of f) rest"
proof (cases f)
  case (StatusBody b)
  have "length b \<le> MAX_PROTOCOL_RESPONSE" using assms StatusBody by (simp add: MAX_PROTOCOL_RESPONSE_def)
  then show ?thesis using assms StatusBody by simp
qed simp

lemma loop_node_frames:
  assumes "\<forall>f \<in> set fs. node_frame_ok f"
  shows "(get_ip_loop (length fs + budget) ss (concat (map node_frame_bytes fs) @ rest) :: 'se get_ipv4_error + get_ipv4_response \<times> bytes)
    = get_ip_loop budget (ss @ concat (map status_of fs)) rest"
  using assms
proof (induction fs arbitrary: ss)
  case (Cons f fs)
  have "(get_ip_loop (length (f # fs) + budget) ss (concat (map node_frame_bytes (f # fs)) @ rest) :: 'se get_ipv4_error + get_ipv4_response \<times> bytes)
      = get_ip_loop (Suc (length fs + budget)) ss (node_frame_bytes f @ (concat (map node_frame_bytes fs) @ rest))"
    by simp
  also have "\<dots> = get_ip_loop (length fs + budget) (ss @ status_of f) (concat (map node_frame_bytes fs) @ rest)"
    using Cons.prems by (intro loop_node_frame) simp
  also have "\<dots> = get_ip_loop budget ((ss @ status_of f) @ concat (map status_of fs)) rest"
    using Cons.prems by (intro Cons.IH) simp
  finally show ?case by (simp del: get_ip_loop.simps)
qed simp

lemma vip_reply_ok:
  assumes "at = 1 \<or> at = 5" "length vip = vip_payload_length at" "take 4 vip = octets ip"
  shows "read_vip_reply ss (0 # at # vip @ rest) =
    Inr (\<lparr>gr_address = ip, gr_address_type = at, gr_vip_data = vip, gr_status_bodies = ss\<rparr>, rest)"
proof -
  have l: "4 \<le> length vip" using assms(1,2) by (auto simp: vip_payload_length_def)
  obtain a b c d where ip: "ip = Ipv4 a b c d" by (cases ip)
  have "vip ! i = take 4 vip ! i" if "i < 4" for i using that by simp
  then have "vip ! 0 = a" "vip ! Suc 0 = b" "vip ! 2 = c" "vip ! 3 = d"
    using assms(3) ip by simp_all
  then show ?thesis using assms(1,2) l ip by (auto simp: read_vip_reply_def ipv4_from_vip_data_def)
qed

lemma loop_never_too_large: "get_ip_loop n ss inp \<noteq> Inl (ResponseTooLarge k)"
proof (induction n ss inp rule: get_ip_loop.induct)
  case (2 n ss inp)
  have "\<not> MAX_PROTOCOL_RESPONSE < unat (w :: u16)" for w
    using unat_u16_less [of w] unfolding MAX_PROTOCOL_RESPONSE_def by linarith
  with 2 show ?case
    by (auto simp: read_vip_reply_def split: option.splits)
qed simp

text \<open>A success consumes a prefix, and the response is one the address type allows.\<close>

lemma read_exact_Some: "read_exact n inp = Some (a, r) \<longleftrightarrow> inp = a @ r \<and> length a = n"
  by (auto simp: read_exact_def)

lemma read_u16_Some: "read_u16 inp = Some (w, r) \<longleftrightarrow> inp = u16_to_be w @ r"
proof
  assume "read_u16 inp = Some (w, r)"
  then obtain b where b: "inp = b @ r" "length b = 2" "w = u16_from_be (b ! 0) (b ! 1)"
    by (auto simp: read_u16_def read_exact_Some)
  then obtain x y where "b = [x, y]" by (auto simp: length_Suc_conv numeral_eq_Suc)
  with b show "inp = u16_to_be w @ r" by (simp add: u16_to_from_be)
qed simp

lemma loop_sound:
  assumes "get_ip_loop n ss inp = (Inr (resp, rest) :: 'se get_ipv4_error + get_ipv4_response \<times> bytes)"
  shows "\<exists>fs. length fs < n \<and> (\<forall>f \<in> set fs. node_frame_ok f)
    \<and> inp = concat (map node_frame_bytes fs) @ [0x05, 0x00, 0x00, gr_address_type resp] @ gr_vip_data resp @ rest
    \<and> (gr_address_type resp = 1 \<or> gr_address_type resp = 5)
    \<and> length (gr_vip_data resp) = vip_payload_length (gr_address_type resp)
    \<and> take 4 (gr_vip_data resp) = octets (gr_address resp)
    \<and> gr_status_bodies resp = ss @ concat (map status_of fs)"
  using assms
proof (induction n ss inp rule: get_ip_loop.induct)
  case (2 n ss inp)
  from "2.prems" obtain h inp1 where h: "inp = h @ inp1" "length h = 2" and rd: "read_exact 2 inp = Some (h, inp1)"
    by (auto simp: read_exact_Some split: option.splits)
  then obtain h0 h1 where hh: "h = [h0, h1]" by (auto simp: length_Suc_conv numeral_eq_Suc)
  consider (ack) "h = [0x05, 0xd0]" | (status) "h0 = 0x53" "h1 = 0" | (vip) "h = [0x05, 0x00]"
    using "2.prems" rd hh by (auto split: if_splits)
  then show ?case
  proof cases
    case ack
    then have "get_ip_loop n ss inp1 = (Inr (resp, rest) :: 'se get_ipv4_error + get_ipv4_response \<times> bytes)" using "2.prems" rd by simp
    from "2.IH"(1) [OF rd refl ack this] obtain fs where fs: "length fs < n" "\<forall>f \<in> set fs. node_frame_ok f"
      "inp1 = concat (map node_frame_bytes fs) @ [0x05, 0x00, 0x00, gr_address_type resp] @ gr_vip_data resp @ rest"
      "gr_address_type resp = 1 \<or> gr_address_type resp = 5"
      "length (gr_vip_data resp) = vip_payload_length (gr_address_type resp)"
      "take 4 (gr_vip_data resp) = octets (gr_address resp)"
      "gr_status_bodies resp = ss @ concat (map status_of fs)" by blast
    show ?thesis by (rule exI [of _ "MethodAck # fs"]) (use fs h ack in simp)
  next
    case status
    with "2.prems" rd hh obtain w inp2 b inp3 where st: "read_u16 inp1 = Some (w, inp2)"
      "\<not> MAX_PROTOCOL_RESPONSE < unat w" "read_exact (unat w) inp2 = Some (b, inp3)"
      "get_ip_loop n (ss @ [b]) inp3 = (Inr (resp, rest) :: 'se get_ipv4_error + get_ipv4_response \<times> bytes)"
      by (auto split: option.splits if_splits)
    from "2.IH"(2) [OF rd refl _ _ _ st(1) refl st(2) st(3) refl st(4)] status hh obtain fs where
      fs: "length fs < n" "\<forall>f \<in> set fs. node_frame_ok f"
      "inp3 = concat (map node_frame_bytes fs) @ [0x05, 0x00, 0x00, gr_address_type resp] @ gr_vip_data resp @ rest"
      "gr_address_type resp = 1 \<or> gr_address_type resp = 5"
      "length (gr_vip_data resp) = vip_payload_length (gr_address_type resp)"
      "take 4 (gr_vip_data resp) = octets (gr_address resp)"
      "gr_status_bodies resp = (ss @ [b]) @ concat (map status_of fs)" by auto
    have "length b = unat w" "inp1 = u16_to_be w @ b @ inp3"
      using st(1,3) by (simp_all add: read_u16_Some read_exact_Some)
    then show ?thesis
      by (intro exI [of _ "StatusBody b # fs"]) (use fs h hh status in simp)
  next
    case vip
    then have "read_vip_reply ss inp1 = (Inr (resp, rest) :: 'se get_ipv4_error + get_ipv4_response \<times> bytes)" using "2.prems" rd by simp
    then obtain t inp2 v where v: "read_exact 2 inp1 = Some (t, inp2)" "t ! 0 = 0"
      "read_exact (vip_payload_length (t ! 1)) inp2 = Some (v, rest)"
      "ipv4_from_vip_data (t ! 1) v = Some (gr_address resp)" "gr_address_type resp = t ! 1"
      "gr_vip_data resp = v" "gr_status_bodies resp = ss"
      by (auto simp: read_vip_reply_def split: option.splits if_splits)
    obtain t1 where t: "t = [0, t1]" using v(1,2) by (auto simp: read_exact_Some length_Suc_conv numeral_eq_Suc)
    have ip: "gr_address resp = Ipv4 (v ! 0) (v ! 1) (v ! 2) (v ! 3)" "4 \<le> length v" "t1 = 1 \<or> t1 = 5"
      using v(4) t by (auto simp: ipv4_from_vip_data_def split: if_splits)
    have "take 4 v = octets (gr_address resp)"
      using ip by (simp add: take4_nth)
    with v t ip h vip show ?thesis
      by (intro exI [of _ "[]"]) (auto simp: read_exact_Some)
  qed
qed simp

section \<open>Correctness\<close>

text \<open>
  the virtual address exchange against a conforming node. If the node answers with at most
  seven acknowledgements and status bodies and then an address reply of a supported type, the
  client obtains that address with the status bodies in order and consumes the stream exactly
  up to the end of the reply, so that the session starts at the right byte.
\<close>

theorem get_ip_exchange_completes:
  assumes "to_vec sid = Inr json" and "length json < 65536"
    and "length fs < MAX_RESPONSE_FRAMES" and "\<forall>f \<in> set fs. node_frame_ok f"
    and "at = 1 \<or> at = 5" and "length vip = vip_payload_length at" and "take 4 vip = octets ip"
  shows "request_ipv4 to_vec True sid
      (concat (map node_frame_bytes fs) @ [0x05, 0x00, 0x00, at] @ vip @ rest)
    = ([0x05, 0x01, 0xd0, 0x53, 0x00] @ u16_to_be (word_of_nat (length json)) @ json
         @ [0x05, 0x04, 0x00, 0x01, 0x00, 0x00, 0x00, 0x00, 0x00, 0x00],
       Inr (\<lparr>gr_address = ip, gr_address_type = at, gr_vip_data = vip,
             gr_status_bodies = concat (map status_of fs)\<rparr>, rest))"
proof -
  obtain b where b: "MAX_RESPONSE_FRAMES = length fs + Suc b"
    using assms(3) less_imp_Suc_add by auto
  have "get_ip_loop MAX_RESPONSE_FRAMES [] (concat (map node_frame_bytes fs) @ [0x05, 0x00, 0x00, at] @ vip @ rest)
    = get_ip_loop (Suc b) (concat (map status_of fs)) ([0x05, 0x00, 0x00, at] @ vip @ rest)"
    unfolding b by (simp only: loop_node_frames [OF assms(4)]) simp
  also have "\<dots> = Inr (\<lparr>gr_address = ip, gr_address_type = at, gr_vip_data = vip,
      gr_status_bodies = concat (map status_of fs)\<rparr>, rest)"
    using vip_reply_ok [OF assms(5-7)] by simp
  finally show ?thesis
    using assms(1,2) by (simp add: request_ipv4_def get_ip_request_def u16_try_from_def)
qed

theorem get_ip_exchange_completes_witness:
  "request_ipv4 (\<lambda>s. Inr (as_bytes s) :: unit + bytes) True ''s''
      (concat (map node_frame_bytes [MethodAck, StatusBody [7]]) @ [0x05, 0x00, 0x00, 1] @ [10, 0, 0, 1, 0, 0] @ [99])
    = ([0x05, 0x01, 0xd0, 0x53, 0x00] @ u16_to_be (word_of_nat (length (as_bytes ''s''))) @ as_bytes ''s''
         @ [0x05, 0x04, 0x00, 0x01, 0x00, 0x00, 0x00, 0x00, 0x00, 0x00],
       Inr (\<lparr>gr_address = Ipv4 10 0 0 1, gr_address_type = 1, gr_vip_data = [10, 0, 0, 1, 0, 0],
             gr_status_bodies = concat (map status_of [MethodAck, StatusBody [7]])\<rparr>, [99]))"
  by (rule get_ip_exchange_completes) (simp_all add: MAX_RESPONSE_FRAMES_def vip_payload_length_def)

text \<open>
  what a successful exchange proves about the stream. An address is only ever taken from a
  reply that follows at most seven well-formed acknowledgements and status bodies, has status
  zero and a supported type; its bytes are the first four of the payload whose length the type
  decides, and what the client leaves unread is what follows the reply. Moreover the
  \<open>ResponseTooLarge\<close> error is never returned, since a 16-bit length cannot exceed the bound.
\<close>

theorem get_ip_exchange_sound:
  fixes to_vec :: "string \<Rightarrow> 'se + bytes"
  shows "(request_ipv4 to_vec ok sid inp = (out, Inr (resp, rest)) \<longrightarrow>
     (\<exists>fs. length fs < MAX_RESPONSE_FRAMES \<and> (\<forall>f \<in> set fs. node_frame_ok f)
       \<and> inp = concat (map node_frame_bytes fs)
               @ [0x05, 0x00, 0x00, gr_address_type resp] @ gr_vip_data resp @ rest
       \<and> (gr_address_type resp = 1 \<or> gr_address_type resp = 5)
       \<and> length (gr_vip_data resp) = vip_payload_length (gr_address_type resp)
       \<and> take 4 (gr_vip_data resp) = octets (gr_address resp)
       \<and> gr_status_bodies resp = concat (map status_of fs)))
   \<and> snd (request_ipv4 to_vec ok sid inp) \<noteq> Inl (ResponseTooLarge k)"
proof (intro conjI impI)
  assume "request_ipv4 to_vec ok sid inp = (out, Inr (resp, rest))"
  then have "get_ip_loop MAX_RESPONSE_FRAMES [] inp = (Inr (resp, rest) :: 'se get_ipv4_error + _)"
    by (auto simp: request_ipv4_def split: sum.splits option.splits if_splits)
  from loop_sound [OF this]
  show "\<exists>fs. length fs < MAX_RESPONSE_FRAMES \<and> (\<forall>f \<in> set fs. node_frame_ok f)
       \<and> inp = concat (map node_frame_bytes fs)
               @ [0x05, 0x00, 0x00, gr_address_type resp] @ gr_vip_data resp @ rest
       \<and> (gr_address_type resp = 1 \<or> gr_address_type resp = 5)
       \<and> length (gr_vip_data resp) = vip_payload_length (gr_address_type resp)
       \<and> take 4 (gr_vip_data resp) = octets (gr_address resp)
       \<and> gr_status_bodies resp = concat (map status_of fs)" by simp
next
  show "snd (request_ipv4 to_vec ok sid inp) \<noteq> Inl (ResponseTooLarge k)"
    using loop_never_too_large [of MAX_RESPONSE_FRAMES "[]" inp k]
    by (auto simp: request_ipv4_def split: sum.splits option.splits)
qed

theorem get_ip_exchange_sound_witness:
  "snd (request_ipv4 (\<lambda>s. Inr (as_bytes s) :: unit + bytes) True ''s'' [0x53, 0, 0xff, 0xff, 1])
     \<noteq> Inl (ResponseTooLarge 65535)
   \<and> (\<exists>fs. length fs < MAX_RESPONSE_FRAMES \<and> (\<forall>f \<in> set fs. node_frame_ok f)
       \<and> [0x05, 0xd0, 0x05, 0x00, 0x00, 1, 10, 0, 0, 1, 0, 0, 99]
         = concat (map node_frame_bytes fs) @ [0x05, 0x00, 0x00, 1] @ [10, 0, 0, 1, 0, 0] @ [99])"
proof -
  obtain b where frames: "MAX_RESPONSE_FRAMES = Suc (Suc b)"
    by (simp add: MAX_RESPONSE_FRAMES_def numeral_eq_Suc)
  have "request_ipv4 (\<lambda>s. Inr (as_bytes s) :: unit + bytes) True ''s'' [0x05, 0xd0, 0x05, 0x00, 0x00, 1, 10, 0, 0, 1, 0, 0, 99]
    = (fst (request_ipv4 (\<lambda>s. Inr (as_bytes s) :: unit + bytes) True ''s'' [0x05, 0xd0, 0x05, 0x00, 0x00, 1, 10, 0, 0, 1, 0, 0, 99]),
       Inr (\<lparr>gr_address = Ipv4 10 0 0 1, gr_address_type = 1, gr_vip_data = [10, 0, 0, 1, 0, 0],
         gr_status_bodies = []\<rparr>, [99]))"
    by (simp add: request_ipv4_def get_ip_request_def u16_try_from_def frames
        read_vip_reply_def read_exact_def vip_payload_length_def ipv4_from_vip_data_def)
  with get_ip_exchange_sound [of "\<lambda>s. Inr (as_bytes s) :: unit + bytes" True "''s''"] show ?thesis by fastforce
qed

end
