(* ===== verification/Events.thy ===== *)
theory Events
  imports Prelude
begin

text \<open>
  \<open>crates/hermes-events/src/lib.rs\<close>: the events the runtime publishes, their slugs and their
  severities. The bus is a thin wrapper around tokio's broadcast channel and is not modelled; a
  component that publishes keeps its events as a list.
\<close>

datatype l3_data_layout = LdLengthPrefixed | LdTokenFramed

primrec layout_as_str :: "l3_data_layout \<Rightarrow> string" where
  "layout_as_str LdLengthPrefixed = ''length_prefixed''"
| "layout_as_str LdTokenFramed = ''token_framed''"

datatype event_severity = EvInfo | EvWarning | EvFinding

datatype hermes_event =
    L3SessionEstablished string string u16 ipv4
  | L3VipChanged string ipv4 ipv4
  | L3SessionClosed string string
  | L3Reconnecting string string nat
  | L3EndpointFailed string string u16 string
  | L3FlowAuthorized string string string nat
  | L3FlowRejected string string string string
  | L3ConnectTokenAmbiguous nat nat
  | L3UnknownCommand byte
  | L3DataLayoutObserved l3_data_layout nat
  | L3PacketsDropped u64
  | L3ConntrackPressure nat nat nat
  | TcpTunnelOpened string string u16 string string
  | TcpDialFailed string string u16 string string
  | ResourcePublished u64 nat nat nat
  | ResourceRefreshFailed u64 u32 string
  | SessionInvalidated string
  | SessionReplaced
  | NodeEndpointsUpdated string nat
  | NodeGroupRetired string

primrec event_kind :: "hermes_event \<Rightarrow> string" where
  "event_kind (L3SessionEstablished a b c d) = ''l3.session_established''"
| "event_kind (L3VipChanged a b c) = ''l3.vip_changed''"
| "event_kind (L3SessionClosed a b) = ''l3.session_closed''"
| "event_kind (L3Reconnecting a b c) = ''l3.reconnecting''"
| "event_kind (L3EndpointFailed a b c d) = ''l3.endpoint_failed''"
| "event_kind (L3FlowAuthorized a b c d) = ''l3.flow_authorized''"
| "event_kind (L3FlowRejected a b c d) = ''l3.flow_rejected''"
| "event_kind (L3ConnectTokenAmbiguous a b) = ''l3.connect_token_ambiguous''"
| "event_kind (L3UnknownCommand a) = ''l3.unknown_command''"
| "event_kind (L3DataLayoutObserved a b) = ''l3.data_layout_observed''"
| "event_kind (L3PacketsDropped a) = ''l3.packets_dropped''"
| "event_kind (L3ConntrackPressure a b c) = ''l3.conntrack_pressure''"
| "event_kind (TcpTunnelOpened a b c d e) = ''tcp.tunnel_opened''"
| "event_kind (TcpDialFailed a b c d e) = ''tcp.dial_failed''"
| "event_kind (ResourcePublished a b c d) = ''resource.published''"
| "event_kind (ResourceRefreshFailed a b c) = ''resource.refresh_failed''"
| "event_kind (SessionInvalidated a) = ''session.invalidated''"
| "event_kind SessionReplaced = ''session.replaced''"
| "event_kind (NodeEndpointsUpdated a b) = ''node.endpoints_updated''"
| "event_kind (NodeGroupRetired a) = ''node.group_retired''"

primrec event_severity_of :: "hermes_event \<Rightarrow> event_severity" where
  "event_severity_of (L3SessionEstablished a b c d) = EvInfo"
| "event_severity_of (L3VipChanged a b c) = EvWarning"
| "event_severity_of (L3SessionClosed a b) = EvWarning"
| "event_severity_of (L3Reconnecting a b c) = EvWarning"
| "event_severity_of (L3EndpointFailed a b c d) = EvWarning"
| "event_severity_of (L3FlowAuthorized a b c d) = EvInfo"
| "event_severity_of (L3FlowRejected a b c d) = EvWarning"
| "event_severity_of (L3ConnectTokenAmbiguous a b) = EvFinding"
| "event_severity_of (L3UnknownCommand a) = EvFinding"
| "event_severity_of (L3DataLayoutObserved a b) = EvFinding"
| "event_severity_of (L3PacketsDropped a) = EvWarning"
| "event_severity_of (L3ConntrackPressure a b c) = EvWarning"
| "event_severity_of (TcpTunnelOpened a b c d e) = EvInfo"
| "event_severity_of (TcpDialFailed a b c d e) = EvWarning"
| "event_severity_of (ResourcePublished a b c d) = EvInfo"
| "event_severity_of (ResourceRefreshFailed a b c) = EvWarning"
| "event_severity_of (SessionInvalidated a) = EvWarning"
| "event_severity_of SessionReplaced = EvInfo"
| "event_severity_of (NodeEndpointsUpdated a b) = EvInfo"
| "event_severity_of (NodeGroupRetired a) = EvWarning"

end
