(* ===== verification/L3_Session.thy ===== *)
theory L3_Session
  imports Flow_Auth Get_Ip Events
begin

unbundle bit_operations_syntax

text \<open>
  \<open>crates/atrust-l3/src/session.rs\<close>: the state the caller and the session tasks share, and
  every operation on it. A caller waiting on a one-shot channel is a waiter number; the
  channel's fate is an entry of \<open>ss_resolved\<close> (a verdict, or \<open>None\<close> when the sender was
  dropped). Published events are appended to \<open>ss_events\<close> when the session has a bus. The
  atomic counters are 64-bit words, so \<open>fetch_add\<close> wraps.
\<close>

section \<open>Constants and data\<close>

definition L3_HEARTBEAT_INTERVAL :: duration where "L3_HEARTBEAT_INTERVAL = from_secs 25"
definition L3_HEARTBEAT_MISS_LIMIT :: nat where "L3_HEARTBEAT_MISS_LIMIT = 3"
definition L3_SECOND_VIP_RESP :: byte where "L3_SECOND_VIP_RESP = 0x96"
definition L3_VIP_UPDATE_RESP :: byte where "L3_VIP_UPDATE_RESP = 0x97"
definition MAX_PENDING_READ :: nat where "MAX_PENDING_READ = 1024 * 1024"
definition MAX_STORED_PROTOCOL_MESSAGES :: nat where "MAX_STORED_PROTOCOL_MESSAGES = 64"
definition MIN_UNAMBIGUOUS_CONNECT_TOKEN :: nat where "MIN_UNAMBIGUOUS_CONNECT_TOKEN = 17"
definition AUTH_RETRY_QUEUE_DEPTH :: nat where "AUTH_RETRY_QUEUE_DEPTH = 64"
definition PACKET_QUEUE_DEPTH :: nat where "PACKET_QUEUE_DEPTH = 256"
definition FLOW_QUEUE_DEPTH :: nat where "FLOW_QUEUE_DEPTH = 64"

record flow_auth_stats =
  fs_requests_sent :: u64
  fs_outcomes_received :: u64
  fs_timeouts :: u64
  fs_in_flight :: u64
  fs_peak_in_flight :: u64
  fs_transient_statuses_received :: u64
  fs_wire_retries_scheduled :: u64
  fs_wire_retries_sent :: u64
  fs_wire_retries_exhausted :: u64
  fs_wire_retries_cancelled :: u64

record l3_auth_retry_config =
  rc_enabled :: bool
  rc_max_wire_retries_per_flow :: nat
  rc_delayed_retry_delay :: duration
  rc_overall_auth_deadline :: duration

definition retry_disabled :: l3_auth_retry_config where
  "retry_disabled = \<lparr>rc_enabled = False, rc_max_wire_retries_per_flow = 0,
     rc_delayed_retry_delay = 0, rc_overall_auth_deadline = L3_AUTH_TIMEOUT\<rparr>"

datatype l3_close_reason =
    ByCaller | PeerEof | ReadError | WriteError | FlushError | WriteTimeout | HeartbeatTimeout
  | FramingError | InboundBufferLimit | PacketConsumerDropped | ObjectDropped

record l3_close_info =
  ci_reason :: l3_close_reason
  ci_detail :: string
  ci_closed_at :: nat

record retry_job =
  rj_auth_id :: u64
  rj_delay :: duration

record packet_subscription =
  ps_id :: u64
  ps_sender :: "bytes chan"

text \<open>The clocks an operation reads: monotonic and wall time.\<close>

record clock =
  ck_now :: instant
  ck_wall :: nat

type_synonym waiter = nat

record session_shared =
  ss_current_vip :: ipv4
  ss_node_group_id :: "string option"
  ss_conntrack :: conntrack_table
  ss_waiters :: "(u64, waiter list) hmap"
  ss_resolved :: "(waiter \<times> auth_outcome option) list"
  ss_next_waiter :: waiter
  ss_packet_subscribers :: "(flow_key, packet_subscription) hmap"
  ss_next_subscriber :: u64
  ss_closed :: bool
  ss_close_info :: "l3_close_info option"
  ss_dropped_packets :: u64
  ss_stats :: flow_auth_stats
  ss_retry_config :: l3_auth_retry_config
  ss_retry_tx :: "retry_job chan option"
  ss_heartbeat_requests_sent :: u64
  ss_heartbeat_acks_received :: u64
  ss_last_heartbeat_ack :: "(nat \<times> instant) option"
  ss_last_heartbeat_ack_monotonic :: "instant option"
  ss_first_heartbeat_written :: "instant option"
  ss_stop :: bool
  ss_events :: "hermes_event list option"
  ss_seen_length_prefixed :: bool
  ss_seen_token_framed :: bool
  ss_protocol_messages :: "string list"
  ss_protocol_messages_seen :: u64
  ss_packets :: "bytes chan"

definition zero_stats :: flow_auth_stats where
  "zero_stats = \<lparr>fs_requests_sent = 0, fs_outcomes_received = 0, fs_timeouts = 0, fs_in_flight = 0,
     fs_peak_in_flight = 0, fs_transient_statuses_received = 0, fs_wire_retries_scheduled = 0,
     fs_wire_retries_sent = 0, fs_wire_retries_exhausted = 0, fs_wire_retries_cancelled = 0\<rparr>"

definition shared_new ::
  "ipv4 \<Rightarrow> string option \<Rightarrow> bool \<Rightarrow> l3_auth_retry_config \<Rightarrow> clock \<Rightarrow> session_shared" where
  "shared_new initial_vip node_group_id has_bus cfg ck =
     \<lparr>ss_current_vip = initial_vip, ss_node_group_id = node_group_id,
      ss_conntrack = table_new (ck_now ck), ss_waiters = [], ss_resolved = [], ss_next_waiter = 0,
      ss_packet_subscribers = [], ss_next_subscriber = 1, ss_closed = False, ss_close_info = None,
      ss_dropped_packets = 0, ss_stats = zero_stats, ss_retry_config = cfg, ss_retry_tx = None,
      ss_heartbeat_requests_sent = 0, ss_heartbeat_acks_received = 0, ss_last_heartbeat_ack = None,
      ss_last_heartbeat_ack_monotonic = None, ss_first_heartbeat_written = None, ss_stop = False,
      ss_events = (if has_bus then Some [] else None), ss_seen_length_prefixed = False,
      ss_seen_token_framed = False, ss_protocol_messages = [], ss_protocol_messages_seen = 0,
      ss_packets = chan_new PACKET_QUEUE_DEPTH\<rparr>"

text \<open>\<open>start_with_config\<close> installs the retry queue before any task runs.\<close>

definition session_start ::
  "ipv4 \<Rightarrow> string option \<Rightarrow> bool \<Rightarrow> l3_auth_retry_config \<Rightarrow> clock \<Rightarrow> session_shared" where
  "session_start initial_vip node_group_id has_bus cfg ck =
     (shared_new initial_vip node_group_id has_bus cfg ck)
       \<lparr>ss_retry_tx := Some (chan_new AUTH_RETRY_QUEUE_DEPTH)\<rparr>"

section \<open>Operations on the shared state\<close>

definition emit :: "hermes_event \<Rightarrow> session_shared \<Rightarrow> session_shared" where
  "emit ev s = s\<lparr>ss_events := map_option (\<lambda>l. l @ [ev]) (ss_events s)\<rparr>"

definition saturating_dec :: "u64 \<Rightarrow> u64" where
  "saturating_dec v = (if v = 0 then 0 else v - 1)"

text \<open>Dropping every sender of the waiters map wakes its receivers without a verdict.\<close>

definition drop_waiters :: "waiter list \<Rightarrow> session_shared \<Rightarrow> session_shared" where
  "drop_waiters ws s = s\<lparr>ss_resolved := ss_resolved s @ map (\<lambda>w. (w, None)) ws\<rparr>"

definition drain_waiters :: "session_shared \<Rightarrow> session_shared" where
  "drain_waiters s = drop_waiters (concat (map snd (ss_waiters s))) (s\<lparr>ss_waiters := []\<rparr>)"

definition cancel_retries_and_clear :: "session_shared \<Rightarrow> session_shared" where
  "cancel_retries_and_clear s =
     s\<lparr>ss_conntrack := fst (table_clear (ss_conntrack s)),
       ss_stats := (ss_stats s)\<lparr>fs_wire_retries_cancelled :=
         fs_wire_retries_cancelled (ss_stats s) + word_of_nat (scheduled_retries (ss_conntrack s))\<rparr>\<rparr>"

definition apply_vip_update :: "ipv4 \<Rightarrow> session_shared \<Rightarrow> session_shared" where
  "apply_vip_update current s =
     (if ss_current_vip s = current then s
      else let previous = ss_current_vip s;
               s1 = cancel_retries_and_clear (s\<lparr>ss_current_vip := current\<rparr>);
               s2 = drain_waiters s1;
               s3 = s2\<lparr>ss_stats := (ss_stats s2)\<lparr>fs_in_flight := 0\<rparr>, ss_packet_subscribers := []\<rparr>
           in case ss_node_group_id s3 of
                None \<Rightarrow> s3
              | Some g \<Rightarrow> emit (L3VipChanged g previous current) s3)"

definition record_data_layout :: "l3_data_layout \<Rightarrow> nat \<Rightarrow> session_shared \<Rightarrow> session_shared" where
  "record_data_layout layout n s =
     (case layout of
        LdLengthPrefixed \<Rightarrow>
          if ss_seen_length_prefixed s then s
          else emit (L3DataLayoutObserved layout n) (s\<lparr>ss_seen_length_prefixed := True\<rparr>)
      | LdTokenFramed \<Rightarrow>
          if ss_seen_token_framed s then s
          else emit (L3DataLayoutObserved layout n) (s\<lparr>ss_seen_token_framed := True\<rparr>))"

definition is_power_of_two :: "u64 \<Rightarrow> bool" where
  "is_power_of_two n \<longleftrightarrow> n \<noteq> 0 \<and> n AND (n - 1) = 0"

definition record_drop :: "session_shared \<Rightarrow> session_shared" where
  "record_drop s =
     (let total = ss_dropped_packets s + 1; s1 = s\<lparr>ss_dropped_packets := total\<rparr>
      in if total = 1 \<or> is_power_of_two total then emit (L3PacketsDropped total) s1 else s1)"

definition record_auth_sent :: "session_shared \<Rightarrow> session_shared" where
  "record_auth_sent s =
     (let st = ss_stats s; in_flight = fs_in_flight st + 1
      in s\<lparr>ss_stats := st\<lparr>fs_requests_sent := fs_requests_sent st + 1, fs_in_flight := in_flight,
            fs_peak_in_flight := max (fs_peak_in_flight st) in_flight\<rparr>\<rparr>)"

definition record_retry_sent :: "session_shared \<Rightarrow> session_shared" where
  "record_retry_sent s =
     s\<lparr>ss_stats := (ss_stats s)\<lparr>fs_requests_sent := fs_requests_sent (ss_stats s) + 1\<rparr>\<rparr>"

definition settle_auth :: "bool \<Rightarrow> session_shared \<Rightarrow> session_shared" where
  "settle_auth timed_out s =
     (let st = ss_stats s;
          st1 = (if timed_out then st\<lparr>fs_timeouts := fs_timeouts st + 1\<rparr>
                 else st\<lparr>fs_outcomes_received := fs_outcomes_received st + 1\<rparr>)
      in s\<lparr>ss_stats := st1\<lparr>fs_in_flight := saturating_dec (fs_in_flight st1)\<rparr>\<rparr>)"

definition notify :: "u64 \<Rightarrow> auth_outcome \<Rightarrow> session_shared \<Rightarrow> session_shared" where
  "notify auth_id outcome s =
     (let senders = (case hm_get (ss_waiters s) auth_id of None \<Rightarrow> [] | Some ws \<Rightarrow> ws)
      in s\<lparr>ss_waiters := hm_remove auth_id (ss_waiters s),
           ss_resolved := ss_resolved s @ map (\<lambda>w. (w, Some outcome)) senders\<rparr>)"

definition shutdown :: "clock \<Rightarrow> l3_close_reason \<Rightarrow> string \<Rightarrow> session_shared \<Rightarrow> session_shared" where
  "shutdown ck reason detail s =
     (if ss_close_info s \<noteq> None then s
      else let s1 = s\<lparr>ss_close_info := Some \<lparr>ci_reason = reason, ci_detail = detail, ci_closed_at = ck_wall ck\<rparr>,
                      ss_closed := True, ss_stop := True, ss_packet_subscribers := []\<rparr>
           in drain_waiters (cancel_retries_and_clear s1))"

definition record_protocol_message :: "bytes \<Rightarrow> session_shared \<Rightarrow> session_shared" where
  "record_protocol_message body s =
     (let s1 = s\<lparr>ss_protocol_messages_seen := ss_protocol_messages_seen s + 1\<rparr>
      in if length (ss_protocol_messages s1) < MAX_STORED_PROTOCOL_MESSAGES
         then s1\<lparr>ss_protocol_messages := ss_protocol_messages s1 @ [from_utf8_lossy body]\<rparr>
         else s1)"

definition record_heartbeat_ack :: "clock \<Rightarrow> session_shared \<Rightarrow> session_shared" where
  "record_heartbeat_ack ck s =
     s\<lparr>ss_heartbeat_acks_received := ss_heartbeat_acks_received s + 1,
       ss_last_heartbeat_ack := Some (ck_wall ck, ck_now ck),
       ss_last_heartbeat_ack_monotonic := Some (ck_now ck)\<rparr>"

section \<open>Splitting the inbound stream\<close>

datatype inbound =
    InAuth byte bytes
  | InData data_resp_packets
  | InHeartbeat
  | InSecondVip byte bytes
  | InVipUpdate byte bytes
  | InProtocol bytes
  | InIgnored byte

datatype ('se, 'de) l3_session_error =
    FlowAlreadySubscribed
  | SeTls | SeConnectTimeout | SeGetIp "'se get_ipv4_error"
  | SeFrame l3_frame_error
  | SeFlowAuth "('se, 'de) flow_auth_error"
  | SePacket packet_error
  | SeAuthTimeout string
  | SeClosed
  | SeVipChanged ipv4 ipv4
  | UnexpectedVersion byte
  | SeProtocolRejected byte

definition length_prefixed :: "bytes \<Rightarrow> nat option" where
  "length_prefixed buf =
     (if length buf < 4 then None
      else let total = 4 + unat (u16_from_be (buf ! 2) (buf ! 3)) in
           if total \<le> length buf then Some total else None)"

definition status_and_json :: "bytes \<Rightarrow> (byte \<times> bytes \<times> nat) option" where
  "status_and_json buf =
     (if length buf < 5 then None
      else let total = 5 + unat (u16_from_be (buf ! 3) (buf ! 4)) in
           if length buf < total then None else Some (buf ! 2, slice buf 5 total, total))"

definition next_frame :: "bytes \<Rightarrow> ('se, 'de) l3_session_error + (inbound \<times> nat) option" where
  "next_frame buf =
     (if length buf < 2 then Inr None
      else if buf ! 0 = 0x53 then
        (if buf ! 1 \<noteq> 0 then Inl (SeProtocolRejected (buf ! 1))
         else Inr (map_option (\<lambda>total. (InProtocol (slice buf 4 total), total)) (length_prefixed buf)))
      else if buf ! 0 \<noteq> L3_VERSION then Inl (UnexpectedVersion (buf ! 0))
      else if buf ! 1 = AUTH_RESP then
        Inr (map_option (\<lambda>(st, json, total). (InAuth st json, total)) (status_and_json buf))
      else if buf ! 1 = L3_SECOND_VIP_RESP then
        Inr (map_option (\<lambda>(st, json, total). (InSecondVip st json, total)) (status_and_json buf))
      else if buf ! 1 = L3_VIP_UPDATE_RESP then
        Inr (map_option (\<lambda>(st, json, total). (InVipUpdate st json, total)) (status_and_json buf))
      else if buf ! 1 = HEARTBEAT_RESP then
        Inr (map_option (\<lambda>total. (InHeartbeat, total)) (length_prefixed buf))
      else if buf ! 1 = DATA_RESP then
        (case decode_l3_data_resp_body (drop 2 buf) of
           Inr (packets, body_len) \<Rightarrow> Inr (Some (InData packets, 2 + body_len))
         | Inl (Truncated _ _) \<Rightarrow> Inr None
         | Inl e \<Rightarrow> Inl (SeFrame e))
      else Inr (map_option (\<lambda>total. (InIgnored (buf ! 1), total)) (length_prefixed buf)))"

end
