(* ===== verification/L3_Reader.thy ===== *)
theory L3_Reader
  imports L3_Session
begin

text \<open>
  The reader task of \<open>crates/atrust-l3/src/session.rs\<close>: dispatching one inbound frame,
  delivering packets to their subscriber or to the packet queue, and the read loop. The two
  JSON decoders are parameters: \<open>from_slice\<close> for the authorization reply and
  \<open>from_value\<close> for an untyped value.
\<close>

section \<open>Delivery\<close>

definition deliver :: "bytes \<Rightarrow> session_shared \<Rightarrow> session_shared \<times> string option" where
  "deliver packet s =
     (let subscriber =
        (case parse_ipv4_flow packet of
           Inl _ \<Rightarrow> None
         | Inr flow \<Rightarrow>
             map_option (Pair (reverse_flow_key flow))
               (hm_get (ss_packet_subscribers s) (reverse_flow_key flow)))
      in case subscriber of
           Some (key, entry) \<Rightarrow>
             (case try_send packet (ps_sender entry) of
                (ch, Inr _) \<Rightarrow>
                  (s\<lparr>ss_packet_subscribers :=
                       hm_insert key (entry\<lparr>ps_sender := ch\<rparr>) (ss_packet_subscribers s)\<rparr>, None)
              | (_, Inl _) \<Rightarrow> (record_drop s, None))
         | None \<Rightarrow>
             (case try_send packet (ss_packets s) of
                (ch, Inr _) \<Rightarrow> (s\<lparr>ss_packets := ch\<rparr>, None)
              | (_, Inl Full) \<Rightarrow> (record_drop s, None)
              | (_, Inl Closed) \<Rightarrow> (s, Some ''L3 packet consumer dropped'')))"

fun deliver_all :: "bytes list \<Rightarrow> session_shared \<Rightarrow> session_shared \<times> string option" where
  "deliver_all [] s = (s, None)"
| "deliver_all (p # ps) s =
     (case deliver p s of (s', Some r) \<Rightarrow> (s', Some r) | (s', None) \<Rightarrow> deliver_all ps s')"

definition touch_inbound_flow :: "clock \<Rightarrow> bytes \<Rightarrow> session_shared \<Rightarrow> session_shared" where
  "touch_inbound_flow ck packet s =
     (case parse_ipv4_flow packet of
        Inl _ \<Rightarrow> s
      | Inr flow \<Rightarrow>
          s\<lparr>ss_conntrack := fst (touch_at (reverse_flow_key flow) (ck_now ck) (ss_conntrack s))\<rparr>)"

section \<open>The first address of a JSON value\<close>

fun visit :: "json_value \<Rightarrow> ipv4 option"
  and visit_list :: "json_value list \<Rightarrow> ipv4 option"
  and visit_fields :: "(string \<times> json_value) list \<Rightarrow> ipv4 option" where
  "visit (JString v) = parse_ipv4 v"
| "visit (JArray vs) = visit_list vs"
| "visit (JObject fs) = visit_fields fs"
| "visit _ = None"
| "visit_list [] = None"
| "visit_list (v # vs) = (case visit v of Some a \<Rightarrow> Some a | None \<Rightarrow> visit_list vs)"
| "visit_fields [] = None"
| "visit_fields ((k, v) # fs) = (case visit v of Some a \<Rightarrow> Some a | None \<Rightarrow> visit_fields fs)"

definition first_ipv4_in_json :: "(bytes \<Rightarrow> json_value option) \<Rightarrow> bytes \<Rightarrow> ipv4 option" where
  "first_ipv4_in_json from_value json =
     (case from_value json of None \<Rightarrow> None | Some v \<Rightarrow> visit v)"

section \<open>Dispatch\<close>

datatype dispatch_action = Continue | Send bytes | SendMany "bytes list"

definition is_transient :: "auth_wire_disposition \<Rightarrow> bool" where
  "is_transient d = (case d of RetryImmediate \<Rightarrow> True | RetryDelayed _ \<Rightarrow> True | _ \<Rightarrow> False)"

definition bump_exhausted :: "session_shared \<Rightarrow> session_shared" where
  "bump_exhausted s =
     s\<lparr>ss_stats := (ss_stats s)\<lparr>fs_wire_retries_exhausted := fs_wire_retries_exhausted (ss_stats s) + 1\<rparr>\<rparr>"

definition bump_scheduled :: "session_shared \<Rightarrow> session_shared" where
  "bump_scheduled s =
     s\<lparr>ss_stats := (ss_stats s)\<lparr>fs_wire_retries_scheduled := fs_wire_retries_scheduled (ss_stats s) + 1\<rparr>\<rparr>"

definition bump_cancelled :: "session_shared \<Rightarrow> session_shared" where
  "bump_cancelled s =
     s\<lparr>ss_stats := (ss_stats s)\<lparr>fs_wire_retries_cancelled := fs_wire_retries_cancelled (ss_stats s) + 1\<rparr>\<rparr>"

definition bump_transient :: "session_shared \<Rightarrow> session_shared" where
  "bump_transient s =
     s\<lparr>ss_stats := (ss_stats s)\<lparr>fs_transient_statuses_received := fs_transient_statuses_received (ss_stats s) + 1\<rparr>\<rparr>"

text \<open>Completing an entry with a local verdict, then settling and waking its waiters.\<close>

definition complete_and_notify :: "u64 \<Rightarrow> auth_outcome \<Rightarrow> session_shared \<Rightarrow> session_shared" where
  "complete_and_notify auth_id verdict s =
     (let t = update_by_auth_id auth_id (complete verdict) (ss_conntrack s);
          s1 = s\<lparr>ss_conntrack := t\<rparr>
      in case get_by_auth_id t auth_id of
           None \<Rightarrow> s1
         | Some e \<Rightarrow>
             (case ce_outcome e of
                None \<Rightarrow> s1
              | Some outcome \<Rightarrow> notify auth_id outcome (settle_auth False s1)))"

text \<open>The retry branch of an authorization reply with a transient status.\<close>

definition dispatch_transient :: "u64 \<Rightarrow> duration \<Rightarrow> session_shared \<Rightarrow> session_shared" where
  "dispatch_transient auth_id delay s =
     (let budget = rc_max_wire_retries_per_flow (ss_retry_config s)
      in case get_by_auth_id (ss_conntrack s) auth_id of
           None \<Rightarrow> s
         | Some entry \<Rightarrow>
             if ce_outcome entry \<noteq> None \<or> ce_retry_scheduled entry then s
             else if retry_exhausted budget entry then
               complete_and_notify auth_id (Failed ''auth retry budget exhausted'') (bump_exhausted s)
             else if snd (schedule_retry budget entry) then
               (let s1 = s\<lparr>ss_conntrack :=
                      update_by_auth_id auth_id (\<lambda>e. fst (schedule_retry budget e)) (ss_conntrack s)\<rparr>
                in case ss_retry_tx s1 of
                     Some ch \<Rightarrow>
                       (case try_send \<lparr>rj_auth_id = auth_id, rj_delay = delay\<rparr> ch of
                          (ch', Inr _) \<Rightarrow> bump_scheduled (s1\<lparr>ss_retry_tx := Some ch'\<rparr>)
                        | (_, Inl _) \<Rightarrow>
                            complete_and_notify auth_id (Failed ''auth retry scheduler unavailable'') (bump_cancelled s1))
                   | None \<Rightarrow>
                       complete_and_notify auth_id (Failed ''auth retry scheduler unavailable'') (bump_cancelled s1))
             else s)"

definition warn_ambiguous :: "auth_outcome \<Rightarrow> session_shared \<Rightarrow> session_shared" where
  "warn_ambiguous outcome s =
     (case outcome_token outcome of
        None \<Rightarrow> s
      | Some token \<Rightarrow>
          if length token < MIN_UNAMBIGUOUS_CONNECT_TOKEN
          then emit (L3ConnectTokenAmbiguous (length token) MIN_UNAMBIGUOUS_CONNECT_TOKEN) s else s)"

definition dispatch_auth ::
  "(bytes \<Rightarrow> 'de + l3_auth_response_wire) \<Rightarrow> byte \<Rightarrow> bytes \<Rightarrow> session_shared \<Rightarrow> session_shared" where
  "dispatch_auth from_slice status json s =
     (let disposition = classify_auth_wire_status status;
          transient = is_transient disposition;
          s0 = (if transient then bump_transient s else s)
      in if transient \<and> rc_enabled (ss_retry_config s0) then
           (case (parse_l3_auth_response from_slice json :: (unit, 'de) l3_auth_error + l3_auth_response) of
              Inl _ \<Rightarrow> s0
            | Inr resp \<Rightarrow>
                if ar_conntrack_hash resp = 0 then s0
                else dispatch_transient (ar_conntrack_hash resp)
                       (if disposition = RetryImmediate then 0
                        else rc_delayed_retry_delay (ss_retry_config s0)) s0)
         else
           (case (apply_auth_wire_status from_slice status json (ss_conntrack s0)
                    :: _ \<times> ((unit, 'de) flow_auth_error + u64)) of
              (t, Inl _) \<Rightarrow> s0\<lparr>ss_conntrack := t\<rparr>
            | (t, Inr auth_id) \<Rightarrow>
                (let s1 = s0\<lparr>ss_conntrack := t\<rparr>
                 in case (case get_by_auth_id t auth_id of None \<Rightarrow> None | Some e \<Rightarrow> ce_outcome e) of
                      None \<Rightarrow> s1
                    | Some outcome \<Rightarrow>
                        notify auth_id outcome (warn_ambiguous outcome (settle_auth False s1)))))"

definition dispatch ::
  "(bytes \<Rightarrow> 'de + l3_auth_response_wire) \<Rightarrow> (bytes \<Rightarrow> json_value option) \<Rightarrow> clock
    \<Rightarrow> inbound \<Rightarrow> session_shared \<Rightarrow> session_shared \<times> dispatch_action" where
  "dispatch from_slice from_value ck frame s =
     (case frame of
        InAuth status json \<Rightarrow> (dispatch_auth from_slice status json s, Continue)
      | InData (LengthPrefixed packet) \<Rightarrow>
          (record_data_layout LdLengthPrefixed (length packet) (touch_inbound_flow ck packet s), Send packet)
      | InData (TokenFramed packets) \<Rightarrow>
          (record_data_layout LdTokenFramed (sum_list (map length packets))
             (fold (touch_inbound_flow ck) packets s), SendMany packets)
      | InHeartbeat \<Rightarrow> (record_heartbeat_ack ck s, Continue)
      | InSecondVip _ _ \<Rightarrow> (s, Continue)
      | InVipUpdate status json \<Rightarrow>
          (if status \<noteq> 0 then s
           else case first_ipv4_in_json from_value json of
                  Some vip \<Rightarrow> apply_vip_update vip s
                | None \<Rightarrow> s, Continue)
      | InProtocol body \<Rightarrow> (record_protocol_message body s, Continue)
      | InIgnored cmd \<Rightarrow> (emit (L3UnknownCommand cmd) s, Continue))"

section \<open>The read loop\<close>

text \<open>One turn of the inner loop: dispatch, then hand the packets over.\<close>

definition frame_step ::
  "(bytes \<Rightarrow> 'de + l3_auth_response_wire) \<Rightarrow> (bytes \<Rightarrow> json_value option) \<Rightarrow> clock
    \<Rightarrow> inbound \<Rightarrow> session_shared \<Rightarrow> session_shared \<times> string option" where
  "frame_step from_slice from_value ck frame s =
     (case dispatch from_slice from_value ck frame s of
        (s', Continue) \<Rightarrow> (s', None)
      | (s', Send packet) \<Rightarrow> deliver_all [packet] s'
      | (s', SendMany packets) \<Rightarrow> deliver_all packets s')"

datatype read_result = Chunk bytes | ReadFailed string

text \<open>
  The text of a framing error. Only these two occur (lemma \<open>next_frame_errors\<close>).
\<close>

fun framing_error_text :: "('se, 'de) l3_session_error \<Rightarrow> string" where
  "framing_error_text (UnexpectedVersion b) = ''unexpected L3 version byte 0x'' @ hex_byte False b"
| "framing_error_text (SeProtocolRejected b) =
     ''L3 protocol message rejected with status 0x'' @ hex_byte False b"
| "framing_error_text _ = ''''"

text \<open>
  The loop over what the transport delivers, each read with the clock at its time. \<open>Inr\<close> is
  a loop still waiting, with its unparsed bytes; a read of no bytes is the end of the stream.
\<close>

fun read_loop ::
  "(bytes \<Rightarrow> 'de + l3_auth_response_wire) \<Rightarrow> (bytes \<Rightarrow> json_value option) \<Rightarrow> session_shared \<Rightarrow> bytes
    \<Rightarrow> (clock \<times> read_result) list \<Rightarrow> session_shared \<times> (l3_close_reason \<times> string + bytes)" where
  "read_loop from_slice from_value s pending [] = (s, Inr pending)"
| "read_loop from_slice from_value s pending ((ck, ReadFailed e) # rs) =
     (s, Inl (ReadError, ''L3 connection read failed: '' @ e))"
| "read_loop from_slice from_value s pending ((ck, Chunk c) # rs) =
     (if c = [] then (s, Inl (PeerEof, ''L3 connection closed by peer''))
      else case drain_with (next_frame :: bytes \<Rightarrow> (unit, 'de) l3_session_error + (inbound \<times> nat) option)
                  (frame_step from_slice from_value ck) s (pending @ c) of
             (s', SplitError e) \<Rightarrow>
               (s', Inl (FramingError, ''L3 framing error: '' @ framing_error_text e))
           | (s', Stopped r) \<Rightarrow> (s', Inl (PacketConsumerDropped, r))
           | (s', Pending p) \<Rightarrow>
               if MAX_PENDING_READ < length p
               then (s', Inl (InboundBufferLimit, ''L3 inbound buffer exceeded 1048576 bytes''))
               else read_loop from_slice from_value s' p rs)"

section \<open>Framing\<close>

lemma length_prefixed_Some:
  "length_prefixed buf = Some n \<Longrightarrow> 4 \<le> n \<and> n \<le> length buf \<and> length_prefixed (buf @ extra) = Some n"
  by (auto simp: length_prefixed_def Let_def nth_append_left split: if_splits)

lemma status_and_json_Some:
  "status_and_json buf = Some (st, j, n) \<Longrightarrow>
   5 \<le> n \<and> n \<le> length buf \<and> status_and_json (buf @ extra) = Some (st, j, n)"
  by (auto simp: status_and_json_def Let_def nth_append_left split: if_splits)

lemma next_frame_cases:
  fixes buf :: bytes
  assumes "2 \<le> length buf" "buf ! 0 = L3_VERSION" "buf ! 1 = DATA_RESP"
  shows "(next_frame buf :: ('se, 'de) l3_session_error + _) =
    (case decode_l3_data_resp_body (drop 2 buf) of
       Inr (packets, body_len) \<Rightarrow> Inr (Some (InData packets, 2 + body_len)) | Inl _ \<Rightarrow> Inr None)"
proof (cases "decode_l3_data_resp_body (drop 2 buf)")
  case (Inl e)
  then obtain k where "e = Truncated k (length (drop 2 buf))" using decode_body_truncated by blast
  with Inl assms show ?thesis
    by (simp add: next_frame_def l3_consts L3_SECOND_VIP_RESP_def L3_VIP_UPDATE_RESP_def)
next
  case (Inr r)
  with assms show ?thesis
    by (cases r) (simp add: next_frame_def l3_consts L3_SECOND_VIP_RESP_def L3_VIP_UPDATE_RESP_def)
qed

lemma next_frame_stable:
  assumes "next_frame buf = (Inr (Some (f, n)) :: ('se, 'de) l3_session_error + (inbound \<times> nat) option)"
  shows "0 < n \<and> n \<le> length buf
    \<and> next_frame (buf @ extra) = (Inr (Some (f, n)) :: ('se, 'de) l3_session_error + (inbound \<times> nat) option)"
proof (cases "2 \<le> length buf \<and> buf ! 0 = L3_VERSION \<and> buf ! 1 = DATA_RESP")
  case True
  then obtain ps k where d: "decode_l3_data_resp_body (drop 2 buf) = Inr (ps, k)" "f = InData ps" "n = 2 + k"
    using assms next_frame_cases [of buf, where 'se = 'se and 'de = 'de]
    by (cases "decode_l3_data_resp_body (drop 2 buf)") auto
  have e: "2 \<le> length (buf @ extra)" "(buf @ extra) ! 0 = L3_VERSION" "(buf @ extra) ! 1 = DATA_RESP"
    using True by (simp_all add: nth_append_first2)
  have "decode_l3_data_resp_body (drop 2 (buf @ extra)) = Inr (ps, k)"
    using decode_body_append [OF d(1)] True by simp
  then have "next_frame (buf @ extra) = (Inr (Some (f, n)) :: ('se, 'de) l3_session_error + (inbound \<times> nat) option)"
    unfolding next_frame_cases [OF e] using d(2,3) by simp
  then show ?thesis using decode_body_frame [OF d(1)] d(3) True by auto
next
  case False
  from assms have l: "2 \<le> length buf" by (auto simp: next_frame_def split: if_splits)
  with False have nd: "\<not> (buf ! 0 = L3_VERSION \<and> buf ! 1 = DATA_RESP)" by simp
  note hd = nth_append_first2 [OF l, of extra]
  show ?thesis
  proof (cases "buf ! 0 = 0x53 \<or> buf ! 1 \<notin> {AUTH_RESP, L3_SECOND_VIP_RESP, L3_VIP_UPDATE_RESP}")
    case True
    with assms l nd obtain k where k: "length_prefixed buf = Some k"
      by (auto simp: next_frame_def split: if_splits)
    from True assms l nd k length_prefixed_Some [OF k, of extra] hd show ?thesis
      by (auto simp: next_frame_def split: if_splits)
  next
    case False
    with assms l nd obtain st j k where k: "status_and_json buf = Some (st, j, k)"
      by (auto simp: next_frame_def split: if_splits)
    from False assms l nd k status_and_json_Some [OF k, of extra] hd show ?thesis
      by (auto simp: next_frame_def split: if_splits)
  qed
qed

lemma next_frame_Inl:
  "next_frame buf = (Inl e :: ('se, 'de) l3_session_error + (inbound \<times> nat) option) \<longleftrightarrow>
    2 \<le> length buf \<and>
    ((buf ! 0 = 0x53 \<and> buf ! 1 \<noteq> 0 \<and> e = SeProtocolRejected (buf ! 1))
     \<or> (buf ! 0 \<noteq> 0x53 \<and> buf ! 0 \<noteq> L3_VERSION \<and> e = UnexpectedVersion (buf ! 0)))"
proof (cases "2 \<le> length buf \<and> buf ! 0 = L3_VERSION \<and> buf ! 1 = DATA_RESP")
  case True
  then have "next_frame buf \<noteq> (Inl e :: ('se, 'de) l3_session_error + (inbound \<times> nat) option)"
    using next_frame_cases [of buf, where 'se = 'se and 'de = 'de] by (auto split: sum.splits)
  with True show ?thesis by (simp add: L3_VERSION_def)
next
  case False
  then show ?thesis by (auto simp: next_frame_def L3_VERSION_def)
qed

lemma next_frame_error_stable:
  assumes "next_frame buf = (Inl e :: ('se, 'de) l3_session_error + (inbound \<times> nat) option)"
  shows "next_frame (buf @ extra) = (Inl e :: ('se, 'de) l3_session_error + (inbound \<times> nat) option)"
  using assms unfolding next_frame_Inl by (auto simp: nth_append_first2)

lemma next_frame_errors:
  "next_frame buf = (Inl e :: ('se, 'de) l3_session_error + (inbound \<times> nat) option) \<Longrightarrow>
    \<exists>b. e = UnexpectedVersion b \<or> e = SeProtocolRejected b"
  unfolding next_frame_Inl by blast

interpretation l3: framing "next_frame :: bytes \<Rightarrow> ('se, 'de) l3_session_error + (inbound \<times> nat) option"
proof
  fix buf extra :: bytes and f n and e :: "('se, 'de) l3_session_error"
  show "next_frame buf = (Inr (Some (f, n)) :: ('se, 'de) l3_session_error + _) \<Longrightarrow> 0 < n \<and> n \<le> length buf"
    using next_frame_stable by blast
  show "next_frame buf = (Inr (Some (f, n)) :: ('se, 'de) l3_session_error + _) \<Longrightarrow>
      next_frame (buf @ extra) = (Inr (Some (f, n)) :: ('se, 'de) l3_session_error + _)"
    using next_frame_stable by blast
  show "next_frame buf = Inl e \<Longrightarrow> next_frame (buf @ extra) = Inl e"
    by (rule next_frame_error_stable)
qed

lemma next_frame_empty [simp]: "next_frame [] = Inr None"
  by (simp add: next_frame_def)

text \<open>An incomplete frame that is not token-framed data is at most 65539 bytes long.\<close>

lemma length_prefixed_None: "length_prefixed buf = None \<Longrightarrow> length buf < 65540"
proof -
  assume "length_prefixed buf = None"
  then have "length buf < 4 \<or> length buf < 4 + unat (u16_from_be (buf ! 2) (buf ! 3))"
    by (auto simp: length_prefixed_def Let_def split: if_splits)
  then show ?thesis using unat_u16_less [of "u16_from_be (buf ! 2) (buf ! 3)"] by linarith
qed

lemma status_and_json_None: "status_and_json buf = None \<Longrightarrow> length buf < 65541"
proof -
  assume "status_and_json buf = None"
  then have "length buf < 5 \<or> length buf < 5 + unat (u16_from_be (buf ! 3) (buf ! 4))"
    by (auto simp: status_and_json_def Let_def split: if_splits)
  then show ?thesis using unat_u16_less [of "u16_from_be (buf ! 3) (buf ! 4)"] by linarith
qed

lemma decode_incomplete:
  assumes "decode_l3_data_resp_body body = Inl e" "65537 < length body"
  shows "data_resp_layout_of body = Inr LayoutTokenFramed"
proof (rule ccontr)
  assume nt: "data_resp_layout_of body \<noteq> Inr LayoutTokenFramed"
  show False
  proof (cases "data_resp_layout_of body")
    case (Inl e')
    then show ?thesis using assms(2)
      by (auto simp: data_resp_layout_of_def large_length_prefixed_packet_def Let_def
          split: data_resp_layout.splits if_splits)
  next
    case (Inr l)
    then obtain w where w: "data_resp_layout_of body = Inr (LayoutLengthPrefixed w)"
      using nt by (cases l) simp_all
    have "\<not> length body < 2 + unat w" using assms(2) unat_u16_less [of w] by linarith
    moreover have "\<not> length body < 2" using assms(2) by simp
    ultimately show ?thesis using assms(1) w by (simp add: decode_l3_data_resp_body_def Let_def)
  qed
qed

section \<open>Correctness\<close>


definition collect_frames :: "inbound \<Rightarrow> inbound list \<Rightarrow> inbound list \<times> unit option" where
  "collect_frames f fs = (fs @ [f], None)"


text \<open>
  no frame but a token-framed data response keeps the reader waiting with more than 65541
  buffered bytes. The 1 MiB limit on unparsed input therefore only ever closes a session over a
  token-framed response; every other frame is dispatched or rejected long before.
\<close>

theorem long_pending_is_token_framed:
  assumes "next_frame p = (Inr None :: ('se, 'de) l3_session_error + (inbound \<times> nat) option)"
    and "65541 < length p"
  shows "p ! 0 = L3_VERSION \<and> p ! 1 = DATA_RESP \<and> data_resp_layout_of (drop 2 p) = Inr LayoutTokenFramed"
proof -
  have d: "p ! 0 = L3_VERSION \<and> p ! 1 = DATA_RESP"
    using assms length_prefixed_None [of p] status_and_json_None [of p]
    by (auto simp: next_frame_def split: if_splits)
  then obtain e where "decode_l3_data_resp_body (drop 2 p) = Inl e"
    using assms next_frame_cases [of p, where 'se = 'se and 'de = 'de] by (auto split: sum.splits)
  then show ?thesis using d decode_incomplete [of "drop 2 p" e] assms(2) by simp
qed

text \<open>A response that announces two packets of 65535 bytes and stops in the second.\<close>

definition unfinished_response :: "nat \<Rightarrow> bytes" where
  "unfinished_response n = [5, 0x94, 0, 0, 0, 2] @ replicate n 0xff"

lemma two_large_packets_pending:
  assumes "length b = 65544" "b ! 0 = 0" "b ! 1 = 0" "b ! 3 = 2"
    and "b ! 4 = 0xff" "b ! 5 = 0xff" "b ! 65541 = 0xff" "b ! 65542 = 0xff"
  shows "decode_l3_data_resp_body b = Inl (Truncated 131078 65544)"
proof -
  have ff: "unat (u16_from_be 0xff 0xff) = 65535" by (simp add: unat_u16_from_be)
  have "packets_end b (Suc (Suc 0)) 4 = Inl (Truncated 131078 65544)"
    using assms ff by (simp add: Let_def)
  moreover have "packets_end b (unat (2 :: byte)) 4 = packets_end b (Suc (Suc 0)) 4"
    by (simp only: unat_numeral) (simp add: numeral_2_eq_2)
  moreover have "b ! Suc (Suc (Suc 0)) = 2" using assms(4) by (simp add: numeral_3_eq_3)
  ultimately have "token_body_len b = Inl (Truncated 131078 65544)"
    using assms by (auto simp: token_body_len_def Let_def)
  moreover have "data_resp_layout_of b = Inr LayoutTokenFramed"
    using assms by (simp add: data_resp_layout_of_def classify_data_resp_prefix_def Let_def u16_from_be_def)
  ultimately show ?thesis using assms(1) by (simp add: decode_l3_data_resp_body_def)
qed

theorem long_pending_is_token_framed_witness:
  "unfinished_response 65540 ! 0 = L3_VERSION \<and> unfinished_response 65540 ! 1 = DATA_RESP
   \<and> data_resp_layout_of (drop 2 (unfinished_response 65540)) = Inr LayoutTokenFramed"
proof (rule long_pending_is_token_framed)
  define n :: nat where "n = 65540"
  define b where "b = drop 2 (unfinished_response n)"
  have b: "b = [0, 0, 0, 2] @ replicate n 0xff" by (simp add: b_def unfinished_response_def)
  have "b ! (4 + i) = 0xff" if "i < n" for i using that by (simp add: b nth_append)
  from this [of 0] this [of 1] this [of 65537] this [of 65538]
  have "b ! 4 = 0xff" "b ! 5 = 0xff" "b ! 65541 = 0xff" "b ! 65542 = 0xff" by (simp_all add: n_def)
  moreover have "length b = 65544" "b ! 0 = 0" "b ! 1 = 0" "b ! 3 = 2" by (simp_all add: b n_def)
  ultimately have "decode_l3_data_resp_body b = Inl (Truncated 131078 65544)"
    by (intro two_large_packets_pending)
  then have "next_frame (unfinished_response n) = (Inr None :: (unit, unit) l3_session_error + (inbound \<times> nat) option)"
    unfolding b_def by (simp add: next_frame_def unfinished_response_def L3_VERSION_def
        AUTH_RESP_def L3_SECOND_VIP_RESP_def L3_VIP_UPDATE_RESP_def HEARTBEAT_RESP_def DATA_RESP_def)
  then show "next_frame (unfinished_response 65540) = (Inr None :: (unit, unit) l3_session_error + (inbound \<times> nat) option)"
    by (simp only: n_def)
  show "65541 < length (unfinished_response 65540)"
    unfolding unfinished_response_def length_append length_replicate by simp
qed

end
