(* ===== verification/L3_Driver.thy ===== *)
theory L3_Driver
  imports L3_Reader "HOL-Library.Multiset"
begin

text \<open>
  The caller, writer, heartbeat and retry side of \<open>crates/atrust-l3/src/session.rs\<close>, and the
  session as a state machine. \<open>authorize_flow\<close> is split at its awaits: claiming the flow,
  preparing the frame, the result of the write, and the end of the wait. A step of the
  machine is one such section, together with the answers it hands out before it ends; steps of
  all tasks interleave freely. The write result is whatever the transport reports.
\<close>

section \<open>Subscriptions\<close>

definition subscribe_flow ::
  "ipv4_flow \<Rightarrow> session_shared \<Rightarrow> session_shared \<times> (('se, 'de) l3_session_error + flow_key \<times> u64)" where
  "subscribe_flow flow s =
     (if ss_closed s then (s, Inl SeClosed)
      else if fl_src_addr flow \<noteq> ss_current_vip s
      then (s, Inl (SeVipChanged (fl_src_addr flow) (ss_current_vip s)))
      else let key = flow_key_of flow in
        if hm_get (ss_packet_subscribers s) key \<noteq> None then (s, Inl FlowAlreadySubscribed)
        else let i = ss_next_subscriber s in
          (s\<lparr>ss_next_subscriber := i + 1,
             ss_packet_subscribers :=
               hm_insert key \<lparr>ps_id = i, ps_sender = chan_new FLOW_QUEUE_DEPTH\<rparr> (ss_packet_subscribers s)\<rparr>,
           Inr (key, i)))"

definition flow_packets_drop :: "flow_key \<Rightarrow> u64 \<Rightarrow> session_shared \<Rightarrow> session_shared" where
  "flow_packets_drop key i s =
     (case hm_get (ss_packet_subscribers s) key of
        None \<Rightarrow> s
      | Some entry \<Rightarrow>
          if ps_id entry = i
          then s\<lparr>ss_packet_subscribers := hm_remove key (ss_packet_subscribers s)\<rparr> else s)"

section \<open>Authorizing a flow\<close>

datatype ('se, 'de) claim =
    Finished "('se, 'de) l3_session_error + string"
  | Claimed u64 bool waiter

text \<open>A flow whose resource changed loses its old authorization and wakes its waiters.\<close>

definition retire_changed_flow :: "flow_key \<Rightarrow> string \<Rightarrow> string \<Rightarrow> session_shared \<Rightarrow> session_shared" where
  "retire_changed_flow key app_id node_group_id s =
     (case get_by_key (ss_conntrack s) key of
        None \<Rightarrow> s
      | Some entry \<Rightarrow>
          if ce_app_id entry \<noteq> app_id \<or> ce_node_group_id entry \<noteq> node_group_id then
            (let s1 = notify (ce_auth_id entry) (Failed ''flow resource changed during authorization'')
                        (s\<lparr>ss_conntrack := fst (evict_by_auth_id (ce_auth_id entry) (ss_conntrack s))\<rparr>)
             in if auth_in_flight entry
                then s1\<lparr>ss_stats := (ss_stats s1)\<lparr>fs_in_flight := saturating_dec (fs_in_flight (ss_stats s1))\<rparr>\<rparr>
                else s1)
          else s)"

definition register_waiter :: "u64 \<Rightarrow> session_shared \<Rightarrow> session_shared \<times> waiter" where
  "register_waiter auth_id s =
     (let w = ss_next_waiter s;
          ws = (case hm_get (ss_waiters s) auth_id of None \<Rightarrow> [] | Some ws \<Rightarrow> ws)
      in (s\<lparr>ss_waiters := hm_insert auth_id (ws @ [w]) (ss_waiters s), ss_next_waiter := w + 1\<rparr>, w))"

definition report_pressure :: "prune_outcome \<Rightarrow> session_shared \<Rightarrow> session_shared" where
  "report_pressure prune s =
     (if 0 < po_evicted_for_capacity prune
      then emit (L3ConntrackPressure (po_entries prune) L3_CONNTRACK_CAPACITY (po_evicted_for_capacity prune)) s
      else s)"

text \<open>
  The section under the conntrack lock. The checks of \<open>authorize_claim\<close> come before the lock is
  taken, so the session may be closed or moved to another address when this section runs.
\<close>

definition claim_flow ::
  "clock \<Rightarrow> string \<Rightarrow> string \<Rightarrow> ipv4_flow \<Rightarrow> session_shared \<Rightarrow> session_shared \<times> ('se, 'de) claim" where
  "claim_flow ck app_id node_group_id flow s =
     (let key = flow_key_of flow;
          (t1, prune) = maintain_for_flow (ck_now ck) key (ss_conntrack s);
          s2 = retire_changed_flow key app_id node_group_id (s\<lparr>ss_conntrack := t1\<rparr>);
          (t3, entry) = get_or_create_at key app_id node_group_id (ck_now ck) (ss_conntrack s2)
      in case ce_outcome entry of
           Some (Ready token) \<Rightarrow> (s2\<lparr>ss_conntrack := t3\<rparr>, Finished (Inr token))
         | Some (Failed message) \<Rightarrow>
             (s2\<lparr>ss_conntrack := t3\<rparr>, Finished (Inl (SeFlowAuth (AuthFailed message))))
         | None \<Rightarrow>
             (let (entry', must_send) = try_start_auth (ck_now ck) entry;
                  s4 = s2\<lparr>ss_conntrack := t3\<lparr>ct_by_key := hm_insert key entry' (ct_by_key t3)\<rparr>\<rparr>;
                  (s5, w) = register_waiter (ce_auth_id entry) s4
              in (report_pressure prune s5, Claimed (ce_auth_id entry) must_send w)))"

definition authorize_claim ::
  "clock \<Rightarrow> string \<Rightarrow> string \<Rightarrow> ipv4_flow \<Rightarrow> session_shared \<Rightarrow> session_shared \<times> ('se, 'de) claim" where
  "authorize_claim ck app_id node_group_id flow s =
     (if ss_closed s then (s, Finished (Inl SeClosed))
      else if fl_src_addr flow \<noteq> ss_current_vip s
      then (s, Finished (Inl (SeVipChanged (fl_src_addr flow) (ss_current_vip s))))
      else claim_flow ck app_id node_group_id flow s)"

definition abandon_flow :: "u64 \<Rightarrow> session_shared \<Rightarrow> session_shared" where
  "abandon_flow auth_id s =
     (let ws = (case hm_get (ss_waiters s) auth_id of None \<Rightarrow> [] | Some ws \<Rightarrow> ws)
      in drop_waiters ws
           (s\<lparr>ss_conntrack := fst (evict_by_auth_id auth_id (ss_conntrack s)),
              ss_waiters := hm_remove auth_id (ss_waiters s)\<rparr>))"

definition authorize_prepare ::
  "(bytes \<Rightarrow> bytes) \<Rightarrow> (bytes \<Rightarrow> bytes \<Rightarrow> bytes) \<Rightarrow> (l3_auth_wire \<Rightarrow> 'se + bytes) \<Rightarrow> clock \<Rightarrow> l3_auth_context
    \<Rightarrow> string \<Rightarrow> u64 \<Rightarrow> ipv4_flow \<Rightarrow> session_shared \<Rightarrow> session_shared \<times> (('se, 'de) l3_session_error + bytes)" where
  "authorize_prepare sha256 hmac to_vec ck ctx app_id auth_id flow s =
     (case build_flow_auth_frame sha256 hmac to_vec ctx app_id auth_id (to_five_tuple flow) of
        Inl e \<Rightarrow> (abandon_flow auth_id s, Inl (SeFlowAuth e))
      | Inr frame \<Rightarrow>
          (case get_by_auth_id (ss_conntrack s) auth_id of
             None \<Rightarrow> (s, Inr frame)
           | Some entry \<Rightarrow>
               if auth_in_flight entry then
                 (s\<lparr>ss_conntrack := update_by_auth_id auth_id
                      (set_reusable_frame frame (ck_now ck + rc_overall_auth_deadline (ss_retry_config s)))
                      (ss_conntrack s)\<rparr>, Inr frame)
               else (s, Inr frame)))"

text \<open>\<open>write_frame\<close> reports failure when the session is closed, whatever the transport did.\<close>

definition authorize_written ::
  "u64 \<Rightarrow> bool \<Rightarrow> session_shared \<Rightarrow> session_shared \<times> ('se, 'de) l3_session_error option" where
  "authorize_written auth_id written s =
     (if \<not> written \<or> ss_closed s then (abandon_flow auth_id s, Some SeClosed)
      else (record_auth_sent s, None))"

datatype wait_result = Verdict auth_outcome | SenderDropped | TimedOut

definition authorize_finish ::
  "u64 \<Rightarrow> bool \<Rightarrow> ipv4_flow \<Rightarrow> wait_result \<Rightarrow> session_shared
    \<Rightarrow> session_shared \<times> (('se, 'de) l3_session_error + string)" where
  "authorize_finish auth_id must_send flow res s =
     (let moved = (fl_src_addr flow \<noteq> ss_current_vip s);
          vip_error = SeVipChanged (fl_src_addr flow) (ss_current_vip s)
      in case res of
           Verdict (Ready token) \<Rightarrow> (s, if moved then Inl vip_error else Inr token)
         | Verdict (Failed message) \<Rightarrow> (s, Inl (SeFlowAuth (AuthFailed message)))
         | SenderDropped \<Rightarrow> (s, Inl (if moved then vip_error else SeClosed))
         | TimedOut \<Rightarrow>
             (let s1 = abandon_flow auth_id s
              in (if must_send then settle_auth True s1 else s1,
                  Inl (SeAuthTimeout (key_str (flow_key_of flow))))))"

section \<open>Sending data\<close>

fun check_sources :: "ipv4 \<Rightarrow> bytes list \<Rightarrow> ('se, 'de) l3_session_error option" where
  "check_sources vip [] = None"
| "check_sources vip (p # ps) =
     (case parse_ipv4_flow p of
        Inl e \<Rightarrow> Some (SePacket e)
      | Inr flow \<Rightarrow>
          if fl_src_addr flow \<noteq> vip then Some (SeVipChanged (fl_src_addr flow) vip)
          else check_sources vip ps)"

text \<open>The frame that goes to the writer, or the reason it does not.\<close>

definition send_packets ::
  "string \<Rightarrow> bytes list \<Rightarrow> session_shared \<Rightarrow> ('se, 'de) l3_session_error + bytes" where
  "send_packets token packets s =
     (if ss_closed s then Inl SeClosed
      else case check_sources (ss_current_vip s) packets of
        Some e \<Rightarrow> Inl e
      | None \<Rightarrow>
          (case encode_l3_data_req (as_bytes token) packets of
             Inl e \<Rightarrow> Inl (SeFrame e)
           | Inr frame \<Rightarrow> Inr frame))"

section \<open>Writer, heartbeat and retry tasks\<close>

datatype write_result = WriteOk | WriteTimedOut | WriteFailed string | FlushFailed string

definition writer_step :: "clock \<Rightarrow> bool \<Rightarrow> write_result \<Rightarrow> session_shared \<Rightarrow> session_shared" where
  "writer_step ck heartbeat res s =
     (case res of
        WriteTimedOut \<Rightarrow> shutdown ck WriteTimeout ''L3 write deadline exceeded'' s
      | WriteFailed e \<Rightarrow> shutdown ck WriteError (''L3 connection write failed: '' @ e) s
      | FlushFailed e \<Rightarrow> shutdown ck FlushError (''L3 connection write failed: '' @ e) s
      | WriteOk \<Rightarrow>
          if heartbeat then
            s\<lparr>ss_first_heartbeat_written :=
                (case ss_first_heartbeat_written s of None \<Rightarrow> Some (ck_now ck) | Some i \<Rightarrow> Some i),
              ss_heartbeat_requests_sent := ss_heartbeat_requests_sent s + 1\<rparr>
          else s)"

definition heartbeat_overdue :: "instant \<Rightarrow> duration \<Rightarrow> session_shared \<Rightarrow> bool" where
  "heartbeat_overdue now interval s \<longleftrightarrow>
     L3_HEARTBEAT_MISS_LIMIT \<le>
       unat (ss_heartbeat_requests_sent s) - unat (ss_heartbeat_acks_received s)
     \<and> (case ss_first_heartbeat_written s of
           None \<Rightarrow> False
         | Some first \<Rightarrow>
             interval * L3_HEARTBEAT_MISS_LIMIT \<le>
               now - (case ss_last_heartbeat_ack_monotonic s of None \<Rightarrow> first | Some a \<Rightarrow> a))"

text \<open>One tick: close the session, or queue a heartbeat for the writer.\<close>

definition heartbeat_tick :: "clock \<Rightarrow> duration \<Rightarrow> session_shared \<Rightarrow> session_shared \<times> bytes option" where
  "heartbeat_tick ck interval s =
     (if heartbeat_overdue (ck_now ck) interval s
      then (shutdown ck HeartbeatTimeout ''L3 peer did not acknowledge heartbeat probes'' s, None)
      else (s, Some encode_l3_heartbeat_req))"

definition retry_recv :: "session_shared \<Rightarrow> session_shared \<times> retry_job option" where
  "retry_recv s =
     (case ss_retry_tx s of
        None \<Rightarrow> (s, None)
      | Some ch \<Rightarrow>
          (case ch_queue ch of
             [] \<Rightarrow> (s, None)
           | job # rest \<Rightarrow> (s\<lparr>ss_retry_tx := Some (ch\<lparr>ch_queue := rest\<rparr>)\<rparr>, Some job)))"

text \<open>A retry job after its delay: the frame to send again, or the settled verdict.\<close>

definition retry_fire :: "clock \<Rightarrow> retry_job \<Rightarrow> session_shared \<Rightarrow> session_shared \<times> bytes option" where
  "retry_fire ck job s =
     (let auth_id = rj_auth_id job
      in case get_by_auth_id (ss_conntrack s) auth_id of
           None \<Rightarrow> (bump_cancelled s, None)
         | Some entry \<Rightarrow>
             (let late = (case ce_auth_deadline entry of None \<Rightarrow> False | Some d \<Rightarrow> d \<le> ck_now ck);
                  (s1, frame) =
                    (if late then
                       (bump_exhausted (s\<lparr>ss_conntrack := update_by_auth_id auth_id
                          (complete (Failed ''auth deadline exceeded'')) (ss_conntrack s)\<rparr>), None)
                     else
                       (s\<lparr>ss_conntrack := update_by_auth_id auth_id (\<lambda>e. fst (take_retry e)) (ss_conntrack s)\<rparr>,
                        snd (take_retry entry)))
              in case frame of
                   Some bytes \<Rightarrow> (s1, Some bytes)
                 | None \<Rightarrow>
                     (case (case get_by_auth_id (ss_conntrack s1) auth_id of
                              None \<Rightarrow> None | Some e \<Rightarrow> ce_outcome e) of
                        None \<Rightarrow> (s1, None)
                      | Some outcome \<Rightarrow> (notify auth_id outcome (settle_auth False s1), None))))"

definition retry_written :: "clock \<Rightarrow> bool \<Rightarrow> session_shared \<Rightarrow> session_shared" where
  "retry_written ck written s =
     (if \<not> written then shutdown ck WriteError ''auth retry write failed'' s
      else record_retry_sent
        (s\<lparr>ss_stats := (ss_stats s)\<lparr>fs_wire_retries_sent := fs_wire_retries_sent (ss_stats s) + 1\<rparr>\<rparr>))"

definition recv_packet :: "session_shared \<Rightarrow> session_shared \<times> bytes option" where
  "recv_packet s =
     (case ch_queue (ss_packets s) of
        [] \<Rightarrow> (s, None)
      | p # rest \<Rightarrow> (s\<lparr>ss_packets := (ss_packets s)\<lparr>ch_queue := rest\<rparr>\<rparr>, Some p))"

definition request_close :: "clock \<Rightarrow> session_shared \<Rightarrow> session_shared" where
  "request_close ck s = shutdown ck ByCaller ''L3 session closed by caller'' s"

section \<open>The session as a state machine\<close>

text \<open>
  The claim step requires that the 64-bit id counter has not been used up, which takes
  \<open>2^64\<close> authorizations on one connection.
\<close>

inductive session_step ::
  "(bytes \<Rightarrow> 'de + l3_auth_response_wire) \<Rightarrow> (bytes \<Rightarrow> json_value option) \<Rightarrow> session_shared \<Rightarrow> session_shared \<Rightarrow> bool"
  for from_slice from_value where
  frame: "session_step from_slice from_value s (fst (frame_step from_slice from_value ck f s))"
| reader_end: "session_step from_slice from_value s (shutdown ck reason detail s)"
| claim: "unat (ct_next_auth_id (ss_conntrack s)) + 1 < 2 ^ 64 \<Longrightarrow>
    session_step from_slice from_value s
      (fst (claim_flow ck app grp flow s :: _ \<times> (unit, 'de) claim))"
| prepare: "session_step from_slice from_value s
    (fst (authorize_prepare sha256 hmac to_vec ck ctx app auth_id flow s
      :: _ \<times> ((unit, 'de) l3_session_error + bytes)))"
| written: "session_step from_slice from_value s
    (fst (authorize_written auth_id ok s :: _ \<times> (unit, 'de) l3_session_error option))"
| finish: "session_step from_slice from_value s
    (fst (authorize_finish auth_id must_send flow res s :: _ \<times> ((unit, 'de) l3_session_error + string)))"
| subscribe: "session_step from_slice from_value s
    (fst (subscribe_flow flow s :: _ \<times> ((unit, 'de) l3_session_error + flow_key \<times> u64)))"
| unsubscribe: "session_step from_slice from_value s (flow_packets_drop key i s)"
| writer: "session_step from_slice from_value s (writer_step ck hb wres s)"
| heartbeat: "session_step from_slice from_value s (fst (heartbeat_tick ck interval s))"
| retry_take: "session_step from_slice from_value s (fst (retry_recv s))"
| retry: "session_step from_slice from_value s (fst (retry_fire ck job s))"
| retry_done: "session_step from_slice from_value s (retry_written ck ok s)"
| recv: "session_step from_slice from_value s (fst (recv_packet s))"
| close: "session_step from_slice from_value s (request_close ck s)"

inductive session_reachable ::
  "(bytes \<Rightarrow> 'de + l3_auth_response_wire) \<Rightarrow> (bytes \<Rightarrow> json_value option) \<Rightarrow> session_shared \<Rightarrow> bool"
  for from_slice from_value where
  start: "session_reachable from_slice from_value (session_start vip grp has_bus cfg ck)"
| step: "session_reachable from_slice from_value s \<Longrightarrow> session_step from_slice from_value s s' \<Longrightarrow>
    session_reachable from_slice from_value s'"

end
