(* ===== verification/L3_Invariant.thy ===== *)
theory L3_Invariant
  imports L3_Driver
begin

text \<open>
  The invariant of the L3 session and its preservation by every step: the conntrack table is
  consistent, every waiting caller waits on an authorization that is still in flight, no
  waiter is lost or answered twice, the session is closed exactly when it has a close reason,
  and every queue stays within its bound.
\<close>

section \<open>The invariant\<close>

definition waits_in_flight :: "conntrack_table \<Rightarrow> (u64, waiter list) hmap \<Rightarrow> bool" where
  "waits_in_flight t W \<longleftrightarrow>
     (\<forall>i ws. hm_get W i = Some ws \<longrightarrow> (\<exists>e. get_by_auth_id t i = Some e \<and> auth_in_flight e))"

definition pending_waiters :: "(u64, waiter list) hmap \<Rightarrow> waiter list" where
  "pending_waiters W = concat (map snd W)"

definition waiters_conserved :: "session_shared \<Rightarrow> bool" where
  "waiters_conserved s \<longleftrightarrow>
     mset (pending_waiters (ss_waiters s)) + mset (map fst (ss_resolved s)) = mset [0..<ss_next_waiter s]"

definition queues_bounded :: "session_shared \<Rightarrow> bool" where
  "queues_bounded s \<longleftrightarrow>
     chan_ok (ss_packets s)
     \<and> (\<forall>k p. hm_get (ss_packet_subscribers s) k = Some p \<longrightarrow> chan_ok (ps_sender p))
     \<and> (\<forall>ch. ss_retry_tx s = Some ch \<longrightarrow> chan_ok ch)
     \<and> length (ss_protocol_messages s) \<le> MAX_STORED_PROTOCOL_MESSAGES"

definition session_inv :: "session_shared \<Rightarrow> bool" where
  "session_inv s \<longleftrightarrow>
     table_inv (ss_conntrack s) \<and> hm_distinct (ss_waiters s)
     \<and> waits_in_flight (ss_conntrack s) (ss_waiters s) \<and> waiters_conserved s
     \<and> (ss_closed s \<longleftrightarrow> ss_close_info s \<noteq> None) \<and> (ss_stop s \<longleftrightarrow> ss_closed s)
     \<and> queues_bounded s"

lemmas inv_defs = session_inv_def waiters_conserved_def queues_bounded_def

lemma pending_remove:
  "hm_distinct W \<Longrightarrow> hm_get W i = Some ws \<Longrightarrow>
   mset (pending_waiters W) = mset ws + mset (pending_waiters (hm_remove i W))"
proof (induction W)
  case (Cons x W)
  show ?case
  proof (cases "fst x = i")
    case True
    then have "hm_get W i = None" using Cons.prems(1) by (auto simp: map_of_eq_None_iff)
    with True Cons.prems show ?thesis by (cases x) (auto simp: pending_waiters_def hm_remove_absent)
  next
    case False
    with Cons show ?thesis by (cases x) (auto simp: pending_waiters_def)
  qed
qed simp

lemma pending_remove_default:
  "hm_distinct W \<Longrightarrow>
   mset (pending_waiters W) = mset (case hm_get W i of None \<Rightarrow> [] | Some ws \<Rightarrow> ws) + mset (pending_waiters (hm_remove i W))"
  by (cases "hm_get W i") (simp_all add: hm_remove_absent pending_remove)

lemma pending_insert:
  assumes "hm_distinct W"
  shows "mset (pending_waiters (hm_insert i ws' W)) + mset (case hm_get W i of None \<Rightarrow> [] | Some ws \<Rightarrow> ws)
    = mset ws' + mset (pending_waiters W)"
  using assms by (induction W) (auto simp: pending_waiters_def split: option.splits if_splits)

section \<open>Which changes keep a wait in flight\<close>

lemma waits_empty [simp]: "waits_in_flight t []"
  by (simp add: waits_in_flight_def)

lemma waits_remove: "waits_in_flight t W \<Longrightarrow> waits_in_flight t (hm_remove i W)"
  by (auto simp: waits_in_flight_def)

lemma waits_mono:
  assumes "waits_in_flight t W"
    and "\<And>i e. hm_get W i \<noteq> None \<Longrightarrow> get_by_auth_id t i = Some e \<Longrightarrow> auth_in_flight e \<Longrightarrow>
      \<exists>e'. get_by_auth_id t' i = Some e' \<and> auth_in_flight e'"
  shows "waits_in_flight t' W"
  using assms unfolding waits_in_flight_def by (metis option.distinct(1))

lemma waits_update:
  assumes "waits_in_flight t W" "table_inv t" "\<And>e. ce_auth_id (f e) = ce_auth_id e"
    and "\<And>e. auth_in_flight e \<Longrightarrow> auth_in_flight (f e)"
  shows "waits_in_flight (update_by_auth_id i f t) W"
  using assms(1) by (rule waits_mono) (use assms(2-4) in \<open>auto simp: update_by_auth_id_get\<close>)

lemma waits_resolve:
  assumes "waits_in_flight t W" "table_inv t" "\<And>e. ce_auth_id (f e) = ce_auth_id e"
  shows "waits_in_flight (update_by_auth_id i f t) (hm_remove i W)"
  by (rule waits_mono [OF waits_remove [OF assms(1)]])
    (use assms(2,3) in \<open>auto simp: update_by_auth_id_get split: if_splits\<close>)

lemma waits_evict:
  assumes "waits_in_flight t W" "table_inv t"
  shows "waits_in_flight (fst (evict_by_auth_id i t)) (hm_remove i W)"
  by (rule waits_mono [OF waits_remove [OF assms(1)]])
    (use assms(2) in \<open>auto simp: evict_by_auth_id_get split: if_splits\<close>)

text \<open>Keeping the in-flight entries of the table by key keeps them by id.\<close>

lemma waits_by_key:
  assumes "waits_in_flight t W" "table_inv t" "table_inv t'"
    and "\<And>k e. get_by_key t k = Some e \<Longrightarrow> auth_in_flight e \<Longrightarrow>
      \<exists>k' e'. get_by_key t' k' = Some e' \<and> auth_in_flight e' \<and> ce_auth_id e' = ce_auth_id e"
  shows "waits_in_flight t' W"
  using assms(1)
proof (rule waits_mono)
  fix i e
  assume e: "get_by_auth_id t i = Some e" "auth_in_flight e"
  from assms(4) [OF get_by_auth_id_key(1) [OF assms(2) e(1)] e(2)] obtain k' e'
    where "get_by_key t' k' = Some e'" "auth_in_flight e'" "ce_auth_id e' = i"
    using get_by_auth_id_key(2) [OF assms(2) e(1)] by auto
  then show "\<exists>e'. get_by_auth_id t' i = Some e' \<and> auth_in_flight e'"
    using get_by_auth_id_iff [OF assms(3), of i e'] by blast
qed

lemma touch_in_flight [simp]: "auth_in_flight (e\<lparr>ce_last_used := n\<rparr>) = auth_in_flight e"
  by (simp add: auth_in_flight_def)

lemma waits_touch:
  assumes "waits_in_flight t W" "table_inv t"
  shows "waits_in_flight (fst (touch_at k now t)) W"
proof (rule waits_by_key [OF assms])
  show "table_inv (fst (touch_at k now t))" using assms(2) by simp
  fix k' e
  assume "get_by_key t k' = Some e" "auth_in_flight e"
  then show "\<exists>k2 e'. get_by_key (fst (touch_at k now t)) k2 = Some e' \<and> auth_in_flight e' \<and> ce_auth_id e' = ce_auth_id e"
    by (intro exI [of _ k']) (auto simp: touch_by_key)
qed

lemma waits_maintain:
  assumes "waits_in_flight t W" "table_inv t"
  shows "waits_in_flight (fst (maintain_for_flow now key t)) W"
proof -
  obtain t' po where m: "maintain_for_flow now key t = (t', po)" by fastforce
  have i: "table_inv (t\<lparr>ct_last_sweep := now\<rparr>)" using assms by simp
  have "get_by_key t' k = Some e" if "get_by_key t k = Some e" "auth_in_flight e" for k e
    using m
  proof (cases rule: maintain_cases)
    case sweep
    then show ?thesis using prune_spec(5) [OF i sweep, of k e] that by (simp add: get_by_key_def)
  qed (use that in simp)
  moreover have "table_inv t'" using maintain_inv(1) [OF assms(2), of now key] m by simp
  ultimately have "waits_in_flight t' W" by (intro waits_by_key [OF assms]) blast+
  then show ?thesis using m by simp
qed

section \<open>Operations on the shared state\<close>

lemma session_inv_frame:
  assumes "session_inv s"
    and "ss_conntrack s' = ss_conntrack s" "ss_waiters s' = ss_waiters s" "ss_resolved s' = ss_resolved s"
    "ss_next_waiter s' = ss_next_waiter s" "ss_closed s' = ss_closed s" "ss_close_info s' = ss_close_info s"
    "ss_stop s' = ss_stop s" "queues_bounded s'"
  shows "session_inv s'"
  using assms by (simp add: session_inv_def waiters_conserved_def)

lemma inv_queues: "session_inv s \<Longrightarrow> queues_bounded s"
  by (simp add: session_inv_def)

lemma inv_emit [simp]: "session_inv s \<Longrightarrow> session_inv (emit ev s)"
  by (simp add: emit_def inv_defs)

lemma inv_stats [simp]: "session_inv (s\<lparr>ss_stats := st\<rparr>) = session_inv s"
  by (simp add: inv_defs)

lemma inv_settle [simp]: "session_inv (settle_auth b s) = session_inv s"
  by (simp add: settle_auth_def Let_def)

lemma inv_bumps [simp]:
  "session_inv (bump_exhausted s) = session_inv s" "session_inv (bump_scheduled s) = session_inv s"
  "session_inv (bump_cancelled s) = session_inv s" "session_inv (bump_transient s) = session_inv s"
  "session_inv (record_auth_sent s) = session_inv s" "session_inv (record_retry_sent s) = session_inv s"
  by (simp_all add: bump_exhausted_def bump_scheduled_def bump_cancelled_def bump_transient_def
      record_auth_sent_def record_retry_sent_def Let_def)

lemma inv_record_drop [simp]: "session_inv s \<Longrightarrow> session_inv (record_drop s)"
proof -
  assume "session_inv s"
  then have "session_inv (s\<lparr>ss_dropped_packets := ss_dropped_packets s + 1\<rparr>)"
    by (simp add: inv_defs)
  then show ?thesis by (simp add: record_drop_def Let_def)
qed

lemma inv_record_layout [simp]: "session_inv s \<Longrightarrow> session_inv (record_data_layout l n s)"
proof -
  assume "session_inv s"
  then have "session_inv (s\<lparr>ss_seen_length_prefixed := True\<rparr>)" "session_inv (s\<lparr>ss_seen_token_framed := True\<rparr>)"
    by (simp_all add: inv_defs)
  with \<open>session_inv s\<close> show ?thesis by (simp add: record_data_layout_def split: l3_data_layout.splits)
qed

lemma inv_protocol_message [simp]: "session_inv s \<Longrightarrow> session_inv (record_protocol_message b s)"
  by (simp add: record_protocol_message_def Let_def inv_defs)

lemma inv_heartbeat_ack [simp]: "session_inv s \<Longrightarrow> session_inv (record_heartbeat_ack ck s)"
  by (simp add: record_heartbeat_ack_def inv_defs)

text \<open>Changing the table and answering the waiters of one id, in one step.\<close>

lemma inv_table:
  assumes "session_inv s" "table_inv t" "waits_in_flight t (ss_waiters s)"
  shows "session_inv (s\<lparr>ss_conntrack := t\<rparr>)"
  using assms by (simp add: inv_defs)

lemma inv_answer:
  assumes "session_inv s" "table_inv t" "waits_in_flight t (hm_remove i (ss_waiters s))"
  shows "session_inv (s\<lparr>ss_conntrack := t, ss_waiters := hm_remove i (ss_waiters s),
    ss_resolved := ss_resolved s
      @ map (\<lambda>w. (w, v)) (case hm_get (ss_waiters s) i of None \<Rightarrow> [] | Some ws \<Rightarrow> ws)\<rparr>)"
proof -
  have d: "hm_distinct (ss_waiters s)" using assms(1) by (simp add: session_inv_def)
  have m: "map fst (map (\<lambda>w. (w, v)) xs) = xs" for xs :: "waiter list" by (simp add: comp_def)
  show ?thesis
    using assms d pending_remove_default [OF d, of i]
    by (simp add: inv_defs m comp_def ac_simps)
qed

lemma inv_notify_table:
  assumes "session_inv s" "table_inv t" "waits_in_flight t (hm_remove i (ss_waiters s))"
  shows "session_inv (notify i v (s\<lparr>ss_conntrack := t\<rparr>))"
  using inv_answer [OF assms, of "Some v"] by (simp add: notify_def Let_def)

lemma notify_settle: "notify i v (settle_auth b s) = settle_auth b (notify i v s)"
  by (simp add: notify_def settle_auth_def Let_def)

lemma notify_emit: "notify i v (emit ev s) = emit ev (notify i v s)"
  by (simp add: notify_def emit_def Let_def)

lemma inv_abandon [simp]: "session_inv s \<Longrightarrow> session_inv (abandon_flow i s)"
  using inv_answer [of s "fst (evict_by_auth_id i (ss_conntrack s))" i None]
  by (simp add: abandon_flow_def drop_waiters_def Let_def waits_evict session_inv_def)

lemma inv_drain:
  assumes "session_inv s" "table_inv t"
  shows "session_inv (drain_waiters (s\<lparr>ss_conntrack := t\<rparr>))"
  using assms
  by (auto simp: drain_waiters_def drop_waiters_def inv_defs pending_waiters_def comp_def add.commute)

lemma drain_clear:
  "drain_waiters (cancel_retries_and_clear s) =
    (drain_waiters (s\<lparr>ss_conntrack := fst (table_clear (ss_conntrack s))\<rparr>))
      \<lparr>ss_stats := ss_stats (cancel_retries_and_clear s)\<rparr>"
  by (simp add: drain_waiters_def drop_waiters_def cancel_retries_and_clear_def)

lemma inv_drain_clear: "session_inv s \<Longrightarrow> session_inv (drain_waiters (cancel_retries_and_clear s))"
proof -
  assume s: "session_inv s"
  then have "table_inv (fst (table_clear (ss_conntrack s)))" by (simp add: session_inv_def)
  from inv_drain [OF s this] show ?thesis unfolding drain_clear by simp
qed

lemma inv_vip_update [simp]: "session_inv s \<Longrightarrow> session_inv (apply_vip_update v s)"
proof -
  assume "session_inv s"
  then have "session_inv (s\<lparr>ss_current_vip := v\<rparr>)" by (simp add: inv_defs)
  then have "session_inv (drain_waiters (cancel_retries_and_clear (s\<lparr>ss_current_vip := v\<rparr>)))"
    by (rule inv_drain_clear)
  then have "session_inv ((drain_waiters (cancel_retries_and_clear (s\<lparr>ss_current_vip := v\<rparr>)))
      \<lparr>ss_stats := st, ss_packet_subscribers := []\<rparr>)" for st
    by (simp add: inv_defs)
  with \<open>session_inv s\<close> show ?thesis
    by (simp add: apply_vip_update_def Let_def split: option.splits)
qed

lemma inv_shutdown [simp]: "session_inv s \<Longrightarrow> session_inv (shutdown ck r d s)"
proof -
  assume "session_inv s"
  then have "session_inv (s\<lparr>ss_close_info := Some i, ss_closed := True, ss_stop := True, ss_packet_subscribers := []\<rparr>)" for i
    by (simp add: inv_defs)
  then have "session_inv (drain_waiters (cancel_retries_and_clear
      (s\<lparr>ss_close_info := Some i, ss_closed := True, ss_stop := True, ss_packet_subscribers := []\<rparr>)))" for i
    by (rule inv_drain_clear)
  with \<open>session_inv s\<close> show ?thesis by (simp add: shutdown_def Let_def)
qed


section \<open>The reader's steps\<close>

lemma inv_parts:
  assumes "session_inv s"
  shows "table_inv (ss_conntrack s)" "waits_in_flight (ss_conntrack s) (ss_waiters s)" "hm_distinct (ss_waiters s)"
  using assms by (simp_all add: session_inv_def)

lemma inv_touch [simp]: "session_inv s \<Longrightarrow> session_inv (touch_inbound_flow ck p s)"
  using inv_parts [of s]
  by (auto simp: touch_inbound_flow_def intro!: inv_table waits_touch split: sum.splits)

lemma inv_touch_all: "session_inv s \<Longrightarrow> session_inv (fold (touch_inbound_flow ck) ps s)"
  by (induction ps arbitrary: s) simp_all

lemma inv_deliver:
  assumes "session_inv s"
  shows "session_inv (fst (deliver p s))"
proof -
  have q: "queues_bounded s" using assms by (rule inv_queues)
  have sub: "session_inv (s\<lparr>ss_packet_subscribers := hm_insert k (e\<lparr>ps_sender := fst (try_send p (ps_sender e))\<rparr>)
      (ss_packet_subscribers s)\<rparr>)" if "hm_get (ss_packet_subscribers s) k = Some e" for k e
    using assms that by (auto simp: inv_defs)
  have raw: "session_inv (s\<lparr>ss_packets := fst (try_send p (ss_packets s))\<rparr>)"
    using assms by (simp add: inv_defs)
  show ?thesis
    using assms sub raw
    by (auto simp: deliver_def Let_def split: sum.splits option.splits prod.splits try_send_error.splits)
      (metis fst_conv)+
qed

lemma inv_deliver_all: "session_inv s \<Longrightarrow> session_inv (fst (deliver_all ps s))"
proof (induction ps arbitrary: s)
  case (Cons p ps)
  have "session_inv (fst (deliver p s))" using Cons.prems by (rule inv_deliver)
  then show ?case using Cons.IH by (auto split: prod.splits option.splits)
qed simp

lemma inv_complete_notify: "session_inv s \<Longrightarrow> session_inv (complete_and_notify i v s)"
proof -
  assume s: "session_inv s"
  let ?t = "update_by_auth_id i (complete v) (ss_conntrack s)"
  note p = inv_parts [OF s]
  have ans: "session_inv (notify i u (s\<lparr>ss_conntrack := ?t\<rparr>))" for u
    using s p by (intro inv_notify_table waits_resolve) simp_all
  have "waits_in_flight ?t (ss_waiters s)"
    if "get_by_auth_id ?t i = None \<or> (\<exists>e. get_by_auth_id ?t i = Some e \<and> ce_outcome e = None)"
    using p(2)
  proof (rule waits_mono)
    fix j e
    assume "get_by_auth_id (ss_conntrack s) j = Some e" "auth_in_flight e"
    then show "\<exists>e'. get_by_auth_id ?t j = Some e' \<and> auth_in_flight e'"
      using that p(1) by (cases "j = i") (auto simp: update_by_auth_id_get split: option.splits)
  qed
  then have "session_inv (s\<lparr>ss_conntrack := ?t\<rparr>)"
    if "get_by_auth_id ?t i = None \<or> (\<exists>e. get_by_auth_id ?t i = Some e \<and> ce_outcome e = None)"
    using s p that by (intro inv_table) simp_all
  with ans show ?thesis
    by (auto simp: complete_and_notify_def Let_def notify_settle split: option.splits)
qed

lemma schedule_retry_facts:
  "ce_key (fst (schedule_retry b e)) = ce_key e" "ce_auth_id (fst (schedule_retry b e)) = ce_auth_id e"
  "auth_in_flight (fst (schedule_retry b e)) = auth_in_flight e"
  "entry_ok e \<Longrightarrow> entry_ok (fst (schedule_retry b e))"
  by (auto simp: schedule_retry_def auth_in_flight_def entry_ok_def)

lemma inv_retry_tx:
  "session_inv s \<Longrightarrow> (\<And>ch. r = Some ch \<Longrightarrow> chan_ok ch) \<Longrightarrow> session_inv (s\<lparr>ss_retry_tx := r\<rparr>)"
  by (simp add: inv_defs)

lemma inv_dispatch_transient: "session_inv s \<Longrightarrow> session_inv (dispatch_transient i d s)"
proof -
  assume s: "session_inv s"
  let ?b = "rc_max_wire_retries_per_flow (ss_retry_config s)"
  let ?s1 = "s\<lparr>ss_conntrack := update_by_auth_id i (\<lambda>e. fst (schedule_retry ?b e)) (ss_conntrack s)\<rparr>"
  note p = inv_parts [OF s]
  have s1: "session_inv ?s1"
    using s p by (intro inv_table waits_update table_inv_update) (simp_all add: schedule_retry_facts)
  have ok: "chan_ok ch" if "ss_retry_tx s = Some ch" for ch
    using inv_queues [OF s] that by (simp add: queues_bounded_def)
  have push: "session_inv (?s1\<lparr>ss_retry_tx := Some ch'\<rparr>)"
    if "ss_retry_tx s = Some ch" "try_send j ch = (ch', r)" for ch ch' j r
    using s1 chan_ok_try_send [OF ok [OF that(1)], of j] that(2) by (intro inv_retry_tx) auto
  show ?thesis
    using s s1 push inv_complete_notify
    by (auto simp: dispatch_transient_def Let_def split: option.splits sum.splits prod.splits)
qed

lemma inv_warn [simp]: "session_inv s \<Longrightarrow> session_inv (warn_ambiguous v s)"
  by (simp add: warn_ambiguous_def split: option.splits)

lemma notify_warn: "notify i v (warn_ambiguous u s) = warn_ambiguous u (notify i v s)"
  by (simp add: warn_ambiguous_def notify_emit split: option.splits)

text \<open>Applying a reply: the id it names is the only one whose entry may leave flight.\<close>

lemma apply_reply_cases:
  fixes fs :: "bytes \<Rightarrow> 'de + l3_auth_response_wire"
  assumes "apply_auth_wire_status fs st j t = (t', r :: (('se, 'de) flow_auth_error + u64))"
  obtains (error) e where "r = Inl e" "t' = t"
  | (ok) i v e where "r = Inr i" "reply_verdict fs st j = Some (i, v)" "get_by_auth_id t i = Some e"
      "t' = update_by_auth_id i (complete v) t"
proof (cases r)
  case (Inl e)
  have "\<not> (\<exists>i v. reply_verdict fs st j = Some (i, v) \<and> get_by_auth_id t i \<noteq> None)"
    using apply_auth_wire_status_Inr [of fs st j t, where 'se = 'se] assms Inl by auto
  then have "t' = t"
    using apply_auth_wire_status_eq [of fs st j t, where 'se = 'se] assms
    by (auto split: option.splits prod.splits)
  with Inl show ?thesis by (rule error)
next
  case (Inr i)
  then obtain v where v: "reply_verdict fs st j = Some (i, v)" "get_by_auth_id t i \<noteq> None"
    using apply_auth_wire_status_Inr [of fs st j t i, where 'se = 'se] assms by auto
  then obtain e where "get_by_auth_id t i = Some e" by blast
  with v Inr show ?thesis
    using apply_auth_wire_status_eq [of fs st j t, where 'se = 'se] assms by (intro ok) auto
qed

lemma inv_dispatch_auth:
  fixes fs :: "bytes \<Rightarrow> 'de + l3_auth_response_wire"
  assumes "session_inv s"
  shows "session_inv (dispatch_auth fs st j s)"
proof -
  define s0 where "s0 = (if is_transient (classify_auth_wire_status st) then bump_transient s else s)"
  have s0: "session_inv s0" using assms by (simp add: s0_def)
  note p = inv_parts [OF s0]
  obtain t' and r :: "(unit, 'de) flow_auth_error + u64"
    where a: "apply_auth_wire_status fs st j (ss_conntrack s0) = (t', r)" by fastforce
  have plain: "session_inv (case r of Inl _ \<Rightarrow> s0\<lparr>ss_conntrack := t'\<rparr>
      | Inr i \<Rightarrow> (case (case get_by_auth_id t' i of None \<Rightarrow> None | Some e \<Rightarrow> ce_outcome e) of
            None \<Rightarrow> s0\<lparr>ss_conntrack := t'\<rparr>
          | Some outcome \<Rightarrow> notify i outcome (warn_ambiguous outcome (settle_auth False (s0\<lparr>ss_conntrack := t'\<rparr>)))))"
    using a
  proof (cases rule: apply_reply_cases)
    case (error e)
    then show ?thesis using s0 by simp
  next
    case (ok i v e)
    have "get_by_auth_id t' i = Some (complete v e)" using ok p(1) by (simp add: update_by_auth_id_get)
    moreover obtain w where "ce_outcome (complete v e) = Some w" by (cases "ce_outcome e") simp_all
    moreover have "session_inv (notify i w (s0\<lparr>ss_conntrack := t'\<rparr>))"
      unfolding ok(4) using s0 p by (intro inv_notify_table waits_resolve) simp_all
    ultimately show ?thesis using ok(1) by (simp add: notify_warn notify_settle)
  qed
  show ?thesis
    using plain a s0 assms inv_dispatch_transient
    by (auto simp: dispatch_auth_def Let_def s0_def [symmetric] split: sum.splits)
qed

lemma inv_dispatch: "session_inv s \<Longrightarrow> session_inv (fst (dispatch fs fv ck f s))"
  by (simp add: dispatch_def inv_dispatch_auth inv_touch_all
      split: inbound.splits data_resp_packets.splits option.splits)

lemma inv_frame_step: "session_inv s \<Longrightarrow> session_inv (fst (frame_step fs fv ck f s))"
proof -
  assume "session_inv s"
  then have "session_inv (fst (dispatch fs fv ck f s))" by (rule inv_dispatch)
  then show ?thesis
    by (cases "dispatch fs fv ck f s"; cases "snd (dispatch fs fv ck f s)")
      (auto simp: frame_step_def inv_deliver_all simp del: deliver_all.simps)
qed


section \<open>The caller's steps\<close>

lemma evict_id_frame [simp]: "ct_next_auth_id (fst (evict_by_auth_id i t)) = ct_next_auth_id t"
  by (simp add: evict_by_auth_id_def split: option.splits)

lemma waits_set_entry:
  assumes "waits_in_flight t W" "table_inv t" "hm_get (ct_by_key t) k = Some e"
    and "ce_key e' = ce_key e" "ce_auth_id e' = ce_auth_id e" "entry_ok e'" "auth_in_flight e \<Longrightarrow> auth_in_flight e'"
  shows "waits_in_flight (t\<lparr>ct_by_key := hm_insert k e' (ct_by_key t)\<rparr>) W"
proof (rule waits_by_key [OF assms(1,2)])
  show "table_inv (t\<lparr>ct_by_key := hm_insert k e' (ct_by_key t)\<rparr>)"
    using assms(2-6) by (rule table_inv_set_entry)
  fix k1 e1
  assume "get_by_key t k1 = Some e1" "auth_in_flight e1"
  then show "\<exists>k2 e2. get_by_key (t\<lparr>ct_by_key := hm_insert k e' (ct_by_key t)\<rparr>) k2 = Some e2
      \<and> auth_in_flight e2 \<and> ce_auth_id e2 = ce_auth_id e1"
    using assms(3,5,7) by (intro exI [of _ k1]) (auto simp: get_by_key_def)
qed

lemma waits_get_or_create:
  assumes "waits_in_flight t W" "table_inv t" "unat (ct_next_auth_id t) + 1 < 2 ^ 64"
    and "get_or_create_at k a g now t = (t', e)"
    and "\<And>e0. hm_get (ct_by_key t) k = Some e0 \<Longrightarrow> ce_app_id e0 = a \<and> ce_node_group_id e0 = g"
  shows "waits_in_flight t' W"
  using assms(4)
proof (cases rule: get_or_create_cases)
  case (existing e0)
  have "entry_ok (e0\<lparr>ce_last_used := now\<rparr>)"
    using table_inv_entry(3) [OF assms(2) existing(1)] by (simp add: entry_ok_def)
  then show ?thesis
    unfolding existing(5,4) by (intro waits_set_entry [OF assms(1,2) existing(1)]) simp_all
next
  case (created t1)
  have none: "hm_get (ct_by_key t) k = None" using created(3) assms(5) by fastforce
  then have t1: "t1 = t" using created(1) by (auto simp: evict_def)
  have "table_inv t'" using get_or_create_inv [OF assms(2-4)] by blast
  then show ?thesis
    using none by (intro waits_by_key [OF assms(1,2)])
      (auto simp: created(6) t1 get_by_key_def intro!: exI split: if_splits)
qed

lemma retire_changed_spec:
  assumes "session_inv s"
  shows "session_inv (retire_changed_flow k a g s)"
    and "ct_next_auth_id (ss_conntrack (retire_changed_flow k a g s)) = ct_next_auth_id (ss_conntrack s)"
    and "hm_get (ct_by_key (ss_conntrack (retire_changed_flow k a g s))) k = Some e0 \<Longrightarrow>
      ce_app_id e0 = a \<and> ce_node_group_id e0 = g"
proof -
  note p = inv_parts [OF assms]
  have ev: "session_inv (notify i v (s\<lparr>ss_conntrack := fst (evict_by_auth_id i (ss_conntrack s))\<rparr>))" for i v
    using assms p by (intro inv_notify_table waits_evict) simp_all
  show "session_inv (retire_changed_flow k a g s)"
    using assms ev by (auto simp: retire_changed_flow_def Let_def split: option.splits)
  show "ct_next_auth_id (ss_conntrack (retire_changed_flow k a g s)) = ct_next_auth_id (ss_conntrack s)"
    by (simp add: retire_changed_flow_def Let_def notify_def split: option.splits)
  show "hm_get (ct_by_key (ss_conntrack (retire_changed_flow k a g s))) k = Some e0 \<Longrightarrow>
      ce_app_id e0 = a \<and> ce_node_group_id e0 = g"
    using table_inv_entry(2) [OF p(1), of k]
    by (auto simp: retire_changed_flow_def Let_def notify_def get_by_key_def evict_by_auth_id_def
        split: option.splits if_splits)
qed

lemma inv_register:
  assumes "session_inv s" "get_by_auth_id (ss_conntrack s) i = Some e" "auth_in_flight e"
  shows "session_inv (fst (register_waiter i s))"
proof -
  let ?ws = "case hm_get (ss_waiters s) i of None \<Rightarrow> [] | Some ws \<Rightarrow> ws"
  note p = inv_parts [OF assms(1)]
  have "mset (pending_waiters (hm_insert i (?ws @ [ss_next_waiter s]) (ss_waiters s))) + mset ?ws
      = (mset (pending_waiters (ss_waiters s)) + {#ss_next_waiter s#}) + mset ?ws"
    using pending_insert [OF p(3), of i "?ws @ [ss_next_waiter s]"] by (simp add: ac_simps)
  then have m: "mset (pending_waiters (hm_insert i (?ws @ [ss_next_waiter s]) (ss_waiters s)))
      = mset (pending_waiters (ss_waiters s)) + {#ss_next_waiter s#}"
    by (simp only: add_right_cancel)
  have w: "waits_in_flight (ss_conntrack s) (hm_insert i (?ws @ [ss_next_waiter s]) (ss_waiters s))"
    using p(2) assms(2,3) by (auto simp: waits_in_flight_def)
  have c: "mset (pending_waiters (ss_waiters s)) + mset (map fst (ss_resolved s)) = mset [0..<ss_next_waiter s]"
    using assms(1) by (simp add: session_inv_def waiters_conserved_def)
  have "waiters_conserved (fst (register_waiter i s))"
    unfolding waiters_conserved_def register_waiter_def Let_def
    using m c by (simp add: ac_simps del: mset_upt)
  with w assms(1) show ?thesis
    by (auto simp: session_inv_def register_waiter_def Let_def queues_bounded_def)
qed

lemma inv_report [simp]: "session_inv s \<Longrightarrow> session_inv (report_pressure po s)"
  by (simp add: report_pressure_def)

lemma inv_claim:
  assumes "session_inv s" "unat (ct_next_auth_id (ss_conntrack s)) + 1 < 2 ^ 64"
  shows "session_inv (fst (claim_flow ck a g flow s))"
proof -
  let ?k = "flow_key_of flow"
  obtain t1 po where m: "maintain_for_flow (ck_now ck) ?k (ss_conntrack s) = (t1, po)" by fastforce
  define s2 where "s2 = retire_changed_flow ?k a g (s\<lparr>ss_conntrack := t1\<rparr>)"
  obtain t3 e where g: "get_or_create_at ?k a g (ck_now ck) (ss_conntrack s2) = (t3, e)" by fastforce
  note p = inv_parts [OF assms(1)]
  have t1: "table_inv t1" "ct_next_auth_id t1 = ct_next_auth_id (ss_conntrack s)" "waits_in_flight t1 (ss_waiters s)"
    using maintain_inv [OF p(1), of "ck_now ck" ?k] waits_maintain [OF p(2,1), of "ck_now ck" ?k] m by simp_all
  have s1: "session_inv (s\<lparr>ss_conntrack := t1\<rparr>)" using assms(1) t1(1,3) by (rule inv_table)
  note r = retire_changed_spec [OF s1, of ?k a g, folded s2_def]
  have nid: "unat (ct_next_auth_id (ss_conntrack s2)) + 1 < 2 ^ 64" using r(2) t1(2) assms(2) by simp
  note q = inv_parts [OF r(1)]
  have c: "table_inv t3" "get_by_key t3 ?k = Some e" "ce_key e = ?k"
    using get_or_create_inv [OF q(1) nid g] by simp_all
  have w3: "waits_in_flight t3 (ss_waiters s2)" using waits_get_or_create [OF q(2,1) nid g r(3)] .
  have s3: "session_inv (s2\<lparr>ss_conntrack := t3\<rparr>)" using r(1) c(1) w3 by (rule inv_table)
  have claimed: "session_inv (fst (register_waiter (ce_auth_id e)
      (s2\<lparr>ss_conntrack := t3\<lparr>ct_by_key := hm_insert ?k (fst (try_start_auth (ck_now ck) e)) (ct_by_key t3)\<rparr>\<rparr>)))"
    if o: "ce_outcome e = None"
  proof -
    let ?e = "fst (try_start_auth (ck_now ck) e)"
    let ?t = "t3\<lparr>ct_by_key := hm_insert ?k ?e (ct_by_key t3)\<rparr>"
    have e: "hm_get (ct_by_key t3) ?k = Some e" using c(2) by (simp add: get_by_key_def)
    have f: "ce_key ?e = ce_key e" "ce_auth_id ?e = ce_auth_id e" "entry_ok ?e" "auth_in_flight ?e"
      using o table_inv_entry(3) [OF c(1) e] by (auto simp: try_start_auth_def entry_ok_def auth_in_flight_def)
    have ti: "table_inv ?t" using c(1) e f(1-3) by (rule table_inv_set_entry)
    have "waits_in_flight ?t (ss_waiters s2)" using waits_set_entry [OF w3 c(1) e f(1-3)] f(4) by blast
    then have "session_inv (s2\<lparr>ss_conntrack := ?t\<rparr>)" using r(1) ti by (intro inv_table)
    moreover have "get_by_auth_id ?t (ce_auth_id e) = Some ?e"
      using get_by_auth_id_iff [OF ti, of "ce_auth_id e" ?e] f(2) by (auto simp: get_by_key_def)
    ultimately show ?thesis using f(4) by (intro inv_register) simp_all
  qed
  show ?thesis
    using assms(1) s3 claimed
    by (auto simp: claim_flow_def m g Let_def s2_def [symmetric] split: option.splits auth_outcome.splits prod.splits)
qed

section \<open>Every step\<close>

lemma inv_prepare: "session_inv s \<Longrightarrow> session_inv (fst (authorize_prepare sha hmac tv ck ctx a i flow s))"
proof -
  assume s: "session_inv s"
  note p = inv_parts [OF s]
  have upd: "session_inv (s\<lparr>ss_conntrack := update_by_auth_id i (set_reusable_frame fr d) (ss_conntrack s)\<rparr>)"
    if "get_by_auth_id (ss_conntrack s) i = Some e" "auth_in_flight e" for e fr d
  proof -
    from that(1) obtain k where k: "hm_get (ct_by_id (ss_conntrack s)) i = Some k"
      "hm_get (ct_by_key (ss_conntrack s)) k = Some e"
      by (auto simp: get_by_auth_id_def split: option.splits)
    have f: "ce_key (set_reusable_frame fr d e) = ce_key e" "ce_auth_id (set_reusable_frame fr d e) = ce_auth_id e"
      "entry_ok (set_reusable_frame fr d e)" "auth_in_flight (set_reusable_frame fr d e)"
      using that(2) by (auto simp: set_reusable_frame_def entry_ok_def auth_in_flight_def)
    show ?thesis
      using s p k f by (auto simp: update_by_auth_id_def intro!: inv_table table_inv_set_entry waits_set_entry)
  qed
  show ?thesis using s upd by (auto simp: authorize_prepare_def split: sum.splits option.splits)
qed

lemma inv_written: "session_inv s \<Longrightarrow> session_inv (fst (authorize_written i ok s))"
  by (simp add: authorize_written_def)

lemma inv_finish: "session_inv s \<Longrightarrow> session_inv (fst (authorize_finish i ms flow r s))"
  by (simp add: authorize_finish_def Let_def split: wait_result.splits auth_outcome.splits)

lemma inv_subscribe: "session_inv s \<Longrightarrow> session_inv (fst (subscribe_flow flow s))"
  by (auto simp: subscribe_flow_def Let_def inv_defs)

lemma inv_unsubscribe: "session_inv s \<Longrightarrow> session_inv (flow_packets_drop k i s)"
  by (auto simp: flow_packets_drop_def inv_defs split: option.splits)

lemma inv_heartbeat_fields [simp]:
  "session_inv (s\<lparr>ss_first_heartbeat_written := a, ss_heartbeat_requests_sent := b\<rparr>) = session_inv s"
  by (simp add: inv_defs)

lemma inv_writer: "session_inv s \<Longrightarrow> session_inv (writer_step ck hb r s)"
  by (simp add: writer_step_def split: write_result.splits)

lemma inv_heartbeat: "session_inv s \<Longrightarrow> session_inv (fst (heartbeat_tick ck n s))"
  by (simp add: heartbeat_tick_def)

lemma inv_retry_recv: "session_inv s \<Longrightarrow> session_inv (fst (retry_recv s))"
  by (auto simp: retry_recv_def inv_defs chan_ok_def split: option.splits list.splits)

lemma take_retry_facts:
  "ce_key (fst (take_retry e)) = ce_key e" "ce_auth_id (fst (take_retry e)) = ce_auth_id e"
  "auth_in_flight (fst (take_retry e)) = auth_in_flight e" "entry_ok e \<Longrightarrow> entry_ok (fst (take_retry e))"
  "ce_outcome (fst (take_retry e)) = ce_outcome e"
  by (auto simp: take_retry_def auth_in_flight_def entry_ok_def)

lemma inv_retry_fire: "session_inv s \<Longrightarrow> session_inv (fst (retry_fire ck job s))"
proof -
  assume s: "session_inv s"
  let ?i = "rj_auth_id job"
  let ?t = "\<lambda>f. update_by_auth_id ?i f (ss_conntrack s)"
  let ?c = "complete (Failed ''auth deadline exceeded'')" and ?r = "\<lambda>e. fst (take_retry e)"
  note p = inv_parts [OF s]
  have rt: "session_inv (s\<lparr>ss_conntrack := ?t ?r\<rparr>)"
    using s p by (intro inv_table table_inv_update waits_update) (simp_all add: take_retry_facts)
  have nt: "session_inv (notify ?i v (s\<lparr>ss_conntrack := ?t f\<rparr>))" if "f = ?c \<or> f = ?r" for f v
    using s p that by (intro inv_notify_table waits_resolve table_inv_update) (auto simp: take_retry_facts)
  have bump: "notify ?i v (bump_exhausted u) = bump_exhausted (notify ?i v u)" for v u
    by (simp add: notify_def bump_exhausted_def Let_def)
  have tab: "ss_conntrack (bump_exhausted u) = ss_conntrack u" for u by (simp add: bump_exhausted_def)
  have out: "\<exists>v. ce_outcome (?c e) = Some v" for e by (cases "ce_outcome e") simp_all
  show ?thesis
  proof (cases "get_by_auth_id (ss_conntrack s) ?i")
    case None
    then show ?thesis using s by (simp add: retry_fire_def)
  next
    case (Some e)
    show ?thesis
    proof (cases "case ce_auth_deadline e of None \<Rightarrow> False | Some d \<Rightarrow> d \<le> ck_now ck")
      case True
      obtain v where v: "ce_outcome (?c e) = Some v" using out by blast
      have "get_by_auth_id (?t ?c) ?i = Some (?c e)" using p(1) Some by (simp add: update_by_auth_id_get)
      then show ?thesis
        using True Some v nt by (simp add: retry_fire_def Let_def notify_settle bump tab)
    next
      case False
      have g: "get_by_auth_id (?t ?r) ?i = Some (?r e)"
        using p(1) Some by (simp add: update_by_auth_id_get take_retry_facts)
      show ?thesis
        using False Some rt nt g
        by (auto simp: retry_fire_def Let_def notify_settle take_retry_facts split: option.splits)
    qed
  qed
qed

lemma inv_retry_written: "session_inv s \<Longrightarrow> session_inv (retry_written ck ok s)"
  by (simp add: retry_written_def)

lemma inv_recv: "session_inv s \<Longrightarrow> session_inv (fst (recv_packet s))"
  by (auto simp: recv_packet_def inv_defs chan_ok_def split: list.splits)

lemma inv_start: "session_inv (session_start vip grp bus cfg ck)"
  by (simp add: session_start_def shared_new_def inv_defs pending_waiters_def)

lemma step_inv: "session_step fs fv s s' \<Longrightarrow> session_inv s \<Longrightarrow> session_inv s'"
proof (induction rule: session_step.induct)
  case (claim s ck app grp flow)
  then show ?case by (intro inv_claim)
next
  case (close s ck)
  then show ?case by (simp add: request_close_def)
qed (auto intro: inv_frame_step inv_prepare inv_written inv_finish inv_subscribe inv_unsubscribe
    inv_writer inv_heartbeat inv_retry_recv inv_retry_fire inv_retry_written inv_recv)

lemma reachable_inv: "session_reachable fs fv s \<Longrightarrow> session_inv s"
  by (induction rule: session_reachable.induct) (auto intro: inv_start step_inv)

end
