(* ===== verification/L3_Closing.thy ===== *)
theory L3_Closing
  imports L3_Invariant "HOL-Library.Sublist"
begin

text \<open>
  What no step of a session takes back: an answer given to a caller, the fact that the session
  is closed and the reason, and, once closed, the absence of subscribers. The relation \<open>kept\<close>
  is a preorder, so the lemma of a composed operation follows from those of its parts.
\<close>

definition kept :: "session_shared \<Rightarrow> session_shared \<Rightarrow> bool" where
  "kept s s' \<longleftrightarrow>
     ss_closed s' = ss_closed s \<and> ss_close_info s' = ss_close_info s
     \<and> prefix (ss_resolved s) (ss_resolved s')
     \<and> (ss_closed s \<longrightarrow> ss_packet_subscribers s = [] \<longrightarrow> ss_packet_subscribers s' = [])"

lemma kept_refl [simp]: "kept s s"
  by (simp add: kept_def)

lemma kept_trans: "kept s s' \<Longrightarrow> kept s' s'' \<Longrightarrow> kept s s''"
  by (auto simp: kept_def intro: prefix_order.trans)

lemma kept_fields:
  assumes "ss_closed s' = ss_closed s" "ss_close_info s' = ss_close_info s"
    "ss_packet_subscribers s' = ss_packet_subscribers s" "ss_resolved s' = ss_resolved s"
  shows "kept s s'"
  using assms by (simp add: kept_def)

lemma kept_simple [simp]:
  "kept s (emit ev s)" "kept s (settle_auth b s)" "kept s (bump_exhausted s)" "kept s (bump_scheduled s)"
  "kept s (bump_cancelled s)" "kept s (bump_transient s)" "kept s (record_auth_sent s)"
  "kept s (record_retry_sent s)" "kept s (record_protocol_message m s)" "kept s (record_heartbeat_ack ck s)"
  "kept s (s\<lparr>ss_stats := st\<rparr>)" "kept s (s\<lparr>ss_retry_tx := r\<rparr>)" "kept s (s\<lparr>ss_packets := ch\<rparr>)"
  "kept s (s\<lparr>ss_conntrack := t\<rparr>)"
  by (rule kept_fields; simp add: emit_def settle_auth_def bump_exhausted_def bump_scheduled_def
      bump_cancelled_def bump_transient_def record_auth_sent_def record_retry_sent_def
      record_protocol_message_def record_heartbeat_ack_def Let_def)+

lemma kept_emits [simp]:
  "kept s (record_drop s)" "kept s (record_data_layout l n s)" "kept s (warn_ambiguous v s)"
  "kept s (report_pressure po s)"
  by (rule kept_fields; simp add: record_drop_def record_data_layout_def warn_ambiguous_def
      report_pressure_def emit_def Let_def split: l3_data_layout.splits option.splits)+

lemma kept_notify [simp]: "kept s (notify i v s)"
  by (simp add: kept_def notify_def Let_def)

lemma kept_abandon [simp]: "kept s (abandon_flow i s)"
  by (auto simp: kept_def abandon_flow_def drop_waiters_def Let_def)

lemma kept_retire [simp]: "kept s (retire_changed_flow k a g s)"
  by (auto simp: kept_def retire_changed_flow_def notify_def Let_def split: option.splits)

lemma kept_vip [simp]: "kept s (apply_vip_update v s)"
  by (auto simp: kept_def apply_vip_update_def cancel_retries_and_clear_def drain_waiters_def
      drop_waiters_def table_clear_def emit_def Let_def split: option.splits)

lemma kept_touch [simp]: "kept s (touch_inbound_flow ck p s)"
  by (auto simp: touch_inbound_flow_def split: sum.splits)

lemma kept_touch_all: "kept s (fold (touch_inbound_flow ck) ps s)"
  by (induction ps arbitrary: s) (auto intro: kept_trans [OF kept_touch])

lemma kept_deliver: "kept s (fst (deliver p s))"
  by (auto simp: deliver_def Let_def kept_def try_send_def record_drop_def emit_def
      split: sum.splits option.splits prod.splits if_splits try_send_error.splits)

lemma kept_deliver_all: "kept s (fst (deliver_all ps s))"
proof (induction ps arbitrary: s)
  case (Cons p ps)
  show ?case
    using kept_deliver [of s p] Cons.IH [of "fst (deliver p s)"]
    by (auto split: prod.splits option.splits intro: kept_trans)
qed simp

text \<open>The same lemmas as introduction rules on the result of an operation.\<close>

lemmas kept_after = kept_simple [THEN [2] kept_trans] kept_emits [THEN [2] kept_trans]
  kept_notify [THEN [2] kept_trans] kept_abandon [THEN [2] kept_trans]

lemma kept_complete_notify: "kept s (complete_and_notify i v s)"
  unfolding complete_and_notify_def Let_def
  by (auto split: option.splits intro!: kept_after simp del: kept_simple kept_notify)

lemma kept_transient: "kept s (dispatch_transient i d s)"
  unfolding dispatch_transient_def Let_def
  by (auto split: option.splits prod.splits sum.splits simp del: kept_simple
      intro!: kept_after kept_complete_notify [THEN [2] kept_trans])

lemma kept_dispatch_auth: "kept s (dispatch_auth fs st j s)"
proof -
  define s0 where "s0 = (if is_transient (classify_auth_wire_status st) then bump_transient s else s)"
  have s0: "kept s s0" by (simp add: s0_def)
  then have "kept s (s0\<lparr>ss_conntrack := t\<rparr>)" for t using kept_simple(14) kept_trans by blast
  moreover have "kept s (dispatch_transient i d s0)" for i d by (rule kept_trans [OF s0 kept_transient])
  ultimately show ?thesis
    unfolding dispatch_auth_def Let_def s0_def [symmetric]
    using s0 by (auto split: sum.splits option.splits prod.splits intro!: kept_after simp del: kept_notify kept_simple)
qed

lemma kept_dispatch: "kept s (fst (dispatch fs fv ck f s))"
  unfolding dispatch_def
  by (auto split: inbound.splits data_resp_packets.splits option.splits simp: kept_dispatch_auth
      intro!: kept_emits(2) [THEN [2] kept_trans] kept_touch_all simp del: kept_emits)

lemma kept_frame_step: "kept s (fst (frame_step fs fv ck f s))"
  using kept_dispatch [of s fs fv ck f] kept_deliver_all [THEN [2] kept_trans]
  unfolding frame_step_def by (auto split: prod.splits dispatch_action.splits simp del: deliver_all.simps)

lemma kept_register: "kept s (fst (register_waiter i s))"
  by (rule kept_fields) (simp_all add: register_waiter_def Let_def)

lemma kept_claim: "kept s (fst (claim_flow ck a g flow s))"
proof -
  let ?k = "flow_key_of flow"
  obtain t1 po where m: "maintain_for_flow (ck_now ck) ?k (ss_conntrack s) = (t1, po)" by fastforce
  define s2 where "s2 = retire_changed_flow ?k a g (s\<lparr>ss_conntrack := t1\<rparr>)"
  obtain t3 e where g: "get_or_create_at ?k a g (ck_now ck) (ss_conntrack s2) = (t3, e)" by fastforce
  have s2: "kept s s2"
    unfolding s2_def by (rule kept_trans [OF kept_simple(14) kept_retire])
  then have s3: "kept s (s2\<lparr>ss_conntrack := t\<rparr>)" for t using kept_simple(14) kept_trans by blast
  have "kept s (fst (register_waiter i (s2\<lparr>ss_conntrack := t\<rparr>)))" for i t
    by (rule kept_trans [OF s3 kept_register])
  with s3 show ?thesis
    by (auto simp: claim_flow_def m g Let_def s2_def [symmetric]
        split: option.splits auth_outcome.splits prod.splits intro!: kept_emits(4) [THEN [2] kept_trans]
        simp del: kept_emits dest: arg_cong [where f = fst])
      (metis fst_conv)
qed

lemma kept_prepare: "kept s (fst (authorize_prepare sha hmac tv ck ctx a i flow s))"
  by (auto simp: authorize_prepare_def split: sum.splits option.splits)

lemma kept_written: "kept s (fst (authorize_written i ok s))"
  by (simp add: authorize_written_def)

lemma kept_finish: "kept s (fst (authorize_finish i ms flow r s))"
  by (auto simp: authorize_finish_def Let_def split: wait_result.splits auth_outcome.splits
      intro!: kept_after simp del: kept_simple)

lemma kept_subscribe: "kept s (fst (subscribe_flow flow s))"
  by (auto simp: subscribe_flow_def Let_def kept_def)

lemma kept_unsubscribe: "kept s (flow_packets_drop k i s)"
  by (auto simp: flow_packets_drop_def kept_def split: option.splits)

lemma kept_retry_recv: "kept s (fst (retry_recv s))"
  by (auto simp: retry_recv_def split: option.splits list.splits)

lemma kept_retry_fire: "kept s (fst (retry_fire ck job s))"
  unfolding retry_fire_def Let_def
  by (auto split: option.splits prod.splits if_splits intro!: kept_after simp del: kept_notify kept_simple)

lemma kept_recv: "kept s (fst (recv_packet s))"
  by (auto simp: recv_packet_def split: list.splits)

lemmas kept_steps = kept_frame_step kept_claim kept_prepare kept_written kept_finish kept_subscribe
  kept_unsubscribe kept_retry_recv kept_retry_fire kept_recv

section \<open>Closing\<close>

lemma shutdown_fields:
  assumes "ss_close_info s = None"
  shows "ss_close_info (shutdown ck r d s) = Some \<lparr>ci_reason = r, ci_detail = d, ci_closed_at = ck_wall ck\<rparr>"
    "ss_closed (shutdown ck r d s)" "ss_waiters (shutdown ck r d s) = []"
    "table_len (ss_conntrack (shutdown ck r d s)) = 0" "ss_packet_subscribers (shutdown ck r d s) = []"
    "ss_resolved (shutdown ck r d s) = ss_resolved s @ map (\<lambda>w. (w, None)) (pending_waiters (ss_waiters s))"
    "ss_next_waiter (shutdown ck r d s) = ss_next_waiter s"
  using assms by (simp_all add: shutdown_def drain_waiters_def drop_waiters_def cancel_retries_and_clear_def
      table_clear_def table_len_def pending_waiters_def)

text \<open>A step keeps the closing state, or is a shutdown of a session that still had no reason.\<close>

definition closes :: "session_shared \<Rightarrow> session_shared \<Rightarrow> bool" where
  "closes s s' \<longleftrightarrow> kept s s' \<or> (ss_close_info s = None \<and> (\<exists>ck r d. s' = shutdown ck r d s))"

lemma closes_shutdown: "closes s (shutdown ck r d s)"
  by (cases "ss_close_info s = None") (auto simp: closes_def shutdown_def)

lemma closes_kept: "kept s s' \<Longrightarrow> closes s s'"
  by (simp add: closes_def)

lemma closes_writer: "closes s (writer_step ck hb w s)"
  by (auto simp: writer_step_def closes_shutdown split: write_result.splits intro!: closes_kept kept_fields)

lemma closes_retry_written: "closes s (retry_written ck ok s)"
  by (auto simp: retry_written_def closes_shutdown intro!: closes_kept kept_after simp del: kept_simple)

lemma closes_heartbeat: "closes s (fst (heartbeat_tick ck n s))"
  by (simp add: heartbeat_tick_def closes_shutdown closes_kept)

lemma step_closes: "session_step fs fv s s' \<Longrightarrow> closes s s'"
  by (induction rule: session_step.induct)
    (simp_all add: closes_shutdown closes_writer closes_retry_written closes_heartbeat request_close_def
      kept_steps closes_kept)

lemma steps_resolved:
  "(session_step fs fv)\<^sup>*\<^sup>* s s' \<Longrightarrow> prefix (ss_resolved s) (ss_resolved s')"
proof (induction rule: rtranclp_induct)
  case (step y z)
  then have "prefix (ss_resolved y) (ss_resolved z)"
    using step_closes [OF step.hyps(2)] by (auto simp: closes_def kept_def shutdown_fields)
  with step.IH show ?case by (rule prefix_order.trans)
qed simp

lemma steps_closed:
  "(session_step fs fv)\<^sup>*\<^sup>* s s' \<Longrightarrow> ss_close_info s = Some ci \<Longrightarrow> ss_closed s \<Longrightarrow> ss_packet_subscribers s = [] \<Longrightarrow>
   ss_close_info s' = Some ci \<and> ss_closed s' \<and> ss_packet_subscribers s' = []"
proof (induction rule: rtranclp_induct)
  case (step y z)
  then have "kept y z" using step_closes [OF step.hyps(2)] by (auto simp: closes_def)
  with step show ?case by (auto simp: kept_def)
qed simp

end
