(* ===== verification/L3_Correctness.thy ===== *)
theory L3_Correctness
  imports L3_Closing
begin

text \<open>
  The correctness properties of the L3 session: what every reachable state guarantees to the
  callers waiting for an authorization, what closing and a change of the virtual address do,
  how replies, packets and heartbeats are handled, and how the counters can drift.
\<close>

section \<open>A concrete session\<close>

definition sample_clock :: "nat \<Rightarrow> clock" where "sample_clock n = \<lparr>ck_now = n, ck_wall = n\<rparr>"

definition sample_flow :: ipv4_flow where
  "sample_flow = \<lparr>fl_protocol = Tcp, fl_src_addr = Ipv4 10 0 0 1, fl_src_port = 7,
     fl_dst_addr = Ipv4 10 0 0 2, fl_dst_port = 80\<rparr>"

definition sample_session :: session_shared where
  "sample_session = session_start (Ipv4 10 0 0 1) None False retry_disabled (sample_clock 0)"

definition sample_claimed :: session_shared where
  "sample_claimed = fst (authorize_claim (sample_clock 1) ''app'' ''grp'' sample_flow sample_session
     :: _ \<times> (unit, unit) claim)"

definition sample_entry :: conntrack_entry where
  "sample_entry = (new_entry (flow_key_of sample_flow) 1 ''app'' ''grp'' 1)
     \<lparr>ce_auth_started := True, ce_auth_deadline := Some (1 + L3_AUTH_TIMEOUT)\<rparr>"

lemma sample_claim_result:
  "(authorize_claim (sample_clock 1) ''app'' ''grp'' sample_flow sample_session :: _ \<times> (unit, unit) claim)
   = (sample_session
        \<lparr>ss_conntrack := (table_new 0)\<lparr>ct_next_auth_id := 1, ct_by_key := [(flow_key_of sample_flow, sample_entry)],
            ct_by_id := [(1, flow_key_of sample_flow)]\<rparr>,
         ss_waiters := [(1, [0])], ss_next_waiter := 1\<rparr>, Claimed 1 True 0)"
  by (simp add: authorize_claim_def claim_flow_def sample_session_def session_start_def shared_new_def sample_clock_def
      maintain_for_flow_def retire_changed_flow_def get_by_key_def get_or_create_at_def table_new_def
      with_limits_def L3_CONNTRACK_CAPACITY_def table_len_def from_secs_def Let_def new_entry_def
      try_start_auth_def register_waiter_def report_pressure_def sample_entry_def sample_flow_def)

lemma sample_claimed_eq:
  "sample_claimed = sample_session
     \<lparr>ss_conntrack := (table_new 0)\<lparr>ct_next_auth_id := 1, ct_by_key := [(flow_key_of sample_flow, sample_entry)],
         ct_by_id := [(1, flow_key_of sample_flow)]\<rparr>,
      ss_waiters := [(1, [0])], ss_next_waiter := 1\<rparr>"
  unfolding sample_claimed_def sample_claim_result by simp

lemma sample_claimed_fields:
  "ss_current_vip sample_claimed = Ipv4 10 0 0 1" "ss_waiters sample_claimed = [(1, [0])]"
  "ss_resolved sample_claimed = []" "\<not> ss_closed sample_claimed" "ss_close_info sample_claimed = None"
  "ss_next_waiter sample_claimed = 1" "ss_stats sample_claimed = zero_stats"
  "ss_packet_subscribers sample_claimed = []" "ss_packets sample_claimed = chan_new PACKET_QUEUE_DEPTH"
  by (simp_all add: sample_claimed_eq sample_session_def session_start_def shared_new_def)

lemma sample_reachable:
  "session_reachable (fs :: bytes \<Rightarrow> unit + l3_auth_response_wire) fv sample_session"
  "session_reachable (fs :: bytes \<Rightarrow> unit + l3_auth_response_wire) fv sample_claimed"
proof -
  show s: "session_reachable fs fv sample_session"
    unfolding sample_session_def by (rule session_reachable.start)
  have n: "unat (ct_next_auth_id (ss_conntrack sample_session)) + 1 < 2 ^ 64"
    by (simp add: sample_session_def session_start_def shared_new_def table_new_def with_limits_def)
  have c: "sample_claimed = fst (claim_flow (sample_clock 1) ''app'' ''grp'' sample_flow sample_session :: _ \<times> (unit, unit) claim)"
    by (simp add: sample_claimed_def authorize_claim_def sample_session_def session_start_def shared_new_def sample_flow_def)
  show "session_reachable fs fv sample_claimed"
    unfolding c using n by (intro session_reachable.step [OF s] session_step.claim)
qed

section \<open>Waiting callers\<close>

text \<open>
  C3: no caller is stranded. In every state the session can reach by any interleaving of its
  tasks and callers, a caller that waits for a verdict waits on an authorization that is still
  in flight in the conntrack table: its entry has not been evicted, replaced or settled without
  waking the caller.
\<close>

theorem waiting_callers_in_flight:
  assumes "session_reachable fs fv s" and "hm_get (ss_waiters s) i = Some ws"
  shows "\<exists>e. get_by_auth_id (ss_conntrack s) i = Some e \<and> auth_in_flight e"
  using reachable_inv [OF assms(1)] assms(2) by (auto simp: session_inv_def waits_in_flight_def)

theorem waiting_callers_in_flight_witness:
  "\<exists>e. get_by_auth_id (ss_conntrack sample_claimed) 1 = Some e \<and> auth_in_flight e"
  using sample_reachable(2) by (rule waiting_callers_in_flight) (simp add: sample_claimed_eq)

text \<open>
  C4: every caller is answered at most once, none is forgotten and no answer is taken back. In
  every reachable state the callers still waiting and those already answered are together
  exactly the callers that ever registered, each once, and every later state extends the
  answers given so far.
\<close>

theorem callers_answered_once:
  assumes "session_reachable fs fv s" and "(session_step fs fv)\<^sup>*\<^sup>* s s'"
  shows "distinct (pending_waiters (ss_waiters s) @ map fst (ss_resolved s))
    \<and> set (pending_waiters (ss_waiters s) @ map fst (ss_resolved s)) = {0..<ss_next_waiter s}
    \<and> prefix (ss_resolved s) (ss_resolved s')"
proof (intro conjI)
  have m: "mset (pending_waiters (ss_waiters s) @ map fst (ss_resolved s)) = mset [0..<ss_next_waiter s]"
    using reachable_inv [OF assms(1)] by (simp add: session_inv_def waiters_conserved_def)
  show "distinct (pending_waiters (ss_waiters s) @ map fst (ss_resolved s))"
    using mset_eq_imp_distinct_iff [OF m] distinct_upt by blast
  show "set (pending_waiters (ss_waiters s) @ map fst (ss_resolved s)) = {0..<ss_next_waiter s}"
    using mset_eq_setD [OF m] by simp
  show "prefix (ss_resolved s) (ss_resolved s')" using assms(2) by (rule steps_resolved)
qed

theorem callers_answered_once_witness:
  "set (pending_waiters (ss_waiters sample_claimed) @ map fst (ss_resolved sample_claimed)) = {0..<1}
   \<and> prefix (ss_resolved sample_claimed) (ss_resolved (request_close (sample_clock 2) sample_claimed))"
proof -
  have "session_step (\<lambda>_. Inl ()) (\<lambda>_. None) sample_claimed (request_close (sample_clock 2) sample_claimed)"
    by (rule session_step.close)
  from callers_answered_once [OF sample_reachable(2) r_into_rtranclp, OF this]
  show ?thesis by (simp add: sample_claimed_fields)
qed

section \<open>Closing\<close>

text \<open>
  C10: closing is final and the first reason wins. The first shutdown records its reason and
  time, answers every waiting caller with a dropped sender and empties the session; after it,
  no step of any task reopens the session, changes the recorded reason, revokes an answer or
  admits a subscriber.
\<close>

theorem close_is_final:
  assumes "ss_close_info s = None" and "s1 = shutdown ck reason detail s"
    and "(session_step fs fv)\<^sup>*\<^sup>* s1 s'"
  shows "ss_waiters s1 = [] \<and> table_len (ss_conntrack s1) = 0
    \<and> ss_resolved s1 = ss_resolved s @ map (\<lambda>w. (w, None)) (pending_waiters (ss_waiters s))
    \<and> ss_close_info s' = Some \<lparr>ci_reason = reason, ci_detail = detail, ci_closed_at = ck_wall ck\<rparr>
    \<and> ss_closed s' \<and> ss_packet_subscribers s' = [] \<and> prefix (ss_resolved s1) (ss_resolved s')"
proof -
  note f = shutdown_fields [OF assms(1), of ck reason detail, folded assms(2)]
  show ?thesis
    using f steps_closed [OF assms(3) f(1,2,5)] steps_resolved [OF assms(3)] by blast
qed

theorem close_is_final_witness:
  "ss_close_info (request_close (sample_clock 9) (shutdown (sample_clock 2) PeerEof ''eof'' sample_claimed))
     = Some \<lparr>ci_reason = PeerEof, ci_detail = ''eof'', ci_closed_at = 2\<rparr>
   \<and> ss_resolved (shutdown (sample_clock 2) PeerEof ''eof'' sample_claimed) = [(0, None)]"
proof -
  note n = sample_claimed_fields(5)
  have "session_step (\<lambda>_. Inl ()) (\<lambda>_. None) (shutdown (sample_clock 2) PeerEof ''eof'' sample_claimed)
      (request_close (sample_clock 9) (shutdown (sample_clock 2) PeerEof ''eof'' sample_claimed))"
    by (rule session_step.close)
  from close_is_final [OF n refl, OF r_into_rtranclp, OF this] show ?thesis
    by (simp add: sample_claimed_fields sample_clock_def pending_waiters_def)
qed

text \<open>
  a caller that slips in while the session closes is turned away. The closed check comes
  before the conntrack lock, so a claim can still register on a closed session; the write that
  follows then reports the session closed, answers every caller waiting on that id and removes
  the entry, leaving all other callers untouched.
\<close>

theorem late_claim_turned_away:
  assumes "session_inv s" and "ss_closed s" and "hm_get (ss_waiters s) i = Some ws"
  shows "\<exists>s'. (authorize_written i ok s :: _ \<times> ('se, 'de) l3_session_error option) = (s', Some SeClosed)
    \<and> ss_resolved s' = ss_resolved s @ map (\<lambda>w. (w, None)) ws
    \<and> hm_get (ss_waiters s') = (hm_get (ss_waiters s))(i := None)
    \<and> get_by_auth_id (ss_conntrack s') = (get_by_auth_id (ss_conntrack s))(i := None)"
  using assms evict_by_auth_id_get [OF inv_parts(1) [OF assms(1)], of i]
  by (simp add: authorize_written_def abandon_flow_def drop_waiters_def Let_def delete_conv')

theorem late_claim_turned_away_witness:
  "\<exists>s'. (authorize_written 1 True (sample_claimed\<lparr>ss_closed := True, ss_stop := True,
        ss_close_info := Some \<lparr>ci_reason = PeerEof, ci_detail = ''eof'', ci_closed_at = 0\<rparr>\<rparr>)
      :: _ \<times> (unit, unit) l3_session_error option) = (s', Some SeClosed) \<and> ss_resolved s' = [(0, None)]"
proof -
  let ?s = "sample_claimed\<lparr>ss_closed := True, ss_stop := True,
      ss_close_info := Some \<lparr>ci_reason = PeerEof, ci_detail = ''eof'', ci_closed_at = 0\<rparr>\<rparr>"
  have "session_inv ?s"
    using reachable_inv [OF sample_reachable(2) [of "\<lambda>_. Inl ()" "\<lambda>_. None"]] by (simp add: inv_defs)
  from late_claim_turned_away [OF this, of 1 "[0]" True, where 'se = unit and 'de = unit]
  show ?thesis by (auto simp: sample_claimed_fields)
qed

section \<open>Authorizing flows\<close>

lemma maintain_lookup:
  assumes "table_inv t" "maintain_for_flow now key t = (t', po)"
  shows "get_by_key t' k = Some e \<Longrightarrow> get_by_key t k = Some e"
    and "get_by_key t k = Some e \<Longrightarrow> auth_in_flight e \<Longrightarrow> get_by_key t' k = Some e"
proof -
  have i: "table_inv (t\<lparr>ct_last_sweep := now\<rparr>)" using assms(1) by simp
  show "get_by_key t' k = Some e \<Longrightarrow> get_by_key t k = Some e"
    using assms(2) by (cases rule: maintain_cases)
      (use prune_spec(4) [OF i] in \<open>fastforce simp: get_by_key_def map_le_def dom_def\<close>)+
  show "get_by_key t k = Some e \<Longrightarrow> auth_in_flight e \<Longrightarrow> get_by_key t' k = Some e"
    using assms(2) by (cases rule: maintain_cases)
      (use prune_spec(5) [OF i, of now _ t' po k e] in \<open>auto simp: get_by_key_def\<close>)
qed

lemma retire_lookup:
  assumes "table_inv (ss_conntrack s)"
  shows "get_by_key (ss_conntrack (retire_changed_flow k a g s)) k =
    (case get_by_key (ss_conntrack s) k of
       None \<Rightarrow> None
     | Some e \<Rightarrow> if ce_app_id e \<noteq> a \<or> ce_node_group_id e \<noteq> g then None else Some e)"
  using table_inv_entry(2) [OF assms, of k]
  by (auto simp: retire_changed_flow_def Let_def notify_def get_by_key_def evict_by_auth_id_def split: option.splits)

lemma retire_next_waiter [simp]: "ss_next_waiter (retire_changed_flow k a g s) = ss_next_waiter s"
  by (simp add: retire_changed_flow_def Let_def notify_def split: option.splits)

text \<open>
  C9: authorizations of one flow are coalesced. When a caller claims a flow, it is told to send
  the request exactly if no authorization of that flow for the same application and node group
  is in flight; otherwise it joins the one that is. Either way it is registered as a waiter of
  that id, and afterwards the id is in flight.
\<close>

theorem claim_coalesces:
  assumes "session_inv s" and "unat (ct_next_auth_id (ss_conntrack s)) + 1 < 2 ^ 64"
    and "(authorize_claim ck app grp flow s :: _ \<times> ('se, 'de) claim) = (s', Claimed i must_send w)"
  shows "(must_send \<longleftrightarrow> \<not> (\<exists>e. get_by_key (ss_conntrack s) (flow_key_of flow) = Some e \<and> auth_in_flight e
            \<and> ce_app_id e = app \<and> ce_node_group_id e = grp))
    \<and> (\<exists>e. get_by_key (ss_conntrack s') (flow_key_of flow) = Some e \<and> ce_auth_id e = i \<and> auth_in_flight e)
    \<and> (\<exists>ws. hm_get (ss_waiters s') i = Some (ws @ [w])) \<and> w = ss_next_waiter s"
proof -
  let ?k = "flow_key_of flow"
  obtain t1 po where m: "maintain_for_flow (ck_now ck) ?k (ss_conntrack s) = (t1, po)" by fastforce
  define s2 where "s2 = retire_changed_flow ?k app grp (s\<lparr>ss_conntrack := t1\<rparr>)"
  obtain t3 e where g: "get_or_create_at ?k app grp (ck_now ck) (ss_conntrack s2) = (t3, e)" by fastforce
  have ti: "table_inv (ss_conntrack s)" using assms(1) by (simp add: session_inv_def)
  have t1: "table_inv t1" using maintain_inv(1) [OF ti, of "ck_now ck" ?k] m by simp
  have at: "get_by_key (ss_conntrack s2) ?k = (case get_by_key t1 ?k of None \<Rightarrow> None
      | Some e \<Rightarrow> if ce_app_id e \<noteq> app \<or> ce_node_group_id e \<noteq> grp then None else Some e)"
    using retire_lookup [of "s\<lparr>ss_conntrack := t1\<rparr>" ?k app grp] t1 by (simp add: s2_def)
  have cl: "ce_outcome e = None" "i = ce_auth_id e" "must_send = (\<not> ce_auth_started e)"
    "s' = report_pressure po (fst (register_waiter (ce_auth_id e) (s2\<lparr>ss_conntrack :=
        t3\<lparr>ct_by_key := hm_insert ?k (fst (try_start_auth (ck_now ck) e)) (ct_by_key t3)\<rparr>\<rparr>)))"
    "w = ss_next_waiter s2"
    using assms(3) by (auto simp: authorize_claim_def claim_flow_def m g Let_def s2_def [symmetric] try_start_auth_def
        register_waiter_def split: if_splits option.splits auth_outcome.splits prod.splits)
  have started: "ce_auth_started e \<longleftrightarrow>
      (\<exists>e0. get_by_key (ss_conntrack s2) ?k = Some e0 \<and> auth_in_flight e0 \<and> ce_app_id e0 = app \<and> ce_node_group_id e0 = grp)"
    using g
  proof (cases rule: get_or_create_cases)
    case (existing e0)
    then show ?thesis using cl(1) by (auto simp: get_by_key_def auth_in_flight_def)
  next
    case (created t2)
    then show ?thesis by (auto simp: get_by_key_def new_entry_def)
  qed
  have "(\<exists>e0. get_by_key (ss_conntrack s2) ?k = Some e0 \<and> auth_in_flight e0 \<and> ce_app_id e0 = app \<and> ce_node_group_id e0 = grp)
    \<longleftrightarrow> (\<exists>e. get_by_key (ss_conntrack s) ?k = Some e \<and> auth_in_flight e \<and> ce_app_id e = app \<and> ce_node_group_id e = grp)"
    (is "?l \<longleftrightarrow> ?r")
  proof
    assume ?l
    then obtain e0 where "get_by_key t1 ?k = Some e0" "auth_in_flight e0" "ce_app_id e0 = app" "ce_node_group_id e0 = grp"
      unfolding at by (auto split: option.splits if_splits)
    then show ?r using maintain_lookup(1) [OF ti m] by blast
  next
    assume ?r
    then obtain e0 where e0: "get_by_key (ss_conntrack s) ?k = Some e0" "auth_in_flight e0" "ce_app_id e0 = app" "ce_node_group_id e0 = grp"
      by blast
    then have "get_by_key t1 ?k = Some e0" using maintain_lookup(2) [OF ti m] by blast
    then show ?l using e0 by (simp add: at)
  qed
  then have ms: "must_send \<longleftrightarrow> \<not> (\<exists>e. get_by_key (ss_conntrack s) ?k = Some e \<and> auth_in_flight e
            \<and> ce_app_id e = app \<and> ce_node_group_id e = grp)"
    using started cl(3) by simp
  have "auth_in_flight (fst (try_start_auth (ck_now ck) e))" "ce_auth_id (fst (try_start_auth (ck_now ck) e)) = i"
    using cl(1,2) by (auto simp: try_start_auth_def auth_in_flight_def)
  then show ?thesis
    using ms cl(2,4,5)
    by (auto simp: register_waiter_def report_pressure_def emit_def get_by_key_def s2_def Let_def)
qed

theorem claim_coalesces_witness:
  "sample_session \<noteq> sample_claimed \<and> \<not> (\<exists>e. get_by_key (ss_conntrack sample_session) (flow_key_of sample_flow) = Some e
      \<and> auth_in_flight e \<and> ce_app_id e = ''app'' \<and> ce_node_group_id e = ''grp'')
   \<and> (\<exists>e. get_by_key (ss_conntrack sample_claimed) (flow_key_of sample_flow) = Some e \<and> ce_auth_id e = 1 \<and> auth_in_flight e)"
proof -
  have inv: "session_inv sample_session"
    using sample_reachable(1) [of "\<lambda>_. Inl ()" "\<lambda>_. None"] by (rule reachable_inv)
  have n: "unat (ct_next_auth_id (ss_conntrack sample_session)) + 1 < 2 ^ 64"
    by (simp add: sample_session_def session_start_def shared_new_def table_new_def with_limits_def)
  have "(authorize_claim (sample_clock 1) ''app'' ''grp'' sample_flow sample_session :: _ \<times> (unit, unit) claim)
      = (sample_claimed, Claimed 1 True 0)"
    unfolding sample_claim_result sample_claimed_eq ..
  from claim_coalesces [OF inv n this] show ?thesis
    by (auto simp: sample_claimed_eq sample_session_def session_start_def shared_new_def)
qed

text \<open>What a reply that names a known id does to the session, whether or not the id was open.\<close>

lemma dispatch_auth_settles:
  fixes fs :: "bytes \<Rightarrow> 'de + l3_auth_response_wire"
  assumes "table_inv (ss_conntrack s)" and "reply_verdict fs status json = Some (i, v)"
    and "get_by_auth_id (ss_conntrack s) i = Some e"
    and "\<not> (is_transient (classify_auth_wire_status status) \<and> rc_enabled (ss_retry_config s))"
    and "u = (case ce_outcome e of None \<Rightarrow> v | Some w \<Rightarrow> w)"
    and "s0 = (if is_transient (classify_auth_wire_status status) then bump_transient s else s)"
  shows "dispatch_auth fs status json s = warn_ambiguous u (settle_auth False (notify i u
      (s0\<lparr>ss_conntrack := update_by_auth_id i (complete v) (ss_conntrack s)\<rparr>)))"
proof -
  have s0: "ss_conntrack s0 = ss_conntrack s" "ss_retry_config s0 = ss_retry_config s"
    by (simp_all add: assms(6) bump_transient_def)
  have c: "(is_transient (classify_auth_wire_status status) \<and> rc_enabled (ss_retry_config s0)) = False"
    using assms(4) s0 by simp
  obtain t r where a: "(apply_auth_wire_status fs status json (ss_conntrack s) :: _ \<times> ((unit, 'de) flow_auth_error + u64)) = (t, r)"
    by force
  have r: "r = Inr i"
    using apply_auth_wire_status_Inr [of fs status json "ss_conntrack s" i, where 'se = unit] a assms(2,3) by simp
  have t: "t = update_by_auth_id i (complete v) (ss_conntrack s)"
    using apply_auth_wire_status_eq [of fs status json "ss_conntrack s", where 'se = unit] a assms(2,3) by simp
  have g: "get_by_auth_id t i = Some (complete v e)"
    using assms(1,3) by (simp add: t update_by_auth_id_get)
  have o: "ce_outcome (complete v e) = Some u" by (simp add: assms(5) split: option.splits)
  have "dispatch_auth fs status json s = notify i u (warn_ambiguous u (settle_auth False (s0\<lparr>ss_conntrack := t\<rparr>)))"
    unfolding dispatch_auth_def Let_def assms(6) [symmetric] c
    by (simp only: if_False s0 a r prod.case sum.case g option.case o)
  then show ?thesis by (simp add: notify_warn notify_settle t)
qed

text \<open>
  C19: a settling reply wakes exactly the callers of its id. For a reply whose status is not
  treated as transient, which names an authorization in flight, every caller waiting on that id
  receives the verdict of the reply, the entry keeps the verdict, and the callers of every
  other id go on waiting.
\<close>

theorem reply_wakes_its_callers:
  fixes fs :: "bytes \<Rightarrow> 'de + l3_auth_response_wire"
  assumes "session_inv s" and "reply_verdict fs status json = Some (i, v)"
    and "get_by_auth_id (ss_conntrack s) i = Some e" and "auth_in_flight e"
    and "\<not> (is_transient (classify_auth_wire_status status) \<and> rc_enabled (ss_retry_config s))"
  shows "ss_resolved (dispatch_auth fs status json s) = ss_resolved s @
      map (\<lambda>w. (w, Some v)) (case hm_get (ss_waiters s) i of None \<Rightarrow> [] | Some ws \<Rightarrow> ws)
    \<and> hm_get (ss_waiters (dispatch_auth fs status json s)) = (hm_get (ss_waiters s))(i := None)
    \<and> (\<exists>e'. get_by_auth_id (ss_conntrack (dispatch_auth fs status json s)) i = Some e' \<and> ce_outcome e' = Some v)"
proof -
  have ti: "table_inv (ss_conntrack s)" using assms(1) by (simp add: session_inv_def)
  have o: "ce_outcome e = None" using assms(4) by (simp add: auth_in_flight_def)
  have "get_by_auth_id (update_by_auth_id i (complete v) (ss_conntrack s)) i = Some (complete v e)"
    using ti assms(3) by (simp add: update_by_auth_id_get)
  then show ?thesis
    using dispatch_auth_settles [OF ti assms(2,3,5) refl refl] o
    by (auto simp: notify_def warn_ambiguous_def settle_auth_def emit_def bump_transient_def Let_def split: option.splits)
qed

definition sample_reply :: "bytes \<Rightarrow> unit + l3_auth_response_wire" where
  "sample_reply json = Inr \<lparr>rw_code = 7, rw_message = None,
     rw_data = \<lparr>rd_conntrack_hash = 1, rd_connect_token = None, rd_token = None\<rparr>\<rparr>"

lemma sample_reply_verdict:
  "reply_verdict sample_reply 0 [] = Some (1, Failed (''auth failed: '' @ int_string 7))"
  by (simp add: reply_verdict_def sample_reply_def parse_l3_auth_response_def auth_verdict_def)

lemma sample_claimed_get: "get_by_auth_id (ss_conntrack sample_claimed) 1 = Some sample_entry"
  by (simp add: sample_claimed_eq get_by_auth_id_def)

lemma sample_entry_in_flight: "auth_in_flight sample_entry"
  by (simp add: sample_entry_def auth_in_flight_def new_entry_def)

lemma sample_claimed_inv: "session_inv sample_claimed"
  using sample_reachable(2) [of "\<lambda>_. Inl ()" "\<lambda>_. None"] by (rule reachable_inv)

lemma settled_not_transient [simp]: "\<not> is_transient (classify_auth_wire_status 0)"
  by (simp add: is_transient_def classify_auth_wire_status_def)

theorem reply_wakes_its_callers_witness:
  "ss_resolved (dispatch_auth sample_reply 0 [] sample_claimed) = [(0, Some (Failed (''auth failed: '' @ int_string 7)))]"
proof -
  have "\<not> (is_transient (classify_auth_wire_status 0) \<and> rc_enabled (ss_retry_config sample_claimed))" by simp
  from reply_wakes_its_callers [OF sample_claimed_inv sample_reply_verdict sample_claimed_get sample_entry_in_flight this]
  show ?thesis by (simp add: sample_claimed_fields)
qed

text \<open>
  C38: a duplicate reply corrupts the in-flight counter. If a second reply names an id whose
  verdict is already recorded, no caller is answered and the conntrack entry does not change,
  yet the session counts another outcome and lowers the number of authorizations in flight,
  although none of them ended.
\<close>

theorem duplicate_reply_miscounts:
  fixes fs :: "bytes \<Rightarrow> 'de + l3_auth_response_wire"
  assumes "session_inv s" and "reply_verdict fs status json = Some (i, v)"
    and "get_by_auth_id (ss_conntrack s) i = Some e" and "ce_outcome e \<noteq> None"
    and "\<not> (is_transient (classify_auth_wire_status status) \<and> rc_enabled (ss_retry_config s))"
  shows "ss_resolved (dispatch_auth fs status json s) = ss_resolved s
    \<and> get_by_auth_id (ss_conntrack (dispatch_auth fs status json s)) = get_by_auth_id (ss_conntrack s)
    \<and> fs_outcomes_received (ss_stats (dispatch_auth fs status json s)) = fs_outcomes_received (ss_stats s) + 1
    \<and> fs_in_flight (ss_stats (dispatch_auth fs status json s)) = saturating_dec (fs_in_flight (ss_stats s))"
proof -
  have ti: "table_inv (ss_conntrack s)" using assms(1) by (simp add: session_inv_def)
  have w: "hm_get (ss_waiters s) i = None"
  proof (rule ccontr)
    assume "hm_get (ss_waiters s) i \<noteq> None"
    then obtain e' where "get_by_auth_id (ss_conntrack s) i = Some e'" "auth_in_flight e'"
      using inv_parts(2) [OF assms(1)] unfolding waits_in_flight_def by blast
    then show False using assms(3,4) by (simp add: auth_in_flight_def)
  qed
  have "complete v e = e" using assms(4) by (auto simp: complete_def)
  then have "get_by_auth_id (update_by_auth_id i (complete v) (ss_conntrack s)) = get_by_auth_id (ss_conntrack s)"
    using ti assms(3) by (auto simp: update_by_auth_id_get fun_eq_iff)
  then show ?thesis
    using dispatch_auth_settles [OF ti assms(2,3,5) refl refl] w
    by (auto simp: notify_def warn_ambiguous_def settle_auth_def emit_def bump_transient_def Let_def split: option.splits)
qed

theorem duplicate_reply_miscounts_witness:
  "fs_outcomes_received (ss_stats (dispatch_auth sample_reply 0 [] (dispatch_auth sample_reply 0 [] sample_claimed))) = 2
   \<and> ss_resolved (dispatch_auth sample_reply 0 [] (dispatch_auth sample_reply 0 [] sample_claimed))
     = ss_resolved (dispatch_auth sample_reply 0 [] sample_claimed)"
proof -
  let ?s = "dispatch_auth sample_reply 0 [] sample_claimed"
  have nt: "\<not> (is_transient (classify_auth_wire_status 0) \<and> b)" for b by simp
  have s: "?s = warn_ambiguous (Failed (''auth failed: '' @ int_string 7)) (settle_auth False
      (notify 1 (Failed (''auth failed: '' @ int_string 7)) (sample_claimed\<lparr>ss_conntrack :=
        update_by_auth_id 1 (complete (Failed (''auth failed: '' @ int_string 7))) (ss_conntrack sample_claimed)\<rparr>)))"
    using sample_entry_in_flight
    by (intro dispatch_auth_settles [OF inv_parts(1) [OF sample_claimed_inv] sample_reply_verdict sample_claimed_get nt])
      (simp_all add: auth_in_flight_def)
  have g: "get_by_auth_id (ss_conntrack ?s) 1 = Some (complete (Failed (''auth failed: '' @ int_string 7)) sample_entry)"
    and o: "fs_outcomes_received (ss_stats ?s) = 1"
    using sample_claimed_get inv_parts(1) [OF sample_claimed_inv] unfolding s
    by (simp_all add: notify_def warn_ambiguous_def settle_auth_def outcome_token_def update_by_auth_id_get
        sample_claimed_eq sample_session_def session_start_def shared_new_def zero_stats_def Let_def)
  have "ce_outcome (complete (Failed (''auth failed: '' @ int_string 7)) sample_entry) \<noteq> None"
    by (simp split: option.splits)
  from duplicate_reply_miscounts [OF inv_dispatch_auth [OF sample_claimed_inv] sample_reply_verdict g this nt]
  show ?thesis using o by simp
qed

section \<open>Changing the virtual address\<close>

text \<open>
  a new virtual address retires everything tied to the old one. After an update to a
  different address no authorization, subscription or scheduled retry is left, every waiting
  caller has been woken without a verdict, the in-flight count is zero, and a flow from the old
  address can neither claim an authorization nor subscribe; an update to the same address
  changes nothing.
\<close>

theorem vip_update_retires_flows:
  assumes "fl_src_addr flow = ss_current_vip s" and "\<not> ss_closed s"
    and "s' = apply_vip_update vip s"
  shows "if vip = ss_current_vip s then s' = s
    else ss_current_vip s' = vip \<and> table_len (ss_conntrack s') = 0 \<and> ss_waiters s' = []
      \<and> ss_resolved s' = ss_resolved s @ map (\<lambda>w. (w, None)) (pending_waiters (ss_waiters s))
      \<and> fs_in_flight (ss_stats s') = 0 \<and> ss_packet_subscribers s' = []
      \<and> ct_next_auth_id (ss_conntrack s') = ct_next_auth_id (ss_conntrack s)
      \<and> (authorize_claim ck app grp flow s' :: _ \<times> ('se, 'de) claim)
          = (s', Finished (Inl (SeVipChanged (ss_current_vip s) vip)))
      \<and> (subscribe_flow flow s' :: _ \<times> (('se, 'de) l3_session_error + _))
          = (s', Inl (SeVipChanged (ss_current_vip s) vip))"
proof (cases "vip = ss_current_vip s")
  case False
  then show ?thesis
    using assms(1,2) unfolding assms(3)
    by (simp add: apply_vip_update_def cancel_retries_and_clear_def drain_waiters_def drop_waiters_def
        pending_waiters_def table_clear_def table_len_def emit_def authorize_claim_def subscribe_flow_def
        Let_def split: option.splits)
qed (simp add: assms(3) apply_vip_update_def)

theorem vip_update_retires_flows_witness:
  "ss_resolved (apply_vip_update (Ipv4 10 0 0 9) sample_claimed) = [(0, None)]
   \<and> table_len (ss_conntrack (apply_vip_update (Ipv4 10 0 0 9) sample_claimed)) = 0"
  using vip_update_retires_flows [of sample_flow sample_claimed _ "Ipv4 10 0 0 9" "sample_clock 2" "''a''" "''g''",
      OF _ _ refl, where 'se = unit and 'de = unit]
  by (simp add: sample_claimed_fields sample_flow_def pending_waiters_def)

section \<open>Packets\<close>

lemma check_sources_None:
  "(check_sources vip ps :: ('se, 'de) l3_session_error option) = None \<longleftrightarrow>
     (\<forall>p \<in> set ps. \<exists>flow. parse_ipv4_flow p = Inr flow \<and> fl_src_addr flow = vip)"
  by (induction ps) (auto split: sum.splits)

text \<open>
  packets leave only from the session's own address. A frame goes to the writer exactly
  when the session is open, every packet is an IPv4 packet whose source is the current virtual
  address, and the encoder accepts the sizes; the frame then is a data request whose body
  parses back to the packets.
\<close>

theorem send_packets_own_source:
  "((send_packets token packets s :: ('se, 'de) l3_session_error + bytes) = Inr frame \<longleftrightarrow>
      \<not> ss_closed s
      \<and> (\<forall>p \<in> set packets. \<exists>flow. parse_ipv4_flow p = Inr flow \<and> fl_src_addr flow = ss_current_vip s)
      \<and> encode_l3_data_req (as_bytes token) packets = Inr frame)
   \<and> (encode_l3_data_req (as_bytes token) packets = Inr frame \<longrightarrow>
      take 2 frame = [L3_VERSION, DATA_REQ] \<and> parse_l3_token_data_body (drop 2 frame) = Inr packets)"
proof (intro conjI impI)
  show "(send_packets token packets s :: ('se, 'de) l3_session_error + bytes) = Inr frame \<longleftrightarrow>
      \<not> ss_closed s
      \<and> (\<forall>p \<in> set packets. \<exists>flow. parse_ipv4_flow p = Inr flow \<and> fl_src_addr flow = ss_current_vip s)
      \<and> encode_l3_data_req (as_bytes token) packets = Inr frame"
    unfolding check_sources_None [where 'se = 'se and 'de = 'de, symmetric]
    by (auto simp: send_packets_def split: option.splits sum.splits)
  assume "encode_l3_data_req (as_bytes token) packets = Inr frame"
  then show "take 2 frame = [L3_VERSION, DATA_REQ]" "parse_l3_token_data_body (drop 2 frame) = Inr packets"
    using token_body_loops(2) [of "as_bytes token" packets "[]"] by (auto simp: encode_l3_data_req_Inr)
qed

definition sample_packet :: "byte \<Rightarrow> bytes" where
  "sample_packet b = [0x45, 0, 0, 20, 0, 0, 0, 0, 64, 1, 0, 0, 10, 0, 0, b, 10, 0, 0, 2]"

lemma sample_packet_flow:
  "parse_ipv4_flow (sample_packet b) = Inr \<lparr>fl_protocol = Icmp, fl_src_addr = Ipv4 10 0 0 b, fl_src_port = 0,
     fl_dst_addr = Ipv4 10 0 0 2, fl_dst_port = 0\<rparr>"
  by (simp add: sample_packet_def parse_ipv4_flow_Inr packet_ports_Inr ipv4_header_ok_def u16_from_be_def slice_def)

theorem send_packets_own_source_witness:
  "(send_packets ''t'' [sample_packet 9] sample_claimed :: (unit, unit) l3_session_error + bytes) \<noteq> Inr []
   \<and> (send_packets ''t'' [sample_packet 1] sample_claimed :: (unit, unit) l3_session_error + bytes)
      = Inr ([L3_VERSION, DATA_REQ] @ token_body (as_bytes ''t'') [sample_packet 1])"
proof
  show "(send_packets ''t'' [sample_packet 9] sample_claimed :: (unit, unit) l3_session_error + bytes) \<noteq> Inr []"
    using send_packets_own_source [of "''t''" "[sample_packet 9]" sample_claimed "[]", where 'se = unit and 'de = unit]
    by (simp add: sample_packet_flow sample_claimed_fields)
  have "encode_l3_data_req (as_bytes ''t'') [sample_packet 1] = Inr ([L3_VERSION, DATA_REQ] @ token_body (as_bytes ''t'') [sample_packet 1])"
    by (simp add: encode_l3_data_req_Inr sample_packet_def)
  then show "(send_packets ''t'' [sample_packet 1] sample_claimed :: (unit, unit) l3_session_error + bytes)
      = Inr ([L3_VERSION, DATA_REQ] @ token_body (as_bytes ''t'') [sample_packet 1])"
    using send_packets_own_source [of "''t''" "[sample_packet 1]" sample_claimed
        "[L3_VERSION, DATA_REQ] @ token_body (as_bytes ''t'') [sample_packet 1]", where 'se = unit and 'de = unit]
    by (simp add: sample_packet_flow sample_claimed_fields)
qed

text \<open>
  a packet reaches the subscriber of the flow it answers and nobody else. If the reverse
  flow of the packet is subscribed, the packet is appended to that subscriber's queue, or, when
  the queue is full or abandoned, dropped and counted; the shared queue and every other
  subscriber are untouched. Otherwise it goes to the shared queue under the same bound.
\<close>

theorem deliver_to_subscriber:
  assumes "parse_ipv4_flow packet = Inr g"
  shows "let k = flow_key_of (reverse_flow g); s' = fst (deliver packet s) in
    (\<forall>k'. k' \<noteq> k \<longrightarrow> hm_get (ss_packet_subscribers s') k' = hm_get (ss_packet_subscribers s) k')
    \<and> (case hm_get (ss_packet_subscribers s) k of
         Some sub \<Rightarrow>
           ss_packets s' = ss_packets s \<and> snd (deliver packet s) = None
           \<and> (if ch_open (ps_sender sub) \<and> length (ch_queue (ps_sender sub)) < ch_cap (ps_sender sub)
              then hm_get (ss_packet_subscribers s') k = Some (sub\<lparr>ps_sender :=
                     (ps_sender sub)\<lparr>ch_queue := ch_queue (ps_sender sub) @ [packet]\<rparr>\<rparr>)
                   \<and> ss_dropped_packets s' = ss_dropped_packets s
              else hm_get (ss_packet_subscribers s') k = Some sub
                   \<and> ss_dropped_packets s' = ss_dropped_packets s + 1)
       | None \<Rightarrow>
           hm_get (ss_packet_subscribers s') k = None
           \<and> (if ch_open (ss_packets s) \<and> length (ch_queue (ss_packets s)) < ch_cap (ss_packets s)
              then ss_packets s' = (ss_packets s)\<lparr>ch_queue := ch_queue (ss_packets s) @ [packet]\<rparr>
                   \<and> ss_dropped_packets s' = ss_dropped_packets s
              else ss_packets s' = ss_packets s
                   \<and> (ch_open (ss_packets s) \<longleftrightarrow> ss_dropped_packets s' = ss_dropped_packets s + 1)))"
proof -
  have dec: "ss_dropped_packets s \<noteq> ss_dropped_packets s + 1" by simp
  show ?thesis
    using assms dec
    by (auto simp: deliver_def reverse_flow_key_eq Let_def try_send_def record_drop_def emit_def split: option.splits)
qed

theorem deliver_to_subscriber_witness:
  "ss_packets (fst (deliver (sample_packet 9) sample_claimed))
     = (ss_packets sample_claimed)\<lparr>ch_queue := ch_queue (ss_packets sample_claimed) @ [sample_packet 9]\<rparr>"
  using deliver_to_subscriber [OF sample_packet_flow, of 9 sample_claimed]
  by (simp add: sample_claimed_fields chan_new_def PACKET_QUEUE_DEPTH_def Let_def)

section \<open>Heartbeats\<close>

definition probe :: "clock \<Rightarrow> session_shared \<Rightarrow> session_shared" where
  "probe ck s = writer_step ck True WriteOk s"

lemma probe_eq:
  "probe ck s = s\<lparr>ss_first_heartbeat_written :=
      (case ss_first_heartbeat_written s of None \<Rightarrow> Some (ck_now ck) | Some i \<Rightarrow> Some i),
    ss_heartbeat_requests_sent := ss_heartbeat_requests_sent s + 1\<rparr>"
  by (simp add: probe_def writer_step_def)

text \<open>
  a silent peer is detected and a live one is not cut off. On a session that has seen no
  heartbeat yet, after three probes were written without any acknowledgement, the first tick
  that comes three intervals or more after the first probe closes the session with
  \<open>HeartbeatTimeout\<close> and wakes every waiting caller; if an acknowledgement arrived meanwhile, a
  tick less than three intervals after it sends the next probe instead.
\<close>

theorem silent_peer_detected:
  assumes "ss_close_info s = None" and "ss_heartbeat_requests_sent s = 0"
    and "ss_heartbeat_acks_received s = 0" and "ss_first_heartbeat_written s = None"
    and "ss_last_heartbeat_ack_monotonic s = None"
    and "s3 = probe ck3 (probe ck2 (probe ck1 s))"
    and "ck_now ck1 + 3 * interval \<le> ck_now ck" and "0 < interval" and "ck_now ck < ck_now cka + 3 * interval"
  shows "snd (heartbeat_tick ck interval s3) = None
    \<and> map_option ci_reason (ss_close_info (fst (heartbeat_tick ck interval s3))) = Some HeartbeatTimeout
    \<and> ss_waiters (fst (heartbeat_tick ck interval s3)) = []
    \<and> ss_resolved (fst (heartbeat_tick ck interval s3))
        = ss_resolved s @ map (\<lambda>w. (w, None)) (pending_waiters (ss_waiters s))
    \<and> heartbeat_tick ck interval (record_heartbeat_ack cka s3)
        = (record_heartbeat_ack cka s3, Some [0x05, 0x15, 0x00, 0x00])"
proof -
  have s3: "ss_heartbeat_requests_sent s3 = 3" "ss_heartbeat_acks_received s3 = 0"
    "ss_first_heartbeat_written s3 = Some (ck_now ck1)" "ss_last_heartbeat_ack_monotonic s3 = None"
    "ss_close_info s3 = None" "ss_waiters s3 = ss_waiters s" "ss_resolved s3 = ss_resolved s"
    using assms(1-5) by (simp_all add: assms(6) probe_eq)
  have three: "unat (3 :: u64) = 3" by (simp add: unsigned_numeral take_bit_nat_eq_self)
  have "heartbeat_overdue (ck_now ck) interval s3"
    using s3 assms(7) three by (simp add: heartbeat_overdue_def L3_HEARTBEAT_MISS_LIMIT_def)
  moreover have "\<not> heartbeat_overdue (ck_now ck) interval (record_heartbeat_ack cka s3)"
    using s3 assms(8,9) three by (simp add: heartbeat_overdue_def record_heartbeat_ack_def L3_HEARTBEAT_MISS_LIMIT_def)
  ultimately show ?thesis
    using shutdown_fields [OF s3(5)] s3
    by (simp add: heartbeat_tick_def encode_l3_heartbeat_req_def L3_HEARTBEAT_REQ_def L3_VERSION_def HEARTBEAT_REQ_def)
qed

theorem silent_peer_detected_witness:
  "map_option ci_reason (ss_close_info (fst (heartbeat_tick (sample_clock 100) 25
     (probe (sample_clock 75) (probe (sample_clock 50) (probe (sample_clock 25) sample_claimed)))))) = Some HeartbeatTimeout"
  using silent_peer_detected [of sample_claimed _ "sample_clock 75" "sample_clock 50" "sample_clock 25" 25
      "sample_clock 100" "sample_clock 90", OF _ _ _ _ _ refl]
  by (simp add: sample_clock_def sample_claimed_eq sample_session_def session_start_def shared_new_def)

text \<open>
  acknowledgements the peer sends beyond the probes are banked. As long as the peer has sent
  at least as many acknowledgements as the session has written probes, no tick closes the
  session, however long ago the last one came: a peer that acknowledges ahead and then falls
  silent is not noticed after three unanswered probes.
\<close>

theorem surplus_acks_hide_silence:
  assumes "unat (ss_heartbeat_requests_sent s) + 3 \<le> 2 ^ 64"
    and "ss_heartbeat_requests_sent s + 3 \<le> ss_heartbeat_acks_received s"
    and "s3 = probe ck3 (probe ck2 (probe ck1 s))"
  shows "heartbeat_tick ck interval s3 = (s3, Some encode_l3_heartbeat_req)"
proof -
  have "ss_heartbeat_requests_sent s3 = ss_heartbeat_requests_sent s + 3"
    "ss_heartbeat_acks_received s3 = ss_heartbeat_acks_received s"
    by (simp_all add: assms(3) probe_eq)
  then have "unat (ss_heartbeat_requests_sent s3) \<le> unat (ss_heartbeat_acks_received s3)"
    using assms(2) by (simp add: word_le_nat_alt)
  then show ?thesis
    by (simp add: heartbeat_tick_def heartbeat_overdue_def L3_HEARTBEAT_MISS_LIMIT_def)
qed

theorem surplus_acks_hide_silence_witness:
  "ss_close_info (fst (heartbeat_tick (sample_clock 1000000000000) 25 (probe (sample_clock 75) (probe (sample_clock 50)
     (probe (sample_clock 25) (record_heartbeat_ack (sample_clock 1) (record_heartbeat_ack (sample_clock 1)
       (record_heartbeat_ack (sample_clock 1) sample_session)))))))) = None"
  using surplus_acks_hide_silence [of "record_heartbeat_ack (sample_clock 1) (record_heartbeat_ack (sample_clock 1)
       (record_heartbeat_ack (sample_clock 1) sample_session))" _ "sample_clock 75" "sample_clock 50" "sample_clock 25"
       "sample_clock 1000000000000" 25, OF _ _ refl]
  by (simp add: record_heartbeat_ack_def sample_session_def session_start_def shared_new_def probe_eq)

section \<open>Ambiguous tokens\<close>

text \<open>A token of 68 bytes that reads as the length and the first bytes of an IPv4 packet.\<close>

definition misread_token :: bytes where
  "misread_token = [0x41, 0x45, 0x41, 0x44, 0x41] @ replicate 63 0x41"

text \<open>
  C39: a token longer than the documented minimum can still be misread. The session treats a
  token of at least 17 bytes as unambiguous, but a token-framed body with this token is never
  decoded as token framed, whatever packets it carries, because its first six bytes pass the
  check for a large length-prefixed IPv4 packet.
\<close>

theorem long_token_misread:
  assumes "encode_l3_data_req misread_token packets = Inr frame"
  shows "MIN_UNAMBIGUOUS_CONNECT_TOKEN \<le> length misread_token
    \<and> decode_l3_data_resp_body (drop 2 frame) \<noteq> Inr (TokenFramed packets, n)
    \<and> data_resp_layout_of (drop 2 frame) = Inr (LayoutLengthPrefixed 0x4441)"
proof -
  from assms have f: "drop 2 frame = [0x44, 0x41, 0x45, 0x41, 0x44, 0x41] @ (replicate 63 0x41 @ [0, 0, word_of_nat (length packets)] @ encode_packets packets)"
    by (auto simp: encode_l3_data_req_Inr token_body_def misread_token_def)
  have "data_resp_layout_of [0x44, 0x41, 0x45, 0x41, 0x44, 0x41] = Inr (LayoutLengthPrefixed 0x4441)"
    by (simp add: data_resp_layout_of_def classify_data_resp_prefix_def large_length_prefixed_packet_def
        u16_from_be_def MAX_LENGTH_PREFIXED_DATA_RESP_def Let_def)
  from layout_of_append [OF _ this]
  have l: "data_resp_layout_of (drop 2 frame) = Inr (LayoutLengthPrefixed 0x4441)"
    unfolding f by simp
  then have "decode_l3_data_resp_body (drop 2 frame) \<noteq> Inr (TokenFramed packets, n)"
    by (auto simp: decode_l3_data_resp_body_def Let_def split: if_splits)
  with l show ?thesis by (simp add: MIN_UNAMBIGUOUS_CONNECT_TOKEN_def misread_token_def)
qed

theorem long_token_misread_witness:
  "data_resp_layout_of (drop 2 ([L3_VERSION, DATA_REQ] @ token_body misread_token [[7]])) = Inr (LayoutLengthPrefixed 0x4441)"
proof -
  have "encode_l3_data_req misread_token [[7]] = Inr ([L3_VERSION, DATA_REQ] @ token_body misread_token [[7]])"
    by (simp add: encode_l3_data_req_Inr misread_token_def)
  from long_token_misread [OF this, of 0] show ?thesis by blast
qed

end
