(* ===== verification/Strings.thy ===== *)
theory Strings
  imports Prelude
begin

text \<open>
  The string operations of the Rust standard library the resource, routing, DNS and dialing
  code uses, on strings as lists of UTF-8 bytes: case folding, splitting, prefixes, replacing,
  parsing of unsigned integers, and addresses as 32-bit numbers.
\<close>

unbundle bit_operations_syntax

section \<open>Splitting and trimming\<close>

definition ascii_lower :: "char \<Rightarrow> char" where
  "ascii_lower c = (if 65 \<le> (of_char c :: nat) \<and> (of_char c :: nat) \<le> 90 then char_of ((of_char c :: nat) + 32) else c)"

definition to_ascii_lowercase :: "string \<Rightarrow> string" where
  "to_ascii_lowercase s = map ascii_lower s"

lemma ascii_lower_idem [simp]: "ascii_lower (ascii_lower c) = ascii_lower c"
proof (cases "65 \<le> (of_char c :: nat) \<and> (of_char c :: nat) \<le> 90")
  case True
  then have "(of_char (char_of ((of_char c :: nat) + 32)) :: nat) = of_char c + 32" by simp
  with True show ?thesis by (simp add: ascii_lower_def)
qed (auto simp: ascii_lower_def)

lemma lowercase_idem [simp]: "to_ascii_lowercase (to_ascii_lowercase s) = to_ascii_lowercase s"
  by (simp add: to_ascii_lowercase_def)

lemma length_lowercase [simp]: "length (to_ascii_lowercase s) = length s"
  by (simp add: to_ascii_lowercase_def)

lemma lowercase_append [simp]: "to_ascii_lowercase (a @ b) = to_ascii_lowercase a @ to_ascii_lowercase b"
  by (simp add: to_ascii_lowercase_def)

text \<open>\<open>trim_end_matches\<close> with a single character.\<close>

definition trim_end_char :: "char \<Rightarrow> string \<Rightarrow> string" where
  "trim_end_char c s = rev (dropWhile (\<lambda>x. x = c) (rev s))"

lemma trim_end_char_last: "trim_end_char c s \<noteq> [] \<Longrightarrow> last (trim_end_char c s) \<noteq> c"
  using hd_dropWhile [of "\<lambda>x. x = c" "rev s"] by (simp add: trim_end_char_def last_rev)

lemma trim_end_char_id: "s = [] \<or> last s \<noteq> c \<Longrightarrow> trim_end_char c s = s"
  unfolding trim_end_char_def by (cases s rule: rev_cases) auto

fun split_once :: "char \<Rightarrow> string \<Rightarrow> (string \<times> string) option" where
  "split_once c [] = None"
| "split_once c (x # xs) =
     (if x = c then Some ([], xs) else map_option (\<lambda>(a, b). (x # a, b)) (split_once c xs))"

definition rsplit_once :: "char \<Rightarrow> string \<Rightarrow> (string \<times> string) option" where
  "rsplit_once c s = map_option (\<lambda>(a, b). (rev b, rev a)) (split_once c (rev s))"

lemma split_once_Some: "split_once c s = Some (a, b) \<longleftrightarrow> s = a @ c # b \<and> c \<notin> set a"
proof (induction s arbitrary: a)
  case (Cons x s)
  then show ?case by (cases a) auto
qed simp

lemma split_once_None: "split_once c s = None \<longleftrightarrow> c \<notin> set s"
  by (induction s) auto

lemma rsplit_once_Some: "rsplit_once c s = Some (a, b) \<longleftrightarrow> s = a @ c # b \<and> c \<notin> set b"
proof -
  have "rsplit_once c s = Some (a, b) \<longleftrightarrow> split_once c (rev s) = Some (rev b, rev a)"
    by (auto simp: rsplit_once_def)
  also have "\<dots> \<longleftrightarrow> rev s = rev b @ c # rev a \<and> c \<notin> set b" by (simp add: split_once_Some)
  also have "\<dots> \<longleftrightarrow> s = a @ c # b \<and> c \<notin> set b" by (metis append.assoc append_Cons append_Nil rev.simps(2) rev_append rev_rev_ident)
  finally show ?thesis .
qed

lemma rsplit_once_None: "rsplit_once c s = None \<longleftrightarrow> c \<notin> set s"
  by (simp add: rsplit_once_def split_once_None)

definition strip_prefix :: "string \<Rightarrow> string \<Rightarrow> string option" where
  "strip_prefix p s = (if take (length p) s = p then Some (drop (length p) s) else None)"

lemma strip_prefix_Some: "strip_prefix p s = Some r \<longleftrightarrow> s = p @ r"
  by (auto simp: strip_prefix_def) (metis append_take_drop_id)

section \<open>Substrings\<close>

fun contains_str :: "string \<Rightarrow> string \<Rightarrow> bool" where
  "contains_str p [] = (p = [])"
| "contains_str p (x # xs) = (take (length p) (x # xs) = p \<or> contains_str p xs)"

text \<open>\<open>replace\<close>: every non-overlapping occurrence of a non-empty pattern, from the left.\<close>

function str_replace :: "string \<Rightarrow> string \<Rightarrow> string \<Rightarrow> string" where
  "str_replace p r s =
     (if s = [] then []
      else if p \<noteq> [] \<and> take (length p) s = p then r @ str_replace p r (drop (length p) s)
      else hd s # str_replace p r (tl s))"
  by pat_completeness auto
termination
proof (relation "measure (\<lambda>(p, r, s). length s)", goal_cases)
  case (2 p r s)
  then show ?case by (cases s; cases p) auto
qed auto

declare str_replace.simps [simp del]

lemma str_replace_absent: "p \<noteq> [] \<Longrightarrow> \<not> contains_str p s \<Longrightarrow> str_replace p r s = s"
  by (induction s) (simp_all add: str_replace.simps)

section \<open>Numbers\<close>

text \<open>
  \<open>from_str\<close> of an unsigned integer type: an optional plus sign, at least one digit, no other
  character, and a value within the type.
\<close>

definition parse_uint :: "nat \<Rightarrow> string \<Rightarrow> nat option" where
  "parse_uint bound s =
     (let ds = (case s of [] \<Rightarrow> [] | c # r \<Rightarrow> if c = CHR ''+'' then r else s)
      in if ds \<noteq> [] \<and> list_all is_digit ds \<and> dec_value ds \<le> bound then Some (dec_value ds) else None)"

definition parse_u16 :: "string \<Rightarrow> u16 option" where
  "parse_u16 s = map_option word_of_nat (parse_uint 65535 s)"

definition parse_u8 :: "string \<Rightarrow> byte option" where
  "parse_u8 s = map_option word_of_nat (parse_uint 255 s)"

lemma dec_string_Cons: "\<exists>c r. dec_string n = c # r \<and> is_digit c"
proof -
  have "dec_string n \<noteq> []" by (subst dec_string.simps) simp
  then obtain c r where "dec_string n = c # r" by (cases "dec_string n") auto
  moreover have "is_digit c" using dec_string_digits [of c n] calculation by simp
  ultimately show ?thesis by blast
qed

lemma parse_uint_dec_string: "n \<le> bound \<Longrightarrow> parse_uint bound (dec_string n) = Some n"
proof -
  assume n: "n \<le> bound"
  obtain c r where d: "dec_string n = c # r" "is_digit c" using dec_string_Cons by blast
  then have "c \<noteq> CHR ''+''" by (auto simp: is_digit_def)
  moreover have "list_all is_digit (dec_string n)" by (simp add: list_all_iff dec_string_digits)
  ultimately show ?thesis using n d(1) dec_value_dec_string [of n] by (simp add: parse_uint_def Let_def)
qed

lemma parse_u16_dec_string [simp]: "parse_u16 (dec_string (unat w)) = Some w"
proof -
  have "unat w \<le> 65535" using unat_u16_less [of w] by linarith
  then show ?thesis by (simp add: parse_u16_def parse_uint_dec_string)
qed

section \<open>Addresses as numbers\<close>

primrec ipv4_num :: "ipv4 \<Rightarrow> nat" where
  "ipv4_num (Ipv4 a b c d) = ((unat a * 256 + unat b) * 256 + unat c) * 256 + unat d"

definition ipv4_u32 :: "ipv4 \<Rightarrow> u32" where
  "ipv4_u32 ip = word_of_nat (ipv4_num ip)"

definition ipv4_of_num :: "nat \<Rightarrow> ipv4" where
  "ipv4_of_num n = Ipv4 (word_of_nat (n div 16777216)) (word_of_nat (n div 65536))
     (word_of_nat (n div 256)) (word_of_nat n)"

definition ipv4_from_u32 :: "u32 \<Rightarrow> ipv4" where
  "ipv4_from_u32 w = ipv4_of_num (unat w)"

lemma ipv4_num_less: "ipv4_num ip < 4294967296"
proof (cases ip)
  case (Ipv4 a b c d)
  have "unat x \<le> 255" for x :: byte using unat_byte_less [of x] by linarith
  moreover have "ipv4_num ip = 16777216 * unat a + 65536 * unat b + 256 * unat c + unat d"
    by (simp add: Ipv4 algebra_simps)
  ultimately show ?thesis
    using add_mono [OF add_mono [OF add_mono [OF mult_le_mono2 [of "unat a" 255 16777216]
      mult_le_mono2 [of "unat b" 255 65536]] mult_le_mono2 [of "unat c" 255 256]], of "unat d" 255] by simp
qed

lemma unat_ipv4_u32 [simp]: "unat (ipv4_u32 ip) = ipv4_num ip"
  using ipv4_num_less [of ip] by (simp add: ipv4_u32_def unat_of_nat)

lemma unat_byte_of_nat: "unat (word_of_nat n :: byte) = n mod 256"
  by (simp add: unat_of_nat)

lemma div_256: "u < 256 \<Longrightarrow> (x * 256 + u) div 256 = (x :: nat)"
  by simp

lemma byte_of_nat_add [simp]: "(word_of_nat (m * 256 + unat b) :: byte) = b"
proof -
  have "unat (word_of_nat (m * 256 + unat b) :: byte) = unat b"
    unfolding unat_byte_of_nat by simp
  then show ?thesis by (simp only: unat_inject)
qed

lemma div_65536: "n div 65536 = n div 256 div (256 :: nat)"
  and div_16777216: "n div 16777216 = n div 256 div 256 div (256 :: nat)"
  by (simp_all flip: div_mult2_eq)

lemma ipv4_of_num_num [simp]: "ipv4_of_num (ipv4_num ip) = ip"
proof (cases ip)
  case (Ipv4 a b c d)
  show ?thesis
    unfolding Ipv4 ipv4_num.simps ipv4_of_num_def div_65536 div_16777216
    by (simp only: div_256 unat_byte_less byte_of_nat_add) simp
qed

lemma ipv4_num_of_num:
  assumes "n < 4294967296"
  shows "ipv4_num (ipv4_of_num n) = n"
proof -
  have "n div 256 div 256 div 256 < 256" using assms by (simp flip: div_mult2_eq)
  then have "n div 256 div 256 div 256 mod 256 = n div 256 div 256 div 256" by (rule mod_less)
  then show ?thesis
    unfolding ipv4_of_num_def ipv4_num.simps unat_byte_of_nat div_65536 div_16777216
    by (simp only: div_mult_mod_eq)
qed

lemma ipv4_num_inject [simp]: "ipv4_num a = ipv4_num b \<longleftrightarrow> a = b"
  by (metis ipv4_of_num_num)

lemma ipv4_from_u32_u32 [simp]: "ipv4_from_u32 (ipv4_u32 ip) = ip"
  by (simp add: ipv4_from_u32_def)

lemma unat_u32_less: "unat (w :: u32) < 4294967296"
  using unsigned_less [of w] by simp

lemma ipv4_num_from_u32 [simp]: "ipv4_num (ipv4_from_u32 w) = unat w"
  by (simp add: ipv4_from_u32_def ipv4_num_of_num unat_u32_less)

section \<open>Trimming\<close>

text \<open>A string between two printable ASCII characters has nothing to trim.\<close>

definition printable :: "char \<Rightarrow> bool" where
  "printable c = (33 \<le> (of_char c :: nat) \<and> (of_char c :: nat) \<le> 126)"

definition plain :: "string \<Rightarrow> bool" where
  "plain s = (s = [] \<or> printable (hd s) \<and> printable (last s))"

lemma leading_printable:
  assumes "printable c" and ws: "list_all (\<lambda>w. w \<noteq> [] \<and> \<not> printable (hd w)) ws"
  shows "leading ws (c # s) = None"
proof -
  have "take (length w) (c # s) \<noteq> w" if "w \<in> set ws" for w
  proof -
    have "w \<noteq> []" "\<not> printable (hd w)" using that ws by (auto simp: list_all_iff)
    then show ?thesis using assms(1) by (cases w) auto
  qed
  then show ?thesis by (auto simp: leading_def find_None_iff)
qed

lemma white_space_not_printable:
  "list_all (\<lambda>w. w \<noteq> [] \<and> \<not> printable (hd w)) white_space"
  "list_all (\<lambda>w. w \<noteq> [] \<and> \<not> printable (hd w)) (map rev white_space)"
  by (simp_all add: white_space_def printable_def)

lemma str_trim_plain: "plain s \<Longrightarrow> str_trim s = s"
proof (cases s)
  case (Cons c r)
  assume "plain s"
  then have p: "printable c" "printable (hd (rev s))" by (auto simp: plain_def Cons hd_rev simp del: rev.simps)
  then have "strip_leading white_space s = s"
    by (simp add: strip_leading_id leading_printable white_space_not_printable Cons)
  moreover have "strip_leading (map rev white_space) (rev s) = rev s"
    using p(2) Cons by (cases "rev s") (auto simp: strip_leading_id leading_printable white_space_not_printable)
  ultimately show ?thesis by (simp add: str_trim_def)
qed (simp add: str_trim_def strip_leading.simps leading_def white_space_def)

lemma str_trim_empty [simp]: "str_trim [] = []"
  by (simp add: str_trim_plain plain_def)

lemmas trim_eval = str_trim_plain plain_def printable_def

end
