(* ===== verification/Resource.thy ===== *)
theory Resource
  imports Strings
begin

text \<open>
  \<open>crates/atrust-auth/src/resource.rs\<close>: the resource tables the gateway publishes. The derived
  JSON deserializer is a parameter; its result is the tree of wire records below, with absent
  fields at their defaults. Building the tables drops what cannot be parsed and keeps the
  gateway's order.
\<close>

unbundle bit_operations_syntax

section \<open>Tables\<close>

definition DEFAULT_NODE_PORT :: u16 where "DEFAULT_NODE_PORT = 441"
definition SDPC_HOST_PLACEHOLDER :: string where "SDPC_HOST_PLACEHOLDER = ''{{sdpcHost}}''"

datatype resource_protocol = RpTcp | RpUdp | RpIcmp | RpAll

definition resource_protocol_parse :: "string \<Rightarrow> resource_protocol option" where
  "resource_protocol_parse v =
     (let s = to_ascii_lowercase v in
      if s = ''tcp'' then Some RpTcp else if s = ''udp'' then Some RpUdp
      else if s = ''icmp'' then Some RpIcmp else if s = ''all'' then Some RpAll else None)"

primrec resource_protocol_as_str :: "resource_protocol \<Rightarrow> string" where
  "resource_protocol_as_str RpTcp = ''tcp''"
| "resource_protocol_as_str RpUdp = ''udp''"
| "resource_protocol_as_str RpIcmp = ''icmp''"
| "resource_protocol_as_str RpAll = ''all''"

lemma resource_protocol_roundtrip: "resource_protocol_parse (resource_protocol_as_str p) = Some p"
  by (cases p) (simp_all add: resource_protocol_parse_def to_ascii_lowercase_def ascii_lower_def)

record ip_resource =
  ir_ip_min :: ipv4
  ir_ip_max :: ipv4
  ir_port_min :: u16
  ir_port_max :: u16
  ir_protocol :: resource_protocol
  ir_app_id :: string
  ir_node_group_id :: string
  ir_tcp_prefers_l3 :: bool
  ir_addr_pretend :: bool

record domain_resource =
  dr_host :: string
  dr_port_min :: u16
  dr_port_max :: u16
  dr_protocol :: resource_protocol
  dr_app_id :: string
  dr_node_group_id :: string
  dr_tcp_prefers_l3 :: bool
  dr_addr_pretend :: bool
  dr_resolved_ips :: "ipv4 list"

record dns_servers =
  dns_primary :: "string option"
  dns_secondary :: "string option"

record node_address =
  na_address :: string
  na_address_type :: string

record node_group =
  ng_id :: string
  ng_addresses :: "node_address list"

record client_resources =
  cr_ip_resources :: "ip_resource list"
  cr_domain_resources :: "domain_resource list"
  cr_node_groups :: "node_group list"
  cr_major_node_group_id :: "string option"
  cr_dns :: dns_servers

record resolved_node_endpoint =
  re_host :: string
  re_port :: u16
  re_address_type :: string
  re_from_sdpc_placeholder :: bool

record resolved_node_group =
  rg_id :: string
  rg_endpoints :: "resolved_node_endpoint list"

section \<open>Node addresses\<close>

definition nonzero_port :: "u16 option \<Rightarrow> u16 option" where
  "nonzero_port p = (case p of None \<Rightarrow> None | Some n \<Rightarrow> if n = 0 then None else Some n)"

definition split_host_port :: "string \<Rightarrow> u16 \<Rightarrow> (string \<times> u16) option" where
  "split_host_port v default_port =
     (let val = str_trim v in
      if val = [] then None
      else case strip_prefix ''['' val of
        Some rest \<Rightarrow>
          (case split_once CHR '']'' rest of
             None \<Rightarrow> None
           | Some (host, after) \<Rightarrow>
               if after = [] then Some (host, default_port)
               else case strip_prefix '':'' after of
                 None \<Rightarrow> None
               | Some p \<Rightarrow> map_option (Pair host) (nonzero_port (parse_u16 p)))
      | None \<Rightarrow>
          if 1 < length (filter (\<lambda>c. c = CHR '':'') val) then Some (val, default_port)
          else case rsplit_once CHR '':'' val of
            Some (host, p) \<Rightarrow>
              if host = [] then None else map_option (Pair host) (nonzero_port (parse_u16 p))
          | None \<Rightarrow> Some (val, default_port))"

definition resolve_node_address :: "node_address \<Rightarrow> string \<Rightarrow> resolved_node_endpoint option" where
  "resolve_node_address address gateway_host =
     (let raw = str_trim (na_address address) in
      if raw = [] then None
      else let placeholder = contains_str SDPC_HOST_PLACEHOLDER raw;
               substituted = (if placeholder then str_replace SDPC_HOST_PLACEHOLDER gateway_host raw else raw)
      in case split_host_port substituted DEFAULT_NODE_PORT of
           None \<Rightarrow> None
         | Some (host, port) \<Rightarrow>
             if host = [] then None
             else Some \<lparr>re_host = host, re_port = port, re_address_type = na_address_type address,
                        re_from_sdpc_placeholder = placeholder\<rparr>)"

definition resolve_node_groups :: "client_resources \<Rightarrow> string \<Rightarrow> resolved_node_group list" where
  "resolve_node_groups cr gateway_host =
     map (\<lambda>g. \<lparr>rg_id = ng_id g,
               rg_endpoints = List.map_filter (\<lambda>a. resolve_node_address a gateway_host) (ng_addresses g)\<rparr>)
       (cr_node_groups cr)"

definition all_nodes :: "client_resources \<Rightarrow> string \<Rightarrow> (string \<times> resolved_node_endpoint) list" where
  "all_nodes cr gateway_host =
     concat (map (\<lambda>g. map (Pair (rg_id g)) (rg_endpoints g)) (resolve_node_groups cr gateway_host))"

definition primary_nodes :: "client_resources \<Rightarrow> string \<Rightarrow> (string \<times> resolved_node_endpoint) list" where
  "primary_nodes cr gateway_host =
     List.map_filter (\<lambda>g. case rg_endpoints g of [] \<Rightarrow> None | e # _ \<Rightarrow> Some (rg_id g, e))
       (resolve_node_groups cr gateway_host)"

definition node_group_endpoints :: "client_resources \<Rightarrow> string \<Rightarrow> string \<Rightarrow> resolved_node_endpoint list" where
  "node_group_endpoints cr group_id gateway_host =
     (case find (\<lambda>g. rg_id g = group_id) (resolve_node_groups cr gateway_host) of
        None \<Rightarrow> [] | Some g \<Rightarrow> rg_endpoints g)"

definition socket_display :: "resolved_node_endpoint \<Rightarrow> string" where
  "socket_display e =
     (if CHR '':'' \<in> set (re_host e) \<and> take 1 (re_host e) \<noteq> ''[''
      then ''['' @ re_host e @ '']:'' @ dec_string (unat (re_port e))
      else re_host e @ '':'' @ dec_string (unat (re_port e)))"

section \<open>The wire records\<close>

record address_item =
  ai_protocol :: string
  ai_port :: string
  ai_host :: string
  ai_ip :: "string list"

record app_item =
  app_tcp_prefers_l3 :: bool
  app_addr_pretend :: "json_value option"
  app_id :: string
  app_node_group_id :: string
  app_address_list :: "address_item list"

datatype wire_port = WpString string | WpNumber string | WpOther json_value

record node_address_item =
  nai_address :: string
  nai_address_type :: string
  nai_port :: "wire_port option"

record node_group_item =
  ngi_id :: string
  ngi_address_info :: "node_address_item list"

record dns_option_data =
  do_first_dns :: string
  do_second_dns :: string

text \<open>\<open>appList.data\<close> and \<open>sdpPolicy.data\<close> of the body, without the single-field wrappers.\<close>

record client_resource_data =
  cd_app_info :: "app_item list list"
  cd_major_node_group_id :: string
  cd_node_group_list :: "node_group_item list"
  cd_dns_option :: dns_option_data
  cd_dns_option_v2 :: dns_option_data

record client_resource_envelope =
  en_code :: "int option"
  en_message :: string
  en_data :: "client_resource_data option"

datatype resource_error = InvalidJson string | Rejected int string | MissingData

definition number_as_u64 :: "string \<Rightarrow> nat option" where
  "number_as_u64 lit =
     (if lit \<noteq> [] \<and> list_all is_digit lit \<and> dec_value lit < 2 ^ 64 then Some (dec_value lit) else None)"

definition wire_port_get :: "wire_port \<Rightarrow> u16 option" where
  "wire_port_get p =
     (case p of
        WpString s \<Rightarrow> nonzero_port (parse_u16 s)
      | WpNumber lit \<Rightarrow>
          nonzero_port (case number_as_u64 lit of
            None \<Rightarrow> None | Some n \<Rightarrow> if n \<le> 65535 then Some (word_of_nat n) else None)
      | WpOther _ \<Rightarrow> None)"

definition node_address_with_wire_port :: "string \<Rightarrow> wire_port option \<Rightarrow> string" where
  "node_address_with_wire_port address port =
     (case Option.bind port wire_port_get of
        None \<Rightarrow> address
      | Some p \<Rightarrow>
          (case split_host_port address p of
             None \<Rightarrow> address
           | Some (host, resolved_port) \<Rightarrow>
               if CHR '':'' \<in> set host then ''['' @ host @ '']:'' @ dec_string (unat resolved_port)
               else host @ '':'' @ dec_string (unat resolved_port)))"

definition first_non_empty :: "string \<Rightarrow> string \<Rightarrow> string option" where
  "first_non_empty a b = find (\<lambda>v. v \<noteq> []) [str_trim a, str_trim b]"

section \<open>Addresses and ports of a resource\<close>

definition parse_port_range :: "string \<Rightarrow> (u16 \<times> u16) option" where
  "parse_port_range v =
     (let val = str_trim v in
      if val = [] then None
      else case split_once CHR ''-'' val of
        Some (left, right) \<Rightarrow>
          (case (parse_u16 (str_trim left), parse_u16 (str_trim right)) of
             (Some lo, Some hi) \<Rightarrow> Some (lo, hi) | _ \<Rightarrow> None)
      | None \<Rightarrow> map_option (\<lambda>p. (p, p)) (parse_u16 val))"

datatype host_kind = HkIp ipv4 | HkCidr ipv4 ipv4 | HkRange ipv4 ipv4 | HkDomain

definition cidr_mask :: "byte \<Rightarrow> u32" where
  "cidr_mask bits = (if bits = 0 then 0 else push_bit (32 - unat bits) (- 1))"

definition cidr_of :: "string \<Rightarrow> (ipv4 \<times> ipv4) option" where
  "cidr_of host =
     (case split_once CHR ''/'' host of
        None \<Rightarrow> None
      | Some (network, pre) \<Rightarrow>
          (case (parse_ipv4 (str_trim network), parse_u8 pre) of
             (Some base, Some bits) \<Rightarrow>
               if bits \<le> 32
               then Some (ipv4_from_u32 (ipv4_u32 base AND cidr_mask bits),
                          ipv4_from_u32 ((ipv4_u32 base AND cidr_mask bits) OR NOT (cidr_mask bits)))
               else None
           | _ \<Rightarrow> None))"

definition range_of :: "string \<Rightarrow> (ipv4 \<times> ipv4) option" where
  "range_of host =
     (case split_once CHR ''-'' host of
        None \<Rightarrow> None
      | Some (left, right) \<Rightarrow>
          (case (parse_ipv4 (str_trim left), parse_ipv4 (str_trim right)) of
             (Some lo, Some hi) \<Rightarrow> if ipv4_num lo \<le> ipv4_num hi then Some (lo, hi) else None
           | _ \<Rightarrow> None))"

definition classify_host :: "string \<Rightarrow> host_kind" where
  "classify_host host =
     (case parse_ipv4 host of
        Some ip \<Rightarrow> HkIp ip
      | None \<Rightarrow>
          (case cidr_of host of
             Some (lo, hi) \<Rightarrow> HkCidr lo hi
           | None \<Rightarrow> (case range_of host of Some (lo, hi) \<Rightarrow> HkRange lo hi | None \<Rightarrow> HkDomain)))"

section \<open>Building the tables\<close>

definition pretends :: "app_item \<Rightarrow> bool" where
  "pretends app = (case app_addr_pretend app of Some (JBool b) \<Rightarrow> b | _ \<Rightarrow> True)"

definition ip_entry :: "app_item \<Rightarrow> resource_protocol \<Rightarrow> u16 \<times> u16 \<Rightarrow> ipv4 \<Rightarrow> ipv4 \<Rightarrow> ip_resource" where
  "ip_entry app protocol ports lo hi =
     \<lparr>ir_ip_min = lo, ir_ip_max = hi, ir_port_min = fst ports, ir_port_max = snd ports,
      ir_protocol = protocol, ir_app_id = app_id app, ir_node_group_id = app_node_group_id app,
      ir_tcp_prefers_l3 = app_tcp_prefers_l3 app, ir_addr_pretend = pretends app\<rparr>"

definition domain_entry :: "app_item \<Rightarrow> resource_protocol \<Rightarrow> u16 \<times> u16 \<Rightarrow> string \<Rightarrow> string list \<Rightarrow> domain_resource" where
  "domain_entry app protocol ports host ips =
     \<lparr>dr_host = host, dr_port_min = fst ports, dr_port_max = snd ports, dr_protocol = protocol,
      dr_app_id = app_id app, dr_node_group_id = app_node_group_id app,
      dr_tcp_prefers_l3 = app_tcp_prefers_l3 app, dr_addr_pretend = pretends app,
      dr_resolved_ips = List.map_filter (\<lambda>ip. parse_ipv4 (str_trim ip)) ips\<rparr>"

text \<open>One address of one application: nothing, an IP resource or a domain resource.\<close>

definition address_resource :: "app_item \<Rightarrow> address_item \<Rightarrow> (ip_resource + domain_resource) option" where
  "address_resource app address =
     (case (resource_protocol_parse (ai_protocol address), parse_port_range (ai_port address)) of
        (Some protocol, Some ports) \<Rightarrow>
          (let host = str_trim (ai_host address) in
           if host = [] then None
           else Some (case classify_host host of
             HkIp ip \<Rightarrow> Inl (ip_entry app protocol ports ip ip)
           | HkCidr lo hi \<Rightarrow> Inl (ip_entry app protocol ports lo hi)
           | HkRange lo hi \<Rightarrow> Inl (ip_entry app protocol ports lo hi)
           | HkDomain \<Rightarrow> Inr (domain_entry app protocol ports host (ai_ip address))))
      | _ \<Rightarrow> None)"

definition app_resources :: "app_item \<Rightarrow> (ip_resource + domain_resource) list" where
  "app_resources app =
     (if app_id app = [] \<or> app_node_group_id app = [] then []
      else List.map_filter (address_resource app) (app_address_list app))"

definition from_data :: "client_resource_data \<Rightarrow> client_resources" where
  "from_data d =
     (let rs = concat (map app_resources (concat (cd_app_info d)));
          groups = filter (\<lambda>g. ngi_id g \<noteq> []) (cd_node_group_list d)
      in \<lparr>cr_ip_resources = List.map_filter (\<lambda>r. case r of Inl ip \<Rightarrow> Some ip | Inr _ \<Rightarrow> None) rs,
          cr_domain_resources = List.map_filter (\<lambda>r. case r of Inl _ \<Rightarrow> None | Inr d \<Rightarrow> Some d) rs,
          cr_node_groups =
            map (\<lambda>g. \<lparr>ng_id = ngi_id g,
                      ng_addresses = map (\<lambda>a. \<lparr>na_address = node_address_with_wire_port (nai_address a) (nai_port a),
                                               na_address_type = nai_address_type a\<rparr>)
                        (filter (\<lambda>a. nai_address a \<noteq> []) (ngi_address_info g))\<rparr>) groups,
          cr_major_node_group_id =
            (if cd_major_node_group_id d = [] then None else Some (cd_major_node_group_id d)),
          cr_dns = \<lparr>dns_primary = first_non_empty (do_first_dns (cd_dns_option d)) (do_first_dns (cd_dns_option_v2 d)),
                    dns_secondary = first_non_empty (do_second_dns (cd_dns_option d)) (do_second_dns (cd_dns_option_v2 d))\<rparr>\<rparr>)"

definition from_envelope :: "client_resource_envelope \<Rightarrow> resource_error + client_resources" where
  "from_envelope env =
     (case en_code env of
        Some code \<Rightarrow>
          if code \<noteq> 0 then Inl (Rejected code (en_message env))
          else (case en_data env of None \<Rightarrow> Inl MissingData | Some d \<Rightarrow> Inr (from_data d))
      | None \<Rightarrow> (case en_data env of None \<Rightarrow> Inl MissingData | Some d \<Rightarrow> Inr (from_data d)))"

definition parse_bytes :: "(bytes \<Rightarrow> string + client_resource_envelope) \<Rightarrow> bytes \<Rightarrow> resource_error + client_resources" where
  "parse_bytes from_slice body =
     (case from_slice body of Inl e \<Rightarrow> Inl (InvalidJson e) | Inr env \<Rightarrow> from_envelope env)"

section \<open>Address blocks\<close>

text \<open>A prefix length keeps the top bits: the block is an aligned run of numbers.\<close>

lemma cidr_mask_not: "bits \<le> 32 \<Longrightarrow> cidr_mask bits = NOT (mask (32 - unat bits))"
proof -
  have "(push_bit 32 (- 1) :: u32) = 0" by (simp add: push_bit_eq_mult)
  then show ?thesis by (auto simp: cidr_mask_def push_bit_minus_one_eq_not_mask)
qed

lemma unat_clear_low: "unat (w AND NOT (mask k)) = unat (w :: u32) div 2 ^ k * 2 ^ k"
proof -
  have "(w AND NOT (mask k)) OR take_bit k w = (w AND NOT (mask k)) + take_bit k w"
    by (rule disjunctive_add [symmetric]) (auto simp: bit_simps)
  moreover have "(w AND NOT (mask k)) OR take_bit k w = w"
    by (rule bit_eqI) (auto simp: bit_simps)
  ultimately have w: "w AND NOT (mask k) = w - take_bit k w" by (metis add_diff_cancel_right')
  have "unat (take_bit k w) = unat w mod 2 ^ k" by (subst unsigned_take_bit_eq) (rule take_bit_eq_mod)
  moreover have "unat w mod 2 ^ k \<le> unat w" by simp
  ultimately show ?thesis unfolding w by (simp add: unat_sub_if' minus_mod_eq_div_mult)
qed

lemma block_top: "k \<le> 32 \<Longrightarrow> unat (w :: u32) div 2 ^ k * 2 ^ k + (2 ^ k - 1) < 2 ^ 32"
proof -
  assume k: "k \<le> 32"
  have "unat w < 2 ^ (32 - k) * 2 ^ k" using unat_u32_less [of w] k by (simp flip: power_add)
  then have "unat w div 2 ^ k < 2 ^ (32 - k)" by (simp add: less_mult_imp_div_less)
  then have "(unat w div 2 ^ k + 1) * 2 ^ k \<le> 2 ^ (32 - k) * 2 ^ k" by (intro mult_le_mono1) simp
  moreover have "2 ^ (32 - k) * 2 ^ k = (2 ^ 32 :: nat)" using k by (simp only: flip: power_add) simp
  moreover have "(0 :: nat) < 2 ^ k" by simp
  ultimately show ?thesis by (simp add: algebra_simps)
qed

lemma length_u32: "LENGTH(32) = 32" by simp

lemma unat_set_low:
  assumes "k \<le> 32"
  shows "unat ((w AND NOT (mask k)) OR mask k) = unat (w :: u32) div 2 ^ k * 2 ^ k + (2 ^ k - 1)"
proof -
  have "(w AND NOT (mask k)) OR mask k = (w AND NOT (mask k)) + mask k"
    by (rule disjunctive_add [symmetric]) (auto simp: bit_simps)
  moreover have "unat (mask k :: u32) = nat (mask (min 32 k))"
    by (metis uint_mask_eq nat_uint_eq length_u32)
  moreover have "nat (mask (min 32 k)) = 2 ^ k - 1"
    using assms by (simp only: min.absorb2 nat_mask_eq mask_nat_def)
  ultimately show ?thesis using block_top [OF assms, of w] by (simp add: unat_clear_low unat_word_ariths)
qed

lemma block_member:
  assumes "0 < (m :: nat)"
  shows "x div m * m \<le> y \<and> y \<le> x div m * m + (m - 1) \<longleftrightarrow> y div m = x div m"
proof
  assume b: "x div m * m \<le> y \<and> y \<le> x div m * m + (m - 1)"
  show "y div m = x div m" by (rule div_nat_eqI) (use b assms in \<open>auto simp: mult.commute\<close>)
next
  assume "y div m = x div m"
  then have "x div m * m + y mod m = y" using div_mult_mod_eq [of y m] by simp
  moreover have "y mod m \<le> m - 1" using assms mod_less_divisor [of m y] by linarith
  ultimately show "x div m * m \<le> y \<and> y \<le> x div m * m + (m - 1)" by linarith
qed

lemma cidr_of_Some:
  assumes "cidr_of host = Some (lo, hi)"
  obtains network pre base bits where "host = network @ ''/'' @ pre" "parse_ipv4 (str_trim network) = Some base"
    "parse_u8 pre = Some bits" "bits \<le> 32"
    "ipv4_num lo = ipv4_num base div 2 ^ (32 - unat bits) * 2 ^ (32 - unat bits)"
    "ipv4_num hi = ipv4_num lo + (2 ^ (32 - unat bits) - 1)"
proof -
  obtain network pre base bits where p: "split_once CHR ''/'' host = Some (network, pre)"
    "parse_ipv4 (str_trim network) = Some base" "parse_u8 pre = Some bits" "bits \<le> 32"
    "lo = ipv4_from_u32 (ipv4_u32 base AND cidr_mask bits)"
    "hi = ipv4_from_u32 ((ipv4_u32 base AND cidr_mask bits) OR NOT (cidr_mask bits))"
    using assms by (auto simp: cidr_of_def split: option.splits if_splits prod.splits)
  show ?thesis
  proof (rule that)
    show "host = network @ ''/'' @ pre" using p(1) by (simp add: split_once_Some)
    show "ipv4_num lo = ipv4_num base div 2 ^ (32 - unat bits) * 2 ^ (32 - unat bits)"
      using p(4) by (simp add: p(5) cidr_mask_not unat_clear_low)
    then show "ipv4_num hi = ipv4_num lo + (2 ^ (32 - unat bits) - 1)"
      using p(4) by (simp add: p(6) cidr_mask_not unat_set_low)
  qed (use p in auto)
qed

lemma cidr_of_block:
  assumes "parse_ipv4 (str_trim network) = Some base" "parse_u8 pre = Some bits" "bits \<le> 32" "CHR ''/'' \<notin> set network"
  obtains lo hi where "cidr_of (network @ ''/'' @ pre) = Some (lo, hi)"
    and "\<And>x. ipv4_num lo \<le> ipv4_num x \<and> ipv4_num x \<le> ipv4_num hi \<longleftrightarrow>
      ipv4_num x div 2 ^ (32 - unat bits) = ipv4_num base div 2 ^ (32 - unat bits)"
proof (rule that)
  have s: "split_once CHR ''/'' (network @ ''/'' @ pre) = Some (network, pre)"
    using assms(4) by (simp add: split_once_Some)
  show "cidr_of (network @ ''/'' @ pre) = Some (ipv4_from_u32 (ipv4_u32 base AND cidr_mask bits),
      ipv4_from_u32 ((ipv4_u32 base AND cidr_mask bits) OR NOT (cidr_mask bits)))"
    unfolding cidr_of_def s using assms by simp
next
  fix x
  have "ipv4_num (ipv4_from_u32 (ipv4_u32 base AND cidr_mask bits)) = ipv4_num base div 2 ^ (32 - unat bits) * 2 ^ (32 - unat bits)"
    "ipv4_num (ipv4_from_u32 ((ipv4_u32 base AND cidr_mask bits) OR NOT (cidr_mask bits))) =
       ipv4_num base div 2 ^ (32 - unat bits) * 2 ^ (32 - unat bits) + (2 ^ (32 - unat bits) - 1)"
    using assms(3) by (simp_all add: cidr_mask_not unat_clear_low unat_set_low)
  then show "ipv4_num (ipv4_from_u32 (ipv4_u32 base AND cidr_mask bits)) \<le> ipv4_num x
      \<and> ipv4_num x \<le> ipv4_num (ipv4_from_u32 ((ipv4_u32 base AND cidr_mask bits) OR NOT (cidr_mask bits))) \<longleftrightarrow>
      ipv4_num x div 2 ^ (32 - unat bits) = ipv4_num base div 2 ^ (32 - unat bits)"
    by (simp only: block_member zero_less_power zero_less_numeral)
qed

section \<open>Parsed resources are well formed\<close>

lemma cidr_of_ordered: "cidr_of host = Some (lo, hi) \<Longrightarrow> ipv4_num lo \<le> ipv4_num hi"
  by (erule cidr_of_Some) (simp only: le_add1)

lemma classify_host_ordered:
  "classify_host host = HkCidr lo hi \<Longrightarrow> ipv4_num lo \<le> ipv4_num hi"
  "classify_host host = HkRange lo hi \<Longrightarrow> ipv4_num lo \<le> ipv4_num hi"
  by (auto simp: classify_host_def range_of_def cidr_of_ordered split: option.splits prod.splits if_splits)

lemma address_resource_ip:
  assumes "address_resource app address = Some (Inl r)"
  shows "ipv4_num (ir_ip_min r) \<le> ipv4_num (ir_ip_max r)"
    and "ir_app_id r = app_id app" "ir_node_group_id r = app_node_group_id app"
  using assms classify_host_ordered
  by (auto simp: address_resource_def ip_entry_def Let_def split: option.splits prod.splits if_splits host_kind.splits)

lemma address_resource_domain:
  assumes "address_resource app address = Some (Inr r)"
  shows "dr_app_id r = app_id app" "dr_node_group_id r = app_node_group_id app" "dr_host r \<noteq> []"
  using assms
  by (auto simp: address_resource_def domain_entry_def Let_def split: option.splits prod.splits if_splits host_kind.splits)

text \<open>Where an entry of the tables comes from.\<close>

lemma in_map_filter: "y \<in> set (List.map_filter f xs) \<longleftrightarrow> (\<exists>x \<in> set xs. f x = Some y)"
  by (induction xs) (auto simp: List.map_filter_simps split: option.splits)

definition published :: "client_resource_data \<Rightarrow> ip_resource + domain_resource \<Rightarrow> app_item \<Rightarrow> address_item \<Rightarrow> bool" where
  "published d r app address =
     (app \<in> set (concat (cd_app_info d)) \<and> address \<in> set (app_address_list app)
      \<and> app_id app \<noteq> [] \<and> app_node_group_id app \<noteq> [] \<and> address_resource app address = Some r)"

lemma published_iff:
  "r \<in> set (concat (map app_resources (concat (cd_app_info d)))) \<longleftrightarrow> (\<exists>app address. published d r app address)"
proof -
  have "r \<in> set (app_resources app) \<longleftrightarrow> (\<exists>address \<in> set (app_address_list app).
      app_id app \<noteq> [] \<and> app_node_group_id app \<noteq> [] \<and> address_resource app address = Some r)" for app
    by (simp add: app_resources_def in_map_filter)
  then show ?thesis unfolding set_concat set_map published_def by blast
qed

lemma in_lefts: "(\<exists>x \<in> S. (case x of Inl a \<Rightarrow> Some a | Inr b \<Rightarrow> None) = Some r) \<longleftrightarrow> Inl r \<in> S"
  and in_rights: "(\<exists>x \<in> S. (case x of Inl a \<Rightarrow> None | Inr b \<Rightarrow> Some b) = Some s) \<longleftrightarrow> Inr s \<in> S"
  by (force split: sum.split_asm)+

lemma from_data_ip: "r \<in> set (cr_ip_resources (from_data d)) \<longleftrightarrow> (\<exists>app address. published d (Inl r) app address)"
  unfolding from_data_def Let_def client_resources.simps in_map_filter in_lefts by (rule published_iff)

lemma from_data_domain: "r \<in> set (cr_domain_resources (from_data d)) \<longleftrightarrow> (\<exists>app address. published d (Inr r) app address)"
  unfolding from_data_def Let_def client_resources.simps in_map_filter in_rights by (rule published_iff)

end
