(* ===== verification/Fake_Ip.thy ===== *)
theory Fake_Ip
  imports Resource
begin

text \<open>
  \<open>crates/atrust-net/src/fake_ip.rs\<close>: the pool of fake addresses handed out in DNS answers and
  the record of which names real addresses were resolved for. The clock is an argument, one
  reading per operation. The main property is that an address stands for one name for the
  lifetime of the pool.
\<close>

unbundle bit_operations_syntax

section \<open>The pool\<close>

record binding =
  bi_host :: string
  bi_epoch :: u64
  bi_generation :: u64
  bi_until :: nat

record fake_ip_pool =
  fp_fake :: "(ipv4, binding) hmap"
  fp_real :: "(ipv4, binding list) hmap"
  fp_next :: u32
  fp_capacity :: nat

datatype pool_error = PoolExhausted | IdentityPoolExhausted | TooManyDomains

definition pool_new :: "nat \<Rightarrow> fake_ip_pool" where
  "pool_new capacity = \<lparr>fp_fake = [], fp_real = [], fp_next = 1, fp_capacity = capacity\<rparr>"

definition FAKE_BASE :: ipv4 where "FAKE_BASE = Ipv4 198 18 0 0"

definition is_fake :: "ipv4 \<Rightarrow> bool" where
  "is_fake ip = (ipv4_u32 ip AND 0xfffe0000 = ipv4_u32 FAKE_BASE)"

definition binding_valid :: "nat \<Rightarrow> u64 \<Rightarrow> u64 \<Rightarrow> binding \<Rightarrow> bool" where
  "binding_valid now epoch generation b =
     (bi_epoch b = epoch \<and> bi_generation b = generation \<and> bi_until b > now)"

definition pool_prune :: "nat \<Rightarrow> u64 \<Rightarrow> u64 \<Rightarrow> fake_ip_pool \<Rightarrow> fake_ip_pool" where
  "pool_prune now epoch generation pool =
     pool\<lparr>fp_fake := filter (\<lambda>(_, b). binding_valid now epoch generation b) (fp_fake pool),
          fp_real := filter (\<lambda>(_, bs). bs \<noteq> [])
            (map (\<lambda>(ip, bs). (ip, filter (binding_valid now epoch generation) bs)) (fp_real pool))\<rparr>"

definition fake_address :: "u32 \<Rightarrow> ipv4" where
  "fake_address n = ipv4_from_u32 (ipv4_u32 FAKE_BASE + n)"

definition pool_assign ::
  "string \<Rightarrow> u64 \<Rightarrow> u64 \<Rightarrow> nat \<Rightarrow> nat \<Rightarrow> fake_ip_pool \<Rightarrow> fake_ip_pool \<times> (pool_error + ipv4)" where
  "pool_assign host epoch generation ttl now pool0 =
     (let pool = pool_prune now epoch generation pool0 in
      case find (\<lambda>(_, b). bi_host b = host) (fp_fake pool) of
        Some (ip, b) \<Rightarrow>
          (pool\<lparr>fp_fake := hm_insert ip (b\<lparr>bi_until := now + ttl\<rparr>) (fp_fake pool)\<rparr>, Inr ip)
      | None \<Rightarrow>
          if length (fp_fake pool) + length (fp_real pool) \<ge> fp_capacity pool \<or> fp_next pool \<ge> 131071
          then (pool, Inl PoolExhausted)
          else let ip = fake_address (fp_next pool) in
            (pool\<lparr>fp_next := fp_next pool + 1,
                  fp_fake := hm_insert ip
                    \<lparr>bi_host = host, bi_epoch = epoch, bi_generation = generation, bi_until = now + ttl\<rparr>
                    (fp_fake pool)\<rparr>, Inr ip))"

definition pool_lookup :: "ipv4 \<Rightarrow> u64 \<Rightarrow> u64 \<Rightarrow> nat \<Rightarrow> fake_ip_pool \<Rightarrow> fake_ip_pool \<times> string option" where
  "pool_lookup ip epoch generation now pool0 =
     (let pool = pool_prune now epoch generation pool0
      in (pool, map_option bi_host (hm_get (fp_fake pool) ip)))"

fun renew_host :: "string \<Rightarrow> nat \<Rightarrow> binding list \<Rightarrow> binding list" where
  "renew_host host until [] = []"
| "renew_host host until (b # bs) =
     (if bi_host b = host then b\<lparr>bi_until := until\<rparr> # bs else b # renew_host host until bs)"

definition remember_real ::
  "ipv4 \<Rightarrow> string \<Rightarrow> u64 \<Rightarrow> u64 \<Rightarrow> nat \<Rightarrow> nat \<Rightarrow> fake_ip_pool \<Rightarrow> fake_ip_pool \<times> (pool_error + unit)" where
  "remember_real ip host epoch generation ttl now pool0 =
     (let pool = pool_prune now epoch generation pool0 in
      if hm_get (fp_real pool) ip = None
         \<and> length (fp_fake pool) + length (fp_real pool) \<ge> fp_capacity pool
      then (pool, Inl IdentityPoolExhausted)
      else let bindings = (case hm_get (fp_real pool) ip of None \<Rightarrow> [] | Some bs \<Rightarrow> bs) in
        if \<exists>b \<in> set bindings. bi_host b = host
        then (pool\<lparr>fp_real := hm_insert ip (renew_host host (now + ttl) bindings) (fp_real pool)\<rparr>, Inr ())
        else if length bindings \<ge> 16 then (pool, Inl TooManyDomains)
        else (pool\<lparr>fp_real := hm_insert ip
               (bindings @ [\<lparr>bi_host = host, bi_epoch = epoch, bi_generation = generation, bi_until = now + ttl\<rparr>])
               (fp_real pool)\<rparr>, Inr ()))"

definition real_hosts :: "ipv4 \<Rightarrow> u64 \<Rightarrow> u64 \<Rightarrow> nat \<Rightarrow> fake_ip_pool \<Rightarrow> fake_ip_pool \<times> string list" where
  "real_hosts ip epoch generation now pool0 =
     (let pool = pool_prune now epoch generation pool0
      in (pool, case hm_get (fp_real pool) ip of None \<Rightarrow> [] | Some bs \<Rightarrow> map bi_host bs))"

section \<open>Addresses of the pool\<close>

lemma fake_base_num: "ipv4_num FAKE_BASE = 3323068416"
  by (simp add: FAKE_BASE_def)

lemma fake_address_num:
  assumes "n < 131072"
  shows "ipv4_num (fake_address n) = 3323068416 + unat n"
proof -
  have "unat n < 131072" using assms by (simp add: word_less_nat_alt)
  then show ?thesis
    by (simp add: fake_address_def unat_word_ariths fake_base_num)
qed

lemma fake_address_inject: "m < 131072 \<Longrightarrow> n < 131072 \<Longrightarrow> fake_address m = fake_address n \<longleftrightarrow> m = n"
  by (metis fake_address_num add_left_cancel unat_inject)

lemma is_fake_iff: "is_fake ip \<longleftrightarrow> ipv4_num ip div 131072 = 25353"
proof -
  have mask: "(0xfffe0000 :: u32) = NOT (mask 17)" by (simp add: mask_eq_exp_minus_1)
  have "is_fake ip \<longleftrightarrow> ipv4_num ip div 2 ^ 17 * 2 ^ 17 = 3323068416"
    unfolding is_fake_def mask by (metis unat_clear_low unat_ipv4_u32 fake_base_num unat_inject)
  then show ?thesis by auto
qed

lemma is_fake_address: "n < 131072 \<Longrightarrow> is_fake (fake_address n)"
proof -
  assume n: "n < 131072"
  then have "unat n < 131072" by (simp add: word_less_nat_alt)
  then show ?thesis using n by (simp add: is_fake_iff fake_address_num div_nat_eqI)
qed

section \<open>Runs of the pool\<close>

datatype pool_op =
    OpAssign string u64 u64 nat nat
  | OpLookup ipv4 u64 u64 nat
  | OpRemember ipv4 string u64 u64 nat nat
  | OpRealHosts ipv4 u64 u64 nat

text \<open>One call, with the pair of fake address and name it tells its caller.\<close>

primrec pool_call :: "pool_op \<Rightarrow> fake_ip_pool \<Rightarrow> fake_ip_pool \<times> (ipv4 \<times> string) option" where
  "pool_call (OpAssign host epoch generation ttl now) pool =
     (case pool_assign host epoch generation ttl now pool of
        (pool', Inl _) \<Rightarrow> (pool', None) | (pool', Inr ip) \<Rightarrow> (pool', Some (ip, host)))"
| "pool_call (OpLookup ip epoch generation now) pool =
     (case pool_lookup ip epoch generation now pool of
        (pool', r) \<Rightarrow> (pool', map_option (Pair ip) r))"
| "pool_call (OpRemember ip host epoch generation ttl now) pool =
     (fst (remember_real ip host epoch generation ttl now pool), None)"
| "pool_call (OpRealHosts ip epoch generation now) pool =
     (fst (real_hosts ip epoch generation now pool), None)"

primrec pool_run :: "pool_op list \<Rightarrow> fake_ip_pool \<Rightarrow> fake_ip_pool \<times> (ipv4 \<times> string) list" where
  "pool_run [] pool = (pool, [])"
| "pool_run (op # ops) pool =
     (let (pool1, told) = pool_call op pool; (pool2, rest) = pool_run ops pool1
      in (pool2, (case told of None \<Rightarrow> rest | Some p \<Rightarrow> p # rest)))"

text \<open>
  The invariant, with the names the pool has ever given its addresses as a ghost map \<open>owner\<close>.
\<close>

definition pool_inv :: "(ipv4 \<rightharpoonup> string) \<Rightarrow> fake_ip_pool \<Rightarrow> bool" where
  "pool_inv owner pool \<longleftrightarrow>
     hm_distinct (fp_fake pool) \<and> hm_distinct (fp_real pool)
     \<and> (\<forall>x \<in> set (fp_fake pool). owner (fst x) = Some (bi_host (snd x)))
     \<and> (\<forall>ip \<in> dom owner. \<exists>n < fp_next pool. ip = fake_address n)
     \<and> fp_next pool \<le> 131071
     \<and> distinct (map (bi_host \<circ> snd) (fp_fake pool))
     \<and> length (fp_fake pool) + length (fp_real pool) \<le> fp_capacity pool
     \<and> (\<forall>x \<in> set (fp_real pool). length (snd x) \<le> 16)"

lemma pool_new_inv: "pool_inv Map.empty (pool_new capacity)"
  by (simp add: pool_inv_def pool_new_def)

lemma prune_fields [simp]:
  "fp_next (pool_prune now epoch generation pool) = fp_next pool"
  "fp_capacity (pool_prune now epoch generation pool) = fp_capacity pool"
  by (simp_all add: pool_prune_def)

lemma distinct_map_filter_sub: "distinct (map f xs) \<Longrightarrow> distinct (map f (filter P xs))"
  by (rule distinct_map_filter)

lemma in_pruned:
  assumes "x \<in> set (filter P (map (\<lambda>(ip, bs). (ip, f bs)) m))"
  shows "\<exists>ip bs. x = (ip, f bs) \<and> (ip, bs) \<in> set m"
  using assms by auto

lemma pool_prune_inv:
  assumes "pool_inv owner pool"
  shows "pool_inv owner (pool_prune now epoch generation pool)"
proof -
  let ?real = "map (\<lambda>(ip, bs). (ip, filter (binding_valid now epoch generation) bs)) (fp_real pool)"
  have "map fst ?real = map fst (fp_real pool)" by auto
  moreover have "hm_distinct (fp_real pool)" using assms by (simp add: pool_inv_def)
  ultimately have "distinct (map fst ?real)" by (simp only:)
  then have "hm_distinct (filter (\<lambda>(_, bs). bs \<noteq> []) ?real)" by (rule distinct_map_filter_sub)
  moreover have "length (filter (\<lambda>(_, b). binding_valid now epoch generation b) (fp_fake pool))
      + length (filter (\<lambda>(_, bs). bs \<noteq> []) ?real) \<le> length (fp_fake pool) + length (fp_real pool)"
    by (intro add_mono order_trans [OF length_filter_le]) simp_all
  moreover have "length (snd x) \<le> 16" if mem: "x \<in> set (filter (\<lambda>(_, bs). bs \<noteq> []) ?real)" for x
  proof -
    obtain ip bs where x: "x = (ip, filter (binding_valid now epoch generation) bs)" "(ip, bs) \<in> set (fp_real pool)"
      using in_pruned [OF mem] by blast
    then have "length bs \<le> 16" using assms by (auto simp: pool_inv_def)
    then show ?thesis using order_trans [OF length_filter_le] by (simp add: x(1))
  qed
  ultimately show ?thesis
    using assms unfolding pool_inv_def pool_prune_def
    by (auto simp: distinct_map_filter_sub simp del: length_map)
qed

lemma pool_inv_fresh:
  assumes "pool_inv owner pool" "fp_next pool < 131071"
  shows "owner (fake_address (fp_next pool)) = None"
    and "hm_get (fp_fake pool) (fake_address (fp_next pool)) = None"
proof -
  have bound: "fp_next pool < 131072" using assms(2) by (simp add: word_less_nat_alt)
  have "fake_address (fp_next pool) \<noteq> fake_address n" if "n < fp_next pool" for n
    using fake_address_inject [OF bound, of n] order.strict_trans [OF that bound] that by auto
  then show "owner (fake_address (fp_next pool)) = None"
    using assms(1) unfolding pool_inv_def by (metis domIff)
  then show "hm_get (fp_fake pool) (fake_address (fp_next pool)) = None"
    using assms(1) by (force simp: pool_inv_def map_of_eq_None_iff)
qed

lemma in_update_cases:
  "x \<in> set (hm_insert k v m) \<Longrightarrow> hm_distinct m \<Longrightarrow> x = (k, v) \<or> (x \<in> set m \<and> fst x \<noteq> k)"
  using hm_mem_iff [OF hm_distinct_insert, of m "fst x" "snd x" k v] hm_mem_iff [of m "fst x" "snd x"]
  by (auto split: if_splits)

lemma map_update_same:
  "hm_get m k = Some w \<Longrightarrow> f v = f w \<Longrightarrow> map (f \<circ> snd) (hm_insert k v m) = map (f \<circ> snd) m"
  by (induction m) (auto split: if_splits)

lemma assign_refresh_inv:
  assumes "pool_inv owner pool" "hm_get (fp_fake pool) ip = Some b"
  shows "pool_inv owner (pool\<lparr>fp_fake := hm_insert ip (b\<lparr>bi_until := until\<rparr>) (fp_fake pool)\<rparr>)"
proof -
  have "owner (fst x) = Some (bi_host (snd x))" if "x \<in> set (hm_insert ip (b\<lparr>bi_until := until\<rparr>) (fp_fake pool))" for x
    using in_update_cases [OF that] assms hm_mem_iff [of "fp_fake pool" ip b] by (auto simp: pool_inv_def)
  then show ?thesis
    using assms map_update_same [of "fp_fake pool" ip b bi_host "b\<lparr>bi_until := until\<rparr>"]
    by (simp add: pool_inv_def length_hm_insert_present)
qed

lemma assign_new_inv:
  assumes inv: "pool_inv owner pool" and unused: "\<And>x. x \<in> set (fp_fake pool) \<Longrightarrow> bi_host (snd x) \<noteq> bi_host b"
    and room: "length (fp_fake pool) + length (fp_real pool) < fp_capacity pool" and below: "fp_next pool < 131071"
  shows "pool_inv (owner(fake_address (fp_next pool) \<mapsto> bi_host b))
    (pool\<lparr>fp_next := fp_next pool + 1, fp_fake := hm_insert (fake_address (fp_next pool)) b (fp_fake pool)\<rparr>)"
proof -
  note fresh = pool_inv_fresh [OF inv below]
  have u: "unat (fp_next pool + 1) = unat (fp_next pool) + 1"
    using below by (simp add: unat_word_ariths word_less_nat_alt)
  have step: "n < fp_next pool + 1 \<longleftrightarrow> n < fp_next pool \<or> n = fp_next pool" for n
    using u by (auto simp: word_less_nat_alt unat_inject [symmetric] simp del: unat_inject)
  have bound: "fp_next pool + 1 \<le> 131071" using below u by (simp add: word_less_nat_alt word_le_nat_alt)
  have "\<forall>x \<in> set (fp_fake pool). fst x \<noteq> fake_address (fp_next pool)"
    using fresh(2) by (metis image_eqI map_of_eq_None_iff)
  moreover have "bi_host b \<notin> (bi_host \<circ> snd) ` set (fp_fake pool)" using unused by force
  ultimately show ?thesis
    using inv room bound unfolding pool_inv_def
    by (auto simp: hm_insert_absent [OF fresh(2)] step)
qed

lemma pool_assign_inv:
  assumes "pool_inv owner pool" "pool_assign host epoch generation ttl now pool = (pool', r)"
  shows "\<exists>owner'. owner \<subseteq>\<^sub>m owner' \<and> pool_inv owner' pool' \<and> (\<forall>ip. r = Inr ip \<longrightarrow> owner' ip = Some host)"
proof -
  let ?p = "pool_prune now epoch generation pool"
  have inv: "pool_inv owner ?p" by (rule pool_prune_inv [OF assms(1)])
  show ?thesis
  proof (cases "find (\<lambda>(_, b). bi_host b = host) (fp_fake ?p)")
    case (Some x)
    obtain ip b where x: "x = (ip, b)" by (cases x)
    then have mem: "(ip, b) \<in> set (fp_fake ?p)" "bi_host b = host"
      using find_SomeD [OF Some] by simp_all
    have "hm_distinct (fp_fake ?p)" using inv by (simp only: pool_inv_def)
    with mem(1) have "hm_get (fp_fake ?p) ip = Some b" by (simp only: hm_mem_iff)
    moreover have "pool' = ?p\<lparr>fp_fake := hm_insert ip (b\<lparr>bi_until := now + ttl\<rparr>) (fp_fake ?p)\<rparr>" "r = Inr ip"
      using assms(2) by (simp_all add: pool_assign_def Let_def Some x)
    ultimately have "pool_inv owner pool'" "r = Inr ip"
      using assign_refresh_inv [OF inv] by simp_all
    moreover have "owner ip = Some host" using inv mem by (auto simp: pool_inv_def)
    ultimately show ?thesis by (intro exI [of _ owner]) auto
  next
    case None
    then have unused: "bi_host (snd x) \<noteq> host" if "x \<in> set (fp_fake ?p)" for x
      using that by (cases x) (auto simp: find_None_iff)
    show ?thesis
    proof (cases "length (fp_fake ?p) + length (fp_real ?p) \<ge> fp_capacity ?p \<or> fp_next ?p \<ge> 131071")
      case True
      with assms(2) None inv show ?thesis by (intro exI [of _ owner]) (auto simp: pool_assign_def Let_def)
    next
      case False
      let ?b = "\<lparr>bi_host = host, bi_epoch = epoch, bi_generation = generation, bi_until = now + ttl\<rparr>"
      have "owner \<subseteq>\<^sub>m owner(fake_address (fp_next ?p) \<mapsto> host)"
        using pool_inv_fresh(1) [OF inv] False by (auto simp: map_le_def not_le)
      moreover have "pool' = ?p\<lparr>fp_next := fp_next ?p + 1, fp_fake := hm_insert (fake_address (fp_next ?p)) ?b (fp_fake ?p)\<rparr>"
        "r = Inr (fake_address (fp_next ?p))"
        using assms(2) None False by (simp_all add: pool_assign_def Let_def del: prune_fields)
      moreover have "pool_inv (owner(fake_address (fp_next ?p) \<mapsto> bi_host ?b))
          (?p\<lparr>fp_next := fp_next ?p + 1, fp_fake := hm_insert (fake_address (fp_next ?p)) ?b (fp_fake ?p)\<rparr>)"
        by (rule assign_new_inv [OF inv]) (use unused False in \<open>auto simp: not_le\<close>)
      ultimately show ?thesis by (intro exI [of _ "owner(fake_address (fp_next ?p) \<mapsto> host)"]) auto
    qed
  qed
qed

lemma length_renew_host [simp]: "length (renew_host host until bs) = length bs"
  by (induction bs) auto

lemma set_real_inv:
  assumes "pool_inv owner pool" "length bs \<le> 16"
    and "hm_get (fp_real pool) ip = None \<Longrightarrow> length (fp_fake pool) + length (fp_real pool) < fp_capacity pool"
  shows "pool_inv owner (pool\<lparr>fp_real := hm_insert ip bs (fp_real pool)\<rparr>)"
proof -
  have "length (snd x) \<le> 16" if "x \<in> set (hm_insert ip bs (fp_real pool))" for x
    using in_update_cases [OF that] assms(1,2) by (auto simp: pool_inv_def)
  then show ?thesis
    using assms(1,3) by (cases "hm_get (fp_real pool) ip")
      (auto simp: pool_inv_def length_hm_insert length_hm_insert_present)
qed

lemma remember_real_inv:
  assumes "pool_inv owner pool"
  shows "pool_inv owner (fst (remember_real ip host epoch generation ttl now pool))"
proof -
  let ?p = "pool_prune now epoch generation pool"
  have inv: "pool_inv owner ?p" by (rule pool_prune_inv [OF assms])
  have "length bs \<le> 16" if "hm_get (fp_real ?p) ip = Some bs" for bs
    using that inv map_of_SomeD [OF that] by (auto simp: pool_inv_def)
  then show ?thesis using inv
    by (auto simp: remember_real_def Let_def not_le split: option.splits intro!: set_real_inv simp del: prune_fields)
qed

lemma pool_call_inv:
  assumes "pool_inv owner pool" "pool_call op pool = (pool', told)"
  shows "\<exists>owner'. owner \<subseteq>\<^sub>m owner' \<and> pool_inv owner' pool' \<and> (\<forall>ip h. told = Some (ip, h) \<longrightarrow> owner' ip = Some h)"
proof (cases op)
  case (OpAssign host epoch generation ttl now)
  obtain r where "pool_assign host epoch generation ttl now pool = (pool', r)"
    and "told = (case r of Inl _ \<Rightarrow> None | Inr ip \<Rightarrow> Some (ip, host))"
    using assms(2) OpAssign by (auto split: prod.splits sum.splits)
  then show ?thesis using pool_assign_inv [OF assms(1)] by (fastforce split: sum.splits)
next
  case (OpLookup ip epoch generation now)
  let ?p = "pool_prune now epoch generation pool"
  have inv: "pool_inv owner ?p" by (rule pool_prune_inv [OF assms(1)])
  have "owner ip = Some h" if "told = Some (ip, h)" for h
    using that assms(2) OpLookup inv by (auto simp: pool_lookup_def Let_def pool_inv_def dest!: map_of_SomeD)
  then show ?thesis using assms(2) OpLookup inv by (intro exI [of _ owner]) (auto simp: pool_lookup_def Let_def)
next
  case (OpRemember ip host epoch generation ttl now)
  with assms remember_real_inv show ?thesis by (intro exI [of _ owner]) auto
next
  case (OpRealHosts ip epoch generation now)
  with assms pool_prune_inv show ?thesis by (intro exI [of _ owner]) (auto simp: real_hosts_def Let_def)
qed

lemma pool_run_inv:
  "pool_inv owner pool \<Longrightarrow> pool_run ops pool = (pool', told) \<Longrightarrow>
     \<exists>owner'. owner \<subseteq>\<^sub>m owner' \<and> pool_inv owner' pool' \<and> (\<forall>(ip, h) \<in> set told. owner' ip = Some h)"
proof (induction ops arbitrary: owner pool told)
  case (Cons op ops)
  obtain pool1 t rest where c: "pool_call op pool = (pool1, t)" "pool_run ops pool1 = (pool', rest)"
    and told: "told = (case t of None \<Rightarrow> rest | Some p \<Rightarrow> p # rest)"
    using Cons.prems(2) by (auto simp: Let_def split: prod.splits)
  obtain owner1 where o1: "owner \<subseteq>\<^sub>m owner1" "pool_inv owner1 pool1" "\<And>ip h. t = Some (ip, h) \<Longrightarrow> owner1 ip = Some h"
    using pool_call_inv [OF Cons.prems(1) c(1)] by blast
  obtain owner2 where o2: "owner1 \<subseteq>\<^sub>m owner2" "pool_inv owner2 pool'" "\<forall>(ip, h) \<in> set rest. owner2 ip = Some h"
    using Cons.IH [OF o1(2) c(2)] by blast
  have "owner2 ip = Some h" if "t = Some (ip, h)" for ip h
    using o1(3) [OF that] o2(1) by (auto simp: map_le_def dom_def)
  then have "\<forall>(ip, h) \<in> set told. owner2 ip = Some h" using o2(3) by (auto simp: told split: option.splits)
  with o1(1) o2(1,2) show ?case using map_le_trans by blast
qed (auto intro: map_le_refl)

lemma pool_call_capacity: "fp_capacity (fst (pool_call op pool)) = fp_capacity pool"
  by (cases op) (auto simp: pool_assign_def pool_lookup_def remember_real_def real_hosts_def Let_def
      split: option.splits sum.splits prod.splits)

lemma pool_run_capacity: "fp_capacity (fst (pool_run ops pool)) = fp_capacity pool"
proof (induction ops arbitrary: pool)
  case (Cons op ops)
  then show ?case using pool_call_capacity [of op pool] by (auto simp: Let_def split: prod.splits) (metis fst_conv)
qed simp

lemma hm_get_filter:
  "hm_distinct m \<Longrightarrow> hm_get (filter (\<lambda>(_, b). P b) m) k =
     (case hm_get m k of None \<Rightarrow> None | Some b \<Rightarrow> if P b then Some b else None)"
proof (induction m)
  case (Cons x m)
  then have "hm_get m (fst x) = None" by (simp add: map_of_eq_None_iff)
  with Cons show ?case by (cases x) (auto split: option.splits)
qed simp

lemma pool_assign_binding:
  assumes "pool_inv owner pool" "pool_assign host epoch generation ttl now pool = (pool', Inr ip)"
  shows "\<exists>b. hm_get (fp_fake pool') ip = Some b \<and> bi_host b = host \<and> bi_epoch b = epoch
    \<and> bi_generation b = generation \<and> bi_until b = now + ttl"
proof -
  let ?p = "pool_prune now epoch generation pool"
  show ?thesis
  proof (cases "find (\<lambda>(_, b). bi_host b = host) (fp_fake ?p)")
    case (Some x)
    obtain k b where x: "x = (k, b)" by (cases x)
    then have "(k, b) \<in> set (fp_fake ?p)" "bi_host b = host" using find_SomeD [OF Some] by simp_all
    then have "bi_epoch b = epoch" "bi_generation b = generation" "bi_host b = host"
      by (auto simp: pool_prune_def binding_valid_def)
    then show ?thesis using assms(2) by (auto simp: pool_assign_def Let_def Some x)
  next
    case None
    then show ?thesis using assms(2) by (auto simp: pool_assign_def Let_def split: if_splits)
  qed
qed

lemma owner_fake:
  assumes "pool_inv owner pool" "owner ip = Some h"
  shows "is_fake ip"
proof -
  have "\<forall>ip \<in> dom owner. \<exists>n < fp_next pool. ip = fake_address n" and le: "fp_next pool \<le> 131071"
    using assms(1) unfolding pool_inv_def by blast+
  moreover have "ip \<in> dom owner" using assms(2) by (rule domI)
  ultimately obtain n where n: "n < fp_next pool" "ip = fake_address n" by blast
  then have "n < 131072" using le by (simp add: word_less_nat_alt word_le_nat_alt)
  then show ?thesis using n(2) by (simp add: is_fake_address)
qed

section \<open>Properties\<close>

text \<open>
  C17: Whatever sequence of calls a pool serves, under any clock readings and policy epochs, an
  address it has told a caller for one name is never told for another, neither by a later
  assignment nor by a lookup, and it lies in 198.18.0.0/15. The pool never holds more entries than
  its capacity, nor more than sixteen names for one real address.
\<close>

theorem fake_addresses_never_reassigned:
  assumes "pool_run ops (pool_new capacity) = (pool, told)"
  shows "(\<forall>ip h1 h2. (ip, h1) \<in> set told \<and> (ip, h2) \<in> set told \<longrightarrow> h1 = h2 \<and> is_fake ip)
    \<and> length (fp_fake pool) + length (fp_real pool) \<le> capacity
    \<and> (\<forall>x \<in> set (fp_real pool). length (snd x) \<le> 16)"
proof -
  obtain owner where inv: "pool_inv owner pool" and owner: "\<forall>(ip, h) \<in> set told. owner ip = Some h"
    using pool_run_inv [OF pool_new_inv assms] by blast
  note fake = owner_fake [OF inv]
  have "h1 = h2 \<and> is_fake ip" if "(ip, h1) \<in> set told" "(ip, h2) \<in> set told" for ip h1 h2
  proof -
    have "owner ip = Some h1" "owner ip = Some h2" using that owner by auto
    then show ?thesis using fake by simp
  qed
  moreover have "fp_capacity pool = capacity" using pool_run_capacity [of ops "pool_new capacity"] assms
    by (simp add: pool_new_def)
  ultimately show ?thesis using inv by (auto simp: pool_inv_def)
qed

definition sample_ops :: "pool_op list" where
  "sample_ops = [OpAssign ''a.edu'' 1 1 60 0, OpLookup (Ipv4 198 18 0 1) 1 1 5]"

lemma sample_pool_run:
  "\<exists>pool. pool_run sample_ops (pool_new 4) = (pool, [(Ipv4 198 18 0 1, ''a.edu''), (Ipv4 198 18 0 1, ''a.edu'')])"
  by (simp add: sample_ops_def pool_new_def pool_assign_def pool_lookup_def pool_prune_def binding_valid_def Let_def
      fake_address_def FAKE_BASE_def ipv4_u32_def ipv4_from_u32_def ipv4_of_num_def word_le_nat_alt)

theorem fake_addresses_never_reassigned_witness: "is_fake (Ipv4 198 18 0 1)"
proof -
  obtain pool where "pool_run sample_ops (pool_new 4) = (pool, [(Ipv4 198 18 0 1, ''a.edu''), (Ipv4 198 18 0 1, ''a.edu'')])"
    using sample_pool_run by blast
  from fake_addresses_never_reassigned [OF this] show ?thesis by simp
qed

text \<open>
  After a successful assignment the address answers for its name exactly until its lifetime
  ends and only under the epoch and resource generation it was assigned for: a policy change or
  expiry revokes the name.
\<close>

theorem assigned_name_until_revoked:
  assumes "pool_run ops (pool_new capacity) = (pool, told)"
    and "pool_assign host epoch generation ttl now pool = (pool', Inr ip)"
  shows "snd (pool_lookup ip e g t pool') =
    (if e = epoch \<and> g = generation \<and> t < now + ttl then Some host else None)"
proof -
  obtain owner where inv: "pool_inv owner pool" using pool_run_inv [OF pool_new_inv assms(1)] by blast
  then obtain owner' where "pool_inv owner' pool'" using pool_assign_inv [OF inv assms(2)] by blast
  then have d: "hm_distinct (fp_fake pool')" by (simp add: pool_inv_def)
  obtain b where "hm_get (fp_fake pool') ip = Some b" "bi_host b = host" "bi_epoch b = epoch"
    "bi_generation b = generation" "bi_until b = now + ttl"
    using pool_assign_binding [OF inv assms(2)] by blast
  then show ?thesis
    by (auto simp: pool_lookup_def pool_prune_def hm_get_filter [OF d] binding_valid_def Let_def)
qed

theorem assigned_name_until_revoked_witness:
  "\<exists>pool'. snd (pool_lookup (Ipv4 198 18 0 1) 1 1 59 pool') = Some ''a.edu''
     \<and> snd (pool_lookup (Ipv4 198 18 0 1) 1 1 60 pool') = None"
proof -
  obtain pool' where "pool_assign ''a.edu'' 1 1 60 0 (pool_new 4) = (pool', Inr (Ipv4 198 18 0 1))"
    by (simp add: pool_new_def pool_assign_def pool_prune_def Let_def fake_address_def FAKE_BASE_def
        ipv4_u32_def ipv4_from_u32_def ipv4_of_num_def word_le_nat_alt)
  moreover have "pool_run [] (pool_new 4) = (pool_new 4, [])" by simp
  ultimately have "snd (pool_lookup (Ipv4 198 18 0 1) e g t pool') =
      (if e = 1 \<and> g = 1 \<and> t < 0 + 60 then Some ''a.edu'' else None)" for e g t
    using assigned_name_until_revoked by blast
  then show ?thesis by (intro exI [of _ pool']) simp
qed

end
