(* ===== verification/Dns_Wire.thy ===== *)
theory Dns_Wire
  imports Strings
begin

text \<open>
  \<open>crates/atrust-net/src/dns_wire.rs\<close>: DNS queries and responses on the wire. A function that can
  only fail as an invalid message returns an option; the others return a \<open>dns_error\<close>. The
  loop that follows compression pointers runs at most 64 times, and that count is the fuel of
  its model.
\<close>

unbundle bit_operations_syntax

section \<open>Names\<close>

datatype dns_error = DnsInvalid | DnsHostname | DnsRejected | DnsNoAnswer

datatype dns_answer = DnsTruncated | Addresses "ipv4 list" nat

definition dns_word :: "bytes \<Rightarrow> nat \<Rightarrow> u16 option" where
  "dns_word bs offset =
     (if offset + 2 \<le> length bs then Some (u16_from_be (bs ! offset) (bs ! (offset + 1))) else None)"

definition host_char :: "char \<Rightarrow> bool" where
  "host_char c =
     (let n = (of_char c :: nat) in
      48 \<le> n \<and> n \<le> 57 \<or> 65 \<le> n \<and> n \<le> 90 \<or> 97 \<le> n \<and> n \<le> 122 \<or> c = CHR ''-'' \<or> c = CHR ''_'')"

definition dns_normalize :: "string \<Rightarrow> dns_error + string" where
  "dns_normalize h =
     (let host = to_ascii_lowercase (trim_end_char CHR ''.'' h) in
      if length host > 253 \<or> host = []
         \<or> list_ex (\<lambda>l. l = [] \<or> length l > 63 \<or> \<not> list_all host_char l) (split_on CHR ''.'' host)
      then Inl DnsHostname else Inr host)"

definition encode_labels :: "string list \<Rightarrow> bytes" where
  "encode_labels ls = concat (map (\<lambda>l. word_of_nat (length l) # as_bytes l) ls)"

definition dns_query :: "string \<Rightarrow> u16 \<Rightarrow> dns_error + bytes" where
  "dns_query h qid =
     (case dns_normalize h of
        Inl e \<Rightarrow> Inl e
      | Inr host \<Rightarrow> Inr (u16_to_be qid @ [1, 0, 0, 1, 0, 0, 0, 0, 0, 0]
          @ encode_labels (split_on CHR ''.'' host) @ [0, 0, 1, 0, 1]))"

text \<open>\<open>str::from_utf8\<close>: \<open>None\<close> when the bytes are not valid UTF-8.\<close>

function utf8_valid :: "bytes \<Rightarrow> bool" where
  "utf8_valid [] = True"
| "utf8_valid (b # bs) =
     (if unat b < 0x80 then utf8_valid bs
      else 0 < utf8_extra b \<and> utf8_run b bs = utf8_extra b \<and> utf8_valid (drop (utf8_extra b) bs))"
  by pat_completeness auto
termination
  by (relation "measure length") auto

definition from_utf8 :: "bytes \<Rightarrow> string option" where
  "from_utf8 bs = (if utf8_valid bs then Some (map (\<lambda>b. char_of (unat b)) bs) else None)"

fun join_dots :: "string list \<Rightarrow> string" where
  "join_dots [] = []"
| "join_dots [l] = l"
| "join_dots (l # ls) = l @ CHR ''.'' # join_dots ls"

fun name_loop :: "nat \<Rightarrow> bytes \<Rightarrow> nat \<Rightarrow> bool \<Rightarrow> nat \<Rightarrow> string list \<Rightarrow> (string \<times> nat) option" where
  "name_loop 0 bs cursor jumped offset labels = None"
| "name_loop (Suc k) bs cursor jumped offset labels =
     (if length bs \<le> cursor then None
      else let len = bs ! cursor in
        if len AND 0xc0 = 0xc0 then
          (case dns_word bs cursor of
             None \<Rightarrow> None
           | Some w \<Rightarrow>
               (let pointer = unat (w AND 0x3fff) in
                if pointer \<ge> cursor then None
                else name_loop k bs pointer True (if jumped then offset else cursor + 2) labels))
        else if len = 0 then
          (let val = join_dots labels in
           if length val > 253 then None
           else Some (val, if jumped then offset else cursor + 1))
        else if len > 63 then None
        else if cursor + 1 + unat len \<le> length bs then
          (case from_utf8 (slice bs (cursor + 1) (cursor + 1 + unat len)) of
             None \<Rightarrow> None
           | Some l \<Rightarrow> name_loop k bs (cursor + 1 + unat len) jumped offset (labels @ [to_ascii_lowercase l]))
        else None)"

text \<open>The name at an offset, with the offset behind it.\<close>

definition dns_name :: "bytes \<Rightarrow> nat \<Rightarrow> (string \<times> nat) option" where
  "dns_name bs offset = name_loop 64 bs offset False offset []"

section \<open>Questions and replies\<close>

definition word_bits :: "bytes \<Rightarrow> nat \<Rightarrow> u16 \<Rightarrow> u16 \<Rightarrow> bool" where
  "word_bits bs offset m v = (case dns_word bs offset of None \<Rightarrow> False | Some w \<Rightarrow> w AND m = v)"

definition dns_question :: "bytes \<Rightarrow> dns_error + string \<times> u16 \<times> nat" where
  "dns_question request =
     (if length request < 12 \<or> length request > 4096 \<or> \<not> word_bits request 2 0xf800 0
         \<or> dns_word request 4 \<noteq> Some 1 \<or> dns_word request 6 \<noteq> Some 0 \<or> dns_word request 8 \<noteq> Some 0
      then Inl DnsInvalid
      else case dns_name request 12 of
        None \<Rightarrow> Inl DnsInvalid
      | Some (n, end_of_name) \<Rightarrow>
          (case dns_normalize n of
             Inl e \<Rightarrow> Inl e
           | Inr host \<Rightarrow>
               (case dns_word request end_of_name of
                  None \<Rightarrow> Inl DnsInvalid
                | Some kind \<Rightarrow>
                    if dns_word request (end_of_name + 2) \<noteq> Some 1 then Inl DnsInvalid
                    else Inr (host, kind, end_of_name + 4))))"

definition u32_to_be :: "nat \<Rightarrow> bytes" where
  "u32_to_be n = u16_to_be (word_of_nat (n div 65536)) @ u16_to_be (word_of_nat (n mod 65536))"

text \<open>\<open>None\<close> where the slice or the index panics; the lifetime is in seconds.\<close>

definition dns_reply :: "bytes \<Rightarrow> nat \<Rightarrow> ipv4 option \<Rightarrow> nat \<Rightarrow> byte \<Rightarrow> bytes option" where
  "dns_reply request question_end ip ttl rcode =
     (if question_end > length request \<or> question_end < 12 then None
      else Some (((take question_end request)[2 := 0x80 OR (request ! 2 AND 1), 3 := 0x80 OR rcode,
               6 := 0, 7 := (if ip = None then 0 else 1), 8 := 0, 9 := 0, 10 := 0, 11 := 0])
             @ (case ip of
                  None \<Rightarrow> []
                | Some a \<Rightarrow> [0xc0, 12, 0, 1, 0, 1] @ u32_to_be (min ttl 4294967295) @ [0, 4] @ octets a)))"

section \<open>Responses\<close>

record dns_records =
  rec_aliases :: "(string, string \<times> nat) hmap"
  rec_addresses :: "(string, (ipv4 \<times> nat) list) hmap"

definition add_address :: "string \<Rightarrow> ipv4 \<times> nat \<Rightarrow> dns_records \<Rightarrow> dns_records" where
  "add_address owner v recs =
     recs\<lparr>rec_addresses := hm_insert owner
       ((case hm_get (rec_addresses recs) owner of None \<Rightarrow> [] | Some vs \<Rightarrow> vs) @ [v]) (rec_addresses recs)\<rparr>"

text \<open>What one record adds: an address, an alias, nothing, or an error.\<close>

definition record_data ::
  "bytes \<Rightarrow> bool \<Rightarrow> string \<Rightarrow> u16 \<Rightarrow> u16 \<Rightarrow> nat \<Rightarrow> nat \<Rightarrow> nat \<Rightarrow> dns_records \<Rightarrow> dns_records option" where
  "record_data bs is_answer owner kind cls ttl cursor len recs =
     (if is_answer \<and> cls = 1 then
        if kind = 1 \<and> len = 4 then
          Some (add_address owner (Ipv4 (bs ! cursor) (bs ! (cursor + 1)) (bs ! (cursor + 2)) (bs ! (cursor + 3)), ttl) recs)
        else if kind = 5 then
          (case dns_name bs cursor of
             None \<Rightarrow> None
           | Some (alias, end_of_name) \<Rightarrow>
               if end_of_name \<noteq> cursor + len then None
               else (case hm_get (rec_aliases recs) owner of
                   Some (previous, _) \<Rightarrow>
                     if previous \<noteq> alias then None
                     else Some (recs\<lparr>rec_aliases := hm_insert owner (alias, ttl) (rec_aliases recs)\<rparr>)
                 | None \<Rightarrow> Some (recs\<lparr>rec_aliases := hm_insert owner (alias, ttl) (rec_aliases recs)\<rparr>)))
        else Some recs
      else Some recs)"

fun read_records :: "nat \<Rightarrow> nat \<Rightarrow> nat \<Rightarrow> bytes \<Rightarrow> nat \<Rightarrow> dns_records \<Rightarrow> dns_records option" where
  "read_records 0 index answers bs cursor recs = Some recs"
| "read_records (Suc n) index answers bs cursor0 recs =
     (case dns_name bs cursor0 of
        None \<Rightarrow> None
      | Some (owner, cursor) \<Rightarrow>
          (case (dns_word bs cursor, dns_word bs (cursor + 2), dns_word bs (cursor + 4),
                 dns_word bs (cursor + 6), dns_word bs (cursor + 8)) of
             (Some kind, Some cls, Some hi, Some lo, Some l) \<Rightarrow>
               (let ttl = unat hi * 65536 + unat lo; len = unat l; start = cursor + 10 in
                if start + len > length bs then None
                else case record_data bs (index < answers) owner kind cls ttl start len recs of
                  None \<Rightarrow> None
                | Some recs' \<Rightarrow> read_records n (index + 1) answers bs (start + len) recs')
           | _ \<Rightarrow> None))"

definition push_new :: "'a \<Rightarrow> 'a list \<Rightarrow> 'a list" where
  "push_new x xs = (if x \<in> set xs then xs else xs @ [x])"

fun follow_aliases :: "nat \<Rightarrow> dns_records \<Rightarrow> string \<Rightarrow> nat \<Rightarrow> string list \<Rightarrow> dns_error + dns_answer" where
  "follow_aliases 0 recs owner ttl seen = Inl DnsNoAnswer"
| "follow_aliases (Suc k) recs owner ttl seen =
     (if owner \<in> set seen then Inl DnsInvalid
      else case hm_get (rec_addresses recs) owner of
        Some vs \<Rightarrow> Inr (Addresses (fold (\<lambda>v ips. push_new (fst v) ips) vs []) (fold (\<lambda>v t. min t (snd v)) vs ttl))
      | None \<Rightarrow>
          (case hm_get (rec_aliases recs) owner of
             None \<Rightarrow> Inl DnsNoAnswer
           | Some (alias, lifetime) \<Rightarrow> follow_aliases k recs alias (min ttl lifetime) (owner # seen)))"

definition dns_parse :: "bytes \<Rightarrow> string \<Rightarrow> u16 \<Rightarrow> dns_error + dns_answer" where
  "dns_parse bs host qid =
     (if length bs < 12 \<or> dns_word bs 0 \<noteq> Some qid \<or> \<not> word_bits bs 2 0xf800 0x8000 \<or> dns_word bs 4 \<noteq> Some 1
      then Inl DnsInvalid
      else case dns_name bs 12 of
        None \<Rightarrow> Inl DnsInvalid
      | Some (n, cursor) \<Rightarrow>
          if n \<noteq> host \<or> dns_word bs cursor \<noteq> Some 1 \<or> dns_word bs (cursor + 2) \<noteq> Some 1 then Inl DnsInvalid
          else if \<not> word_bits bs 2 0x200 0 then Inr DnsTruncated
          else if \<not> word_bits bs 2 15 0 then Inl DnsRejected
          else case (dns_word bs 6, dns_word bs 8, dns_word bs 10) of
            (Some an, Some ns, Some ar) \<Rightarrow>
              (let count = unat an + unat ns + unat ar in
               if count > 512 then Inl DnsInvalid
               else case read_records count 0 (unat an) bs (cursor + 4) \<lparr>rec_aliases = [], rec_addresses = []\<rparr> of
                 None \<Rightarrow> Inl DnsInvalid
               | Some recs \<Rightarrow> follow_aliases 16 recs host 4294967295 [])
          | _ \<Rightarrow> Inl DnsInvalid)"

section \<open>Reading back labels\<close>

lemma small_not_pointer: "unat (b :: byte) < 64 \<Longrightarrow> b AND 0xc0 \<noteq> 0xc0"
proof
  assume "unat b < 64" "b AND 0xc0 = 0xc0"
  moreover have "b AND 0xc0 \<le> b" by (rule word_and_le2)
  ultimately show False by (simp add: word_le_nat_alt)
qed

definition label_ok :: "string \<Rightarrow> bool" where
  "label_ok l = (l \<noteq> [] \<and> length l \<le> 63 \<and> list_all host_char l \<and> to_ascii_lowercase l = l)"

lemma utf8_valid_ascii: "list_all (\<lambda>b. unat b < 128) bs \<Longrightarrow> utf8_valid bs"
  by (induction bs) simp_all

lemma host_char_ascii: "host_char c \<Longrightarrow> (of_char c :: nat) < 128"
  by (auto simp: host_char_def Let_def)

lemma from_utf8_label: "list_all host_char l \<Longrightarrow> from_utf8 (as_bytes l) = Some l"
proof -
  assume l: "list_all host_char l"
  have "list_all (\<lambda>b. unat b < 128) (as_bytes l)"
    using l host_char_ascii by (auto simp: as_bytes_def list_all_iff)
  moreover have "map (\<lambda>b. char_of (unat b)) (as_bytes l) = l"
    by (auto simp: as_bytes_def intro: map_idI)
  ultimately show ?thesis by (simp add: from_utf8_def utf8_valid_ascii)
qed

lemma encode_labels_Cons: "encode_labels (l # ls) = word_of_nat (length l) # as_bytes l @ encode_labels ls"
  by (simp add: encode_labels_def)

lemma name_loop_label:
  assumes "label_ok l"
  shows "name_loop (Suc k) (pre @ encode_labels (l # ls) @ post) (length pre) jumped offset labels =
    name_loop k ((pre @ word_of_nat (length l) # as_bytes l) @ encode_labels ls @ post)
      (length (pre @ word_of_nat (length l) # as_bytes l)) jumped offset (labels @ [l])"
proof -
  let ?bs = "pre @ encode_labels (l # ls) @ post"
  have l: "l \<noteq> []" "length l \<le> 63" "list_all host_char l" "to_ascii_lowercase l = l"
    using assms by (simp_all add: label_ok_def)
  have len: "?bs ! length pre = word_of_nat (length l)" "unat (word_of_nat (length l) :: byte) = length l"
    using l(2) by (simp_all add: encode_labels_Cons nth_append)
  then have small: "(word_of_nat (length l) :: byte) AND 0xc0 \<noteq> 0xc0" "(word_of_nat (length l) :: byte) \<noteq> 0"
    "\<not> (word_of_nat (length l) :: byte) > 63"
    using l(1,2) small_not_pointer by (auto simp: word_less_nat_alt unat_eq_0 [symmetric] simp del: unat_eq_0)
  have slice: "slice ?bs (length pre + 1) (length pre + 1 + length l) = as_bytes l"
    using slice_middle [of "pre @ [word_of_nat (length l)]" "as_bytes l" "encode_labels ls @ post"]
    by (simp add: encode_labels_Cons)
  show ?thesis
    using len small l(3,4) slice by (simp add: from_utf8_label Let_def) (simp add: encode_labels_Cons)
qed

lemma name_loop_labels:
  "list_all label_ok ls \<Longrightarrow> length ls < k \<Longrightarrow> length (join_dots (labels @ ls)) \<le> 253 \<Longrightarrow>
   name_loop k (pre @ encode_labels ls @ 0 # post) (length pre) jumped offset labels =
     Some (join_dots (labels @ ls), if jumped then offset else length pre + length (encode_labels ls) + 1)"
proof (induction ls arbitrary: k pre labels)
  case Nil
  then show ?case by (cases k) (simp_all add: encode_labels_def)
next
  case (Cons l ls)
  then obtain m where k: "k = Suc m" "length ls < m" by (cases k) auto
  have l: "label_ok l" and ls: "list_all label_ok ls" and len: "length (join_dots ((labels @ [l]) @ ls)) \<le> 253"
    using Cons.prems by simp_all
  show ?case
    unfolding k(1) name_loop_label [OF l] Cons.IH [OF ls k(2) len] by (simp add: encode_labels_Cons)
qed

lemma name_loop_too_many:
  "list_all label_ok ls \<Longrightarrow> k \<le> length ls \<Longrightarrow>
   name_loop k (pre @ encode_labels ls @ post) (length pre) jumped offset labels = None"
proof (induction ls arbitrary: k pre labels)
  case (Cons l ls)
  then have l: "label_ok l" and ls: "list_all label_ok ls" by simp_all
  show ?case
  proof (cases k)
    case (Suc m)
    then have "m \<le> length ls" using Cons.prems(2) by simp
    then show ?thesis unfolding Suc name_loop_label [OF l] by (rule Cons.IH [OF ls])
  qed simp
qed simp

section \<open>Normal names\<close>

lemma split_on_nonempty: "split_on c s \<noteq> []"
  by (induction s) (auto split: list.splits)

lemma join_split: "join_dots (split_on CHR ''.'' s) = s"
proof (induction s)
  case (Cons x s)
  have "split_on CHR ''.'' s \<noteq> []" by (rule split_on_nonempty)
  with Cons show ?case by (cases "split_on CHR ''.'' s"; cases "tl (split_on CHR ''.'' s)") auto
qed simp

lemma split_on_sub: "l \<in> set (split_on c s) \<Longrightarrow> set l \<subseteq> set s"
proof (induction s arbitrary: l)
  case (Cons x s)
  then show ?case by (auto split: if_splits list.splits) blast+
qed simp

lemma split_on_last: "split_on c (s @ [c]) = split_on c s @ [[]]"
proof (induction s)
  case (Cons x s)
  then show ?case using split_on_nonempty [of c s] by (cases "split_on c s") auto
qed simp

lemma split_on_trailing: "[] \<in> set (split_on c (s @ [c]))"
  by (simp add: split_on_last)

lemma lowercase_id_iff: "to_ascii_lowercase s = s \<longleftrightarrow> (\<forall>c \<in> set s. ascii_lower c = c)"
  by (simp add: to_ascii_lowercase_def list_eq_iff_nth_eq all_set_conv_all_nth)

lemma normalized:
  assumes "dns_normalize h = Inr host"
  shows "list_all label_ok (split_on CHR ''.'' host)" "length host \<le> 253" "host \<noteq> []"
    and "to_ascii_lowercase host = host" "dns_normalize host = Inr host"
proof -
  have host: "host = to_ascii_lowercase (trim_end_char CHR ''.'' h)" and len: "length host \<le> 253" "host \<noteq> []"
    and labels: "\<forall>l \<in> set (split_on CHR ''.'' host). l \<noteq> [] \<and> length l \<le> 63 \<and> list_all host_char l"
    using assms by (auto simp: dns_normalize_def Let_def list_ex_iff not_less split: if_splits)
  show low: "to_ascii_lowercase host = host" by (simp add: host)
  then have "to_ascii_lowercase l = l" if "l \<in> set (split_on CHR ''.'' host)" for l
    using split_on_sub [OF that] by (auto simp: lowercase_id_iff)
  with labels show "list_all label_ok (split_on CHR ''.'' host)" by (auto simp: list_all_iff label_ok_def)
  have "last host \<noteq> CHR ''.''"
  proof
    assume "last host = CHR ''.''"
    then have "host = butlast host @ [CHR ''.'']" using len(2) by (metis append_butlast_last_id)
    then have "[] \<in> set (split_on CHR ''.'' host)" by (metis split_on_trailing)
    with labels show False by blast
  qed
  then have "trim_end_char CHR ''.'' host = host" by (simp add: trim_end_char_id)
  then show "dns_normalize host = Inr host" using low len labels by (auto simp: dns_normalize_def list_ex_iff not_less)
qed (use assms in \<open>auto simp: dns_normalize_def Let_def split: if_splits\<close>)

section \<open>An exchange\<close>

lemma dns_word_at: "dns_word (pre @ a # b # post) (length pre) = Some (u16_from_be a b)"
  by (simp add: dns_word_def nth_append)

lemma dns_word_behind: "n = length pre \<Longrightarrow> dns_word (pre @ a # b # post) n = Some (u16_from_be a b)"
  by (simp add: dns_word_at)

lemma length_encode_labels: "ls \<noteq> [] \<Longrightarrow> length (encode_labels ls) = length (join_dots ls) + 1"
  by (induction ls rule: join_dots.induct) (simp_all add: encode_labels_def)

text \<open>A message with a header and the question of a name.\<close>

definition message :: "bytes \<Rightarrow> string \<Rightarrow> bytes \<Rightarrow> bytes" where
  "message header host rest = header @ encode_labels (split_on CHR ''.'' host) @ 0 # rest"

lemma message_name:
  assumes "dns_normalize h = Inr host" "length (split_on CHR ''.'' host) < k" "length header = 12"
  shows "name_loop k (message header host rest) 12 jumped offset [] =
    Some (host, if jumped then offset else 14 + length host)"
proof -
  note n = normalized [OF assms(1)]
  have "length (encode_labels (split_on CHR ''.'' host)) = length host + 1"
    by (simp add: length_encode_labels split_on_nonempty join_split)
  then show ?thesis
    using name_loop_labels [OF n(1) assms(2), of "[]" header rest jumped offset] assms(3) n(2)
    by (simp add: message_def join_split)
qed

lemma message_split:
  "length header = 12 \<Longrightarrow> message header host (a @ rest) =
     (header @ encode_labels (split_on CHR ''.'' host) @ 0 # a) @ rest"
  "length header = 12 \<Longrightarrow>
     length (header @ encode_labels (split_on CHR ''.'' host) @ 0 # a) = 14 + length host + length a"
  by (simp_all add: message_def length_encode_labels split_on_nonempty join_split)

lemma message_word:
  assumes "length header = 12" "n = 14 + length host + length a"
  shows "dns_word (message header host (a @ x # y # rest)) n = Some (u16_from_be x y)"
  unfolding message_split(1) [OF assms(1)] using message_split(2) [OF assms(1)] assms(2) by (intro dns_word_behind) simp

lemma header_word:
  assumes "length header = 12" "n + 1 < 12"
  shows "dns_word (message header host rest) n = Some (u16_from_be (header ! n) (header ! (n + 1)))"
  using assms by (simp add: dns_word_def message_def nth_append)

lemma length_message: "length header = 12 \<Longrightarrow> length (message header host rest) = 14 + length host + length rest"
  using message_split(2) [of header host rest] by (simp add: message_def)

definition query_header :: "u16 \<Rightarrow> bytes" where
  "query_header qid = u16_to_be qid @ [1, 0, 0, 1, 0, 0, 0, 0, 0, 0]"

definition reply_header :: "u16 \<Rightarrow> byte \<Rightarrow> byte \<Rightarrow> bytes" where
  "reply_header qid rcode n = u16_to_be qid @ [0x81, 0x80 OR rcode, 0, 1, 0, n, 0, 0, 0, 0]"

lemma dns_query_message: "dns_normalize h = Inr host \<Longrightarrow> dns_query h qid = Inr (message (query_header qid) host [0, 1, 0, 1])"
  by (simp add: dns_query_def message_def query_header_def)

lemma dns_question_query:
  assumes "dns_normalize h = Inr host" "length (split_on CHR ''.'' host) < 64"
  shows "dns_question (message (query_header qid) host [0, 1, 0, 1]) = Inr (host, 1, 18 + length host)"
proof -
  have len: "length (query_header qid) = 12" by (simp add: query_header_def)
  note n = normalized [OF assms(1)]
  have name: "dns_name (message (query_header qid) host [0, 1, 0, 1]) 12 = Some (host, 14 + length host)"
    unfolding dns_name_def using message_name [OF assms len] by simp
  have w: "dns_word (message (query_header qid) host [0, 1, 0, 1]) (14 + length host) = Some 1"
    "dns_word (message (query_header qid) host [0, 1, 0, 1]) (14 + length host + 2) = Some 1"
    using message_word [OF len, of "14 + length host" host "[]" 0 1 "[0, 1]"]
      message_word [OF len, of "14 + length host + 2" host "[0, 1]" 0 1 "[]"] by (simp_all add: u16_from_be_def)
  show ?thesis
    unfolding dns_question_def using n(2,5) name w
    by (simp add: length_message len header_word word_bits_def)
       (simp add: query_header_def u16_to_be_def u16_from_be_def)
qed

definition answer_record :: "ipv4 \<Rightarrow> nat \<Rightarrow> bytes" where
  "answer_record ip ttl = [0xc0, 12, 0, 1, 0, 1] @ u32_to_be ttl @ [0, 4] @ octets ip"

lemma message_update: "length header = 12 \<Longrightarrow> i < 12 \<Longrightarrow> (message header host rest)[i := v] = message (header[i := v]) host rest"
  by (simp add: message_def list_update_append1)

lemma u16_to_be_cases: obtains a b where "u16_to_be w = [a, b]" "u16_from_be a b = w"
  using u16_from_to_be [of w] by (auto simp: u16_to_be_def)

lemma query_header_update:
  "(query_header qid)[2 := 0x80 OR (1 AND 1), 3 := 0x80 OR rcode, 6 := 0, 7 := n, 8 := 0, 9 := 0, 10 := 0, 11 := 0]
     = reply_header qid rcode n"
proof -
  obtain a b where "u16_to_be qid = [a, b]" using u16_to_be_cases by blast
  then show ?thesis by (simp add: query_header_def reply_header_def eval_nat_numeral)
qed

lemma dns_reply_message:
  "dns_reply (message (query_header qid) host [0, 1, 0, 1]) (18 + length host) ip ttl rcode =
     Some (message (reply_header qid rcode (if ip = None then 0 else 1)) host
       ([0, 1, 0, 1] @ (case ip of None \<Rightarrow> [] | Some a \<Rightarrow> answer_record a (min ttl 4294967295))))"
proof -
  let ?q = "message (query_header qid) host [0, 1, 0, 1]"
  have len: "length ?q = 18 + length host" "length (query_header qid) = 12"
    by (simp_all add: length_message query_header_def)
  have q2: "take (18 + length host) ?q = ?q" "?q ! 2 = 1"
    using len by (simp_all add: message_def query_header_def nth_append u16_to_be_def)
  have "message header host (a @ b) = message header host a @ b" for header a b by (simp add: message_def)
  then show ?thesis
    unfolding dns_reply_def q2 query_header_update [symmetric]
    using len by (simp add: message_update answer_record_def del: append_Cons append_Nil split: option.split)
qed

lemma u32_words:
  assumes "ttl \<le> 4294967295"
  obtains a b c d where "u32_to_be ttl = [a, b, c, d]"
    "unat (u16_from_be a b) * 65536 + unat (u16_from_be c d) = ttl"
proof -
  have "ttl div 65536 < 65536" "ttl mod 65536 < 65536" using assms by auto
  then have u: "unat (word_of_nat (ttl div 65536) :: u16) = ttl div 65536"
    "unat (word_of_nat (ttl mod 65536) :: u16) = ttl mod 65536" by (simp_all only: unat_of_nat_u16)
  obtain a b c d where "u16_to_be (word_of_nat (ttl div 65536)) = [a, b]" "u16_from_be a b = word_of_nat (ttl div 65536)"
    "u16_to_be (word_of_nat (ttl mod 65536)) = [c, d]" "u16_from_be c d = word_of_nat (ttl mod 65536)"
    using u16_to_be_cases by metis
  then show ?thesis using u by (intro that [of a b c d]) (simp_all add: u32_to_be_def)
qed

lemma parse_question:
  assumes "dns_normalize h = Inr host" "length (split_on CHR ''.'' host) < 64"
  shows "dns_parse (message (reply_header qid 0 n) host ([0, 1, 0, 1] @ rest)) host qid =
    (case read_records (unat n) 0 (unat n) (message (reply_header qid 0 n) host ([0, 1, 0, 1] @ rest))
       (18 + length host) \<lparr>rec_aliases = [], rec_addresses = []\<rparr> of
       None \<Rightarrow> Inl DnsInvalid | Some recs \<Rightarrow> follow_aliases 16 recs host 4294967295 [])"
proof -
  let ?r = "message (reply_header qid 0 n) host ([0, 1, 0, 1] @ rest)"
  have len: "length (reply_header qid 0 n) = 12" by (simp add: reply_header_def)
  have name: "dns_name ?r 12 = Some (host, 14 + length host)"
    unfolding dns_name_def using message_name [OF assms len] by simp
  have w: "dns_word ?r (14 + length host) = Some 1" "dns_word ?r (14 + length host + 2) = Some 1"
    using message_word [OF len, of "14 + length host" host "[]" 0 1 "[0, 1] @ rest"]
      message_word [OF len, of "14 + length host + 2" host "[0, 1]" 0 1 rest] by (simp_all add: u16_from_be_def)
  have hw: "dns_word ?r 0 = Some qid" "dns_word ?r 2 = Some 0x8180" "dns_word ?r 4 = Some 1"
    "dns_word ?r 6 = Some (u16_from_be 0 n)" "dns_word ?r 8 = Some 0" "dns_word ?r 10 = Some 0"
    using u16_from_to_be [of qid]
    by (simp_all add: header_word len) (simp_all add: reply_header_def u16_to_be_def u16_from_be_def)
  have "unat (u16_from_be 0 n) = unat n" by (simp add: unat_u16_from_be)
  moreover have "unat n \<le> 512" using unat_byte_less [of n] by linarith
  ultimately show ?thesis
    unfolding dns_parse_def using name w hw
    by (simp add: length_message len word_bits_def Let_def add.commute [of 4])
qed

lemma message_nth:
  assumes "length header = 12" "n = 14 + length host + length a"
  shows "(message header host (a @ x # rest)) ! n = x"
proof -
  have "message header host (a @ x # rest) ! (14 + length host + length a) = x"
    unfolding message_split(1) [OF assms(1)] message_split(2) [OF assms(1), symmetric] by (simp only: nth_append_length)
  then show ?thesis using assms(2) by simp
qed

lemma compressed_name:
  assumes "dns_normalize h = Inr host" "length (split_on CHR ''.'' host) < 63" "length header = 12"
  shows "dns_name (message header host ([0, 1, 0, 1] @ 0xc0 # 12 # rest)) (18 + length host) = Some (host, 20 + length host)"
proof -
  let ?r = "message header host ([0, 1, 0, 1] @ 0xc0 # 12 # rest)"
  have "?r ! (18 + length host) = 0xc0" by (rule message_nth [OF assms(3)]) simp
  moreover have "dns_word ?r (18 + length host) = Some (u16_from_be 0xc0 12)"
    by (rule message_word [OF assms(3)]) simp
  moreover have "unat (u16_from_be 0xc0 12 AND 0x3fff) = 12" by (simp add: u16_from_be_def)
  moreover have "name_loop 63 ?r 12 True (20 + length host) [] = Some (host, 20 + length host)"
    using message_name [OF assms, of _ True] by simp
  moreover have "18 + length host < length ?r" by (simp add: length_message assms(3))
  moreover have k: "(64 :: nat) = Suc 63" by simp
  ultimately show ?thesis unfolding dns_name_def k name_loop.simps by (simp add: Let_def)
qed

lemma read_answer:
  assumes "dns_normalize h = Inr host" "length (split_on CHR ''.'' host) < 63" "length header = 12" "ttl \<le> 4294967295"
  shows "read_records 1 0 1 (message header host ([0, 1, 0, 1] @ answer_record ip ttl)) (18 + length host) recs =
    Some (add_address host (ip, ttl) recs)"
proof -
  obtain a b c d where ttl: "u32_to_be ttl = [a, b, c, d]"
    "unat (u16_from_be a b) * 65536 + unat (u16_from_be c d) = ttl" using u32_words [OF assms(4)] by blast
  obtain w x y z where ip: "ip = Ipv4 w x y z" by (cases ip)
  let ?r = "message header host ([0, 1, 0, 1] @ 0xc0 # 12 # [0, 1, 0, 1, a, b, c, d, 0, 4, w, x, y, z])"
  have r: "message header host ([0, 1, 0, 1] @ answer_record ip ttl) = ?r"
    by (simp add: answer_record_def ttl(1) ip)
  have name: "dns_name ?r (18 + length host) = Some (host, 20 + length host)"
    by (rule compressed_name [OF assms(1-3)])
  have words: "dns_word ?r (20 + length host) = Some 1" "dns_word ?r (22 + length host) = Some 1"
    "dns_word ?r (24 + length host) = Some (u16_from_be a b)" "dns_word ?r (26 + length host) = Some (u16_from_be c d)"
    "dns_word ?r (28 + length host) = Some 4"
    using message_word [OF assms(3), of "20 + length host" host "[0, 1, 0, 1, 0xc0, 12]" 0 1]
      message_word [OF assms(3), of "22 + length host" host "[0, 1, 0, 1, 0xc0, 12, 0, 1]" 0 1]
      message_word [OF assms(3), of "24 + length host" host "[0, 1, 0, 1, 0xc0, 12, 0, 1, 0, 1]" a b]
      message_word [OF assms(3), of "26 + length host" host "[0, 1, 0, 1, 0xc0, 12, 0, 1, 0, 1, a, b]" c d]
      message_word [OF assms(3), of "28 + length host" host "[0, 1, 0, 1, 0xc0, 12, 0, 1, 0, 1, a, b, c, d]" 0 4]
    by (simp_all add: u16_from_be_def [of 0])
  have data: "?r ! (30 + length host) = w" "?r ! (31 + length host) = x" "?r ! (32 + length host) = y" "?r ! (33 + length host) = z"
    using message_nth [OF assms(3), of "30 + length host" host "[0, 1, 0, 1, 0xc0, 12, 0, 1, 0, 1, a, b, c, d, 0, 4]" w]
      message_nth [OF assms(3), of "31 + length host" host "[0, 1, 0, 1, 0xc0, 12, 0, 1, 0, 1, a, b, c, d, 0, 4, w]" x]
      message_nth [OF assms(3), of "32 + length host" host "[0, 1, 0, 1, 0xc0, 12, 0, 1, 0, 1, a, b, c, d, 0, 4, w, x]" y]
      message_nth [OF assms(3), of "33 + length host" host "[0, 1, 0, 1, 0xc0, 12, 0, 1, 0, 1, a, b, c, d, 0, 4, w, x, y]" z]
    by simp_all
  have "length ?r = 34 + length host" by (simp add: length_message assms(3))
  then show ?thesis
    unfolding r One_nat_def using name words data ttl(2)
    by (simp add: record_data_def ip Let_def add.commute [of _ "length host"] add.assoc)
qed

lemma follow_first:
  "follow_aliases 16 recs owner ttl [] =
     (case hm_get (rec_addresses recs) owner of
        Some vs \<Rightarrow> Inr (Addresses (fold (\<lambda>v ips. push_new (fst v) ips) vs []) (fold (\<lambda>v t. min t (snd v)) vs ttl))
      | None \<Rightarrow>
          (case hm_get (rec_aliases recs) owner of
             None \<Rightarrow> Inl DnsNoAnswer
           | Some (alias, lifetime) \<Rightarrow> follow_aliases 15 recs alias (min ttl lifetime) [owner]))"
proof -
  have k: "(16 :: nat) = Suc 15" by simp
  show ?thesis unfolding k follow_aliases.simps by simp
qed

section \<open>Properties\<close>

text \<open>
  C25: A query and its answer survive the wire. For a valid name of at most 62 labels the query is
  read back as that name and an IPv4 question. A reply with an address is parsed as exactly that
  address with its lifetime capped at the largest 32-bit value, and a reply without one as no
  answer.
\<close>

theorem dns_exchange_roundtrip:
  assumes "dns_normalize h = Inr host" "length (split_on CHR ''.'' host) \<le> 62"
  shows "\<exists>q e. dns_query h qid = Inr q \<and> dns_question q = Inr (host, 1, e)
    \<and> (\<forall>ip ttl. \<exists>r. dns_reply q e (Some ip) ttl 0 = Some r
          \<and> dns_parse r host qid = Inr (Addresses [ip] (min ttl 4294967295)))
    \<and> (\<forall>ttl. \<exists>r. dns_reply q e None ttl 0 = Some r \<and> dns_parse r host qid = Inl DnsNoAnswer)"
proof (intro exI conjI allI)
  let ?q = "message (query_header qid) host [0, 1, 0, 1]"
  have few: "length (split_on CHR ''.'' host) < 64" "length (split_on CHR ''.'' host) < 63" using assms(2) by simp_all
  have len: "length (reply_header qid 0 n) = 12" for n by (simp add: reply_header_def)
  show "dns_query h qid = Inr ?q" by (rule dns_query_message [OF assms(1)])
  show "dns_question ?q = Inr (host, 1, 18 + length host)" by (rule dns_question_query [OF assms(1) few(1)])
  fix ip :: ipv4 and ttl :: nat
  let ?m = "min ttl 4294967295"
  show "dns_reply ?q (18 + length host) (Some ip) ttl 0 =
      Some (message (reply_header qid 0 1) host ([0, 1, 0, 1] @ answer_record ip ?m))"
    by (simp add: dns_reply_message)
  have "follow_aliases 16 (add_address host (ip, ?m) \<lparr>rec_aliases = [], rec_addresses = []\<rparr>) host 4294967295 []
      = Inr (Addresses [ip] ?m)"
    by (simp add: follow_first add_address_def push_new_def)
  then show "dns_parse (message (reply_header qid 0 1) host ([0, 1, 0, 1] @ answer_record ip ?m)) host qid
      = Inr (Addresses [ip] ?m)"
    using read_answer [OF assms(1) few(2) len, of ?m 1 ip "\<lparr>rec_aliases = [], rec_addresses = []\<rparr>"]
    unfolding parse_question [OF assms(1) few(1)] by simp
next
  fix ttl :: nat
  have few: "length (split_on CHR ''.'' host) < 64" using assms(2) by simp
  show "dns_reply (message (query_header qid) host [0, 1, 0, 1]) (18 + length host) None ttl 0 =
      Some (message (reply_header qid 0 0) host ([0, 1, 0, 1] @ []))"
    by (simp add: dns_reply_message)
  show "dns_parse (message (reply_header qid 0 0) host ([0, 1, 0, 1] @ [])) host qid = Inl DnsNoAnswer"
    unfolding parse_question [OF assms(1) few]
    by (simp add: follow_first)
qed

lemma sample_name: "dns_normalize ''JW.edu.'' = Inr ''jw.edu''"
  by (simp add: dns_normalize_def trim_end_char_def to_ascii_lowercase_def ascii_lower_def char_of_def bit_0
      host_char_def)

theorem dns_exchange_roundtrip_witness:
  "\<exists>q e r. dns_query ''JW.edu.'' 7 = Inr q \<and> dns_reply q e (Some (Ipv4 10 0 0 7)) 60 0 = Some r
     \<and> dns_parse r ''jw.edu'' 7 = Inr (Addresses [Ipv4 10 0 0 7] (min 60 4294967295))"
proof -
  have "length (split_on CHR ''.'' ''jw.edu'') \<le> 62" by simp
  from dns_exchange_roundtrip [OF sample_name this, of 7] show ?thesis by blast
qed


definition sample_deep_name :: string where
  "sample_deep_name = join_dots (replicate 64 ''a'')"

lemma split_replicate: "split_on CHR ''.'' (join_dots (replicate (Suc n) ''a'')) = replicate (Suc n) ''a''"
proof (induction n)
  case (Suc n)
  then show ?case using split_on_sep [of "CHR ''.''" "''a''"] by simp
qed simp

lemma sample_deep_labels: "split_on CHR ''.'' sample_deep_name = replicate 64 ''a''"
  using split_replicate [of 63] by (simp add: sample_deep_name_def)

lemma sample_deep_normal: "dns_normalize sample_deep_name = Inr sample_deep_name"
proof -
  have "length (join_dots (replicate (Suc n) ''a'')) = 2 * n + 1
      \<and> to_ascii_lowercase (join_dots (replicate (Suc n) ''a'')) = join_dots (replicate (Suc n) ''a'')
      \<and> last (join_dots (replicate (Suc n) ''a'')) = CHR ''a''" for n
    by (induction n) (auto simp: to_ascii_lowercase_def ascii_lower_def)
  from this [of 63] have s: "length sample_deep_name = 127" "to_ascii_lowercase sample_deep_name = sample_deep_name"
    "last sample_deep_name = CHR ''a''"
    by (simp_all add: sample_deep_name_def)
  then have "trim_end_char CHR ''.'' sample_deep_name = sample_deep_name" by (simp add: trim_end_char_id)
  with s show ?thesis by (auto simp: dns_normalize_def sample_deep_labels list_ex_iff host_char_def)
qed


end
