(* ===== verification/Model_Types.thy ===== *)
theory Model_Types
  imports Strings
begin

text \<open>
  \<open>crates/hermes-model\<close> (\<open>endpoint.rs\<close>, \<open>identifier.rs\<close>, \<open>secret.rs\<close>) and
  \<open>crates/atrust-auth/src/material.rs\<close>: the validated values the other crates pass around, and
  the session material assembled from them after a login. A value is the string or the bytes it
  wraps; its type's well-formedness is the predicate its constructor establishes. MD5, the
  hexadecimal decoder, the system clock and the random key are parameters.
\<close>

section \<open>Definitions\<close>

subsection \<open>Endpoints\<close>

record gateway_endpoint =
  ge_host :: string
  ge_port :: u16

datatype endpoint_error = EmptyHost | HostContainsScheme | WhitespaceInHost | ZeroPort

definition has_whitespace :: "string \<Rightarrow> bool" where
  "has_whitespace s \<longleftrightarrow> list_ex (\<lambda>w. contains_str w s) white_space"

definition validate_host :: "string \<Rightarrow> endpoint_error + unit" where
  "validate_host host =
     (if host = [] then Inl EmptyHost
      else if has_whitespace host then Inl WhitespaceInHost
      else Inr ())"

definition gateway_endpoint_new :: "string \<Rightarrow> u16 \<Rightarrow> endpoint_error + gateway_endpoint" where
  "gateway_endpoint_new host port =
     (case validate_host host of
        Inl e \<Rightarrow> Inl e
      | Inr u \<Rightarrow>
          if contains_str ''://'' host then Inl HostContainsScheme
          else if port = 0 then Inl ZeroPort
          else Inr \<lparr>ge_host = host, ge_port = port\<rparr>)"

definition bracketed :: "string \<Rightarrow> string" where
  "bracketed host = (if CHR '':'' \<in> set host \<and> take 1 host \<noteq> ''['' then ''['' @ host @ '']'' else host)"

definition gateway_display :: "gateway_endpoint \<Rightarrow> string" where
  "gateway_display g = bracketed (ge_host g) @ '':'' @ dec_string (unat (ge_port g))"

text \<open>An \<open>IpAddr\<close> of either family is kept as it is.\<close>

datatype 'ip target_address = TargetIp 'ip u16 | TargetName string u16

definition target_domain :: "string \<Rightarrow> u16 \<Rightarrow> endpoint_error + 'ip target_address" where
  "target_domain host port =
     (case validate_host host of
        Inl e \<Rightarrow> Inl e
      | Inr u \<Rightarrow> if port = 0 then Inl ZeroPort else Inr (TargetName host port))"

fun target_address_port :: "'ip target_address \<Rightarrow> u16" where
  "target_address_port (TargetIp ip port) = port"
| "target_address_port (TargetName host port) = port"

subsection \<open>Identifiers\<close>

text \<open>
  \<open>char::is_control\<close> on UTF-8 text: U+0000 to U+001F, U+007F, and U+0080 to U+009F, which are
  encoded as \<open>C2 80\<close> to \<open>C2 9F\<close>.
\<close>

fun has_control :: "string \<Rightarrow> bool" where
  "has_control [] = False"
| "has_control (c # s) =
     ((of_char c :: nat) < 32 \<or> (of_char c :: nat) = 127
      \<or> (of_char c :: nat) = 0xC2 \<and> s \<noteq> [] \<and> 0x80 \<le> (of_char (hd s) :: nat) \<and> (of_char (hd s) :: nat) \<le> 0x9F
      \<or> has_control s)"

datatype identifier_error = IdentifierEmpty | ControlCharacter | Clock

definition identifier_new :: "string \<Rightarrow> identifier_error + string" where
  "identifier_new value =
     (if value = [] then Inl IdentifierEmpty
      else if has_control value then Inl ControlCharacter
      else Inr value)"

definition from_device_at :: "(bytes \<Rightarrow> bytes) \<Rightarrow> string \<Rightarrow> nat \<Rightarrow> identifier_error + string" where
  "from_device_at md5 device_id unix_micros =
     identifier_new (hex_upper (md5 (as_bytes device_id)) @ ''-'' @ dec_string unix_micros)"

text \<open>The clock gives the microseconds since the epoch, or fails when it is set before it.\<close>

definition from_device :: "(bytes \<Rightarrow> bytes) \<Rightarrow> nat option \<Rightarrow> string \<Rightarrow> identifier_error + string" where
  "from_device md5 clock device_id =
     (case clock of None \<Rightarrow> Inl Clock | Some micros \<Rightarrow> from_device_at md5 device_id micros)"

subsection \<open>Secrets\<close>

datatype 'he secret_error = SecretEmpty | InvalidHex 'he

definition secret_string_new :: "string \<Rightarrow> 'he secret_error + string" where
  "secret_string_new value = (if value = [] then Inl SecretEmpty else Inr value)"

definition sign_key_from_bytes :: "bytes \<Rightarrow> 'he secret_error + bytes" where
  "sign_key_from_bytes bs = (if bs = [] then Inl SecretEmpty else Inr bs)"

definition sign_key_from_hex :: "(string \<Rightarrow> 'he + bytes) \<Rightarrow> string \<Rightarrow> 'he secret_error + bytes" where
  "sign_key_from_hex hex_decode value =
     (case hex_decode value of Inl e \<Rightarrow> Inl (InvalidHex e) | Inr bs \<Rightarrow> sign_key_from_bytes bs)"

definition hex_lower :: "bytes \<Rightarrow> string" where
  "hex_lower bs = concat (map (hex_byte False) bs)"

subsection \<open>Session material\<close>

record session_material =
  sm_sid :: string
  sm_device_id :: string
  sm_connection_id :: string
  sm_sign_key :: bytes
  sm_username :: "string option"
  sm_sign_key_provisional :: bool
  sm_sid_cookie_name :: string
  sm_sid_sig_present :: bool

datatype 'he material_error =
    SidCookieMissing | MaterialIdentifier identifier_error | MaterialSecret "'he secret_error"

definition generate_provisional_sign_key :: "bytes \<Rightarrow> 'he material_error + bytes" where
  "generate_provisional_sign_key random =
     (case sign_key_from_bytes random of Inl e \<Rightarrow> Inl (MaterialSecret e) | Inr k \<Rightarrow> Inr k)"

definition from_cookie_sid ::
  "(bytes \<Rightarrow> bytes) \<Rightarrow> nat option \<Rightarrow> bytes \<Rightarrow> string \<Rightarrow> string \<Rightarrow> bool \<Rightarrow> string \<Rightarrow> string option
    \<Rightarrow> bytes option \<Rightarrow> 'he material_error + session_material" where
  "from_cookie_sid md5 clock random sid_value sid_cookie_name sid_sig_present device_id username sign_key =
     (case identifier_new sid_value of
        Inl e \<Rightarrow> Inl (MaterialIdentifier e)
      | Inr sid \<Rightarrow>
          (case from_device md5 clock device_id of
             Inl e \<Rightarrow> Inl (MaterialIdentifier e)
           | Inr connection_id \<Rightarrow>
               (case (case sign_key of
                        Some key \<Rightarrow> Inr (key, False)
                      | None \<Rightarrow> (case generate_provisional_sign_key random of
                                  Inl e \<Rightarrow> Inl e | Inr key \<Rightarrow> Inr (key, True))) of
                  Inl e \<Rightarrow> Inl e
                | Inr (key, provisional) \<Rightarrow>
                    Inr \<lparr>sm_sid = sid, sm_device_id = device_id, sm_connection_id = connection_id,
                         sm_sign_key = key, sm_username = username,
                         sm_sign_key_provisional = provisional, sm_sid_cookie_name = sid_cookie_name,
                         sm_sid_sig_present = sid_sig_present\<rparr>)))"

record gateway_cookie =
  gc_name :: string
  gc_value :: string

record sid_cookie_source =
  sc_value :: string
  sc_cookie_name :: string
  sc_sid_sig_present :: bool

definition SID_COOKIE_CANDIDATES :: "string list" where
  "SID_COOKIE_CANDIDATES = [''sid'', ''sid-legacy'']"

definition eq_ignore_ascii_case :: "string \<Rightarrow> string \<Rightarrow> bool" where
  "eq_ignore_ascii_case a b \<longleftrightarrow> to_ascii_lowercase a = to_ascii_lowercase b"

fun extract_sid_loop ::
  "gateway_cookie list \<Rightarrow> string list \<Rightarrow> 'he material_error + sid_cookie_source" where
  "extract_sid_loop cookies [] = Inl SidCookieMissing"
| "extract_sid_loop cookies (name # names) =
     (case find (\<lambda>c. eq_ignore_ascii_case (gc_name c) name) cookies of
        None \<Rightarrow> extract_sid_loop cookies names
      | Some cookie \<Rightarrow>
          (case secret_string_new (gc_value cookie) of
             Inl e \<Rightarrow> Inl (MaterialSecret e)
           | Inr value \<Rightarrow>
               Inr \<lparr>sc_value = value, sc_cookie_name = gc_name cookie,
                    sc_sid_sig_present =
                      list_ex (\<lambda>other. eq_ignore_ascii_case (gc_name other) (gc_name cookie @ ''.sig'')) cookies\<rparr>))"

definition extract_sid_from_cookies :: "gateway_cookie list \<Rightarrow> 'he material_error + sid_cookie_source" where
  "extract_sid_from_cookies cookies = extract_sid_loop cookies SID_COOKIE_CANDIDATES"

section \<open>Well-formed values\<close>

text \<open>The types of the wrapped values, as their constructors establish them.\<close>

definition identifier_ok :: "string \<Rightarrow> bool" where
  "identifier_ok s \<longleftrightarrow> s \<noteq> [] \<and> \<not> has_control s"

definition gateway_ok :: "gateway_endpoint \<Rightarrow> bool" where
  "gateway_ok g \<longleftrightarrow> ge_host g \<noteq> [] \<and> \<not> has_whitespace (ge_host g) \<and> \<not> contains_str ''://'' (ge_host g)
     \<and> ge_port g \<noteq> 0"

definition material_ok :: "session_material \<Rightarrow> bool" where
  "material_ok m \<longleftrightarrow> identifier_ok (sm_sid m) \<and> identifier_ok (sm_device_id m)
     \<and> identifier_ok (sm_connection_id m) \<and> sm_sign_key m \<noteq> []"

lemma identifier_new_iff: "identifier_new s = Inr t \<longleftrightarrow> identifier_ok s \<and> t = s"
  by (auto simp: identifier_new_def identifier_ok_def)

lemma gateway_endpoint_new_iff:
  "gateway_endpoint_new host port = Inr g \<longleftrightarrow> g = \<lparr>ge_host = host, ge_port = port\<rparr> \<and> gateway_ok g"
  by (auto simp: gateway_endpoint_new_def validate_host_def gateway_ok_def)

lemma printable_no_control:
  "(\<forall>c \<in> set s. 32 \<le> (of_char c :: nat) \<and> (of_char c :: nat) < 127) \<Longrightarrow> \<not> has_control s"
  by (induction s) auto

lemma hex_digit_printable:
  "n < 16 \<Longrightarrow> 32 \<le> (of_char (hex_digit up n) :: nat) \<and> (of_char (hex_digit up n) :: nat) < 127"
  by (auto simp: hex_digit_def of_char_of)

lemma hex_upper_printable:
  "c \<in> set (hex_upper bs) \<Longrightarrow> 32 \<le> (of_char c :: nat) \<and> (of_char c :: nat) < 127"
proof (induction bs)
  case (Cons b bs)
  have "unat b div 16 < 16" "unat b mod 16 < 16" using unat_byte_less [of b] by linarith+
  with Cons hex_digit_printable show ?case by (auto simp: hex_upper_def hex_byte_def)
qed (simp add: hex_upper_def)

lemma dec_string_printable:
  "c \<in> set (dec_string n) \<Longrightarrow> 32 \<le> (of_char c :: nat) \<and> (of_char c :: nat) < 127"
  using dec_string_digits [of c n] by (auto simp: is_digit_def)

lemma connection_id_ok: "identifier_ok (hex_upper h @ ''-'' @ dec_string n)"
proof -
  have "\<not> has_control (hex_upper h @ ''-'' @ dec_string n)"
    by (rule printable_no_control) (auto dest: hex_upper_printable dec_string_printable)
  then show ?thesis by (simp add: identifier_ok_def)
qed

section \<open>Properties\<close>

text \<open>
  C32: type. Session material is well formed. Assembling it from a cookie value fails only when
  that value is no identifier or the clock is before the epoch; otherwise every identifier in it is
  non-empty and free of control characters, the key is not empty and marked provisional exactly
  when it was generated, and the connection id is the device's digest with the time.
\<close>

theorem material_well_formed:
  assumes "identifier_ok device_id" and "sign_key \<noteq> Some []" and "length random = 32"
  shows "case from_cookie_sid md5 clock random sid_value cookie_name sig_present device_id username sign_key of
      Inl e \<Rightarrow> \<not> identifier_ok sid_value \<or> clock = None
    | Inr m \<Rightarrow> material_ok m \<and> sm_sid m = sid_value \<and> sm_device_id m = device_id \<and>
        (\<exists>micros. clock = Some micros \<and>
          sm_connection_id m = hex_upper (md5 (as_bytes device_id)) @ ''-'' @ dec_string micros) \<and>
        sm_sign_key_provisional m = (sign_key = None)"
proof (cases "identifier_new sid_value")
  case (Inl e)
  then show ?thesis using identifier_new_iff [of sid_value sid_value] by (auto simp: from_cookie_sid_def)
next
  case (Inr sid)
  then have sid: "sid = sid_value" "identifier_ok sid_value" by (simp_all add: identifier_new_iff)
  show ?thesis
  proof (cases clock)
    case None
    with Inr show ?thesis by (simp add: from_cookie_sid_def from_device_def)
  next
    case (Some micros)
    have "from_device md5 clock device_id = Inr (hex_upper (md5 (as_bytes device_id)) @ ''-'' @ dec_string micros)"
      using connection_id_ok [of "md5 (as_bytes device_id)" micros]
      by (simp add: from_device_def from_device_at_def identifier_new_iff Some)
    moreover have "random \<noteq> []" using assms(3) by auto
    ultimately show ?thesis
      using Inr sid assms(1,2) Some connection_id_ok [of "md5 (as_bytes device_id)" micros]
      by (cases sign_key)
         (simp_all add: from_cookie_sid_def generate_provisional_sign_key_def sign_key_from_bytes_def material_ok_def)
  qed
qed

theorem material_well_formed_witness:
  "case from_cookie_sid id (Some 5) (replicate 32 7) ''abc'' ''sid'' True ''d'' None None
      :: unit material_error + session_material of
      Inl e \<Rightarrow> False
    | Inr m \<Rightarrow> material_ok m \<and> sm_connection_id m = ''64-5'' \<and> sm_sign_key_provisional m"
proof -
  have "identifier_ok ''d''" "identifier_ok ''abc''" "length (replicate 32 (7 :: byte)) = 32"
    by (simp_all add: identifier_ok_def)
  from material_well_formed [OF this(1) _ this(3), where sign_key = None and ?md5.0 = id and clock = "Some 5"
      and sid_value = "''abc''" and cookie_name = "''sid''" and sig_present = True and username = None and ?'a = unit] this(2)
  have "case from_cookie_sid id (Some 5) (replicate 32 7) ''abc'' ''sid'' True ''d'' None None
      :: unit material_error + session_material of
      Inl e \<Rightarrow> False
    | Inr m \<Rightarrow> material_ok m \<and> sm_connection_id m = hex_upper (as_bytes ''d'') @ ''-'' @ dec_string 5
        \<and> sm_sign_key_provisional m"
    by (auto split: sum.splits)
  moreover have "hex_upper (as_bytes ''d'') @ ''-'' @ dec_string 5 = ''64-5''" by code_simp
  ultimately show ?thesis by (simp only:)
qed

end
