(* ===== verification/Auth_Types.thy ===== *)
theory Auth_Types
  imports Model_Types Resource Signed_Json
begin

text \<open>
  The data of the control-plane client, \<open>crates/atrust-auth/src\<close>: \<open>auth_config.rs\<close>, \<open>session.rs\<close>,
  \<open>password.rs\<close>, the errors of \<open>client.rs\<close> and \<open>cas.rs\<close>, and the HTTP messages of
  \<open>crates/hermes-transport/src/http.rs\<close>. The transport, the URL library, the JSON encoders and
  decoders, Base64 and RSA are third-party code: they are the fields of \<open>auth_env\<close>. The transport
  carries a state of its own (connections, cookies), which every operation threads through, so
  that the requests made are visible in it.
\<close>

section \<open>Definitions\<close>

subsection \<open>HTTP and URLs\<close>

text \<open>A parsed URL, by the components the code looks at.\<close>

record url =
  u_scheme :: string
  u_authority :: string
  u_username :: string
  u_password :: "string option"
  u_path :: string
  u_query :: "(string \<times> string) list"
  u_fragment :: "string option"

datatype http_method = HttpGet | HttpPost

record http_request =
  rq_method :: http_method
  rq_url :: url
  rq_headers :: "(string \<times> string) list"
  rq_body :: bytes

record http_response =
  rs_status :: u16
  rs_location :: "string option"
  rs_body :: bytes

definition http_get :: "url \<Rightarrow> http_request" where
  "http_get u = \<lparr>rq_method = HttpGet, rq_url = u, rq_headers = [], rq_body = []\<rparr>"

definition http_post :: "url \<Rightarrow> bytes \<Rightarrow> http_request" where
  "http_post u body = \<lparr>rq_method = HttpPost, rq_url = u, rq_headers = [], rq_body = body\<rparr>"

definition is_success :: "http_response \<Rightarrow> bool" where
  "is_success r \<longleftrightarrow> 200 \<le> rs_status r \<and> rs_status r < 300"

subsection \<open>Messages\<close>

record auth_info =
  ai_login_domain :: string
  ai_auth_type :: string
  ai_auth_name :: string
  ai_login_url :: string

datatype login_state = LoggedOut | LoggedIn | UnknownLogin int

definition login_state_from :: "int \<Rightarrow> login_state" where
  "login_state_from value = (if value = 0 then LoggedOut else if value = 1 then LoggedIn else UnknownLogin value)"

record auth_configuration =
  ac_login_state :: login_state
  ac_methods :: "auth_info list"
  ac_csrf_token :: string
  ac_public_key :: string
  ac_public_key_exponent :: string
  ac_anti_replay_random :: string

record auth_config_options =
  ao_modified :: bool
  ao_need_ticket :: bool

record auth_config_envelope =
  ae_code :: "int option"
  ae_message :: string
  ae_data :: "json_value option"

record auth_config_data =
  ad_auth_server_info_list :: "auth_info list"
  ad_is_login :: int
  ad_csrf_token :: string
  ad_security_csrf_token :: string
  ad_pub_key :: string
  ad_pub_key_exp :: string
  ad_anti_replay_rand :: string

definition auth_configuration_from :: "auth_config_data \<Rightarrow> auth_configuration" where
  "auth_configuration_from d =
     \<lparr>ac_login_state = login_state_from (ad_is_login d), ac_methods = ad_auth_server_info_list d,
      ac_csrf_token = (if ad_csrf_token d = [] then ad_security_csrf_token d else ad_csrf_token d),
      ac_public_key = ad_pub_key d, ac_public_key_exponent = ad_pub_key_exp d,
      ac_anti_replay_random = ad_anti_replay_rand d\<rparr>"

record 'd business_envelope =
  be_code :: int
  be_message :: string
  be_data :: 'd

record auth_service_info =
  as_auth_id :: string
  as_auth_type :: string

record auth_step_data =
  st_next_service :: string
  st_next_service_list :: "auth_service_info list"

record auth_step =
  step_service :: string
  step_auth_id :: "string option"

definition auth_step_from_data :: "auth_step_data \<Rightarrow> auth_step" where
  "auth_step_from_data d =
     (let service = st_next_service d;
          selected = (case find (\<lambda>item. service \<noteq> [] \<and> as_auth_type item = service) (st_next_service_list d) of
                        Some item \<Rightarrow> Some item
                      | None \<Rightarrow> (case st_next_service_list d of [] \<Rightarrow> None | item # items \<Rightarrow> Some item));
          auth_id = (case selected of
                       None \<Rightarrow> None
                     | Some item \<Rightarrow> if as_auth_id item \<noteq> [] then Some (as_auth_id item) else None);
          service1 = (case selected of
                        None \<Rightarrow> service
                      | Some item \<Rightarrow> if service = [] then as_auth_type item else service);
          service2 = (if service1 = [] \<and> auth_id \<noteq> None then ''auth/sms'' else service1)
      in \<lparr>step_service = service2, step_auth_id = auth_id\<rparr>)"

definition step_is_complete :: "auth_step \<Rightarrow> bool" where
  "step_is_complete s \<longleftrightarrow> step_service s = []"

datatype session_progress =
    Established "string option" bool
  | InteractionRequired string "string option"

record report_env_request =
  re_ticket :: string
  re_device_id :: string
  re_env_device_id :: string
  re_device_type :: string

definition report_env_request_new :: "string \<Rightarrow> string \<Rightarrow> report_env_request" where
  "report_env_request_new ticket device_id =
     \<lparr>re_ticket = ticket, re_device_id = device_id, re_env_device_id = device_id, re_device_type = ''browser''\<rparr>"

record password_credentials =
  pc_username :: string
  pc_password :: string
  pc_login_domain :: string

record password_request =
  pr_username :: string
  pr_password :: string
  pr_remember_pwd :: string
  pr_graph_check_code :: "string option"

record password_response_data =
  pd_ticket :: string
  pd_graph_check_code_enable :: int

record password_auth_outcome =
  po_ticket :: "string option"
  po_captcha_required :: bool

subsection \<open>Errors\<close>

datatype ('se, 're) password_error =
    EmptyUsername
  | EmptyLoginDomain
  | InvalidPublicKey
  | InvalidPublicKeyExponent
  | InvalidRsaKey 're
  | PasswordEncrypt 're
  | PasswordSerialize "'se protocol_json_error"

datatype 'ue cas_error =
    MissingLoginUrl
  | InvalidLoginUrl 'ue
  | InvalidGatewayUrl 'ue
  | InsecureLoginUrl
  | InvalidCallbackScheme
  | InvalidCallbackAuthority
  | InvalidCallbackPath
  | InvalidCallbackUrl
  | CallbackTooLong
  | InvalidTicketCount
  | TicketTooLong
  | LoginDomainMismatch
  | CasMissingTicket
  | LoginDomainUnavailable
  | InvalidPortalScheme
  | InvalidPortalAuthority
  | InvalidPortalPath
  | InvalidPortalUrl
  | PortalUrlTooLong
  | CasInvalidPortalData
  | CasMissingPortalTicket

datatype ('te, 'se, 'je, 'ue, 're) auth_error =
    InvalidUrl 'ue
  | AuthTransport 'te
  | UnexpectedStatus u16
  | InvalidResponse 'je
  | AuthPassword "('se, 're) password_error"
  | AuthProtocolJson "'se protocol_json_error"
  | PasswordLoginDomainUnavailable
  | AuthenticationRejected int string
  | MissingTicket
  | InvalidPasswordResponse 'je
  | AuthCas "'ue cas_error"
  | CasCredentialGatewayMismatch
  | UnexpectedCasStatus u16
  | MissingCasRedirect
  | InvalidCasRedirect 'ue
  | InvalidCasRedirectTarget
  | InvalidPortalData "'ue cas_error"
  | MissingPortalTicket
  | MissingSidTicket
  | InvalidSessionResponse 'je
  | MissingOnlineUsername
  | AuthResource resource_error

definition SESSION_INVALID_CODE :: int where
  "SESSION_INVALID_CODE = 75500002"

fun is_session_invalid :: "('te, 'se, 'je, 'ue, 're) auth_error \<Rightarrow> bool" where
  "is_session_invalid (AuthenticationRejected code msg) = (code = SESSION_INVALID_CODE)"
| "is_session_invalid (AuthResource (Rejected code msg)) = (code = SESSION_INVALID_CODE)"
| "is_session_invalid _ = False"

fun from_portal_error :: "'ue cas_error \<Rightarrow> ('te, 'se, 'je, 'ue, 're) auth_error" where
  "from_portal_error InvalidPortalScheme = InvalidCasRedirectTarget"
| "from_portal_error InvalidPortalAuthority = InvalidCasRedirectTarget"
| "from_portal_error InvalidPortalPath = InvalidCasRedirectTarget"
| "from_portal_error InvalidPortalUrl = InvalidCasRedirectTarget"
| "from_portal_error PortalUrlTooLong = InvalidCasRedirectTarget"
| "from_portal_error CasInvalidPortalData = InvalidPortalData CasInvalidPortalData"
| "from_portal_error CasMissingPortalTicket = MissingPortalTicket"
| "from_portal_error other = AuthCas other"

subsection \<open>The environment\<close>

record ('n, 'te, 'se, 'je, 'ue, 're) auth_env =
  execute :: "'n \<Rightarrow> http_request \<Rightarrow> ('te + http_response) \<times> 'n"
  parse_url :: "string \<Rightarrow> 'ue + url"
  url_join :: "url \<Rightarrow> string \<Rightarrow> 'ue + url"
  url_text :: "url \<Rightarrow> string"
  base64 :: "bytes \<Rightarrow> string"
  ser_report_env :: "report_env_request \<Rightarrow> 'se + bytes"
  ser_ticket_exchange :: "unit \<Rightarrow> 'se + bytes"
  ser_session_id_exchange :: "string \<Rightarrow> 'se + bytes"
  ser_resource_request :: "unit \<Rightarrow> 'se + bytes"
  ser_device_environment :: "string \<Rightarrow> 'se + bytes"
  ser_password :: "password_request \<Rightarrow> 'se + bytes"
  je_custom :: "string \<Rightarrow> 'je"
  de_auth_config :: "bytes \<Rightarrow> 'je + auth_config_envelope"
  de_auth_config_data :: "json_value \<Rightarrow> 'je + auth_config_data"
  de_value :: "bytes \<Rightarrow> 'je + json_value business_envelope"
  de_sid_ticket :: "bytes \<Rightarrow> 'je + string business_envelope"
  de_auth_step :: "bytes \<Rightarrow> 'je + auth_step_data business_envelope"
  de_online_info :: "bytes \<Rightarrow> 'je + string business_envelope"
  de_password :: "bytes \<Rightarrow> 'je + password_response_data business_envelope"
  de_portal_data :: "string \<Rightarrow> 'je + string"
  de_resources :: "bytes \<Rightarrow> string + client_resource_envelope"
  rsa_modulus :: "string \<Rightarrow> nat option"
  rsa_encrypt :: "nat \<Rightarrow> nat \<Rightarrow> 're + (bytes \<Rightarrow> 're + bytes)"

end
