(* ===== verification/Auth_Client.thy ===== *)
theory Auth_Client
  imports Auth_Types
begin

text \<open>
  \<open>crates/atrust-auth/src\<close>: \<open>client.rs\<close>, \<open>cas.rs\<close>, \<open>password.rs\<close> and \<open>profile.rs\<close>, the
  operations of the control-plane client. Each builds its HTTP requests, hands them to the
  transport of \<open>auth_env\<close> and judges the replies; the state of the transport is threaded through.
  Trace ids are random and an argument.
\<close>

section \<open>Definitions\<close>

record auth_protocol_profile =
  pf_user_agent :: string
  pf_client_type :: string
  pf_platform :: string
  pf_language :: string

definition default_profile :: auth_protocol_profile where
  "default_profile =
     \<lparr>pf_user_agent = ''Mozilla/5.0 (X11; Linux x86_64) AppleWebKit/537.36 (KHTML, like Gecko) aTrustTray/2.4.10.50 Chrome/83.0.4103.94 Electron/9.0.2 Safari/537.36 aTrustTray-Linux-Plat-Ubuntu-x64 SPCClientType'',
      pf_client_type = ''SDPClient'', pf_platform = ''Linux'', pf_language = ''en-US''\<rparr>"

record auth_client =
  cl_endpoint :: gateway_endpoint
  cl_profile :: auth_protocol_profile

definition auth_client_new :: "gateway_endpoint \<Rightarrow> auth_client" where
  "auth_client_new endpoint = \<lparr>cl_endpoint = endpoint, cl_profile = default_profile\<rparr>"

definition auth_authority :: "gateway_endpoint \<Rightarrow> string" where
  "auth_authority g = (if ge_port g = 443 then bracketed (ge_host g) else gateway_display g)"

text \<open>Eight hexadecimal digits drawn at random.\<close>

definition random_trace_id :: "(nat \<Rightarrow> nat) \<Rightarrow> string" where
  "random_trace_id random_range = map (\<lambda>i. ''0123456789abcdef'' ! (random_range i mod 16)) [0..<8]"

subsection \<open>CAS challenges\<close>

definition MAX_CALLBACK_URL_LENGTH :: nat where "MAX_CALLBACK_URL_LENGTH = 16 * 1024"
definition MAX_SERVICE_TICKET_LENGTH :: nat where "MAX_SERVICE_TICKET_LENGTH = 8 * 1024"
definition MAX_PORTAL_URL_LENGTH :: nat where "MAX_PORTAL_URL_LENGTH = 16 * 1024"
definition CAS_CALLBACK_PATH :: string where "CAS_CALLBACK_PATH = ''/passport/v1/auth/cas''"
definition PORTAL_COMPLETION_PATH :: string where "PORTAL_COMPLETION_PATH = ''/portal/shortcut.html''"

record cas_challenge =
  cc_login_url :: url
  cc_login_domain :: string
  cc_callback_url :: url
  cc_portal_url :: url

record cas_callback_credential =
  cb_service_ticket :: string
  cb_login_domain :: string
  cb_callback_authority :: string

definition cas_challenge_new ::
  "('n, 'te, 'se, 'je, 'ue, 're) auth_env \<Rightarrow> gateway_endpoint \<Rightarrow> string \<Rightarrow> string \<Rightarrow> 'ue cas_error + cas_challenge" where
  "cas_challenge_new env endpoint login_domain login_url =
     (if login_url = [] then Inl MissingLoginUrl
      else case parse_url env (''https://'' @ auth_authority endpoint @ ''/'') of
             Inl e \<Rightarrow> Inl (InvalidGatewayUrl e)
           | Inr base_url \<Rightarrow>
               (case url_join env base_url login_url of
                  Inl e \<Rightarrow> Inl (InvalidLoginUrl e)
                | Inr login \<Rightarrow>
                    if u_scheme login \<noteq> ''https'' then Inl InsecureLoginUrl
                    else (case url_join env base_url CAS_CALLBACK_PATH of
                            Inl e \<Rightarrow> Inl (InvalidGatewayUrl e)
                          | Inr callback \<Rightarrow>
                              (case url_join env base_url PORTAL_COMPLETION_PATH of
                                 Inl e \<Rightarrow> Inl (InvalidGatewayUrl e)
                               | Inr portal \<Rightarrow>
                                   Inr \<lparr>cc_login_url = login, cc_login_domain = login_domain,
                                        cc_callback_url = callback, cc_portal_url = portal\<rparr>))))"

definition is_callback_target :: "cas_challenge \<Rightarrow> url \<Rightarrow> bool" where
  "is_callback_target c callback \<longleftrightarrow>
     u_scheme callback = ''https'' \<and> u_authority callback = u_authority (cc_callback_url c)
     \<and> u_path callback = CAS_CALLBACK_PATH"

definition is_completion_target :: "cas_challenge \<Rightarrow> url \<Rightarrow> bool" where
  "is_completion_target c u \<longleftrightarrow>
     u_scheme u = ''https'' \<and> u_authority u = u_authority (cc_portal_url c)
     \<and> u_path u = PORTAL_COMPLETION_PATH"

definition query_values :: "url \<Rightarrow> string \<Rightarrow> string list" where
  "query_values u name = map snd (filter (\<lambda>(n, v). n = name) (u_query u))"

definition cas_finish ::
  "('n, 'te, 'se, 'je, 'ue, 're) auth_env \<Rightarrow> cas_challenge \<Rightarrow> url \<Rightarrow> 'ue cas_error + cas_callback_credential" where
  "cas_finish env c callback =
     (if MAX_CALLBACK_URL_LENGTH < length (url_text env callback) then Inl CallbackTooLong
      else if u_scheme callback \<noteq> ''https'' then Inl InvalidCallbackScheme
      else if u_authority callback \<noteq> u_authority (cc_callback_url c) then Inl InvalidCallbackAuthority
      else if u_path callback \<noteq> CAS_CALLBACK_PATH then Inl InvalidCallbackPath
      else if u_fragment callback \<noteq> None \<or> u_username callback \<noteq> [] \<or> u_password callback \<noteq> None
      then Inl InvalidCallbackUrl
      else let tickets = query_values callback ''ticket'' in
        if length tickets \<noteq> 1 then Inl InvalidTicketCount
        else let domains = query_values callback ''sfDomain'' in
          if length domains \<noteq> 1 \<or> domains ! 0 \<noteq> cc_login_domain c then Inl LoginDomainMismatch
          else (case secret_string_new (tickets ! 0) :: unit secret_error + string of
                  Inl e \<Rightarrow> Inl CasMissingTicket
                | Inr service_ticket \<Rightarrow>
                    if MAX_SERVICE_TICKET_LENGTH < length service_ticket then Inl TicketTooLong
                    else Inr \<lparr>cb_service_ticket = service_ticket, cb_login_domain = cc_login_domain c,
                              cb_callback_authority = u_authority (cc_callback_url c)\<rparr>))"

definition parse_portal_ticket ::
  "('n, 'te, 'se, 'je, 'ue, 're) auth_env \<Rightarrow> url \<Rightarrow> string \<Rightarrow> 'ue cas_error + string" where
  "parse_portal_ticket env location expected_authority =
     (if MAX_PORTAL_URL_LENGTH < length (url_text env location) then Inl PortalUrlTooLong
      else if u_scheme location \<noteq> ''https'' then Inl InvalidPortalScheme
      else if u_authority location \<noteq> expected_authority then Inl InvalidPortalAuthority
      else if u_path location \<noteq> PORTAL_COMPLETION_PATH then Inl InvalidPortalPath
      else if u_fragment location \<noteq> None \<or> u_username location \<noteq> [] \<or> u_password location \<noteq> None
      then Inl InvalidPortalUrl
      else let data = query_values location ''data'' in
        if length data \<noteq> 1 then Inl CasMissingPortalTicket
        else (case de_portal_data env (data ! 0) of
                Inl e \<Rightarrow> Inl CasInvalidPortalData
              | Inr ticket \<Rightarrow>
                  (case secret_string_new ticket :: unit secret_error + string of
                     Inl e \<Rightarrow> Inl CasMissingPortalTicket
                   | Inr t \<Rightarrow> Inr t)))"

definition finish_completion ::
  "('n, 'te, 'se, 'je, 'ue, 're) auth_env \<Rightarrow> cas_challenge \<Rightarrow> url \<Rightarrow> 'ue cas_error + string" where
  "finish_completion env c completion = parse_portal_ticket env completion (u_authority (cc_portal_url c))"

subsection \<open>Requests\<close>

definition endpoint_url ::
  "('n, 'te, 'se, 'je, 'ue, 're) auth_env \<Rightarrow> auth_client \<Rightarrow> string \<Rightarrow> ('te, 'se, 'je, 'ue, 're) auth_error + url" where
  "endpoint_url env c path =
     (case parse_url env (''https://'' @ auth_authority (cl_endpoint c) @ ''/'') of
        Inl e \<Rightarrow> Inl (InvalidUrl e)
      | Inr u \<Rightarrow> Inr (u\<lparr>u_path := path\<rparr>))"

definition append_shared_query :: "auth_client \<Rightarrow> url \<Rightarrow> url" where
  "append_shared_query c u = u\<lparr>u_query := u_query u @
     [(''clientType'', pf_client_type (cl_profile c)), (''platform'', pf_platform (cl_profile c)),
      (''lang'', pf_language (cl_profile c))]\<rparr>"

definition append_auth_headers ::
  "('n, 'te, 'se, 'je, 'ue, 're) auth_env \<Rightarrow> auth_client \<Rightarrow> string \<Rightarrow> auth_configuration \<Rightarrow> bool
    \<Rightarrow> http_request \<Rightarrow> http_request" where
  "append_auth_headers env c trace configuration include_rid request =
     request\<lparr>rq_headers := rq_headers request
       @ [(''user-agent'', pf_user_agent (cl_profile c))]
       @ (if rq_body request \<noteq> [] then [(''content-type'', ''application/json;charset=utf-8'')] else [])
       @ (if ac_csrf_token configuration \<noteq> [] then [(''x-csrf-token'', ac_csrf_token configuration)] else [])
       @ (if include_rid then [(''x-sdp-rid'', base64 env (as_bytes (auth_authority (cl_endpoint c))))] else [])
       @ [(''x-sdp-traceid'', trace)]\<rparr>"

text \<open>
  Sending a request and decoding the body of a successful reply, which every operation does;
  \<open>business\<close> also refuses a non-zero business code.
\<close>

definition send_decode ::
  "('n, 'te, 'se, 'je, 'ue, 're) auth_env \<Rightarrow> ('je \<Rightarrow> ('te, 'se, 'je, 'ue, 're) auth_error)
    \<Rightarrow> (bytes \<Rightarrow> 'je + 'a) \<Rightarrow> http_request \<Rightarrow> 'n \<Rightarrow> (('te, 'se, 'je, 'ue, 're) auth_error + 'a) \<times> 'n" where
  "send_decode env invalid decoder request net =
     (case execute env net request of
        (Inl e, net') \<Rightarrow> (Inl (AuthTransport e), net')
      | (Inr response, net') \<Rightarrow>
          (if \<not> is_success response then Inl (UnexpectedStatus (rs_status response))
           else case decoder (rs_body response) of Inl e \<Rightarrow> Inl (invalid e) | Inr a \<Rightarrow> Inr a, net'))"

definition business ::
  "('te, 'se, 'je, 'ue, 're) auth_error + 'd business_envelope \<Rightarrow> ('te, 'se, 'je, 'ue, 're) auth_error + 'd" where
  "business r =
     (case r of
        Inl e \<Rightarrow> Inl e
      | Inr envelope \<Rightarrow>
          if be_code envelope \<noteq> 0 then Inl (AuthenticationRejected (be_code envelope) (be_message envelope))
          else Inr (be_data envelope))"

definition json_body ::
  "'se + bytes \<Rightarrow> ('te, 'se, 'je, 'ue, 're) auth_error + bytes" where
  "json_body r = (case to_wire_json (\<lambda>_. r) () of Inl e \<Rightarrow> Inl (AuthProtocolJson e) | Inr b \<Rightarrow> Inr b)"

text \<open>\<open>?\<close> before any request: leave with the error and an untouched transport.\<close>

definition try_then :: "'e + 'a \<Rightarrow> 'n \<Rightarrow> ('a \<Rightarrow> ('e + 'b) \<times> 'n) \<Rightarrow> ('e + 'b) \<times> 'n" where
  "try_then r net f = (case r of Inl e \<Rightarrow> (Inl e, net) | Inr a \<Rightarrow> f a)"

definition client_auth_config ::
  "('n, 'te, 'se, 'je, 'ue, 're) auth_env \<Rightarrow> auth_client \<Rightarrow> string \<Rightarrow> auth_config_options \<Rightarrow> 'n
    \<Rightarrow> (('te, 'se, 'je, 'ue, 're) auth_error + auth_configuration) \<times> 'n" where
  "client_auth_config env c trace options net =
     try_then (endpoint_url env c ''/passport/v1/public/authConfig'') net (\<lambda>u.
       let u1 = append_shared_query c u;
           u2 = u1\<lparr>u_query := u_query u1
                  @ (if ao_modified options then [(''mod'', ''1'')] else [])
                  @ (if ao_need_ticket options then [(''needTicket'', ''1'')] else [])\<rparr>;
           request = (http_get u2)\<lparr>rq_headers :=
             [(''user-agent'', pf_user_agent (cl_profile c)),
              (''x-sdp-rid'', base64 env (as_bytes (auth_authority (cl_endpoint c)))),
              (''x-sdp-traceid'', trace)]\<rparr>
       in case send_decode env InvalidResponse (de_auth_config env) request net of
            (Inl e, net') \<Rightarrow> (Inl e, net')
          | (Inr envelope, net') \<Rightarrow>
              (if (case ae_code envelope of Some code \<Rightarrow> code \<noteq> 0 | None \<Rightarrow> False)
               then Inl (AuthenticationRejected (the (ae_code envelope)) (ae_message envelope))
               else case ae_data envelope of
                      None \<Rightarrow> Inl (InvalidResponse (je_custom env ''authConfig response is missing data''))
                    | Some data \<Rightarrow>
                        (case de_auth_config_data env data of
                           Inl e \<Rightarrow> Inl (InvalidResponse e)
                         | Inr d \<Rightarrow> Inr (auth_configuration_from d)), net'))"

definition prepare_cas ::
  "('n, 'te, 'se, 'je, 'ue, 're) auth_env \<Rightarrow> auth_client \<Rightarrow> auth_configuration \<Rightarrow> string
    \<Rightarrow> ('te, 'se, 'je, 'ue, 're) auth_error + cas_challenge" where
  "prepare_cas env c configuration login_domain =
     (case find (\<lambda>m. ai_auth_type m = ''auth/cas'' \<and> ai_login_domain m = login_domain) (ac_methods configuration) of
        None \<Rightarrow> Inl (AuthCas LoginDomainUnavailable)
      | Some m \<Rightarrow>
          (case cas_challenge_new env (cl_endpoint c) (ai_login_domain m) (ai_login_url m) of
             Inl e \<Rightarrow> Inl (AuthCas e)
           | Inr challenge \<Rightarrow> Inr challenge))"

definition exchange_cas_credential ::
  "('n, 'te, 'se, 'je, 'ue, 're) auth_env \<Rightarrow> auth_client \<Rightarrow> string \<Rightarrow> auth_configuration
    \<Rightarrow> cas_callback_credential \<Rightarrow> 'n \<Rightarrow> (('te, 'se, 'je, 'ue, 're) auth_error + string) \<times> 'n" where
  "exchange_cas_credential env c trace configuration credential net =
     (if cb_callback_authority credential \<noteq> auth_authority (cl_endpoint c)
      then (Inl CasCredentialGatewayMismatch, net)
      else try_then (endpoint_url env c CAS_CALLBACK_PATH) net (\<lambda>u.
        let u1 = u\<lparr>u_query := u_query u @ [(''sfDomain'', cb_login_domain credential),
                                          (''ticket'', cb_service_ticket credential)]\<rparr>;
            request = (http_get u1)\<lparr>rq_headers :=
              [(''user-agent'', pf_user_agent (cl_profile c)),
               (''x-csrf-token'', ac_csrf_token configuration), (''x-sdp-traceid'', trace)]\<rparr>
        in case execute env net request of
             (Inl e, net') \<Rightarrow> (Inl (AuthTransport e), net')
           | (Inr response, net') \<Rightarrow>
               (if rs_status response \<noteq> 302 then Inl (UnexpectedCasStatus (rs_status response))
                else case rs_location response of
                       None \<Rightarrow> Inl MissingCasRedirect
                     | Some location \<Rightarrow>
                         (case parse_url env location of
                            Inl e \<Rightarrow> Inl (InvalidCasRedirect e)
                          | Inr redirect \<Rightarrow>
                              (case parse_portal_ticket env redirect (auth_authority (cl_endpoint c)) of
                                 Inl e \<Rightarrow> Inl (from_portal_error e)
                               | Inr ticket \<Rightarrow> Inr ticket)), net')))"

text \<open>An authenticated request to \<open>path\<close>: a GET without a body, a POST with one.\<close>

definition auth_request ::
  "('n, 'te, 'se, 'je, 'ue, 're) auth_env \<Rightarrow> auth_client \<Rightarrow> string \<Rightarrow> auth_configuration \<Rightarrow> url \<Rightarrow> bytes option
    \<Rightarrow> http_request" where
  "auth_request env c trace configuration u body =
     append_auth_headers env c trace configuration False
       (case body of None \<Rightarrow> http_get (append_shared_query c u) | Some b \<Rightarrow> http_post (append_shared_query c u) b)"

definition client_report_env ::
  "('n, 'te, 'se, 'je, 'ue, 're) auth_env \<Rightarrow> auth_client \<Rightarrow> string \<Rightarrow> auth_configuration \<Rightarrow> string \<Rightarrow> string \<Rightarrow> 'n
    \<Rightarrow> (('te, 'se, 'je, 'ue, 're) auth_error + unit) \<times> 'n" where
  "client_report_env env c trace configuration portal_ticket device_id net =
     try_then (endpoint_url env c ''/controller/v1/public/reportEnv'') net (\<lambda>u.
     try_then (json_body (ser_report_env env (report_env_request_new portal_ticket device_id))) net (\<lambda>body.
       case send_decode env InvalidSessionResponse (de_value env)
              (auth_request env c trace configuration u (Some body)) net of
         (r, net') \<Rightarrow> (map_sum id (\<lambda>_. ()) (business r), net')))"

definition ticket_exchange ::
  "('n, 'te, 'se, 'je, 'ue, 're) auth_env \<Rightarrow> auth_client \<Rightarrow> string \<Rightarrow> auth_configuration \<Rightarrow> 'n
    \<Rightarrow> (('te, 'se, 'je, 'ue, 're) auth_error + string) \<times> 'n" where
  "ticket_exchange env c trace configuration net =
     try_then (endpoint_url env c ''/passport/v1/public/ticketExchange'') net (\<lambda>u.
     try_then (json_body (ser_ticket_exchange env ())) net (\<lambda>body.
       case send_decode env InvalidSessionResponse (de_sid_ticket env)
              (auth_request env c trace configuration u (Some body)) net of
         (r, net') \<Rightarrow>
           (case business r of
              Inl e \<Rightarrow> Inl e
            | Inr sid_ticket \<Rightarrow> if sid_ticket = [] then Inl MissingSidTicket else Inr sid_ticket, net')))"

definition session_id_exchange ::
  "('n, 'te, 'se, 'je, 'ue, 're) auth_env \<Rightarrow> auth_client \<Rightarrow> string \<Rightarrow> auth_configuration \<Rightarrow> string \<Rightarrow> 'n
    \<Rightarrow> (('te, 'se, 'je, 'ue, 're) auth_error + unit) \<times> 'n" where
  "session_id_exchange env c trace configuration sid_ticket net =
     try_then (endpoint_url env c ''/passport/v1/public/sessionIdExchange'') net (\<lambda>u.
     try_then (json_body (ser_session_id_exchange env sid_ticket)) net (\<lambda>body.
       case send_decode env InvalidSessionResponse (de_value env)
              (auth_request env c trace configuration u (Some body)) net of
         (r, net') \<Rightarrow> (map_sum id (\<lambda>_. ()) (business r), net')))"

definition auth_check ::
  "('n, 'te, 'se, 'je, 'ue, 're) auth_env \<Rightarrow> auth_client \<Rightarrow> string \<Rightarrow> auth_configuration \<Rightarrow> 'n
    \<Rightarrow> (('te, 'se, 'je, 'ue, 're) auth_error + auth_step) \<times> 'n" where
  "auth_check env c trace configuration net =
     try_then (endpoint_url env c ''/passport/v1/auth/authCheck'') net (\<lambda>u.
       case send_decode env InvalidSessionResponse (de_auth_step env)
              (auth_request env c trace configuration u None) net of
         (r, net') \<Rightarrow> (map_sum id auth_step_from_data (business r), net'))"

definition online_info ::
  "('n, 'te, 'se, 'je, 'ue, 're) auth_env \<Rightarrow> auth_client \<Rightarrow> string \<Rightarrow> auth_configuration \<Rightarrow> 'n
    \<Rightarrow> (('te, 'se, 'je, 'ue, 're) auth_error + string) \<times> 'n" where
  "online_info env c trace configuration net =
     try_then (endpoint_url env c ''/passport/v1/user/onlineInfo'') net (\<lambda>u.
       case send_decode env InvalidSessionResponse (de_online_info env)
              (auth_request env c trace configuration u None) net of
         (r, net') \<Rightarrow>
           (case business r of
              Inl e \<Rightarrow> Inl e
            | Inr username \<Rightarrow> if username = [] then Inl MissingOnlineUsername else Inr username, net'))"

text \<open>The trace ids of the up to four requests are \<open>traces 0\<close> to \<open>traces 3\<close>.\<close>

definition establish_session_from_portal ::
  "('n, 'te, 'se, 'je, 'ue, 're) auth_env \<Rightarrow> auth_client \<Rightarrow> (nat \<Rightarrow> string) \<Rightarrow> auth_configuration \<Rightarrow> string \<Rightarrow> string
    \<Rightarrow> 'n \<Rightarrow> (('te, 'se, 'je, 'ue, 're) auth_error + session_progress) \<times> 'n" where
  "establish_session_from_portal env c traces configuration portal_ticket device_id net =
     (case client_report_env env c (traces 0) configuration portal_ticket device_id net of
        (Inl e, n1) \<Rightarrow> (Inl e, n1)
      | (Inr u, n1) \<Rightarrow>
          (case auth_check env c (traces 1) configuration n1 of
             (Inl e, n2) \<Rightarrow> (Inl e, n2)
           | (Inr step, n2) \<Rightarrow>
               let finish = (\<lambda>n. case online_info env c (traces 3) configuration n of
                   (r, n') \<Rightarrow> (Inr (Established (case r of Inr name \<Rightarrow> Some name | Inl e \<Rightarrow> None) False), n'))
               in if step_is_complete step then finish n2
                  else if step_service step = ''auth/authCheck''
                  then (case auth_check env c (traces 2) configuration n2 of
                          (Inl e, n3) \<Rightarrow> (Inl e, n3)
                        | (Inr step2, n3) \<Rightarrow>
                            if step_is_complete step2 then finish n3
                            else (Inr (InteractionRequired (step_service step2) (step_auth_id step2)), n3))
                  else (Inr (InteractionRequired (step_service step) (step_auth_id step)), n2)))"

definition client_resource_body ::
  "('n, 'te, 'se, 'je, 'ue, 're) auth_env \<Rightarrow> auth_client \<Rightarrow> string \<Rightarrow> auth_configuration \<Rightarrow> 'n
    \<Rightarrow> (('te, 'se, 'je, 'ue, 're) auth_error + bytes) \<times> 'n" where
  "client_resource_body env c trace configuration net =
     try_then (endpoint_url env c ''/controller/v1/user/clientResource'') net (\<lambda>u.
     try_then (json_body (ser_resource_request env ())) net (\<lambda>body.
       case execute env net (auth_request env c trace configuration u (Some body)) of
         (Inl e, net') \<Rightarrow> (Inl (AuthTransport e), net')
       | (Inr response, net') \<Rightarrow>
           (if \<not> is_success response then Inl (UnexpectedStatus (rs_status response))
            else Inr (rs_body response), net')))"

definition client_resource ::
  "('n, 'te, 'se, 'je, 'ue, 're) auth_env \<Rightarrow> auth_client \<Rightarrow> string \<Rightarrow> auth_configuration \<Rightarrow> 'n
    \<Rightarrow> (('te, 'se, 'je, 'ue, 're) auth_error + client_resources) \<times> 'n" where
  "client_resource env c trace configuration net =
     (case client_resource_body env c trace configuration net of
        (Inl e, net') \<Rightarrow> (Inl e, net')
      | (Inr body, net') \<Rightarrow>
          (case parse_bytes (de_resources env) body of
             Inl e \<Rightarrow> Inl (AuthResource e)
           | Inr resources \<Rightarrow> Inr resources, net'))"

subsection \<open>Passwords\<close>

definition password_credentials_new ::
  "string \<Rightarrow> string \<Rightarrow> string \<Rightarrow> ('se, 're) password_error + password_credentials" where
  "password_credentials_new username password login_domain =
     (if username = [] then Inl EmptyUsername
      else if login_domain = [] then Inl EmptyLoginDomain
      else Inr \<lparr>pc_username = username, pc_password = password, pc_login_domain = login_domain\<rparr>)"

definition password_request_build ::
  "('n, 'te, 'se, 'je, 'ue, 're) auth_env \<Rightarrow> auth_configuration \<Rightarrow> password_credentials \<Rightarrow> string option
    \<Rightarrow> ('se, 're) password_error + bytes" where
  "password_request_build env configuration credentials graph_check_code =
     (case rsa_modulus env (ac_public_key configuration) of
        None \<Rightarrow> Inl InvalidPublicKey
      | Some modulus \<Rightarrow>
          (case parse_uint (2 ^ 64 - 1) (ac_public_key_exponent configuration) of
             None \<Rightarrow> Inl InvalidPublicKeyExponent
           | Some exponent \<Rightarrow>
               (case rsa_encrypt env modulus exponent of
                  Inl e \<Rightarrow> Inl (InvalidRsaKey e)
                | Inr encrypt \<Rightarrow>
                    (case encrypt (as_bytes (pc_password credentials @ ''_'' @ ac_anti_replay_random configuration)) of
                       Inl e \<Rightarrow> Inl (PasswordEncrypt e)
                     | Inr encrypted \<Rightarrow>
                         (case to_wire_json (ser_password env)
                            \<lparr>pr_username = pc_username credentials @ ''@'' @ pc_login_domain credentials,
                             pr_password = hex_lower encrypted, pr_remember_pwd = ''0'',
                             pr_graph_check_code = graph_check_code\<rparr> of
                            Inl e \<Rightarrow> Inl (PasswordSerialize e)
                          | Inr b \<Rightarrow> Inr b)))))"

definition authenticate_password ::
  "('n, 'te, 'se, 'je, 'ue, 're) auth_env \<Rightarrow> auth_client \<Rightarrow> string \<Rightarrow> auth_configuration \<Rightarrow> password_credentials
    \<Rightarrow> string \<Rightarrow> string option \<Rightarrow> 'n \<Rightarrow> (('te, 'se, 'je, 'ue, 're) auth_error + password_auth_outcome) \<times> 'n" where
  "authenticate_password env c trace configuration credentials device_id graph_check_code net =
     (if \<not> list_ex (\<lambda>m. ai_auth_type m = ''auth/psw'' \<and> ai_login_domain m = pc_login_domain credentials)
            (ac_methods configuration)
      then (Inl PasswordLoginDomainUnavailable, net)
      else try_then (endpoint_url env c ''/passport/v1/auth/psw'') net (\<lambda>u.
        try_then (map_sum AuthPassword id (password_request_build env configuration credentials graph_check_code)) net (\<lambda>body.
        try_then (json_body (ser_device_environment env device_id)) net (\<lambda>environment.
          let request = (http_post (append_shared_query c u) body)\<lparr>rq_headers :=
                [(''user-agent'', pf_user_agent (cl_profile c)),
                 (''content-type'', ''application/json;charset=utf-8''),
                 (''x-csrf-token'', ac_csrf_token configuration),
                 (''x-sdp-env'', base64 env environment), (''x-sdp-traceid'', trace)]\<rparr>
          in case send_decode env InvalidPasswordResponse (de_password env) request net of
               (Inl e, net') \<Rightarrow> (Inl e, net')
             | (Inr envelope, net') \<Rightarrow>
                 (let captcha_required = pd_graph_check_code_enable (be_data envelope) \<noteq> 0;
                      ticket = (if pd_ticket (be_data envelope) = [] then None else Some (pd_ticket (be_data envelope)))
                  in if be_code envelope \<noteq> 0 \<and> \<not> captcha_required
                     then Inl (AuthenticationRejected (be_code envelope) (be_message envelope))
                     else if ticket = None \<and> \<not> captcha_required then Inl MissingTicket
                     else Inr \<lparr>po_ticket = ticket, po_captcha_required = captcha_required\<rparr>, net')))))"

section \<open>What the operations send\<close>

lemmas auth_op_defs = try_then_def send_decode_def business_def

lemma cas_finish_iff:
  "cas_finish env c callback = Inr credential \<longleftrightarrow>
     length (url_text env callback) \<le> MAX_CALLBACK_URL_LENGTH \<and> is_callback_target c callback \<and>
     u_fragment callback = None \<and> u_username callback = [] \<and> u_password callback = None \<and>
     (\<exists>ticket. query_values callback ''ticket'' = [ticket] \<and> query_values callback ''sfDomain'' = [cc_login_domain c] \<and>
        ticket \<noteq> [] \<and> length ticket \<le> MAX_SERVICE_TICKET_LENGTH \<and>
        credential = \<lparr>cb_service_ticket = ticket, cb_login_domain = cc_login_domain c,
          cb_callback_authority = u_authority (cc_callback_url c)\<rparr>)"
  by (cases "query_values callback ''ticket''"; cases "query_values callback ''sfDomain''")
     (auto simp: cas_finish_def is_callback_target_def Let_def secret_string_new_def not_less split: if_splits)

text \<open>
  What the URL library is documented to do: the host of an \<open>https\<close> URL is normalised to lower
  case, and joining an absolute path keeps the authority.
\<close>

definition url_host_lowercased :: "('n, 'te, 'se, 'je, 'ue, 're) auth_env \<Rightarrow> gateway_endpoint \<Rightarrow> bool" where
  "url_host_lowercased env g \<longleftrightarrow>
     (\<forall>u. parse_url env (''https://'' @ auth_authority g @ ''/'') = Inr u \<longrightarrow>
        u_authority u = to_ascii_lowercase (auth_authority g) \<and>
        (\<forall>path v. url_join env u (CHR ''/'' # path) = Inr v \<longrightarrow> u_authority v = u_authority u))"

lemma challenge_authority:
  assumes "prepare_cas env c configuration login_domain = Inr challenge"
    and "url_host_lowercased env (cl_endpoint c)"
  shows "u_authority (cc_callback_url challenge) = to_ascii_lowercase (auth_authority (cl_endpoint c))"
    and "u_authority (cc_portal_url challenge) = to_ascii_lowercase (auth_authority (cl_endpoint c))"
proof -
  from assms(1) have "\<exists>m :: auth_info. cas_challenge_new env (cl_endpoint c) (ai_login_domain m) (ai_login_url m) = Inr challenge"
    unfolding prepare_cas_def by (simp split: option.splits sum.splits) blast
  then obtain u cb pt where u: "parse_url env (''https://'' @ auth_authority (cl_endpoint c) @ ''/'') = Inr u"
      "url_join env u CAS_CALLBACK_PATH = Inr cb" "url_join env u PORTAL_COMPLETION_PATH = Inr pt"
      "cc_callback_url challenge = cb" "cc_portal_url challenge = pt"
    by (auto simp: cas_challenge_new_def split: if_splits sum.splits)
  with assms(2) show "u_authority (cc_callback_url challenge) = to_ascii_lowercase (auth_authority (cl_endpoint c))"
    and "u_authority (cc_portal_url challenge) = to_ascii_lowercase (auth_authority (cl_endpoint c))"
    by (auto simp: url_host_lowercased_def CAS_CALLBACK_PATH_def PORTAL_COMPLETION_PATH_def)
qed

section \<open>Properties\<close>

text \<open>
  C28: safety. A CAS service ticket goes to the gateway it was issued for and to no other. When a
  callback is accepted for a challenge of one gateway, an exchange at a client of any gateway sends
  nothing unless the authority is that of the challenge; and it is refused as foreign in every
  other case.
\<close>

theorem cas_ticket_only_to_its_gateway:
  assumes "cas_finish env challenge callback = Inr credential"
    and "exchange_cas_credential env c trace configuration credential net = (r, net')"
    and "u_authority (cc_callback_url challenge) \<noteq> auth_authority (cl_endpoint c)"
  shows "r = Inl CasCredentialGatewayMismatch \<and> net' = net \<and>
    cb_callback_authority credential = u_authority callback"
  using assms by (auto simp: cas_finish_iff exchange_cas_credential_def is_callback_target_def)


text \<open>
  functional. A portal ticket becomes an established session only when the gateway asks for
  nothing more: the environment report was accepted, and the authentication check named no further
  service, at once or, when it only named itself, at the one repetition. Any other service is
  handed back for a person to deal with, and is never empty.
\<close>

theorem session_established_only_when_complete:
  assumes "establish_session_from_portal env c traces configuration ticket device_id net = (Inr progress, net')"
  shows "\<exists>n1 step n2. client_report_env env c (traces 0) configuration ticket device_id net = (Inr (), n1) \<and>
    auth_check env c (traces 1) configuration n1 = (Inr step, n2) \<and>
    (case progress of
       Established name sid \<Rightarrow> step_service step = [] \<or>
         step_service step = ''auth/authCheck'' \<and>
         (\<exists>last n3. auth_check env c (traces 2) configuration n2 = (Inr last, n3) \<and> step_service last = [])
     | InteractionRequired service auth_id \<Rightarrow> service \<noteq> [] \<and>
         (step_service step = service \<and> step_auth_id step = auth_id \<and> net' = n2 \<and> service \<noteq> ''auth/authCheck'' \<or>
          step_service step = ''auth/authCheck'' \<and>
          auth_check env c (traces 2) configuration n2 = (Inr \<lparr>step_service = service, step_auth_id = auth_id\<rparr>, net')))"
proof -
  obtain r1 n1 where r1: "client_report_env env c (traces 0) configuration ticket device_id net = (r1, n1)" by force
  obtain r2 n2 where r2: "auth_check env c (traces 1) configuration n1 = (r2, n2)" by force
  obtain r3 n3 where r3: "auth_check env c (traces 2) configuration n2 = (r3, n3)" by force
  from assms r1 r2 obtain step where step: "r1 = Inr ()" "r2 = Inr step"
    by (auto simp: establish_session_from_portal_def split: sum.splits)
  consider (complete) "step_service step = []"
    | (again) "step_service step = ''auth/authCheck''"
    | (other) "step_service step \<noteq> []" "step_service step \<noteq> ''auth/authCheck''" by blast
  then show ?thesis
  proof cases
    case complete
    with assms r1 r2 step show ?thesis
      by (auto simp: establish_session_from_portal_def step_is_complete_def split: prod.splits)
  next
    case again
    then have no: "\<not> step_is_complete step" by (simp add: step_is_complete_def)
    from assms r1 r2 r3 step again no obtain step2 where s2: "r3 = Inr step2"
      by (auto simp: establish_session_from_portal_def split: sum.splits)
    with assms r1 r2 r3 step again no show ?thesis
      by (cases "step_is_complete step2")
         (auto simp: establish_session_from_portal_def step_is_complete_def split: prod.splits)
  next
    case other
    with assms r1 r2 step show ?thesis
      by (auto simp: establish_session_from_portal_def step_is_complete_def)
  qed
qed

subsection \<open>A concrete gateway\<close>

text \<open>
  A transport that counts its requests and answers each with success, a URL library that reads
  the host in lower case, and decoders that report a finished authentication.
\<close>

definition sample_url :: "string \<Rightarrow> string \<Rightarrow> url" where
  "sample_url authority path = \<lparr>u_scheme = ''https'', u_authority = authority, u_username = [], u_password = None,
     u_path = path, u_query = [], u_fragment = None\<rparr>"

definition sample_env :: "(nat, unit, unit, unit, unit, unit) auth_env" where
  "sample_env = \<lparr>execute = (\<lambda>n rq. (Inr \<lparr>rs_status = 200, rs_location = None, rs_body = []\<rparr>, Suc n)),
     parse_url = (\<lambda>s. Inr (sample_url (to_ascii_lowercase (takeWhile (\<lambda>c. c \<noteq> CHR ''/'') (drop 8 s))) ''/'')),
     url_join = (\<lambda>u s. Inr (u\<lparr>u_path := s\<rparr>)), url_text = (\<lambda>u. u_authority u @ u_path u), base64 = (\<lambda>b. []),
     ser_report_env = (\<lambda>_. Inr [1]), ser_ticket_exchange = (\<lambda>_. Inr [1]), ser_session_id_exchange = (\<lambda>_. Inr [1]),
     ser_resource_request = (\<lambda>_. Inr [1]), ser_device_environment = (\<lambda>_. Inr [1]), ser_password = (\<lambda>_. Inr [1]),
     je_custom = (\<lambda>_. ()), de_auth_config = (\<lambda>_. Inl ()), de_auth_config_data = (\<lambda>_. Inl ()),
     de_value = (\<lambda>_. Inr \<lparr>be_code = 0, be_message = [], be_data = JNull\<rparr>), de_sid_ticket = (\<lambda>_. Inl ()),
     de_auth_step = (\<lambda>_. Inr \<lparr>be_code = 0, be_message = [],
        be_data = \<lparr>st_next_service = [], st_next_service_list = []\<rparr>\<rparr>),
     de_online_info = (\<lambda>_. Inr \<lparr>be_code = 0, be_message = [], be_data = ''u''\<rparr>), de_password = (\<lambda>_. Inl ()),
     de_portal_data = (\<lambda>_. Inl ()), de_resources = (\<lambda>_. Inl []), rsa_modulus = (\<lambda>_. None), rsa_encrypt = (\<lambda>_ _. Inl ())\<rparr>"

definition sample_configuration :: auth_configuration where
  "sample_configuration = \<lparr>ac_login_state = LoggedIn,
     ac_methods = [\<lparr>ai_login_domain = ''d'', ai_auth_type = ''auth/cas'', ai_auth_name = [], ai_login_url = ''/cas''\<rparr>],
     ac_csrf_token = [], ac_public_key = [], ac_public_key_exponent = [], ac_anti_replay_random = []\<rparr>"

definition sample_client :: "string \<Rightarrow> auth_client" where
  "sample_client host = auth_client_new \<lparr>ge_host = host, ge_port = 443\<rparr>"

definition sample_callback :: url where
  "sample_callback = (sample_url ''gw'' CAS_CALLBACK_PATH)\<lparr>u_query := [(''sfDomain'', ''d''), (''ticket'', ''t'')]\<rparr>"

definition sample_challenge :: cas_challenge where
  "sample_challenge = \<lparr>cc_login_url = sample_url ''gw'' ''/cas'', cc_login_domain = ''d'',
     cc_callback_url = sample_url ''gw'' CAS_CALLBACK_PATH, cc_portal_url = sample_url ''gw'' PORTAL_COMPLETION_PATH\<rparr>"

definition sample_credential :: cas_callback_credential where
  "sample_credential = \<lparr>cb_service_ticket = ''t'', cb_login_domain = ''d'', cb_callback_authority = ''gw''\<rparr>"

lemma sample_lowercase: "to_ascii_lowercase ''GW'' = ''gw''"
  by code_simp

lemma sample_prepare: "prepare_cas sample_env (sample_client ''GW'') sample_configuration ''d'' = Inr sample_challenge"
  by (simp add: prepare_cas_def cas_challenge_new_def sample_env_def sample_client_def auth_client_new_def
      auth_authority_def bracketed_def sample_configuration_def sample_challenge_def sample_url_def
      sample_lowercase CAS_CALLBACK_PATH_def PORTAL_COMPLETION_PATH_def)

lemma sample_finish: "cas_finish sample_env sample_challenge sample_callback = Inr sample_credential"
  by (simp add: cas_finish_iff is_callback_target_def sample_challenge_def sample_callback_def sample_url_def
      sample_env_def sample_credential_def query_values_def CAS_CALLBACK_PATH_def MAX_CALLBACK_URL_LENGTH_def
      MAX_SERVICE_TICKET_LENGTH_def)

theorem cas_ticket_only_to_its_gateway_witness:
  "exchange_cas_credential sample_env (sample_client ''other'') ''00'' sample_configuration sample_credential 5 =
     (Inl CasCredentialGatewayMismatch, 5)"
proof -
  have "u_authority (cc_callback_url sample_challenge) \<noteq> auth_authority (cl_endpoint (sample_client ''other''))"
    by (simp add: sample_challenge_def sample_url_def auth_authority_def sample_client_def auth_client_new_def bracketed_def)
  from cas_ticket_only_to_its_gateway [OF sample_finish surjective_pairing this] show ?thesis
    by (simp add: prod_eq_iff)
qed


theorem session_established_only_when_complete_witness:
  "establish_session_from_portal sample_env (sample_client ''gw'') (\<lambda>_. ''00'') sample_configuration ''t'' ''dev'' 0 =
     (Inr (Established (Some ''u'') False), 3) \<and>
   (\<exists>n1 step n2. auth_check sample_env (sample_client ''gw'') ''00'' sample_configuration n1 = (Inr step, n2) \<and>
      (step_service step = [] \<or> step_service step = ''auth/authCheck''))"
proof -
  have run: "establish_session_from_portal sample_env (sample_client ''gw'') (\<lambda>_. ''00'') sample_configuration ''t'' ''dev'' 0 =
      (Inr (Established (Some ''u'') False), 3)"
    by (simp add: establish_session_from_portal_def client_report_env_def auth_check_def online_info_def auth_op_defs
        endpoint_url_def json_body_def to_wire_json_def sample_env_def is_success_def step_is_complete_def
        auth_step_from_data_def)
  with session_established_only_when_complete [OF run] show ?thesis by auto
qed

end
