(* ===== verification/Candidate_Index.thy ===== *)
theory Candidate_Index
  imports Resource "HOL-Library.Sublist"
begin

text \<open>
  \<open>crates/atrust-auth/src/index.rs\<close>: the two indexes over the sorted resource tables, an interval
  tree for addresses and a trie of reversed names for domains. Both report the least index an
  acceptance test admits. The locale \<open>candidate_index\<close> states what the routing table relies on,
  and both structures interpret it.
\<close>

section \<open>The least accepted index\<close>

definition pick :: "(nat \<Rightarrow> bool) \<Rightarrow> nat \<Rightarrow> nat option \<Rightarrow> nat option" where
  "pick accept i best =
     (if (case best of None \<Rightarrow> True | Some b \<Rightarrow> i < b) \<and> accept i then Some i else best)"

definition least :: "nat set \<Rightarrow> nat option" where
  "least S = (if S = {} then None else Some (Min S))"

lemma least_empty [simp]: "least {} = None"
  by (simp add: least_def)

lemma least_None_iff [simp]: "least S = None \<longleftrightarrow> S = {}"
  by (simp add: least_def)

lemma least_Some_iff: "finite S \<Longrightarrow> least S = Some i \<longleftrightarrow> i \<in> S \<and> (\<forall>j\<in>S. i \<le> j)"
  by (auto simp: least_def Min_eq_iff intro: Min_in)

lemma pick_least:
  assumes "finite S"
  shows "pick accept i (least S) = least (S \<union> {j. j = i \<and> accept j})"
proof (cases "accept i")
  case True
  then have "S \<union> {j. j = i \<and> accept j} = insert i S" by auto
  moreover have "pick accept i (Some m) = Some (min i m)" for m
    using True by (auto simp: pick_def)
  moreover have "least (insert i S) = (if S = {} then Some i else Some (min i (Min S)))"
    using assms by (simp add: least_def)
  ultimately show ?thesis using True by (cases "S = {}") (simp_all add: least_def pick_def [of _ _ None])
qed (auto simp: pick_def intro: arg_cong [where f = least])

section \<open>The interface of an index\<close>

text \<open>
  An index holds entry numbers; \<open>covers d q\<close> are the entries stored where a lookup for \<open>q\<close> looks.
  A lookup returns the least covered entry the test accepts. A client whose table is numbered in
  order of preference therefore finds the first acceptable entry of the table, provided the index
  covers every acceptable entry.
\<close>

locale candidate_index =
  fixes wf :: "'d \<Rightarrow> bool"
    and lookup :: "'d \<Rightarrow> 'q \<Rightarrow> (nat \<Rightarrow> bool) \<Rightarrow> nat option"
    and covers :: "'d \<Rightarrow> 'q \<Rightarrow> nat set"
  assumes covers_finite: "finite (covers d q)"
    and lookup_least: "wf d \<Longrightarrow> lookup d q accept = least {i \<in> covers d q. accept i}"
begin

lemma lookup_None: "wf d \<Longrightarrow> lookup d q accept = None \<longleftrightarrow> (\<forall>i\<in>covers d q. \<not> accept i)"
  by (auto simp: lookup_least)

lemma lookup_Some:
  "wf d \<Longrightarrow> lookup d q accept = Some i \<longleftrightarrow>
     i \<in> covers d q \<and> accept i \<and> (\<forall>j\<in>covers d q. accept j \<longrightarrow> i \<le> j)"
  by (auto simp: lookup_least least_Some_iff covers_finite)

lemma lookup_first:
  assumes "wf d" and within: "covers d q \<subseteq> {..<length xs}"
    and complete: "\<And>i. i < length xs \<Longrightarrow> P (xs ! i) \<Longrightarrow> i \<in> covers d q"
  shows "map_option (nth xs) (lookup d q (\<lambda>i. P (xs ! i))) = find P xs"
proof (cases "lookup d q (\<lambda>i. P (xs ! i))")
  case None
  then have "\<not> P (xs ! i)" if "i < length xs" for i
    using assms(1) complete that by (auto simp: lookup_None)
  then have "find P xs = None" by (auto simp: find_None_iff in_set_conv_nth)
  with None show ?thesis by simp
next
  case (Some i)
  then have i: "i < length xs" "P (xs ! i)" and least: "\<And>j. j \<in> covers d q \<Longrightarrow> P (xs ! j) \<Longrightarrow> i \<le> j"
    using assms(1) within by (auto simp: lookup_Some)
  have "\<not> P (xs ! j)" if "j < i" for j
    using complete [of j] least [of j] that i(1) by fastforce
  then have "find P xs = Some (xs ! i)" using i by (auto simp: find_Some_iff)
  with Some show ?thesis by simp
qed

end

section \<open>The interval tree\<close>

datatype ip_node = IpNode
  (in_index: nat) (in_start: u32) (in_end: u32) (in_max_end: u32)
  (in_left: "ip_node option") (in_right: "ip_node option")

fun from_sorted :: "nat list \<Rightarrow> ip_resource list \<Rightarrow> ip_node option" where
  "from_sorted indices resources =
     (if indices = [] then None
      else let mid = length indices div 2;
               index = indices ! mid;
               left = from_sorted (take mid indices) resources;
               right = from_sorted (drop (mid + 1) indices) resources;
               start = ipv4_u32 (ir_ip_min (resources ! index));
               stop = ipv4_u32 (ir_ip_max (resources ! index));
               max_end = max (max stop (case left of None \<Rightarrow> 0 | Some n \<Rightarrow> in_max_end n))
                             (case right of None \<Rightarrow> 0 | Some n \<Rightarrow> in_max_end n)
           in Some (IpNode index start stop max_end left right))"

declare from_sorted.simps [simp del]

definition ip_node_build :: "ip_resource list \<Rightarrow> ip_node option" where
  "ip_node_build resources =
     from_sorted (sort_key (\<lambda>i. ipv4_u32 (ir_ip_min (resources ! i))) [0..<length resources]) resources"

text \<open>\<open>find\<close>, threading \<open>best\<close>; an absent child leaves it as it is.\<close>

fun ip_node_find :: "ip_node option \<Rightarrow> u32 \<Rightarrow> (nat \<Rightarrow> bool) \<Rightarrow> nat option \<Rightarrow> nat option" where
  "ip_node_find None ip accept best = best"
| "ip_node_find (Some (IpNode index start stop max_end left right)) ip accept best =
     (if ip > max_end then best
      else let best1 = ip_node_find left ip accept best;
               best2 = (if start \<le> ip \<and> ip \<le> stop then pick accept index best1 else best1)
           in if start \<le> ip then ip_node_find right ip accept best2 else best2)"

text \<open>The tree's entries in order, and its shape: starts in order, ends below the node's bound.\<close>

fun ip_entries :: "ip_node option \<Rightarrow> (nat \<times> u32 \<times> u32) list" where
  "ip_entries None = []"
| "ip_entries (Some (IpNode index start stop max_end left right)) =
     ip_entries left @ (index, start, stop) # ip_entries right"

fun ip_bounded :: "ip_node option \<Rightarrow> bool" where
  "ip_bounded None = True"
| "ip_bounded (Some (IpNode index start stop max_end left right)) =
     ((\<forall>x \<in> set (ip_entries (Some (IpNode index start stop max_end left right))). snd (snd x) \<le> max_end)
      \<and> ip_bounded left \<and> ip_bounded right)"

definition ip_wf :: "ip_node option \<Rightarrow> bool" where
  "ip_wf t = (ip_bounded t \<and> sorted (map (fst \<circ> snd) (ip_entries t)))"

definition ip_covers :: "ip_node option \<Rightarrow> u32 \<Rightarrow> nat set" where
  "ip_covers t ip = {i. \<exists>s e. (i, s, e) \<in> set (ip_entries t) \<and> s \<le> ip \<and> ip \<le> e}"

lemma ip_covers_finite: "finite (ip_covers t ip)"
  by (rule finite_subset [of _ "fst ` set (ip_entries t)"]) (force simp: ip_covers_def)+

lemma ip_covers_node:
  "ip_covers (Some (IpNode index start stop max_end left right)) ip =
     ip_covers left ip \<union> {i. i = index \<and> start \<le> ip \<and> ip \<le> stop} \<union> ip_covers right ip"
  by (auto simp: ip_covers_def)

lemma ip_wf_children:
  assumes "ip_wf (Some (IpNode index start stop max_end left right))"
  shows "ip_wf left" "ip_wf right"
    and "\<And>i s e. (i, s, e) \<in> set (ip_entries right) \<Longrightarrow> start \<le> s"
  using assms by (auto simp: ip_wf_def sorted_append)

lemma ip_covers_beyond:
  assumes "ip_wf (Some (IpNode index start stop max_end left right))" (is "ip_wf ?t") and "max_end < ip"
  shows "ip_covers ?t ip = {}"
proof -
  have "e \<le> max_end" if "(i, s, e) \<in> set (ip_entries ?t)" for i s e
    using assms(1) that unfolding ip_wf_def ip_bounded.simps by fastforce
  then show ?thesis using assms(2) unfolding ip_covers_def by force
qed

lemma ip_node_find_least:
  "ip_wf t \<Longrightarrow> finite S \<Longrightarrow>
     ip_node_find t ip accept (least S) = least (S \<union> {i \<in> ip_covers t ip. accept i})"
proof (induction t ip accept "least S" arbitrary: S rule: ip_node_find.induct)
  case (1 ip accept)
  then show ?case by (simp add: ip_covers_def)
next
  case (2 index start stop max_end left right ip accept)
  note ch = ip_wf_children [OF 2(3)]
  show ?case
  proof (cases "max_end < ip")
    case True
    then show ?thesis using ip_covers_beyond [OF 2(3)] by simp
  next
    case False
    let ?L = "S \<union> {i \<in> ip_covers left ip. accept i}"
    let ?M = "?L \<union> {i. i = index \<and> start \<le> ip \<and> ip \<le> stop \<and> accept i}"
    have fin: "finite ?L" "finite ?M" using 2(4) by (simp_all add: ip_covers_finite)
    have left: "ip_node_find left ip accept (least S) = least ?L"
      using 2(1) False ch(1) 2(4) by blast
    have mid: "(if start \<le> ip \<and> ip \<le> stop then pick accept index (least ?L) else least ?L) = least ?M"
      using pick_least [OF fin(1), of accept index] by (auto intro: arg_cong [where f = least])
    show ?thesis
    proof (cases "start \<le> ip")
      case True
      have "ip_node_find right ip accept (least ?M) = least (?M \<union> {i \<in> ip_covers right ip. accept i})"
        by (rule 2(2)) (use False True left mid ch(2) fin(2) in auto)
      then show ?thesis using False True left mid
        by (simp add: Let_def ip_covers_node) (auto intro: arg_cong [where f = least])
    next
      case start: False
      then have "ip_covers right ip = {}" using ch(3) by (fastforce simp: ip_covers_def)
      then show ?thesis using False start left mid by (simp add: Let_def ip_covers_node)
    qed
  qed
qed

interpretation ip_index: candidate_index ip_wf "\<lambda>t ip accept. ip_node_find t ip accept None" ip_covers
proof
  show "finite (ip_covers d q)" for d q by (rule ip_covers_finite)
  show "ip_node_find d q accept None = least {i \<in> ip_covers d q. accept i}" if "ip_wf d" for d q accept
    using ip_node_find_least [OF that, of "{}" q accept] by simp
qed

lemma max_end_bounds:
  "ip_bounded t \<Longrightarrow> (i, s, e) \<in> set (ip_entries t) \<Longrightarrow> e \<le> (case t of None \<Rightarrow> 0 | Some n \<Rightarrow> in_max_end n)"
  by (cases t rule: ip_bounded.cases) (auto simp: ball_Un)

definition ip_span :: "ip_resource list \<Rightarrow> nat \<Rightarrow> nat \<times> u32 \<times> u32" where
  "ip_span resources i = (i, ipv4_u32 (ir_ip_min (resources ! i)), ipv4_u32 (ir_ip_max (resources ! i)))"

lemma from_sorted_entries: "ip_entries (from_sorted indices resources) = map (ip_span resources) indices"
proof (induction indices resources rule: from_sorted.induct)
  case (1 indices resources)
  show ?case
  proof (cases "indices = []")
    case False
    then have "indices = take (length indices div 2) indices @ indices ! (length indices div 2)
        # drop (length indices div 2 + 1) indices"
      by (simp add: id_take_nth_drop)
    from arg_cong [OF this, of "map (ip_span resources)"] show ?thesis
      using 1 False by (subst from_sorted.simps) (simp add: Let_def ip_span_def)
  qed (simp add: from_sorted.simps)
qed

lemma from_sorted_bounded: "ip_bounded (from_sorted indices resources)"
proof (induction indices resources rule: from_sorted.induct)
  case (1 indices resources)
  show ?case
  proof (cases "indices = []")
    case False
    then show ?thesis using 1 max_end_bounds [OF 1(1)] max_end_bounds [OF 1(2)]
      by (subst from_sorted.simps) (fastforce simp: Let_def le_max_iff_disj)
  qed (simp add: from_sorted.simps)
qed

lemma ip_node_build_entries: "set (ip_entries (ip_node_build resources)) = ip_span resources ` {..<length resources}"
  by (simp add: ip_node_build_def from_sorted_entries lessThan_atLeast0)

lemma ip_node_build_wf: "ip_wf (ip_node_build resources)"
proof -
  have "fst \<circ> snd \<circ> ip_span resources = (\<lambda>i. ipv4_u32 (ir_ip_min (resources ! i)))"
    by (rule ext) (simp add: ip_span_def)
  then show ?thesis
    unfolding ip_wf_def ip_node_build_def from_sorted_entries map_map by (simp add: from_sorted_bounded)
qed

lemma ip_node_build_covers:
  "ip_covers (ip_node_build resources) ip =
     {i. i < length resources \<and> ipv4_u32 (ir_ip_min (resources ! i)) \<le> ip \<and> ip \<le> ipv4_u32 (ir_ip_max (resources ! i))}"
  by (auto simp: ip_covers_def ip_node_build_entries ip_span_def)

section \<open>The trie of reversed names\<close>

datatype domain_node = DomainNode (dn_children: "char \<Rightarrow> domain_node option") (dn_entries: "nat list")

definition domain_node_default :: domain_node where
  "domain_node_default = DomainNode (\<lambda>_. None) []"

fun insert_bytes :: "string \<Rightarrow> nat \<Rightarrow> domain_node \<Rightarrow> domain_node" where
  "insert_bytes [] index (DomainNode children entries) = DomainNode children (entries @ [index])"
| "insert_bytes (byte # rest) index (DomainNode children entries) =
     DomainNode (children(byte \<mapsto> insert_bytes rest index
       (case children byte of None \<Rightarrow> domain_node_default | Some node \<Rightarrow> node))) entries"

definition domain_node_insert :: "domain_node \<Rightarrow> string \<Rightarrow> nat \<Rightarrow> domain_node" where
  "domain_node_insert node name index = insert_bytes (rev name) index node"

fun find_loop :: "string \<Rightarrow> domain_node \<Rightarrow> (nat \<Rightarrow> bool) \<Rightarrow> nat option \<Rightarrow> nat option" where
  "find_loop bytes (DomainNode children entries) accept best =
     (let best = fold (pick accept) entries best
      in case bytes of
           [] \<Rightarrow> best
         | byte # rest \<Rightarrow>
             (case children byte of None \<Rightarrow> best | Some child \<Rightarrow> find_loop rest child accept best))"

definition domain_node_find :: "domain_node \<Rightarrow> string \<Rightarrow> (nat \<Rightarrow> bool) \<Rightarrow> nat option" where
  "domain_node_find node host accept = find_loop (rev host) node accept None"

text \<open>The entries stored at a path, and those on the way to it.\<close>

fun entries_at :: "string \<Rightarrow> domain_node \<Rightarrow> nat list" where
  "entries_at [] (DomainNode children entries) = entries"
| "entries_at (byte # rest) (DomainNode children entries) =
     (case children byte of None \<Rightarrow> [] | Some child \<Rightarrow> entries_at rest child)"

definition domain_covers :: "domain_node \<Rightarrow> string \<Rightarrow> nat set" where
  "domain_covers node host = (\<Union>p \<in> set (prefixes (rev host)). set (entries_at p node))"

lemma entries_at_default [simp]: "entries_at p domain_node_default = []"
  by (cases p) (simp_all add: domain_node_default_def)

lemma entries_at_insert_bytes:
  "entries_at q (insert_bytes p index node) = entries_at q node @ (if q = p then [index] else [])"
proof (induction p index node arbitrary: q rule: insert_bytes.induct)
  case (1 index children entries)
  then show ?case by (cases q) auto
next
  case (2 byte rest index children entries)
  show ?case
  proof (cases q)
    case (Cons b q')
    with 2 [of q'] show ?thesis by (cases "children byte") auto
  qed simp
qed

lemma fold_pick_least:
  "finite S \<Longrightarrow> fold (pick accept) is (least S) = least (S \<union> {i \<in> set is. accept i})"
proof (induction "is" arbitrary: S)
  case (Cons i "is")
  have "fold (pick accept) is (least (S \<union> {j. j = i \<and> accept j}))
      = least (S \<union> {j. j = i \<and> accept j} \<union> {j \<in> set is. accept j})"
    using Cons by simp
  then show ?case using Cons(2) by (simp add: pick_least) (auto intro: arg_cong [where f = least])
qed simp

definition path_covers :: "domain_node \<Rightarrow> string \<Rightarrow> nat set" where
  "path_covers node path = (\<Union>p \<in> set (prefixes path). set (entries_at p node))"

lemma path_covers_simps:
  "path_covers (DomainNode children entries) [] = set entries"
  "path_covers (DomainNode children entries) (b # path) =
     set entries \<union> (case children b of None \<Rightarrow> {} | Some child \<Rightarrow> path_covers child path)"
  by (auto simp: path_covers_def split: option.splits)

lemma path_covers_finite: "finite (path_covers node path)"
  by (simp add: path_covers_def)

lemma find_loop_least:
  "finite S \<Longrightarrow> find_loop path node accept (least S) = least (S \<union> {i \<in> path_covers node path. accept i})"
proof (induction path arbitrary: node S)
  case Nil
  then show ?case by (cases node) (simp add: fold_pick_least path_covers_simps)
next
  case (Cons b path)
  obtain children entries where node: "node = DomainNode children entries" by (cases node)
  let ?S = "S \<union> {i \<in> set entries. accept i}"
  show ?case
  proof (cases "children b")
    case None
    then show ?thesis using Cons(2) by (simp add: node fold_pick_least path_covers_simps)
  next
    case (Some child)
    have "find_loop path child accept (least ?S) = least (?S \<union> {i \<in> path_covers child path. accept i})"
      using Cons by simp
    then show ?thesis using Cons(2) Some
      by (simp add: node fold_pick_least path_covers_simps) (auto intro: arg_cong [where f = least])
  qed
qed

interpretation domain_index: candidate_index "\<lambda>_. True" domain_node_find domain_covers
proof
  show "finite (domain_covers d q)" for d q by (simp add: domain_covers_def)
  show "domain_node_find d q accept = least {i \<in> domain_covers d q. accept i}" for d q accept
    using find_loop_least [of "{}" "rev q" d accept]
    by (simp add: domain_node_find_def domain_covers_def path_covers_def)
qed

end
