(* ===== verification/Routing.thy ===== *)
theory Routing
  imports Candidate_Index "HOL-Library.Product_Lexorder"
begin

text \<open>
  \<open>crates/atrust-auth/src/routing.rs\<close>: which published resource authorizes a destination. The
  tables are sorted once by specificity (a stable sort, so the gateway's order breaks ties) and
  queried through the indexes of \<open>Candidate_Index\<close>.
\<close>

section \<open>Flows\<close>

datatype flow_protocol = FpTcp | FpUdp | FpIcmp

primrec protocol_number :: "flow_protocol \<Rightarrow> byte" where
  "protocol_number FpTcp = 6"
| "protocol_number FpUdp = 17"
| "protocol_number FpIcmp = 1"

definition protocol_from_number :: "byte \<Rightarrow> flow_protocol option" where
  "protocol_from_number v =
     (if v = 6 then Some FpTcp else if v = 17 then Some FpUdp else if v = 1 then Some FpIcmp else None)"

primrec protocol_as_str :: "flow_protocol \<Rightarrow> string" where
  "protocol_as_str FpTcp = ''tcp''"
| "protocol_as_str FpUdp = ''udp''"
| "protocol_as_str FpIcmp = ''icmp''"

definition flow_protocol_parse :: "string \<Rightarrow> flow_protocol option" where
  "flow_protocol_parse v =
     (let s = to_ascii_lowercase v in
      if s = ''tcp'' then Some FpTcp else if s = ''udp'' then Some FpUdp
      else if s = ''icmp'' then Some FpIcmp else None)"

definition has_ports :: "flow_protocol \<Rightarrow> bool" where
  "has_ports p = (p \<noteq> FpIcmp)"

lemma protocol_number_inverse [simp]: "protocol_from_number (protocol_number p) = Some p"
  by (cases p) (simp_all add: protocol_from_number_def)

record route_key =
  rk_destination :: ipv4
  rk_port :: u16
  rk_protocol :: flow_protocol

definition route_key_tcp :: "ipv4 \<Rightarrow> u16 \<Rightarrow> route_key" where
  "route_key_tcp destination port = \<lparr>rk_destination = destination, rk_port = port, rk_protocol = FpTcp\<rparr>"

definition route_key_udp :: "ipv4 \<Rightarrow> u16 \<Rightarrow> route_key" where
  "route_key_udp destination port = \<lparr>rk_destination = destination, rk_port = port, rk_protocol = FpUdp\<rparr>"

definition route_key_icmp :: "ipv4 \<Rightarrow> route_key" where
  "route_key_icmp destination = \<lparr>rk_destination = destination, rk_port = 0, rk_protocol = FpIcmp\<rparr>"

record domain_flow =
  df_host :: string
  df_port :: u16
  df_protocol :: flow_protocol

datatype destination = DestIp ip_resource | DestDomain domain_resource

record matched_resource =
  mr_app_id :: string
  mr_node_group_id :: string
  mr_tcp_prefers_l3 :: bool
  mr_addr_pretend :: bool

primrec dest_app_id :: "destination \<Rightarrow> string" where
  "dest_app_id (DestIp r) = ir_app_id r"
| "dest_app_id (DestDomain r) = dr_app_id r"

primrec dest_node_group_id :: "destination \<Rightarrow> string" where
  "dest_node_group_id (DestIp r) = ir_node_group_id r"
| "dest_node_group_id (DestDomain r) = dr_node_group_id r"

primrec dest_protocol :: "destination \<Rightarrow> resource_protocol" where
  "dest_protocol (DestIp r) = ir_protocol r"
| "dest_protocol (DestDomain r) = dr_protocol r"

primrec dest_port_range :: "destination \<Rightarrow> u16 \<times> u16" where
  "dest_port_range (DestIp r) = (ir_port_min r, ir_port_max r)"
| "dest_port_range (DestDomain r) = (dr_port_min r, dr_port_max r)"

primrec dest_kind :: "destination \<Rightarrow> string" where
  "dest_kind (DestIp r) = ''ip''"
| "dest_kind (DestDomain r) = ''domain''"

definition to_matched_resource :: "destination \<Rightarrow> matched_resource" where
  "to_matched_resource d =
     \<lparr>mr_app_id = dest_app_id d, mr_node_group_id = dest_node_group_id d,
      mr_tcp_prefers_l3 = (case d of DestIp r \<Rightarrow> ir_tcp_prefers_l3 r | DestDomain r \<Rightarrow> dr_tcp_prefers_l3 r),
      mr_addr_pretend = (case d of DestIp r \<Rightarrow> ir_addr_pretend r | DestDomain r \<Rightarrow> dr_addr_pretend r)\<rparr>"

section \<open>Host patterns\<close>

record domain_pattern =
  pat_suffix :: string
  pat_wildcard :: bool

definition domain_pattern_parse :: "string \<Rightarrow> domain_pattern option" where
  "domain_pattern_parse h =
     (let host = to_ascii_lowercase (str_trim h) in
      if host = ''*'' then Some \<lparr>pat_suffix = [], pat_wildcard = True\<rparr>
      else let (wildcard, rest) =
                 (case strip_prefix ''*.'' host of Some rest \<Rightarrow> (True, rest) | None \<Rightarrow> (False, host));
               name = trim_end_char CHR ''.'' rest
           in if name = [] then None else Some \<lparr>pat_suffix = name, pat_wildcard = wildcard\<rparr>)"

definition ends_with :: "string \<Rightarrow> string \<Rightarrow> bool" where
  "ends_with s t = (length t \<le> length s \<and> drop (length s - length t) s = t)"

definition domain_pattern_matches :: "domain_pattern \<Rightarrow> string \<Rightarrow> bool" where
  "domain_pattern_matches p host =
     (if \<not> pat_wildcard p then host = pat_suffix p
      else if pat_suffix p = [] then True
      else length host > length (pat_suffix p) + 1 \<and> ends_with host (pat_suffix p)
        \<and> host ! (length host - length (pat_suffix p) - 1) = CHR ''.'')"

definition label_count :: "domain_pattern \<Rightarrow> nat" where
  "label_count p = (if pat_suffix p = [] then 0 else length (split_on CHR ''.'' (pat_suffix p)))"

definition normalize_host :: "string \<Rightarrow> string option" where
  "normalize_host h =
     (let host = to_ascii_lowercase (trim_end_char CHR ''.'' (str_trim h))
      in if host = [] then None else Some host)"

section \<open>Matching and ranking\<close>

definition protocol_matches :: "resource_protocol \<Rightarrow> flow_protocol \<Rightarrow> bool" where
  "protocol_matches r f =
     (r = RpAll \<or> (r = RpTcp \<and> f = FpTcp) \<or> (r = RpUdp \<and> f = FpUdp) \<or> (r = RpIcmp \<and> f = FpIcmp))"

definition port_matches :: "u16 \<Rightarrow> u16 \<Rightarrow> u16 \<Rightarrow> flow_protocol \<Rightarrow> bool" where
  "port_matches lo hi port p = (if \<not> has_ports p then True else port \<ge> lo \<and> port \<le> hi)"

definition ip_resource_matches :: "ip_resource \<Rightarrow> route_key \<Rightarrow> bool" where
  "ip_resource_matches r flow =
     (let d = ipv4_u32 (rk_destination flow) in
      d \<ge> ipv4_u32 (ir_ip_min r) \<and> d \<le> ipv4_u32 (ir_ip_max r)
      \<and> protocol_matches (ir_protocol r) (rk_protocol flow)
      \<and> port_matches (ir_port_min r) (ir_port_max r) (rk_port flow) (rk_protocol flow))"

record indexed_domain =
  id_pattern :: domain_pattern
  id_resource :: domain_resource

definition domain_entry_matches :: "indexed_domain \<Rightarrow> string \<Rightarrow> domain_flow \<Rightarrow> bool" where
  "domain_entry_matches e host flow =
     (domain_pattern_matches (id_pattern e) host
      \<and> protocol_matches (dr_protocol (id_resource e)) (df_protocol flow)
      \<and> port_matches (dr_port_min (id_resource e)) (dr_port_max (id_resource e)) (df_port flow) (df_protocol flow))"

definition u32_saturating_sub :: "u32 \<Rightarrow> u32 \<Rightarrow> u32" where
  "u32_saturating_sub a b = (if b \<le> a then a - b else 0)"

definition port_span :: "u16 \<Rightarrow> u16 \<Rightarrow> u32" where
  "port_span lo hi = u32_saturating_sub (ucast hi) (ucast lo)"

primrec protocol_rank :: "resource_protocol \<Rightarrow> byte" where
  "protocol_rank RpTcp = 0"
| "protocol_rank RpUdp = 0"
| "protocol_rank RpIcmp = 0"
| "protocol_rank RpAll = 1"

definition ip_specificity :: "ip_resource \<Rightarrow> u32 \<times> u32 \<times> byte" where
  "ip_specificity r =
     (u32_saturating_sub (ipv4_u32 (ir_ip_max r)) (ipv4_u32 (ir_ip_min r)),
      port_span (ir_port_min r) (ir_port_max r), protocol_rank (ir_protocol r))"

text \<open>The label count is cast to \<open>i32\<close> and negated there.\<close>

definition domain_specificity :: "indexed_domain \<Rightarrow> byte \<times> int \<times> u32 \<times> byte" where
  "domain_specificity e =
     (if pat_wildcard (id_pattern e) then 1 else 0,
      sint (- (word_of_nat (label_count (id_pattern e)) :: u32)),
      port_span (dr_port_min (id_resource e)) (dr_port_max (id_resource e)),
      protocol_rank (dr_protocol (id_resource e)))"

section \<open>The index\<close>

record resource_index =
  ri_ip_tree :: "ip_node option"
  ri_domain_tree :: domain_node
  ri_ip :: "ip_resource list"
  ri_domain :: "indexed_domain list"

definition indexed_domain_of :: "domain_resource \<Rightarrow> indexed_domain option" where
  "indexed_domain_of r =
     (case domain_pattern_parse (dr_host r) of
        None \<Rightarrow> None | Some p \<Rightarrow> Some \<lparr>id_pattern = p, id_resource = r\<rparr>)"

definition domain_tree_of :: "indexed_domain list \<Rightarrow> domain_node" where
  "domain_tree_of entries =
     fold (\<lambda>(index, e) node. domain_node_insert node (pat_suffix (id_pattern e)) index)
       (enumerate 0 entries) domain_node_default"

definition resource_index_build :: "client_resources \<Rightarrow> resource_index" where
  "resource_index_build resources =
     (let ip = sort_key ip_specificity (cr_ip_resources resources);
          dom_entries = sort_key domain_specificity
                     (List.map_filter indexed_domain_of (cr_domain_resources resources))
      in \<lparr>ri_ip_tree = ip_node_build ip, ri_domain_tree = domain_tree_of dom_entries,
          ri_ip = ip, ri_domain = dom_entries\<rparr>)"

definition ip_len :: "resource_index \<Rightarrow> nat" where "ip_len ri = length (ri_ip ri)"
definition domain_len :: "resource_index \<Rightarrow> nat" where "domain_len ri = length (ri_domain ri)"
definition index_is_empty :: "resource_index \<Rightarrow> bool" where
  "index_is_empty ri = (ri_ip ri = [] \<and> ri_domain ri = [])"

definition domain_resources_for_host :: "resource_index \<Rightarrow> string \<Rightarrow> domain_resource list" where
  "domain_resources_for_host ri h =
     (case normalize_host h of
        None \<Rightarrow> []
      | Some host \<Rightarrow> map id_resource (filter (\<lambda>e. domain_pattern_matches (id_pattern e) host) (ri_domain ri)))"

definition match_ip :: "resource_index \<Rightarrow> route_key \<Rightarrow> ip_resource option" where
  "match_ip ri flow =
     (case ri_ip_tree ri of
        None \<Rightarrow> None
      | Some tree \<Rightarrow>
          map_option (nth (ri_ip ri))
            (ip_node_find (Some tree) (ipv4_u32 (rk_destination flow))
               (\<lambda>i. ip_resource_matches (ri_ip ri ! i) flow) None))"

definition match_ip_all :: "resource_index \<Rightarrow> route_key \<Rightarrow> ip_resource list" where
  "match_ip_all ri flow = filter (\<lambda>r. ip_resource_matches r flow) (ri_ip ri)"

definition match_domain :: "resource_index \<Rightarrow> domain_flow \<Rightarrow> domain_resource option" where
  "match_domain ri flow =
     (case normalize_host (df_host flow) of
        None \<Rightarrow> None
      | Some host \<Rightarrow>
          map_option (\<lambda>i. id_resource (ri_domain ri ! i))
            (domain_node_find (ri_domain_tree ri) host (\<lambda>i. domain_entry_matches (ri_domain ri ! i) host flow)))"

definition match_domain_all :: "resource_index \<Rightarrow> domain_flow \<Rightarrow> domain_resource list" where
  "match_domain_all ri flow =
     (case normalize_host (df_host flow) of
        None \<Rightarrow> []
      | Some host \<Rightarrow> map id_resource (filter (\<lambda>e. domain_entry_matches e host flow) (ri_domain ri)))"

definition match_destination :: "resource_index \<Rightarrow> string \<Rightarrow> u16 \<Rightarrow> flow_protocol \<Rightarrow> destination option" where
  "match_destination ri host port protocol =
     (case parse_ipv4 (str_trim host) of
        Some ip \<Rightarrow> map_option DestIp (match_ip ri \<lparr>rk_destination = ip, rk_port = port, rk_protocol = protocol\<rparr>)
      | None \<Rightarrow> map_option DestDomain (match_domain ri \<lparr>df_host = host, df_port = port, df_protocol = protocol\<rparr>))"

section \<open>The first entry of a stable sort\<close>

text \<open>
  The entry \<open>find\<close> reports in a stably sorted list: an accepted entry of least key, and the
  earliest such entry of the unsorted list.
\<close>

definition best_in :: "('a \<Rightarrow> 'k :: linorder) \<Rightarrow> ('a \<Rightarrow> bool) \<Rightarrow> 'a list \<Rightarrow> 'a \<Rightarrow> bool" where
  "best_in k P xs r = (\<exists>pre post. xs = pre @ r # post \<and> P r
     \<and> (\<forall>x \<in> set pre. P x \<longrightarrow> k r < k x) \<and> (\<forall>x \<in> set post. P x \<longrightarrow> k r \<le> k x))"

lemma find_insort_key:
  "sorted (map k ys) \<Longrightarrow> find P (insort_key k x ys) =
     (if P x then (case find P ys of None \<Rightarrow> Some x | Some r \<Rightarrow> if k x \<le> k r then Some x else Some r)
      else find P ys)"
proof (induction ys)
  case (Cons y ys)
  show ?case
  proof (cases "k x \<le> k y")
    case True
    have "k x \<le> k r" if "find P ys = Some r" for r
      using find_SomeD [OF that] Cons.prems True by (auto intro: order_trans)
    with True show ?thesis by (auto split: option.splits)
  next
    case False
    with Cons show ?thesis by simp
  qed
qed simp

lemma find_sort_key_best:
  "find P (sort_key k xs) = Some r \<Longrightarrow> best_in k P xs r"
proof (induction xs arbitrary: r)
  case (Cons x xs)
  consider "r = x" "P x" "\<And>y. find P (sort_key k xs) = Some y \<Longrightarrow> k x \<le> k y"
    | "find P (sort_key k xs) = Some r" "P x \<Longrightarrow> k r < k x"
    using Cons.prems by (fastforce simp: find_insort_key split: if_splits option.splits)
  then show ?case
  proof cases
    case 1
    have "k x \<le> k y" if y: "y \<in> set xs" "P y" for y
    proof (cases "find P (sort_key k xs)")
      case None
      with y show ?thesis by (auto simp: find_None_iff)
    next
      case (Some z)
      from Cons.IH [OF Some] have "k z \<le> k y" using y by (fastforce simp: best_in_def)
      with 1(3) [OF Some] show ?thesis by simp
    qed
    with 1 show ?thesis unfolding best_in_def by - (rule exI [of _ "[]"], rule exI [of _ xs], simp)
  next
    case 2
    from Cons.IH [OF 2(1)] obtain pre post where "xs = pre @ r # post" "P r"
      "\<forall>x \<in> set pre. P x \<longrightarrow> k r < k x" "\<forall>x \<in> set post. P x \<longrightarrow> k r \<le> k x"
      unfolding best_in_def by blast
    with 2(2) show ?thesis unfolding best_in_def by - (rule exI [of _ "x # pre"], rule exI [of _ post], simp)
  qed
qed simp

lemma find_sort_key_None: "find P (sort_key k xs) = None \<longleftrightarrow> (\<forall>x \<in> set xs. \<not> P x)"
  by (auto simp: find_None_iff)

lemma find_hd_filter: "find P xs = (case filter P xs of [] \<Rightarrow> None | x # _ \<Rightarrow> Some x)"
  by (induction xs) auto

section \<open>Patterns\<close>

lemma ends_with_iff: "ends_with s t \<longleftrightarrow> (\<exists>u. s = u @ t)"
  unfolding ends_with_def by (auto intro: exI [of _ "take (length s - length t) s"]) (metis append_take_drop_id)

lemma wildcard_matches:
  assumes "pat_wildcard p" "pat_suffix p \<noteq> []"
  shows "domain_pattern_matches p host \<longleftrightarrow> (\<exists>sub. sub \<noteq> [] \<and> host = sub @ ''.'' @ pat_suffix p)"
proof
  assume m: "domain_pattern_matches p host"
  then obtain u where host: "host = u @ pat_suffix p"
    using assms by (auto simp: domain_pattern_matches_def ends_with_iff)
  have "length u > 1" and "u ! (length u - 1) = CHR ''.''"
    using m assms by (auto simp: domain_pattern_matches_def host nth_append split: if_splits)
  then show "\<exists>sub. sub \<noteq> [] \<and> host = sub @ ''.'' @ pat_suffix p"
    by (intro exI [of _ "butlast u"]) (cases u rule: rev_cases; auto simp: host nth_append)
qed (use assms in \<open>auto simp: domain_pattern_matches_def ends_with_iff nth_append\<close>)

lemma matches_suffix: "domain_pattern_matches p host \<Longrightarrow> prefix (rev (pat_suffix p)) (rev host)"
  by (cases "pat_wildcard p"; cases "pat_suffix p = []")
     (auto simp: wildcard_matches, auto simp: domain_pattern_matches_def)

section \<open>The index covers what matches\<close>

lemma match_ip_find: "match_ip (resource_index_build cr) flow =
  find (\<lambda>r. ip_resource_matches r flow) (sort_key ip_specificity (cr_ip_resources cr))"
proof -
  let ?ip = "sort_key ip_specificity (cr_ip_resources cr)"
  have "match_ip (resource_index_build cr) flow = map_option (nth ?ip)
      (ip_node_find (ip_node_build ?ip) (ipv4_u32 (rk_destination flow)) (\<lambda>i. ip_resource_matches (?ip ! i) flow) None)"
    by (simp add: match_ip_def resource_index_build_def Let_def split: option.split)
  also have "\<dots> = find (\<lambda>r. ip_resource_matches r flow) ?ip"
    by (rule ip_index.lookup_first)
       (auto simp: ip_node_build_wf ip_node_build_covers ip_resource_matches_def Let_def)
  finally show ?thesis .
qed

lemma entries_at_fold:
  "entries_at q (fold (\<lambda>(index, e) node. domain_node_insert node (name e) index) ies node) =
     entries_at q node @ map fst (filter (\<lambda>(i, e). rev (name e) = q) ies)"
  by (induction ies arbitrary: node) (auto simp: domain_node_insert_def entries_at_insert_bytes)

lemma domain_tree_covers:
  "domain_covers (domain_tree_of es) host =
     {i. i < length es \<and> prefix (rev (pat_suffix (id_pattern (es ! i)))) (rev host)}"
proof -
  have "set (entries_at q (domain_tree_of es)) = {i. i < length es \<and> rev (pat_suffix (id_pattern (es ! i))) = q}" for q
    unfolding domain_tree_of_def entries_at_fold by (force simp: in_set_enumerate_eq image_iff)
  then show ?thesis by (auto simp: domain_covers_def)
qed

lemma match_domain_find: "normalize_host (df_host flow) = Some host \<Longrightarrow>
  match_domain (resource_index_build cr) flow = map_option id_resource
    (find (\<lambda>e. domain_entry_matches e host flow)
      (sort_key domain_specificity (List.map_filter indexed_domain_of (cr_domain_resources cr))))"
proof -
  assume h: "normalize_host (df_host flow) = Some host"
  let ?es = "sort_key domain_specificity (List.map_filter indexed_domain_of (cr_domain_resources cr))"
  have "match_domain (resource_index_build cr) flow = map_option id_resource (map_option (nth ?es)
      (domain_node_find (domain_tree_of ?es) host (\<lambda>i. domain_entry_matches (?es ! i) host flow)))"
    by (simp add: match_domain_def resource_index_build_def Let_def h option.map_comp comp_def)
  also have "map_option (nth ?es) (domain_node_find (domain_tree_of ?es) host (\<lambda>i. domain_entry_matches (?es ! i) host flow))
      = find (\<lambda>e. domain_entry_matches e host flow) ?es"
    by (rule domain_index.lookup_first)
       (auto simp: domain_tree_covers domain_entry_matches_def intro: matches_suffix)
  finally show ?thesis .
qed

section \<open>Decisions carry the application\<close>

lemma address_resource_ip_matched:
  "address_resource app address = Some (Inl r) \<Longrightarrow> to_matched_resource (DestIp r) =
     \<lparr>mr_app_id = app_id app, mr_node_group_id = app_node_group_id app,
      mr_tcp_prefers_l3 = app_tcp_prefers_l3 app, mr_addr_pretend = pretends app\<rparr>"
  by (auto simp: address_resource_def ip_entry_def to_matched_resource_def Let_def
      split: option.splits prod.splits if_splits host_kind.splits)

lemma address_resource_domain_matched:
  "address_resource app address = Some (Inr r) \<Longrightarrow> to_matched_resource (DestDomain r) =
     \<lparr>mr_app_id = app_id app, mr_node_group_id = app_node_group_id app,
      mr_tcp_prefers_l3 = app_tcp_prefers_l3 app, mr_addr_pretend = pretends app\<rparr>"
  by (auto simp: address_resource_def domain_entry_def to_matched_resource_def Let_def
      split: option.splits prod.splits if_splits host_kind.splits)

end
