(* ===== verification/Resource_Cache.thy ===== *)
theory Resource_Cache
  imports Auth_Client Routing Events
begin

text \<open>
  \<open>crates/atrust-auth/src/resource_cache.rs\<close>: the last good resource table. A refresh is the
  result of one \<open>client_resource\<close> call; the cache is locked while a result is applied, so any
  interleaving of the periodic task and of explicit refreshes is a sequence of results. The watch
  channel holds the snapshot last sent and a version; the bus is the list of published events.
\<close>

section \<open>Definitions\<close>

record resource_snapshot =
  rn_generation :: u64
  rn_resources :: client_resources
  rn_routing :: resource_index

definition snapshot_new :: "u64 \<Rightarrow> client_resources \<Rightarrow> resource_snapshot" where
  "snapshot_new generation resources =
     \<lparr>rn_generation = generation, rn_resources = resources, rn_routing = resource_index_build resources\<rparr>"

record resource_cache =
  rc_current :: resource_snapshot
  rc_updates :: "resource_snapshot \<times> nat"
  rc_events :: "hermes_event list option"
  rc_consecutive_failures :: u32
  rc_invalidated :: bool

definition resource_cache_new :: "client_resources \<Rightarrow> resource_cache" where
  "resource_cache_new resources =
     (let snapshot = snapshot_new 1 resources in
      \<lparr>rc_current = snapshot, rc_updates = (snapshot, 0), rc_events = None, rc_consecutive_failures = 0,
       rc_invalidated = False\<rparr>)"

definition with_events :: "hermes_event list option \<Rightarrow> resource_cache \<Rightarrow> resource_cache" where
  "with_events events c = c\<lparr>rc_events := events\<rparr>"

definition cache_emit :: "hermes_event \<Rightarrow> resource_cache \<Rightarrow> resource_cache" where
  "cache_emit e c = c\<lparr>rc_events := map_option (\<lambda>es. es @ [e]) (rc_events c)\<rparr>"

definition u64_saturating_inc :: "u64 \<Rightarrow> u64" where
  "u64_saturating_inc n = (if n = - 1 then n else n + 1)"

text \<open>\<open>report_failure\<close>; the text of the error is its \<open>Display\<close> form.\<close>

definition report_failure ::
  "(('te, 'se, 'je, 'ue, 're) auth_error \<Rightarrow> string) \<Rightarrow> ('te, 'se, 'je, 'ue, 're) auth_error
    \<Rightarrow> resource_cache \<Rightarrow> resource_cache" where
  "report_failure display error c =
     (if is_session_invalid error
      then cache_emit (SessionInvalidated (display error)) (c\<lparr>rc_invalidated := True\<rparr>)
      else let consecutive = rc_consecutive_failures c + 1 in
        cache_emit (ResourceRefreshFailed (rn_generation (rc_current c)) consecutive (display error))
          (c\<lparr>rc_consecutive_failures := consecutive\<rparr>))"

definition cache_refresh ::
  "(('te, 'se, 'je, 'ue, 're) auth_error \<Rightarrow> string) \<Rightarrow> ('te, 'se, 'je, 'ue, 're) auth_error + client_resources
    \<Rightarrow> resource_cache \<Rightarrow> (('te, 'se, 'je, 'ue, 're) auth_error + resource_snapshot) \<times> resource_cache" where
  "cache_refresh display fetched c =
     (case fetched of
        Inl error \<Rightarrow> (Inl error, report_failure display error c)
      | Inr resources \<Rightarrow>
          let snapshot = snapshot_new (u64_saturating_inc (rn_generation (rc_current c))) resources in
          (Inr snapshot,
           cache_emit (ResourcePublished (rn_generation snapshot) (length (cr_ip_resources resources))
               (length (cr_domain_resources resources)) (length (cr_node_groups resources)))
             (c\<lparr>rc_current := snapshot, rc_updates := (snapshot, Suc (snd (rc_updates c))),
                rc_consecutive_failures := 0\<rparr>)))"

text \<open>\<open>ResourceCache::load\<close> and the whole refresh, with the request.\<close>

definition cache_load ::
  "('n, 'te, 'se, 'je, 'ue, 're) auth_env \<Rightarrow> auth_client \<Rightarrow> string \<Rightarrow> auth_configuration \<Rightarrow> 'n
    \<Rightarrow> (('te, 'se, 'je, 'ue, 're) auth_error + resource_cache) \<times> 'n" where
  "cache_load env client trace configuration net =
     (case client_resource env client trace configuration net of
        (r, net') \<Rightarrow> (map_sum id resource_cache_new r, net'))"

definition refresh_request ::
  "(('te, 'se, 'je, 'ue, 're) auth_error \<Rightarrow> string) \<Rightarrow> ('n, 'te, 'se, 'je, 'ue, 're) auth_env \<Rightarrow> auth_client \<Rightarrow> string
    \<Rightarrow> auth_configuration \<Rightarrow> resource_cache \<Rightarrow> 'n
    \<Rightarrow> (('te, 'se, 'je, 'ue, 're) auth_error + resource_snapshot) \<times> resource_cache \<times> 'n" where
  "refresh_request display env client trace configuration c net =
     (case client_resource env client trace configuration net of
        (fetched, net') \<Rightarrow> (case cache_refresh display fetched c of (r, c') \<Rightarrow> (r, c', net')))"

text \<open>
  The periodic task: one wake-up after another, each the result of a refresh or the stop signal.
  The result says whether the task has ended.
\<close>

datatype 'r wake_up = Refreshed 'r | StopSignal

fun periodic_refresh ::
  "(('te, 'se, 'je, 'ue, 're) auth_error \<Rightarrow> string) \<Rightarrow> (('te, 'se, 'je, 'ue, 're) auth_error + client_resources) wake_up list
    \<Rightarrow> resource_cache \<Rightarrow> resource_cache \<times> bool" where
  "periodic_refresh display [] c = (c, False)"
| "periodic_refresh display (StopSignal # ws) c = (c, True)"
| "periodic_refresh display (Refreshed fetched # ws) c =
     (case cache_refresh display fetched c of
        (Inl e, c') \<Rightarrow> if is_session_invalid e then (c', True) else periodic_refresh display ws c'
      | (Inr s, c') \<Rightarrow> periodic_refresh display ws c')"

section \<open>Histories of refreshes\<close>

fun refreshes ::
  "(('te, 'se, 'je, 'ue, 're) auth_error \<Rightarrow> string) \<Rightarrow> (('te, 'se, 'je, 'ue, 're) auth_error + client_resources) list
    \<Rightarrow> resource_cache \<Rightarrow> resource_cache" where
  "refreshes display [] c = c"
| "refreshes display (r # rs) c = refreshes display rs (snd (cache_refresh display r c))"

lemma refreshes_append: "refreshes display (xs @ ys) c = refreshes display ys (refreshes display xs c)"
  by (induction xs arbitrary: c) simp_all

fun good :: "'e + 'a \<Rightarrow> bool" where
  "good (Inr a) = True"
| "good (Inl e) = False"

text \<open>What a history of refresh results leaves in force: the last table fetched.\<close>

fun table_after :: "client_resources \<Rightarrow> ('e + client_resources) list \<Rightarrow> client_resources" where
  "table_after t [] = t"
| "table_after t (Inr t' # rs) = table_after t' rs"
| "table_after t (Inl e # rs) = table_after t rs"

lemma table_after_snoc:
  "table_after t (rs @ [r]) = (case r of Inr t' \<Rightarrow> t' | Inl e \<Rightarrow> table_after t rs)"
  by (induction t rs rule: table_after.induct) (auto split: sum.splits)

text \<open>Failures in a row at the end of a history, an expired session not counted.\<close>

definition failures_at_end :: "(('te, 'se, 'je, 'ue, 're) auth_error + client_resources) list \<Rightarrow> nat" where
  "failures_at_end rs =
     length (filter (\<lambda>r. case r of Inl e \<Rightarrow> \<not> is_session_invalid e | Inr t \<Rightarrow> False)
       (takeWhile (\<lambda>r. \<not> good r) (rev rs)))"

lemma failures_at_end_snoc:
  "failures_at_end (rs @ [r]) =
     (case r of Inr t \<Rightarrow> 0 | Inl e \<Rightarrow> failures_at_end rs + (if is_session_invalid e then 0 else 1))"
  by (cases r) (auto simp: failures_at_end_def)

definition cache_view ::
  "client_resources \<Rightarrow> (('te, 'se, 'je, 'ue, 're) auth_error + client_resources) list \<Rightarrow> resource_cache \<Rightarrow> bool" where
  "cache_view t rs c \<longleftrightarrow>
     rc_current c = snapshot_new (word_of_nat (min (1 + length (filter good rs)) (2 ^ 64 - 1))) (table_after t rs) \<and>
     rc_updates c = (rc_current c, length (filter good rs)) \<and>
     rc_consecutive_failures c = word_of_nat (failures_at_end rs) \<and>
     rc_invalidated c = list_ex (\<lambda>r. case r of Inl e \<Rightarrow> is_session_invalid e | Inr t \<Rightarrow> False) rs"

lemma saturating_of_nat:
  "u64_saturating_inc (word_of_nat (min (1 + n) (2 ^ 64 - 1))) = word_of_nat (min (1 + Suc n) (2 ^ 64 - 1))"
proof (cases "1 + n < 2 ^ 64 - 1")
  case True
  then have "unat (word_of_nat (1 + n) :: u64) = 1 + n"
    by (subst unat_of_nat) (simp add: take_bit_nat_eq_self)
  moreover have "unat (- 1 :: u64) = 2 ^ 64 - 1" by (simp add: unsigned_minus_1_eq_mask mask_eq_exp_minus_1)
  ultimately have "(word_of_nat (1 + n) :: u64) \<noteq> - 1" using True by (metis less_irrefl)
  with True show ?thesis by (simp add: u64_saturating_inc_def min_def)
next
  case False
  then have "min (1 + n) (2 ^ 64 - 1) = (2 ^ 64 - 1 :: nat)" "min (1 + Suc n) (2 ^ 64 - 1) = (2 ^ 64 - 1 :: nat)"
    by simp_all
  moreover have "(word_of_nat (2 ^ 64 - 1) :: u64) = - 1" by simp
  ultimately show ?thesis by (simp only: u64_saturating_inc_def) simp
qed

lemma cache_view_refresh:
  assumes "cache_view t rs c"
  shows "cache_view t (rs @ [r]) (snd (cache_refresh display r c))"
proof (cases r)
  case (Inl e)
  with assms show ?thesis
    by (auto simp: cache_view_def cache_refresh_def report_failure_def cache_emit_def Let_def
        table_after_snoc failures_at_end_snoc)
next
  case (Inr t')
  with assms saturating_of_nat [of "length (filter good rs)"] show ?thesis
    by (simp add: cache_view_def cache_refresh_def cache_emit_def Let_def snapshot_new_def
        table_after_snoc failures_at_end_snoc)
qed

lemma cache_view_refreshes:
  "cache_view t rs c \<Longrightarrow> cache_view t (rs @ rs') (refreshes display rs' c)"
proof (induction rs' arbitrary: rs c)
  case (Cons r rs')
  from Cons.IH [OF cache_view_refresh [OF Cons.prems]] show ?case by simp
qed simp

section \<open>Properties\<close>

text \<open>
  C15: invariant. After any history of refreshes, by the periodic task or by hand, the cache holds
  the last table that was fetched, indexed for routing, under the generation that counts the
  successful fetches (saturating at the top of its range); subscribers see the same snapshot; the
  failure counter is the number of ordinary failures since the last success, and the session
  counts as invalid exactly when some refresh was told so.
\<close>

theorem cache_holds_last_good_table:
  "let c = refreshes display rs (resource_cache_new t);
       successes = length (filter good rs) in
     rn_resources (rc_current c) = table_after t rs \<and>
     rn_routing (rc_current c) = resource_index_build (table_after t rs) \<and>
     rn_generation (rc_current c) = word_of_nat (min (1 + successes) (2 ^ 64 - 1)) \<and>
     rc_updates c = (rc_current c, successes) \<and>
     rc_consecutive_failures c = word_of_nat (failures_at_end rs) \<and>
     rc_invalidated c = list_ex (\<lambda>r. case r of Inl e \<Rightarrow> is_session_invalid e | Inr t \<Rightarrow> False) rs"
proof -
  have "cache_view t [] (resource_cache_new t)"
    by (simp add: cache_view_def resource_cache_new_def Let_def failures_at_end_def)
  from cache_view_refreshes [OF this, of rs display] show ?thesis
    by (simp add: cache_view_def Let_def snapshot_new_def)
qed

text \<open>
  liveness. The periodic task ends at the first refresh that finds the session gone, or at the
  stop signal, and at nothing else: every other failure is followed by another refresh.
\<close>

fun ends_task :: "(('te, 'se, 'je, 'ue, 're) auth_error + client_resources) wake_up \<Rightarrow> bool" where
  "ends_task StopSignal = True"
| "ends_task (Refreshed (Inl e)) = is_session_invalid e"
| "ends_task (Refreshed (Inr t)) = False"

fun results :: "'r wake_up list \<Rightarrow> 'r list" where
  "results [] = []"
| "results (Refreshed r # ws) = r # results ws"
| "results (StopSignal # ws) = results ws"

theorem periodic_refresh_runs_until_invalid:
  "periodic_refresh display ws c =
     (refreshes display (results (takeWhile (\<lambda>w. \<not> ends_task w) ws @ take 1 (dropWhile (\<lambda>w. \<not> ends_task w) ws))) c,
      list_ex ends_task ws)"
proof (induction display ws c rule: periodic_refresh.induct)
  case (3 display fetched ws c)
  then show ?case
    by (cases fetched) (auto simp: cache_refresh_def Let_def)
qed simp_all

end
