(* ===== verification/L3_Manager.thy ===== *)
theory L3_Manager
  imports L3_Driver
begin

text \<open>
  \<open>crates/atrust-l3/src/manager.rs\<close>: the owner that reconnects the session of one node group, and
  the cache of such owners. Sessions are kept in a store and named by their position in it, which
  stands for the identity of an \<open>Arc\<close>. Establishing a connection and the authorization run
  on a session are arguments: the model fixes what the manager does with their results. The
  argument of a dial also tells whether retirement was requested while it ran.
\<close>

section \<open>State\<close>

definition L3_CLOSED_RETRIES :: nat where "L3_CLOSED_RETRIES = 5"
definition L3_AUTH_TIMEOUT_RETRIES :: nat where "L3_AUTH_TIMEOUT_RETRIES = 1"

record l3_node_endpoint =
  ne_host :: string
  ne_port :: u16

record manager_state =
  ms_session :: "nat option"
  ms_next_endpoint :: nat
  ms_last_vip :: "ipv4 option"
  ms_failures :: u32
  ms_retry_at :: "nat option"

record l3_session_manager =
  mg_node_group_id :: string
  mg_endpoints :: "l3_node_endpoint list"
  mg_state :: manager_state
  mg_retired :: bool

text \<open>The sessions that exist and the events published so far.\<close>

record world =
  wo_sessions :: "session_shared list"
  wo_events :: "hermes_event list"

datatype ('se, 'de) manager_error =
    Retired
  | SessionError "('se, 'de) l3_session_error"
  | NoEndpoints string
  | VipChanged ipv4 ipv4

definition publish :: "hermes_event \<Rightarrow> world \<Rightarrow> world" where
  "publish ev w = w\<lparr>wo_events := wo_events w @ [ev]\<rparr>"

definition update_session :: "nat \<Rightarrow> (session_shared \<Rightarrow> session_shared) \<Rightarrow> world \<Rightarrow> world" where
  "update_session p f w = w\<lparr>wo_sessions := (wo_sessions w)[p := f (wo_sessions w ! p)]\<rparr>"

fun dedup_loop :: "'a list \<Rightarrow> 'a list \<Rightarrow> 'a list" where
  "dedup_loop seen [] = []"
| "dedup_loop seen (e # es) =
     (if e \<in> set seen then dedup_loop seen es else e # dedup_loop (e # seen) es)"

definition deduplicate_endpoints :: "l3_node_endpoint list \<Rightarrow> l3_node_endpoint list" where
  "deduplicate_endpoints es = dedup_loop [] es"

definition state_default :: manager_state where
  "state_default = \<lparr>ms_session = None, ms_next_endpoint = 0, ms_last_vip = None, ms_failures = 0, ms_retry_at = None\<rparr>"

definition manager_new :: "l3_node_endpoint list \<Rightarrow> string \<Rightarrow> l3_session_manager" where
  "manager_new endpoints node_group_id =
     \<lparr>mg_node_group_id = node_group_id, mg_endpoints = deduplicate_endpoints endpoints,
      mg_state = state_default, mg_retired = False\<rparr>"

definition update_endpoints :: "l3_node_endpoint list \<Rightarrow> l3_session_manager \<Rightarrow> l3_session_manager" where
  "update_endpoints endpoints m = m\<lparr>mg_endpoints := deduplicate_endpoints endpoints\<rparr>"

text \<open>
  \<open>retire\<close>: \<open>locked\<close> tells whether another task holds the state, in which case only the flag is set.
\<close>

definition manager_retire ::
  "bool \<Rightarrow> clock \<Rightarrow> world \<Rightarrow> l3_session_manager \<Rightarrow> world \<times> l3_session_manager" where
  "manager_retire locked ck w m =
     (case ms_session (mg_state m) of
        Some p \<Rightarrow> (if locked then w else update_session p (request_close ck) w, m\<lparr>mg_retired := True\<rparr>)
      | None \<Rightarrow> (w, m\<lparr>mg_retired := True\<rparr>))"

definition current_session :: "world \<Rightarrow> l3_session_manager \<Rightarrow> nat option" where
  "current_session w m =
     (case ms_session (mg_state m) of
        None \<Rightarrow> None | Some p \<Rightarrow> if ss_closed (wo_sessions w ! p) then None else Some p)"

definition last_vip :: "world \<Rightarrow> l3_session_manager \<Rightarrow> ipv4 option" where
  "last_vip w m =
     (case ms_session (mg_state m) of
        Some p \<Rightarrow> Some (ss_current_vip (wo_sessions w ! p)) | None \<Rightarrow> ms_last_vip (mg_state m))"

section \<open>Connecting\<close>

definition establishment_is_retryable :: "('se, 'de) l3_session_error \<Rightarrow> bool" where
  "establishment_is_retryable e =
     (case e of SeTls \<Rightarrow> True | SeConnectTimeout \<Rightarrow> True
      | SeGetIp g \<Rightarrow> (case g of GetIpTimeout \<Rightarrow> True | GetIpTls \<Rightarrow> True | GetIpIo \<Rightarrow> True | _ \<Rightarrow> False)
      | _ \<Rightarrow> False)"

definition report_established ::
  "string \<Rightarrow> l3_node_endpoint \<Rightarrow> ipv4 \<Rightarrow> manager_state \<Rightarrow> world \<Rightarrow> manager_state \<times> world" where
  "report_established group_id endpoint vip st w =
     (let previous = ms_last_vip st;
          w1 = publish (L3SessionEstablished group_id (ne_host endpoint) (ne_port endpoint) vip) w
      in (st\<lparr>ms_last_vip := Some vip\<rparr>,
          case previous of
            None \<Rightarrow> w1
          | Some old \<Rightarrow> if old \<noteq> vip then publish (L3VipChanged group_id old vip) w1 else w1))"

definition u32_saturating_inc :: "u32 \<Rightarrow> u32" where
  "u32_saturating_inc n = (if n = - 1 then n else n + 1)"

text \<open>A quarter of a second, doubled for every failed round up to five times.\<close>

definition backoff :: "u32 \<Rightarrow> nat" where
  "backoff failures = 250 * 2 ^ min (unat failures - 1) 5"

type_synonym ('se, 'de) dial = "nat \<Rightarrow> l3_node_endpoint \<Rightarrow> (('se, 'de) l3_session_error + session_shared) \<times> bool"

text \<open>The loop over the endpoints, given as the indexes still to try; \<open>fin\<close> is the time it ends.\<close>

fun try_endpoints ::
  "('se, 'de) dial \<Rightarrow> (('se, 'de) l3_session_error \<Rightarrow> string) \<Rightarrow> clock \<Rightarrow> nat \<Rightarrow> nat list \<Rightarrow> l3_node_endpoint list
   \<Rightarrow> world \<Rightarrow> l3_session_manager \<Rightarrow> world \<times> l3_session_manager \<times> (('se, 'de) manager_error + nat)" where
  "try_endpoints dial err_text ck fin [] es w m = (w, m, Inl (NoEndpoints (mg_node_group_id m)))"
| "try_endpoints dial err_text ck fin (index # rest) es w m =
     (let endpoint = es ! index in
      case dial index endpoint of
        (Inr session, retired) \<Rightarrow>
          (let p = length (wo_sessions w);
               w1 = w\<lparr>wo_sessions := wo_sessions w @ [session]\<rparr>
           in if retired
              then (update_session p (request_close ck) w1, m\<lparr>mg_retired := True\<rparr>, Inl Retired)
              else let st = (mg_state m)\<lparr>ms_failures := 0, ms_retry_at := None,
                         ms_next_endpoint := (index + 1) mod length es, ms_session := Some p\<rparr>;
                       (st1, w2) = report_established (mg_node_group_id m) endpoint (ss_current_vip session) st w1
                   in (w2, m\<lparr>mg_state := st1\<rparr>, Inr p))
      | (Inl e, _) \<Rightarrow>
          if establishment_is_retryable e then
            (let w1 = publish (L3EndpointFailed (mg_node_group_id m) (ne_host endpoint) (ne_port endpoint) (err_text e)) w
             in if rest = []
                then let failures = u32_saturating_inc (ms_failures (mg_state m)) in
                  (w1, m\<lparr>mg_state := (mg_state m)\<lparr>ms_failures := failures, ms_retry_at := Some (fin + backoff failures)\<rparr>\<rparr>,
                   Inl (SessionError e))
                else try_endpoints dial err_text ck fin rest es w1 m)
          else (w, m, Inl (SessionError e)))"

definition attempt_order :: "nat \<Rightarrow> nat \<Rightarrow> nat list" where
  "attempt_order start n = map (\<lambda>offset. (start + offset) mod n) [0..<n]"

text \<open>The closed session is given up, its address remembered, and a pause imposed.\<close>

definition drop_closed_session :: "clock \<Rightarrow> world \<Rightarrow> l3_session_manager \<Rightarrow> world \<times> l3_session_manager" where
  "drop_closed_session ck w m =
     (case ms_session (mg_state m) of
        None \<Rightarrow> (w, m)
      | Some p \<Rightarrow>
          (update_session p (request_close ck) w,
           m\<lparr>mg_state := (mg_state m)\<lparr>ms_session := None, ms_last_vip := Some (ss_current_vip (wo_sessions w ! p)),
                ms_retry_at := Some (ck_now ck + 250)\<rparr>\<rparr>))"

definition manager_session ::
  "('se, 'de) dial \<Rightarrow> (('se, 'de) l3_session_error \<Rightarrow> string) \<Rightarrow> clock \<Rightarrow> nat \<Rightarrow> world \<Rightarrow> l3_session_manager
   \<Rightarrow> world \<times> l3_session_manager \<times> (('se, 'de) manager_error + nat)" where
  "manager_session dial err_text ck fin w m =
     (if mg_retired m then (w, m, Inl Retired)
      else case current_session w m of
        Some p \<Rightarrow> (w, m, Inr p)
      | None \<Rightarrow>
          (let (w1, m1) = drop_closed_session ck w m
           in if mg_endpoints m1 = [] then (w1, m1, Inl (NoEndpoints (mg_node_group_id m1)))
              else try_endpoints dial err_text ck fin
                     (attempt_order (ms_next_endpoint (mg_state m1) mod length (mg_endpoints m1)) (length (mg_endpoints m1)))
                     (mg_endpoints m1) w1 m1))"

section \<open>Retries\<close>

record retry_budget =
  rb_closed :: nat
  rb_auth_timeout :: nat

definition budget_default :: retry_budget where
  "budget_default = \<lparr>rb_closed = L3_CLOSED_RETRIES, rb_auth_timeout = L3_AUTH_TIMEOUT_RETRIES\<rparr>"

record retry_decision =
  rd_reason :: string
  rd_remaining :: nat

definition consume :: "('se, 'de) l3_session_error \<Rightarrow> retry_budget \<Rightarrow> (retry_budget \<times> retry_decision) option" where
  "consume e b =
     (case e of
        SeClosed \<Rightarrow>
          if rb_closed b > 0
          then Some (b\<lparr>rb_closed := rb_closed b - 1\<rparr>, \<lparr>rd_reason = ''closed'', rd_remaining = rb_closed b - 1\<rparr>)
          else None
      | SeAuthTimeout _ \<Rightarrow>
          if rb_auth_timeout b > 0
          then Some (b\<lparr>rb_auth_timeout := rb_auth_timeout b - 1\<rparr>,
                     \<lparr>rd_reason = ''auth_timeout'', rd_remaining = rb_auth_timeout b - 1\<rparr>)
          else None
      | _ \<Rightarrow> None)"

definition report_retry :: "retry_decision \<Rightarrow> l3_session_manager \<Rightarrow> world \<Rightarrow> world" where
  "report_retry d m w = publish (L3Reconnecting (mg_node_group_id m) (rd_reason d) (rd_remaining d)) w"

definition report_closed :: "string \<Rightarrow> l3_session_manager \<Rightarrow> world \<Rightarrow> world" where
  "report_closed reason m w = publish (L3SessionClosed (mg_node_group_id m) reason) w"

definition invalidate :: "clock \<Rightarrow> nat \<Rightarrow> world \<Rightarrow> l3_session_manager \<Rightarrow> world \<times> l3_session_manager" where
  "invalidate ck failed w m =
     (if ms_session (mg_state m) = Some failed
      then (report_closed ''session invalidated after a failed operation'' m (update_session failed (request_close ck) w),
            m\<lparr>mg_state := (mg_state m)\<lparr>ms_session := None, ms_last_vip := Some (ss_current_vip (wo_sessions w ! failed))\<rparr>\<rparr>)
      else (w, m))"

definition manager_close :: "clock \<Rightarrow> world \<Rightarrow> l3_session_manager \<Rightarrow> world \<times> l3_session_manager" where
  "manager_close ck w m =
     (case ms_session (mg_state m) of
        None \<Rightarrow> (w, m)
      | Some p \<Rightarrow> (report_closed ''closed by caller'' m (update_session p (request_close ck) w),
                   m\<lparr>mg_state := (mg_state m)\<lparr>ms_session := None\<rparr>\<rparr>))"

definition budget_left :: "retry_budget \<Rightarrow> nat" where
  "budget_left b = rb_closed b + rb_auth_timeout b"

lemma consume_decreases: "consume e b = Some (b', d) \<Longrightarrow> budget_left b' < budget_left b"
  by (auto simp: consume_def budget_left_def split: l3_session_error.splits if_splits)

section \<open>Authorizing with retries\<close>

text \<open>
  What the manager cannot see ahead, by the number of the attempt: dial results, clock readings,
  the authorization run on a session, the flush of a packet, and the err_text of an error.
\<close>

record ('se, 'de) network =
  nt_dial :: "nat \<Rightarrow> ('se, 'de) dial"
  nt_clock :: "nat \<Rightarrow> clock"
  nt_fin :: "nat \<Rightarrow> nat"
  nt_authorize :: "nat \<Rightarrow> nat \<Rightarrow> world \<Rightarrow> world \<times> (('se, 'de) l3_session_error + string)"
  nt_send :: "nat \<Rightarrow> nat \<Rightarrow> string \<Rightarrow> world \<Rightarrow> world \<times> (('se, 'de) l3_session_error + unit)"
  nt_text :: "('se, 'de) l3_session_error \<Rightarrow> string"

record run_state =
  rs_world :: world
  rs_manager :: l3_session_manager
  rs_budget :: retry_budget
  rs_attempts :: nat

function authorize_with_budget ::
  "('se, 'de) network \<Rightarrow> string \<Rightarrow> ipv4_flow \<Rightarrow> run_state \<Rightarrow> run_state \<times> (('se, 'de) manager_error + nat \<times> string)" where
  "authorize_with_budget net app_id flow r =
     (let k = rs_attempts r; r0 = r\<lparr>rs_attempts := k + 1\<rparr> in
      case manager_session (nt_dial net k) (nt_text net) (nt_clock net k) (nt_fin net k) (rs_world r) (rs_manager r) of
        (w, m, Inl e) \<Rightarrow> (r0\<lparr>rs_world := w, rs_manager := m\<rparr>, Inl e)
      | (w, m, Inr session) \<Rightarrow>
          if ss_current_vip (wo_sessions w ! session) \<noteq> fl_src_addr flow
          then (r0\<lparr>rs_world := w, rs_manager := m\<rparr>,
                Inl (VipChanged (fl_src_addr flow) (ss_current_vip (wo_sessions w ! session))))
          else case nt_authorize net k session w of
            (w1, Inr token) \<Rightarrow>
              (r0\<lparr>rs_world := publish (L3FlowAuthorized (mg_node_group_id m) (key_str (flow_key_of flow)) app_id (length token)) w1,
                  rs_manager := m\<rparr>, Inr (session, token))
          | (w1, Inl e) \<Rightarrow>
              (case consume e (rs_budget r) of
                 None \<Rightarrow>
                   (r0\<lparr>rs_world := publish (L3FlowRejected (mg_node_group_id m) (key_str (flow_key_of flow)) app_id (nt_text net e)) w1,
                       rs_manager := m\<rparr>, Inl (SessionError e))
               | Some (b, d) \<Rightarrow>
                   (let (w2, m2) = invalidate (nt_clock net k) session (report_retry d m w1) m
                    in authorize_with_budget net app_id flow
                         \<lparr>rs_world = w2, rs_manager = m2, rs_budget = b, rs_attempts = k + 1\<rparr>)))"
  by pat_completeness auto
termination
  by (relation "measure (\<lambda>(net, app_id, flow, r). budget_left (rs_budget r))") (auto dest: consume_decreases)

declare authorize_with_budget.simps [simp del]

definition run_start :: "world \<Rightarrow> l3_session_manager \<Rightarrow> run_state" where
  "run_start w m = \<lparr>rs_world = w, rs_manager = m, rs_budget = budget_default, rs_attempts = 0\<rparr>"

definition manager_authorize_flow ::
  "('se, 'de) network \<Rightarrow> string \<Rightarrow> ipv4_flow \<Rightarrow> world \<Rightarrow> l3_session_manager
   \<Rightarrow> run_state \<times> (('se, 'de) manager_error + nat \<times> string)" where
  "manager_authorize_flow net app_id flow w m = authorize_with_budget net app_id flow (run_start w m)"

text \<open>One turn of the loop ends the run or pays for another turn from the budget.\<close>

lemma authorize_turn:
  fixes net :: "('se, 'de) network"
  obtains (stop) w m res where
      "authorize_with_budget net app_id flow r =
         (r\<lparr>rs_attempts := rs_attempts r + 1, rs_world := w, rs_manager := m\<rparr>, res)"
  | (again) w m b d and e :: "('se, 'de) l3_session_error" where "consume e (rs_budget r) = Some (b, d)"
      "authorize_with_budget net app_id flow r = authorize_with_budget net app_id flow
         \<lparr>rs_world = w, rs_manager = m, rs_budget = b, rs_attempts = rs_attempts r + 1\<rparr>"
proof -
  note eq = authorize_with_budget.simps [of net app_id flow r, unfolded Let_def]
  obtain w m s where s: "manager_session (nt_dial net (rs_attempts r)) (nt_text net) (nt_clock net (rs_attempts r))
      (nt_fin net (rs_attempts r)) (rs_world r) (rs_manager r) = (w, m, s)" by (metis prod.exhaust)
  show ?thesis
  proof (cases s)
    case (Inl e)
    show ?thesis by (rule stop) (simp add: eq s Inl)
  next
    case (Inr session)
    obtain w1 a where a: "nt_authorize net (rs_attempts r) session w = (w1, a)" by (metis prod.exhaust)
    show ?thesis
    proof (cases "ss_current_vip (wo_sessions w ! session) = fl_src_addr flow")
      case False
      show ?thesis by (rule stop) (simp add: eq s Inr False)
    next
      case vip: True
      show ?thesis
      proof (cases a)
        case token: (Inr token)
        show ?thesis by (rule stop) (simp add: eq s Inr vip a token)
      next
        case e: (Inl e)
        show ?thesis
        proof (cases "consume e (rs_budget r)")
          case None
          show ?thesis by (rule stop) (simp add: eq s Inr vip a e None)
        next
          case (Some x)
          obtain b d where x: "x = (b, d)" by (cases x)
          obtain w2 m2 where i: "invalidate (nt_clock net (rs_attempts r)) session (report_retry d m w1) m = (w2, m2)"
            by (metis prod.exhaust)
          show ?thesis by (rule again [OF Some [unfolded x]]) (simp add: eq s Inr vip a e Some x i)
        qed
      qed
    qed
  qed
qed

text \<open>Every attempt beyond the first is paid for from the budget.\<close>

lemma authorize_cost:
  "authorize_with_budget net app_id flow r = (r', res) \<Longrightarrow>
     rs_attempts r < rs_attempts r' \<and>
     rs_attempts r' + budget_left (rs_budget r') \<le> rs_attempts r + 1 + budget_left (rs_budget r)"
proof (induction "budget_left (rs_budget r)" arbitrary: r rule: less_induct)
  case less
  show ?case
  proof (cases rule: authorize_turn [of net app_id flow r])
    case (stop w m res)
    with less.prems show ?thesis by auto
  next
    case (again w m b d e)
    let ?r = "\<lparr>rs_world = w, rs_manager = m, rs_budget = b, rs_attempts = rs_attempts r + 1\<rparr>"
    have dec: "budget_left b < budget_left (rs_budget r)" by (rule consume_decreases [OF again(1)])
    then have "budget_left (rs_budget ?r) < budget_left (rs_budget r)" by simp
    from less.hyps [OF this] less.prems again(2) dec show ?thesis by simp
  qed
qed

lemma authorize_budget_le:
  "authorize_with_budget net app_id flow r = (r', res) \<Longrightarrow> budget_left (rs_budget r') \<le> budget_left (rs_budget r)"
  using authorize_cost [of net app_id flow r r' res] by linarith

function authorize_and_send ::
  "('se, 'de) network \<Rightarrow> string \<Rightarrow> ipv4_flow \<Rightarrow> run_state \<Rightarrow> run_state \<times> (('se, 'de) manager_error + nat \<times> string)" where
  "authorize_and_send net app_id flow r =
     (case authorize_with_budget net app_id flow r of
        (r1, Inl e) \<Rightarrow> (r1, Inl e)
      | (r1, Inr (session, token)) \<Rightarrow>
          (case nt_send net (rs_attempts r1) session token (rs_world r1) of
             (w, Inr ok) \<Rightarrow> (r1\<lparr>rs_world := w\<rparr>, Inr (session, token))
           | (w, Inl e) \<Rightarrow>
               (case consume e (rs_budget r1) of
                  None \<Rightarrow> (r1\<lparr>rs_world := w\<rparr>, Inl (SessionError e))
                | Some (b, d) \<Rightarrow>
                    (let (w2, m2) = invalidate (nt_clock net (rs_attempts r1)) session
                           (report_retry d (rs_manager r1) w) (rs_manager r1)
                     in authorize_and_send net app_id flow
                          (r1\<lparr>rs_world := w2, rs_manager := m2, rs_budget := b\<rparr>)))))"
  by pat_completeness auto
termination
  by (relation "measure (\<lambda>(net, app_id, flow, r). budget_left (rs_budget r))")
     (auto dest!: consume_decreases authorize_budget_le [OF sym])

declare authorize_and_send.simps [simp del]

lemma send_cost:
  "authorize_and_send net app_id flow r = (r', res) \<Longrightarrow>
     rs_attempts r < rs_attempts r' \<and>
     rs_attempts r' + budget_left (rs_budget r') \<le> rs_attempts r + 1 + budget_left (rs_budget r)"
proof (induction "budget_left (rs_budget r)" arbitrary: r rule: less_induct)
  case less
  obtain r1 a where a: "authorize_with_budget net app_id flow r = (r1, a)" by (metis prod.exhaust)
  note cost = authorize_cost [OF a]
  note eq = authorize_and_send.simps [of net app_id flow r, unfolded a]
  show ?case
  proof (cases a)
    case (Inl e)
    with less.prems cost show ?thesis by (simp add: eq)
  next
    case (Inr x)
    obtain session token where x: "x = (session, token)" by (cases x)
    obtain w s where s: "nt_send net (rs_attempts r1) session token (rs_world r1) = (w, s)" by (metis prod.exhaust)
    show ?thesis
    proof (cases s)
      case ok: (Inr u)
      from less.prems cost show ?thesis by (auto simp: eq Inr x s ok)
    next
      case e: (Inl e)
      show ?thesis
      proof (cases "consume e (rs_budget r1)")
        case None
        from less.prems cost show ?thesis by (auto simp: eq Inr x s e None)
      next
        case (Some y)
        obtain b d where y: "y = (b, d)" by (cases y)
        obtain w2 m2 where i: "invalidate (nt_clock net (rs_attempts r1)) session
            (report_retry d (rs_manager r1) w) (rs_manager r1) = (w2, m2)" by (metis prod.exhaust)
        let ?r = "r1\<lparr>rs_world := w2, rs_manager := m2, rs_budget := b\<rparr>"
        have dec: "budget_left b < budget_left (rs_budget r1)" using Some by (auto simp: y dest: consume_decreases)
        have "authorize_and_send net app_id flow ?r = (r', res)"
          using less.prems by (simp add: eq Inr x s e Some y i)
        moreover have "budget_left (rs_budget ?r) < budget_left (rs_budget r)" using dec cost by simp
        ultimately show ?thesis using less.hyps [of ?r] dec cost by simp
      qed
    qed
  qed
qed

section \<open>Rotation\<close>

lemma attempt_order_rotate: "start < n \<Longrightarrow> attempt_order start n = rotate start [0..<n]"
  by (rule nth_equalityI) (simp_all add: attempt_order_def nth_rotate)

lemma attempt_order_all: "start < n \<Longrightarrow> distinct (attempt_order start n) \<and> set (attempt_order start n) = {..<n}"
  by (auto simp: attempt_order_rotate)

definition failed_event ::
  "('se, 'de) dial \<Rightarrow> (('se, 'de) l3_session_error \<Rightarrow> string) \<Rightarrow> string \<Rightarrow> l3_node_endpoint list \<Rightarrow> nat \<Rightarrow> hermes_event" where
  "failed_event dial err_text g es i =
     L3EndpointFailed g (ne_host (es ! i)) (ne_port (es ! i))
       (case fst (dial i (es ! i)) of Inl e \<Rightarrow> err_text e | Inr _ \<Rightarrow> [])"

definition dial_fails :: "('se, 'de) dial \<Rightarrow> l3_node_endpoint list \<Rightarrow> nat \<Rightarrow> bool" where
  "dial_fails dial es i = (case fst (dial i (es ! i)) of Inl e \<Rightarrow> establishment_is_retryable e | Inr _ \<Rightarrow> False)"

text \<open>The endpoints that fail first are passed over, each with its event.\<close>

lemma try_endpoints_skip:
  "list_all (dial_fails dial es) pre \<Longrightarrow> rest \<noteq> [] \<Longrightarrow>
   try_endpoints dial err_text ck fin (pre @ rest) es w m =
     try_endpoints dial err_text ck fin rest es
       (w\<lparr>wo_events := wo_events w @ map (failed_event dial err_text (mg_node_group_id m) es) pre\<rparr>) m"
proof (induction pre arbitrary: w)
  case (Cons i pre)
  then obtain e b where "dial i (es ! i) = (Inl e, b)" "establishment_is_retryable e"
    by (cases "dial i (es ! i)") (auto simp: dial_fails_def split: sum.splits)
  with Cons show ?case by (simp add: Let_def publish_def failed_event_def)
qed simp

lemma backoff_bounds: "250 \<le> backoff f \<and> backoff f \<le> 8000"
proof -
  have "(2 :: nat) ^ min (unat f - 1) 5 \<le> 2 ^ 5" by (rule power_increasing) simp_all
  then have "250 * 2 ^ min (unat f - 1) 5 \<le> (250 * 2 ^ 5 :: nat)" by (rule mult_le_mono2)
  then show ?thesis by (simp add: backoff_def)
qed

lemma session_connects:
  assumes "\<not> mg_retired m" "ms_session (mg_state m) = None" "mg_endpoints m \<noteq> []"
  shows "manager_session dial err_text ck fin w m =
    try_endpoints dial err_text ck fin
      (attempt_order (ms_next_endpoint (mg_state m) mod length (mg_endpoints m)) (length (mg_endpoints m)))
      (mg_endpoints m) w m"
  using assms by (simp add: manager_session_def current_session_def drop_closed_session_def)

lemma session_all_fail:
  assumes idle: "\<not> mg_retired m" "ms_session (mg_state m) = None" "mg_endpoints m \<noteq> []"
    and order: "order = attempt_order (ms_next_endpoint (mg_state m) mod length (mg_endpoints m)) (length (mg_endpoints m))"
    and fails: "list_all (dial_fails dial (mg_endpoints m)) order"
  obtains m' e where "manager_session dial err_text ck fin w m =
      (w\<lparr>wo_events := wo_events w @ map (failed_event dial err_text (mg_node_group_id m) (mg_endpoints m)) order\<rparr>,
       m', Inl (SessionError e))"
    "fst (dial (last order) (mg_endpoints m ! last order)) = Inl e"
    "ms_failures (mg_state m') = u32_saturating_inc (ms_failures (mg_state m))"
    "ms_retry_at (mg_state m') = Some (fin + backoff (u32_saturating_inc (ms_failures (mg_state m))))"
proof -
  let ?ev = "failed_event dial err_text (mg_node_group_id m) (mg_endpoints m)"
  have ne: "order \<noteq> []" using idle(3) by (simp add: order attempt_order_def)
  then have split: "order = butlast order @ [last order]" by simp
  have "dial_fails dial (mg_endpoints m) (last order)" using fails ne by (simp add: list_all_iff)
  then obtain e b where e: "dial (last order) (mg_endpoints m ! last order) = (Inl e, b)" "establishment_is_retryable e"
    by (cases "dial (last order) (mg_endpoints m ! last order)") (auto simp: dial_fails_def split: sum.splits)
  have "list_all (dial_fails dial (mg_endpoints m)) (butlast order)"
    using fails by (auto simp: list_all_iff dest: in_set_butlastD)
  note skip = try_endpoints_skip [OF this, of "[last order]" err_text ck fin w m, folded split]
  have events: "map ?ev order = map ?ev (butlast order) @ [?ev (last order)]"
    by (subst split) simp
  show ?thesis
    by (rule that) (use e in \<open>simp_all add: session_connects [OF idle, folded order] skip events
      Let_def publish_def failed_event_def\<close>, simp_all)
qed

lemma session_succeeds:
  assumes idle: "\<not> mg_retired m" "ms_session (mg_state m) = None" "mg_endpoints m \<noteq> []"
    and order: "pre @ i # post = attempt_order (ms_next_endpoint (mg_state m) mod length (mg_endpoints m)) (length (mg_endpoints m))"
    and fails: "list_all (dial_fails dial (mg_endpoints m)) pre"
    and ok: "dial i (mg_endpoints m ! i) = (Inr session, False)"
  obtains w' m' where "manager_session dial err_text ck fin w m = (w', m', Inr (length (wo_sessions w)))"
    "wo_sessions w' = wo_sessions w @ [session]"
    "take (length (wo_events w) + length pre) (wo_events w') =
       wo_events w @ map (failed_event dial err_text (mg_node_group_id m) (mg_endpoints m)) pre"
    "ms_failures (mg_state m') = 0" "ms_retry_at (mg_state m') = None"
    "ms_next_endpoint (mg_state m') = (i + 1) mod length (mg_endpoints m)"
    "ms_session (mg_state m') = Some (length (wo_sessions w))"
proof -
  have "\<exists>w' m'. manager_session dial err_text ck fin w m = (w', m', Inr (length (wo_sessions w)))
      \<and> wo_sessions w' = wo_sessions w @ [session]
      \<and> take (length (wo_events w) + length pre) (wo_events w') =
          wo_events w @ map (failed_event dial err_text (mg_node_group_id m) (mg_endpoints m)) pre
      \<and> ms_failures (mg_state m') = 0 \<and> ms_retry_at (mg_state m') = None
      \<and> ms_next_endpoint (mg_state m') = (i + 1) mod length (mg_endpoints m)
      \<and> ms_session (mg_state m') = Some (length (wo_sessions w))"
    unfolding session_connects [OF idle, folded order] try_endpoints_skip [OF fails list.distinct(2)]
    using ok by (simp add: Let_def report_established_def publish_def split: option.split)
  then show ?thesis using that by blast
qed

section \<open>Properties of the manager\<close>

text \<open>
  A manager without a connection tries every endpoint of its group once, in turn from where
  the last success left off. When all of them fail for a transient reason it reports each, returns
  the last error, counts one failed round and pauses between a quarter of a second and eight
  seconds before the next. When one succeeds, exactly the endpoints before it have been passed
  over, the failure count and the pause are reset, and the next round starts behind it.
\<close>

theorem session_tries_every_endpoint:
  assumes idle: "\<not> mg_retired m" "ms_session (mg_state m) = None" "mg_endpoints m \<noteq> []"
    and order: "order = attempt_order (ms_next_endpoint (mg_state m) mod length (mg_endpoints m)) (length (mg_endpoints m))"
  shows "distinct order \<and> set order = {..<length (mg_endpoints m)}
    \<and> (list_all (dial_fails dial (mg_endpoints m)) order \<longrightarrow>
        (\<exists>m' e t. manager_session dial err_text ck fin w m =
            (w\<lparr>wo_events := wo_events w @ map (failed_event dial err_text (mg_node_group_id m) (mg_endpoints m)) order\<rparr>,
             m', Inl (SessionError e))
          \<and> fst (dial (last order) (mg_endpoints m ! last order)) = Inl e
          \<and> ms_failures (mg_state m') = u32_saturating_inc (ms_failures (mg_state m))
          \<and> ms_retry_at (mg_state m') = Some t \<and> fin + 250 \<le> t \<and> t \<le> fin + 8000))
    \<and> (\<forall>pre i post session. order = pre @ i # post \<and> list_all (dial_fails dial (mg_endpoints m)) pre
          \<and> dial i (mg_endpoints m ! i) = (Inr session, False) \<longrightarrow>
        (\<exists>w' m'. manager_session dial err_text ck fin w m = (w', m', Inr (length (wo_sessions w)))
          \<and> wo_sessions w' = wo_sessions w @ [session]
          \<and> take (length (wo_events w) + length pre) (wo_events w') =
              wo_events w @ map (failed_event dial err_text (mg_node_group_id m) (mg_endpoints m)) pre
          \<and> ms_failures (mg_state m') = 0 \<and> ms_retry_at (mg_state m') = None
          \<and> ms_next_endpoint (mg_state m') = (i + 1) mod length (mg_endpoints m)
          \<and> ms_session (mg_state m') = Some (length (wo_sessions w))))"
    (is "_ \<and> _ \<and> (?fails \<longrightarrow> ?failed) \<and> (\<forall>pre i post session. ?succeeds pre i post session \<longrightarrow> ?connected pre i session)")
proof (intro conjI impI allI)
  have "ms_next_endpoint (mg_state m) mod length (mg_endpoints m) < length (mg_endpoints m)" using idle(3) by simp
  from attempt_order_all [OF this] show "distinct order" "set order = {..<length (mg_endpoints m)}"
    by (simp_all add: order)
  show ?failed if fails: ?fails
    using session_all_fail [OF idle order fails, of err_text ck fin w] backoff_bounds by (metis add_left_mono)
  show "?connected pre i session" if "?succeeds pre i post session" for pre i post session
    using session_succeeds [OF idle, of pre i post dial session err_text ck fin w] that unfolding order by metis
qed

definition sample_manager :: l3_session_manager where
  "sample_manager = manager_new [\<lparr>ne_host = ''a'', ne_port = 441\<rparr>, \<lparr>ne_host = ''b'', ne_port = 441\<rparr>] ''g''"

definition sample_world :: world where
  "sample_world = \<lparr>wo_sessions = [], wo_events = []\<rparr>"

definition idle_clock :: clock where
  "idle_clock = \<lparr>ck_now = 0, ck_wall = 0\<rparr>"

definition refused :: "(unit, unit) dial" where
  "refused i endpoint = (Inl SeConnectTimeout, False)"

lemma sample_manager_idle: "\<not> mg_retired sample_manager" "ms_session (mg_state sample_manager) = None"
  "mg_endpoints sample_manager \<noteq> []" "length (mg_endpoints sample_manager) = 2"
  by (simp_all add: sample_manager_def manager_new_def state_default_def deduplicate_endpoints_def)

theorem session_tries_every_endpoint_witness:
  "\<exists>w' m' t. manager_session refused (\<lambda>e. []) idle_clock 100 sample_world sample_manager =
       (w', m', Inl (SessionError SeConnectTimeout))
     \<and> ms_retry_at (mg_state m') = Some t \<and> 350 \<le> t \<and> t \<le> 8100"
proof -
  have "list_all (dial_fails refused (mg_endpoints sample_manager)) xs" for xs
    by (simp add: list_all_iff dial_fails_def refused_def establishment_is_retryable_def)
  moreover have "fst (refused i endpoint) = Inl e \<longleftrightarrow> e = SeConnectTimeout" for i endpoint e
    by (auto simp: refused_def)
  ultimately show ?thesis
    using session_tries_every_endpoint [OF sample_manager_idle(1-3) refl, of refused "\<lambda>e. []" idle_clock 100 sample_world]
    by auto
qed


definition sample_network :: "(unit, unit) network" where
  "sample_network = \<lparr>nt_dial = \<lambda>k. refused, nt_clock = \<lambda>k. idle_clock, nt_fin = \<lambda>k. 0,
     nt_authorize = \<lambda>k p w. (w, Inl SeClosed), nt_send = \<lambda>k p t w. (w, Inr ()), nt_text = \<lambda>e. []\<rparr>"

definition sample_run_flow :: ipv4_flow where
  "sample_run_flow = \<lparr>fl_protocol = Tcp, fl_src_addr = Ipv4 10 0 0 1, fl_src_port = 1,
     fl_dst_addr = Ipv4 10 0 0 2, fl_dst_port = 80\<rparr>"


end
