(* ===== verification/Node_Select.thy ===== *)
theory Node_Select
  imports Resource_Cache L3_Manager "HOL-Library.Product_Lexorder" "HOL-Library.List_Lexorder"
    "HOL-Library.Char_ord" "HOL-Library.Multiset"
begin

text \<open>
  \<open>crates/atrust-auth/src/node_select.rs\<close>, \<open>crates/atrust-client/src/nodes.rs\<close> and the endpoint
  override of \<open>crates/atrust-client/src/config.rs\<close>: which data-plane endpoint to use. A probe is a
  TLS handshake and belongs to the transport: its outcome and duration are the environment's,
  given per probe. Durations are in nanoseconds. A stable sort on a key is \<open>sort_key\<close>.
\<close>

section \<open>Definitions\<close>

subsection \<open>One-shot selection\<close>

datatype probe_outcome = ProbeOk | TcpConnectFailed | TlsHandshakeFailed | ProbeTimeout | ProbeInvalidServerName

record node_measurement =
  nm_group_id :: string
  nm_endpoint :: resolved_node_endpoint
  nm_outcome :: probe_outcome
  nm_elapsed :: nat

definition reachable :: "node_measurement \<Rightarrow> bool" where
  "reachable m \<longleftrightarrow> nm_outcome m = ProbeOk"

datatype selection_source = Requested | RequestedUnadvertised | LowestLatency

primrec selection_source_as_str :: "selection_source \<Rightarrow> string" where
  "selection_source_as_str Requested = ''requested''"
| "selection_source_as_str RequestedUnadvertised = ''requested_unadvertised''"
| "selection_source_as_str LowestLatency = ''lowest_latency''"

datatype unadvertised_node = RejectNode | AllowNode

record node_selection =
  sel_chosen :: node_measurement
  sel_ranked :: "node_measurement list"
  sel_source :: selection_source

definition host_port :: "node_selection \<Rightarrow> string \<times> u16" where
  "host_port s = (re_host (nm_endpoint (sel_chosen s)), re_port (nm_endpoint (sel_chosen s)))"

definition failover_endpoints :: "node_selection \<Rightarrow> resolved_node_endpoint list" where
  "failover_endpoints s =
     (case sel_source s of
        LowestLatency \<Rightarrow> map nm_endpoint (filter reachable (sel_ranked s))
      | _ \<Rightarrow> [nm_endpoint (sel_chosen s)])"

datatype node_select_error =
    NoCandidates
  | MalformedAddress string
  | NotAdvertised string "string list"
  | RequestedUnreachable string probe_outcome
  | AllUnreachable "node_measurement list"

definition matches_endpoint :: "resolved_node_endpoint \<Rightarrow> string \<Rightarrow> u16 \<Rightarrow> bool" where
  "matches_endpoint endpoint host port \<longleftrightarrow>
     re_port endpoint = port \<and> eq_ignore_ascii_case (re_host endpoint) host"

definition is_advertised :: "(string \<times> resolved_node_endpoint) list \<Rightarrow> string \<Rightarrow> u16 \<Rightarrow> bool" where
  "is_advertised candidates host port \<longleftrightarrow> list_ex (\<lambda>(g, e). matches_endpoint e host port) candidates"

text \<open>The distinct addresses in ascending order, as the \<open>BTreeSet\<close> gives them.\<close>

definition advertised_addresses :: "(string \<times> resolved_node_endpoint) list \<Rightarrow> string list" where
  "advertised_addresses candidates = remdups_adj (sort (map (\<lambda>(g, e). socket_display e) candidates))"

definition format_host_port :: "string \<Rightarrow> u16 \<Rightarrow> string" where
  "format_host_port host port = bracketed host @ '':'' @ dec_string (unat port)"

definition parse_host_port :: "string \<Rightarrow> (string \<times> u16) option" where
  "parse_host_port value = split_host_port value DEFAULT_NODE_PORT"

definition rank_measurements :: "node_measurement list \<Rightarrow> node_measurement list" where
  "rank_measurements = sort_key (\<lambda>m. (\<not> reachable m, nm_elapsed m))"

text \<open>The \<open>i\<close>-th probe of a pass has the outcome \<open>probe i host port\<close>.\<close>

definition measure_candidates ::
  "(nat \<Rightarrow> string \<Rightarrow> u16 \<Rightarrow> probe_outcome \<times> nat) \<Rightarrow> (string \<times> resolved_node_endpoint) list \<Rightarrow> node_measurement list" where
  "measure_candidates probe candidates =
     map (\<lambda>(i, g, e). case probe i (re_host e) (re_port e) of (outcome, elapsed) \<Rightarrow>
            \<lparr>nm_group_id = g, nm_endpoint = e, nm_outcome = outcome, nm_elapsed = elapsed\<rparr>)
       (zip [0..<length candidates] candidates)"

definition pick_advertised ::
  "(string \<times> resolved_node_endpoint) list \<Rightarrow> (string \<times> u16) option \<Rightarrow> node_measurement list
    \<Rightarrow> node_select_error + node_selection" where
  "pick_advertised candidates requested ranked =
     (case requested of
        Some (host, port) \<Rightarrow>
          (case find (\<lambda>m. matches_endpoint (nm_endpoint m) host port) ranked of
             None \<Rightarrow> Inl (NotAdvertised (format_host_port host port) (advertised_addresses candidates))
           | Some m \<Rightarrow>
               if \<not> reachable m then Inl (RequestedUnreachable (format_host_port host port) (nm_outcome m))
               else Inr \<lparr>sel_chosen = m, sel_ranked = ranked, sel_source = Requested\<rparr>)
      | None \<Rightarrow>
          (case find reachable ranked of
             None \<Rightarrow> Inl (AllUnreachable ranked)
           | Some m \<Rightarrow> Inr \<lparr>sel_chosen = m, sel_ranked = ranked, sel_source = LowestLatency\<rparr>))"

definition pick_unadvertised ::
  "(string \<times> resolved_node_endpoint) list \<Rightarrow> string \<Rightarrow> u16 \<Rightarrow> unadvertised_node
    \<Rightarrow> (nat \<Rightarrow> string \<Rightarrow> u16 \<Rightarrow> probe_outcome \<times> nat) \<Rightarrow> node_select_error + node_selection" where
  "pick_unadvertised candidates host port unadvertised probe =
     (case unadvertised of
        RejectNode \<Rightarrow> Inl (NotAdvertised (format_host_port host port) (advertised_addresses candidates))
      | AllowNode \<Rightarrow>
          (case probe 0 host port of (outcome, elapsed) \<Rightarrow>
             let m = \<lparr>nm_group_id = [],
                      nm_endpoint = \<lparr>re_host = host, re_port = port, re_address_type = ''override'',
                                     re_from_sdpc_placeholder = False\<rparr>,
                      nm_outcome = outcome, nm_elapsed = elapsed\<rparr> in
             if \<not> reachable m then Inl (RequestedUnreachable (format_host_port host port) outcome)
             else Inr \<lparr>sel_chosen = m, sel_ranked = [m], sel_source = RequestedUnadvertised\<rparr>))"

definition select_node_with ::
  "(string \<times> resolved_node_endpoint) list \<Rightarrow> string option \<Rightarrow> unadvertised_node
    \<Rightarrow> (nat \<Rightarrow> string \<Rightarrow> u16 \<Rightarrow> probe_outcome \<times> nat) \<Rightarrow> node_select_error + node_selection" where
  "select_node_with candidates requested unadvertised probe =
     (let measured = (\<lambda>req. if candidates = [] then Inl NoCandidates
              else pick_advertised candidates req (rank_measurements (measure_candidates probe candidates)))
      in case requested of
           None \<Rightarrow> measured None
         | Some value \<Rightarrow>
             (case parse_host_port value of
                None \<Rightarrow> Inl (MalformedAddress value)
              | Some (host, port) \<Rightarrow>
                  if \<not> is_advertised candidates host port
                  then pick_unadvertised candidates host port unadvertised probe
                  else measured (Some (host, port))))"

subsection \<open>The client's node selector\<close>

record client_config =
  cfg_gateway :: gateway_endpoint
  cfg_connect_timeout :: nat
  cfg_heartbeat_interval :: nat
  cfg_tcp_handshake_timeout :: nat
  cfg_resource_refresh_interval :: nat
  cfg_node_refresh_interval :: nat
  cfg_node_probe_timeout :: nat
  cfg_endpoint_override :: "l3_node_endpoint list option"
  cfg_endpoint_override_node_group_id :: "string option"
  cfg_lang :: string

definition duration_secs :: "nat \<Rightarrow> nat" where
  "duration_secs n = n * 10 ^ 9"

definition client_config_new :: "gateway_endpoint \<Rightarrow> client_config" where
  "client_config_new gateway =
     \<lparr>cfg_gateway = gateway, cfg_connect_timeout = duration_secs 20, cfg_heartbeat_interval = duration_secs 25,
      cfg_tcp_handshake_timeout = duration_secs 20, cfg_resource_refresh_interval = duration_secs 300,
      cfg_node_refresh_interval = duration_secs 300, cfg_node_probe_timeout = duration_secs 3,
      cfg_endpoint_override = None, cfg_endpoint_override_node_group_id = None, cfg_lang = ''en-US''\<rparr>"

definition with_heartbeat_interval :: "nat \<Rightarrow> client_config \<Rightarrow> client_config" where
  "with_heartbeat_interval d c = c\<lparr>cfg_heartbeat_interval := max d (duration_secs 1)\<rparr>"

definition non_empty_endpoints :: "l3_node_endpoint list option \<Rightarrow> l3_node_endpoint list option" where
  "non_empty_endpoints endpoints = (case endpoints of Some (e # es) \<Rightarrow> Some (e # es) | _ \<Rightarrow> None)"

definition with_endpoint_override :: "l3_node_endpoint list option \<Rightarrow> client_config \<Rightarrow> client_config" where
  "with_endpoint_override endpoints c =
     c\<lparr>cfg_endpoint_override := non_empty_endpoints endpoints, cfg_endpoint_override_node_group_id := None\<rparr>"

definition with_node_group_endpoint_override ::
  "string \<Rightarrow> l3_node_endpoint list option \<Rightarrow> client_config \<Rightarrow> client_config" where
  "with_node_group_endpoint_override node_group_id endpoints c =
     c\<lparr>cfg_endpoint_override := non_empty_endpoints endpoints,
       cfg_endpoint_override_node_group_id :=
         (if non_empty_endpoints endpoints \<noteq> None \<and> node_group_id \<noteq> [] then Some node_group_id else None)\<rparr>"

record node_tls_probe_result =
  np_host :: string
  np_port :: u16
  np_outcome :: probe_outcome
  np_elapsed :: nat

definition probe_success :: "node_tls_probe_result \<Rightarrow> bool" where
  "probe_success m \<longleftrightarrow> np_outcome m = ProbeOk"

definition rank_probes :: "node_tls_probe_result list \<Rightarrow> node_tls_probe_result list" where
  "rank_probes = sort_key (\<lambda>m. (\<not> probe_success m, np_elapsed m, np_host m, unat (np_port m)))"

record node_health =
  nh_node_group_id :: string
  nh_resource_generation :: u64
  nh_measurements :: "node_tls_probe_result list"

record ranked =
  rk_at :: nat
  rk_health :: node_health
  rk_endpoints :: "l3_node_endpoint list"

record node_selector =
  ns_config :: client_config
  ns_rankings :: "(string, ranked) hmap"

definition node_selector_new :: "client_config \<Rightarrow> node_selector" where
  "node_selector_new config = \<lparr>ns_config = config, ns_rankings = []\<rparr>"

definition selector_health :: "node_selector \<Rightarrow> node_health list" where
  "selector_health s = map (rk_health \<circ> snd) (ns_rankings s)"

definition override_matches :: "client_config \<Rightarrow> resource_snapshot \<Rightarrow> string \<Rightarrow> bool" where
  "override_matches config snapshot grp \<longleftrightarrow>
     cfg_endpoint_override config \<noteq> None \<and>
     (cfg_endpoint_override_node_group_id config = Some grp \<or>
      cfg_endpoint_override_node_group_id config = None \<and>
      length (cr_node_groups (rn_resources snapshot)) = 1 \<and>
      ng_id (cr_node_groups (rn_resources snapshot) ! 0) = grp)"

definition configured_endpoints :: "client_config \<Rightarrow> resource_snapshot \<Rightarrow> string \<Rightarrow> l3_node_endpoint list" where
  "configured_endpoints config snapshot grp =
     (if override_matches config snapshot grp
      then (case cfg_endpoint_override config of None \<Rightarrow> [] | Some es \<Rightarrow> es)
      else case find (\<lambda>g. rg_id g = grp)
                  (resolve_node_groups (rn_resources snapshot) (ge_host (cfg_gateway config))) of
             None \<Rightarrow> []
           | Some g \<Rightarrow> map (\<lambda>e. \<lparr>ne_host = re_host e, ne_port = re_port e\<rparr>) (rg_endpoints g))"

definition refresh_interval :: "nat \<Rightarrow> nat" where
  "refresh_interval interval = max interval (duration_secs 1)"

text \<open>
  A probe pass over \<open>endpoints\<close>: \<open>measured\<close> gives the probe results in the order in which they
  complete, and the pass ends at time \<open>later\<close>.
\<close>

definition rerank ::
  "(l3_node_endpoint list \<Rightarrow> node_tls_probe_result list) \<Rightarrow> nat \<Rightarrow> resource_snapshot \<Rightarrow> string
    \<Rightarrow> l3_node_endpoint list \<Rightarrow> node_selector \<Rightarrow> l3_node_endpoint list \<times> node_selector" where
  "rerank measured later snapshot grp endpoints s =
     (let measurements = rank_probes (measured endpoints);
          ordered = map (\<lambda>m. \<lparr>ne_host = np_host m, ne_port = np_port m\<rparr>) measurements in
      (ordered,
       s\<lparr>ns_rankings := hm_insert grp
           \<lparr>rk_at = later,
            rk_health = \<lparr>nh_node_group_id = grp, nh_resource_generation = rn_generation snapshot,
                         nh_measurements = measurements\<rparr>,
            rk_endpoints = ordered\<rparr> (ns_rankings s)\<rparr>))"

definition selector_endpoints ::
  "(l3_node_endpoint list \<Rightarrow> node_tls_probe_result list) \<Rightarrow> nat \<Rightarrow> nat \<Rightarrow> resource_snapshot \<Rightarrow> string
    \<Rightarrow> node_selector \<Rightarrow> l3_node_endpoint list \<times> node_selector" where
  "selector_endpoints measured now later snapshot grp s =
     (let config = ns_config s; endpoints = configured_endpoints config snapshot grp in
      if cfg_node_refresh_interval config = 0 \<or> override_matches config snapshot grp then (endpoints, s)
      else case hm_get (ns_rankings s) grp of
             Some r \<Rightarrow>
               if nh_resource_generation (rk_health r) = rn_generation snapshot
                  \<and> now - rk_at r < cfg_node_refresh_interval config
               then (rk_endpoints r, s)
               else rerank measured later snapshot grp endpoints s
           | None \<Rightarrow> rerank measured later snapshot grp endpoints s)"

section \<open>Ranking\<close>

lemma find_first_minimal:
  fixes key :: "'a \<Rightarrow> bool \<times> 'k :: linorder"
  assumes "find (\<lambda>x. \<not> fst (key x)) (sort_key key xs) = Some m" and "x \<in> set xs" and "\<not> fst (key x)"
  shows "key m \<le> key x"
proof -
  let ?s = "sort_key key xs"
  from assms(1) obtain i where i: "i < length ?s" "m = ?s ! i" "\<not> fst (key m)" "\<And>j. j < i \<Longrightarrow> fst (key (?s ! j))"
    by (auto simp: find_Some_iff)
  from assms(2) obtain j where j: "j < length ?s" "x = ?s ! j" by (metis set_sort in_set_conv_nth)
  have "i \<le> j" using i(4) [of j] assms(3) j by (meson not_le)
  then have "map key ?s ! i \<le> map key ?s ! j" using j(1) by (intro sorted_nth_mono) simp_all
  with i(1,2) j show ?thesis by simp
qed

lemma length_measure [simp]: "length (measure_candidates probe candidates) = length candidates"
  by (simp add: measure_candidates_def)

lemma measure_endpoint: "map nm_endpoint (measure_candidates probe candidates) = map snd candidates"
  by (rule nth_equalityI) (auto simp: measure_candidates_def split: prod.splits)

lemma rank_mset [simp]: "mset (rank_measurements ms) = mset ms"
  by (simp add: rank_measurements_def)

lemma rank_set [simp]: "set (rank_measurements ms) = set ms"
  by (metis rank_mset set_mset_mset)

lemma rank_reachable_first:
  assumes "find reachable (rank_measurements ms) = Some m" and "m' \<in> set ms" and "reachable m'"
  shows "nm_elapsed m \<le> nm_elapsed m'"
  using find_first_minimal [of "\<lambda>m. (\<not> reachable m, nm_elapsed m)" ms m m'] assms find_SomeD [OF assms(1)]
  by (simp add: rank_measurements_def less_eq_prod_def)

section \<open>Properties\<close>

text \<open>
  C14: safety. Selection fails closed. A requested endpoint is the one chosen or there is an error,
  never another endpoint in its place; one the gateway did not advertise is used only when that is
  allowed, and it is probed before use. Without a request the chosen endpoint is reachable with the
  lowest latency of all that are, and selection fails only when none is.
\<close>

theorem selection_fails_closed:
  "case select_node_with candidates requested unadvertised probe of
     Inr s \<Rightarrow> reachable (sel_chosen s) \<and> sel_chosen s \<in> set (sel_ranked s) \<and>
       (case requested of
          None \<Rightarrow> sel_source s = LowestLatency \<and> mset (sel_ranked s) = mset (measure_candidates probe candidates) \<and>
            (\<forall>m \<in> set (measure_candidates probe candidates). reachable m \<longrightarrow> nm_elapsed (sel_chosen s) \<le> nm_elapsed m)
        | Some value \<Rightarrow> \<exists>host port. parse_host_port value = Some (host, port) \<and>
            matches_endpoint (nm_endpoint (sel_chosen s)) host port \<and>
            failover_endpoints s = [nm_endpoint (sel_chosen s)] \<and>
            (if is_advertised candidates host port
             then sel_source s = Requested \<and> nm_endpoint (sel_chosen s) \<in> snd ` set candidates
             else unadvertised = AllowNode \<and> sel_source s = RequestedUnadvertised))
   | Inl e \<Rightarrow> requested = None \<longrightarrow> (\<forall>m \<in> set (measure_candidates probe candidates). \<not> reachable m)"
proof (cases requested)
  case None
  show ?thesis
  proof (cases "find reachable (rank_measurements (measure_candidates probe candidates))")
    case none: None
    then have "\<forall>m \<in> set (measure_candidates probe candidates). \<not> reachable m"
      by (auto simp: find_None_iff)
    with None none show ?thesis by (simp add: select_node_with_def pick_advertised_def Let_def)
  next
    case (Some m)
    from find_SomeD [OF Some] have m: "m \<in> set (measure_candidates probe candidates)" "reachable m" by simp_all
    then have "candidates \<noteq> []" by (cases candidates) (auto simp: measure_candidates_def)
    with None Some m rank_reachable_first [OF Some] show ?thesis
      by (simp add: select_node_with_def pick_advertised_def Let_def)
  qed
next
  case (Some v)
  show ?thesis
  proof (cases "parse_host_port v")
    case None
    with Some show ?thesis by (simp add: select_node_with_def Let_def)
  next
    case hp: (Some hp)
    obtain host port where hp': "parse_host_port v = Some (host, port)" using hp by (cases hp) simp
    show ?thesis
    proof (cases "is_advertised candidates host port")
      case adv: True
      show ?thesis
      proof (cases "find (\<lambda>m. matches_endpoint (nm_endpoint m) host port)
          (rank_measurements (measure_candidates probe candidates))")
        case None
        with Some hp' adv show ?thesis by (simp add: select_node_with_def pick_advertised_def Let_def)
      next
        case found: (Some m)
        from find_SomeD [OF found] have m: "m \<in> set (measure_candidates probe candidates)"
          "matches_endpoint (nm_endpoint m) host port" by simp_all
        then have "nm_endpoint m \<in> snd ` set candidates"
          using measure_endpoint [of probe candidates] by (metis image_eqI list.set_map)
        with Some hp' adv found m show ?thesis
          by (simp add: select_node_with_def pick_advertised_def Let_def failover_endpoints_def)
      qed
    next
      case False
      with Some hp' show ?thesis
        by (cases unadvertised; cases "probe 0 host port")
           (auto simp: select_node_with_def pick_unadvertised_def Let_def failover_endpoints_def matches_endpoint_def
             eq_ignore_ascii_case_def)
    qed
  qed
qed

definition sample_endpoint :: "string \<Rightarrow> resolved_node_endpoint" where
  "sample_endpoint host = \<lparr>re_host = host, re_port = 441, re_address_type = ''host'', re_from_sdpc_placeholder = False\<rparr>"

definition sample_probe :: "nat \<Rightarrow> string \<Rightarrow> u16 \<Rightarrow> probe_outcome \<times> nat" where
  "sample_probe i host port = (if i = 0 then (TcpConnectFailed, 1) else (ProbeOk, 100 - i))"

theorem selection_fails_closed_witness:
  "\<exists>s. select_node_with [(''g'', sample_endpoint ''dead''), (''g'', sample_endpoint ''slow''), (''g'', sample_endpoint ''fast'')]
       None RejectNode sample_probe = Inr s \<and> nm_endpoint (sel_chosen s) = sample_endpoint ''fast'' \<and>
     reachable (sel_chosen s) \<and> sel_source s = LowestLatency"
proof -
  let ?c = "[(''g'', sample_endpoint ''dead''), (''g'', sample_endpoint ''slow''), (''g'', sample_endpoint ''fast'')]"
  obtain s where s: "select_node_with ?c None RejectNode sample_probe = Inr s"
    and "nm_endpoint (sel_chosen s) = sample_endpoint ''fast''"
    by (simp add: select_node_with_def pick_advertised_def measure_candidates_def rank_measurements_def sort_key_def
        sample_probe_def sample_endpoint_def reachable_def Let_def eval_nat_numeral upt_rec)
  with selection_fails_closed [where candidates = ?c and requested = None and unadvertised = RejectNode and probe = sample_probe] show ?thesis by auto
qed

subsection \<open>The selector loses no endpoint\<close>

definition probes_all :: "(l3_node_endpoint list \<Rightarrow> node_tls_probe_result list) \<Rightarrow> bool" where
  "probes_all measured \<longleftrightarrow>
     (\<forall>es. mset (map (\<lambda>m. \<lparr>ne_host = np_host m, ne_port = np_port m\<rparr>) (measured es)) = mset es)"

text \<open>Every ranking is one of the endpoints its generation configures, \<open>table\<close> giving the generations.\<close>

definition selector_inv :: "(u64 \<Rightarrow> resource_snapshot) \<Rightarrow> node_selector \<Rightarrow> bool" where
  "selector_inv table s \<longleftrightarrow>
     (\<forall>g r. hm_get (ns_rankings s) g = Some r \<longrightarrow>
        mset (rk_endpoints r) =
          mset (configured_endpoints (ns_config s) (table (nh_resource_generation (rk_health r))) g))"

lemma rank_probes_mset [simp]: "mset (rank_probes ms) = mset ms"
  by (simp add: rank_probes_def)

lemma rerank_keeps:
  assumes "probes_all measured" and "selector_inv table s" and "table (rn_generation snapshot) = snapshot"
    and "rerank measured later snapshot g (configured_endpoints (ns_config s) snapshot g) s = (es, s')"
  shows "mset es = mset (configured_endpoints (ns_config s) snapshot g) \<and> selector_inv table s' \<and> ns_config s' = ns_config s"
proof -
  let ?ms = "measured (configured_endpoints (ns_config s) snapshot g)"
  have "mset (map (\<lambda>m. \<lparr>ne_host = np_host m, ne_port = np_port m\<rparr>) (rank_probes ?ms)) =
      mset (configured_endpoints (ns_config s) snapshot g)"
    using assms(1) by (simp add: probes_all_def)
  with assms(2-4) show ?thesis by (auto simp: rerank_def Let_def selector_inv_def split: if_splits)
qed


definition sample_table :: resource_snapshot where
  "sample_table = snapshot_new 1 \<lparr>cr_ip_resources = [], cr_domain_resources = [],
     cr_node_groups = [\<lparr>ng_id = ''g'', ng_addresses = []\<rparr>], cr_major_node_group_id = None,
     cr_dns = \<lparr>dns_primary = None, dns_secondary = None\<rparr>\<rparr>"


end
