(* ===== verification/Tcp_Frame.thy ===== *)
theory Tcp_Frame
  imports Framing
begin

text \<open>
  \<open>crates/atrust-protocol/src/tcp_frame.rs\<close>: the frames of the TCP tunnel. The JSON
  decoder of the status body (\<open>serde_json::from_slice\<close>) is third-party code and a parameter.
\<close>

section \<open>Definitions\<close>

datatype tcp_frame_error =
    PayloadTooLarge nat nat
  | EmptyDomain
  | DomainTooLong nat
  | TcpTruncated nat nat
  | UnexpectedStatusHeader byte byte

definition TCP_INIT_PREFIX :: bytes where
  "TCP_INIT_PREFIX = [0x05, 0x01, 0x81, 0x53, 0x03]"

definition encode_tcp_init_frame :: "bytes \<Rightarrow> tcp_frame_error + bytes" where
  "encode_tcp_init_frame signed_json =
     (case u16_try_from (length signed_json) of
        None \<Rightarrow> Inl (PayloadTooLarge (length signed_json) 65535)
      | Some len \<Rightarrow> Inr (TCP_INIT_PREFIX @ u16_to_be len @ signed_json))"

definition encode_tcp_target_ipv4 :: "ipv4 \<Rightarrow> u16 \<Rightarrow> bytes" where
  "encode_tcp_target_ipv4 ip port = [0x05, 0x01, 0x01, 0x01] @ octets ip @ u16_to_be port"

definition encode_tcp_target_domain :: "string \<Rightarrow> u16 \<Rightarrow> tcp_frame_error + bytes" where
  "encode_tcp_target_domain host port =
     (if host = [] then Inl EmptyDomain
      else if 256 \<le> length (as_bytes host) then Inl (DomainTooLong (length (as_bytes host)))
      else Inr ([0x05, 0x01, 0x01, 0x03] @ [word_of_nat (length (as_bytes host))]
                @ as_bytes host @ u16_to_be port))"

definition encode_tcp_app_data :: "bytes \<Rightarrow> tcp_frame_error + bytes" where
  "encode_tcp_app_data payload =
     (case u16_try_from (length payload) of
        None \<Rightarrow> Inl (PayloadTooLarge (length payload) 65535)
      | Some len \<Rightarrow> Inr ([0x01, 0x00] @ u16_to_be len @ payload))"

definition encode_tcp_close :: bytes where
  "encode_tcp_close = [0x01, 0x01, 0x00, 0x00]"

definition encode_tcp_probe :: bytes where
  "encode_tcp_probe = [0x01, 0x00, 0x00, 0x00]"

definition parse_status_payload :: "bytes \<Rightarrow> tcp_frame_error + bytes" where
  "parse_status_payload input =
     (if length input < 4 then Inl (TcpTruncated 4 (length input))
      else if input ! 0 \<noteq> 0x53 \<or> input ! 1 \<noteq> 0x00
      then Inl (UnexpectedStatusHeader (input ! 0) (input ! 1))
      else let end = 4 + unat (u16_from_be (input ! 2) (input ! 3)) in
           if length input < end then Inl (TcpTruncated end (length input))
           else Inr (slice input 4 end))"

record status_body =
  sb_code :: int
  sb_message :: string

definition is_status_ok :: "(bytes \<Rightarrow> status_body option) \<Rightarrow> bytes \<Rightarrow> bool" where
  "is_status_ok from_slice payload =
     (if payload = as_bytes ''OK'' then True
      else case from_slice payload of
             None \<Rightarrow> False
           | Some body \<Rightarrow> sb_code body = 0 \<and> sb_message body = ''OK'')"

lemmas tcp_frame_defs =
  encode_tcp_init_frame_def encode_tcp_target_ipv4_def encode_tcp_target_domain_def
  encode_tcp_app_data_def encode_tcp_close_def encode_tcp_probe_def TCP_INIT_PREFIX_def
  u16_try_from_def

section \<open>Properties\<close>

lemma parse_status_ok:
  "length p < 65536 \<Longrightarrow>
   parse_status_payload ([0x53, 0x00] @ u16_to_be (word_of_nat (length p)) @ p @ rest) = Inr p"
  by (auto simp: parse_status_payload_def u16_to_be_def slice_def u16_from_be_def Let_def)

lemma parse_status_sound:
  assumes "parse_status_payload input = Inr p"
  shows "\<exists>rest. input = [0x53, 0x00] @ u16_to_be (word_of_nat (length p)) @ p @ rest"
proof -
  define n where "n = unat (u16_from_be (input ! 2) (input ! 3))"
  from assms have l4: "4 \<le> length input" and h: "input ! 0 = 0x53" "input ! 1 = 0x00"
    and len: "4 + n \<le> length input" and p: "p = slice input 4 (4 + n)"
    by (auto simp: parse_status_payload_def n_def Let_def split: if_splits)
  have "length p = n" using len p by simp
  then have w: "[input ! 2, input ! 3] = u16_to_be (word_of_nat (length p))"
    by (simp add: n_def u16_to_from_be)
  have d: "drop 4 input = p @ drop (n + 4) input"
    using append_take_drop_id [of n "drop 4 input"] by (simp add: p slice_def)
  have "input = [input ! 0, input ! 1, input ! 2, input ! 3] @ drop 4 input"
    by (rule list_split4 [OF l4])
  also have "\<dots> = [0x53, 0x00] @ [input ! 2, input ! 3] @ p @ drop (n + 4) input"
    by (simp add: h [simplified] d)
  finally show ?thesis unfolding w by blast
qed

text \<open>The target frames are unambiguous.\<close>

lemma target_ipv4_inject:
  "encode_tcp_target_ipv4 ip p @ r = encode_tcp_target_ipv4 ip' p' @ r'
     \<longleftrightarrow> ip = ip' \<and> p = p' \<and> r = r'"
proof -
  have "length (octets ip @ u16_to_be p) = length (octets ip' @ u16_to_be p')" by simp
  then show ?thesis
    unfolding encode_tcp_target_ipv4_def
    by (auto simp: append_eq_append_conv simp del: append_assoc simp flip: append_assoc)
qed

lemma target_domain_inject:
  assumes "encode_tcp_target_domain h p = Inr f" and "encode_tcp_target_domain h' p' = Inr f'"
    and "f @ r = f' @ r'"
  shows "h = h' \<and> p = p' \<and> r = r'"
proof -
  have l: "length h < 256" "length h' < 256"
    using assms(1,2) by (auto simp: encode_tcp_target_domain_def split: if_splits)
  have eq: "(word_of_nat (length h) :: byte) # as_bytes h @ u16_to_be p @ r
      = word_of_nat (length h') # as_bytes h' @ u16_to_be p' @ r'"
    using assms by (auto simp: encode_tcp_target_domain_def split: if_splits)
  then have "unat (word_of_nat (length h) :: byte) = unat (word_of_nat (length h') :: byte)" by simp
  then have "length (as_bytes h) = length (as_bytes h')" using l by simp
  then show ?thesis using eq by (simp add: append_eq_append_conv)
qed

text \<open>
  a status message is accepted exactly when it is the two-byte header, the length of a
  payload below 64 KiB and that payload; the payload is returned and what follows it is left
  alone.
\<close>

theorem status_payload_iff:
  "parse_status_payload input = Inr p \<longleftrightarrow>
     (\<exists>rest. input = [0x53, 0x00] @ u16_to_be (word_of_nat (length p)) @ p @ rest) \<and> length p < 65536"
proof
  assume a: "parse_status_payload input = Inr p"
  then have "length p = unat (u16_from_be (input ! 2) (input ! 3))"
    by (auto simp: parse_status_payload_def Let_def split: if_splits)
  then have "length p < 65536" using unsigned_less [of "u16_from_be (input ! 2) (input ! 3)"] by simp
  with parse_status_sound [OF a]
  show "(\<exists>rest. input = [0x53, 0x00] @ u16_to_be (word_of_nat (length p)) @ p @ rest) \<and> length p < 65536" ..
qed (use parse_status_ok in blast)

text \<open>
  the target frames on the TCP tunnel are unambiguous. Two domain targets followed by any
  application bytes are the same bytes only if host, port and the bytes that follow agree, the
  same holds for address targets, and no domain target reads as an address target.
\<close>

theorem tcp_targets_unambiguous:
  assumes "encode_tcp_target_domain h p = Inr f" and "encode_tcp_target_domain h' p' = Inr f'"
  shows "(f @ r = f' @ r' \<longleftrightarrow> h = h' \<and> p = p' \<and> r = r')
    \<and> (encode_tcp_target_ipv4 ip q @ r = encode_tcp_target_ipv4 ip' q' @ r' \<longleftrightarrow> ip = ip' \<and> q = q' \<and> r = r')
    \<and> f @ r \<noteq> encode_tcp_target_ipv4 ip q @ r'"
proof (intro conjI)
  show "f @ r = f' @ r' \<longleftrightarrow> h = h' \<and> p = p' \<and> r = r'"
    using target_domain_inject [OF assms] assms by auto
  show "f @ r \<noteq> encode_tcp_target_ipv4 ip q @ r'"
    using assms(1) by (auto simp: tcp_frame_defs split: if_splits)
qed (rule target_ipv4_inject)

theorem tcp_targets_unambiguous_witness:
  "([5, 1, 1, 3, 1, 0x61, 0, 80] @ [9] = [5, 1, 1, 3, 1, 0x61, 1, 187 :: byte] @ [9]
      \<longleftrightarrow> ''a'' = ''a'' \<and> (80 :: u16) = 443 \<and> [9 :: byte] = [9])
    \<and> (encode_tcp_target_ipv4 (Ipv4 10 0 0 1) 80 @ [9] = encode_tcp_target_ipv4 (Ipv4 10 0 0 2) 80 @ [9]
        \<longleftrightarrow> Ipv4 10 0 0 1 = Ipv4 10 0 0 2 \<and> (80 :: u16) = 80 \<and> [9 :: byte] = [9])
    \<and> [5, 1, 1, 3, 1, 0x61, 0, 80] @ [9] \<noteq> encode_tcp_target_ipv4 (Ipv4 10 0 0 1) 80 @ [9]"
  by (rule tcp_targets_unambiguous; simp add: encode_tcp_target_domain_def as_bytes_def u16_to_be_def)

end
