(* ===== verification/Async_Io.thy ===== *)
theory Async_Io
  imports Prelude
begin

text \<open>
  The contract of an asynchronous byte stream (\<open>AsyncRead + AsyncWrite\<close>), which the TCP tunnel
  and the handshake are generic over. The environment of a stream is its list of future answers,
  one per poll: it may hand over bytes, accept a prefix of what is written, refuse with an error
  or make the caller wait. A list that has run out answers nothing more. The bytes accepted so
  far are the \<open>io_wire\<close>. \<open>stream_write_all\<close> and \<open>stream_read_exact\<close> are the documented loops of
  \<open>AsyncWriteExt::write_all\<close> and \<open>AsyncReadExt::read_exact\<close> over any such stream: they poll
  again after every wait, so their result is \<open>PollPending\<close> only when the stream stays silent.
\<close>

section \<open>Definitions\<close>

datatype io_error_kind =
    BrokenPipe | ConnectionAborted | ConnectionReset | NotConnected | TimedOut | UnexpectedEof
  | WriteZero | InvalidData | InvalidInput | PermissionDenied | Unsupported | AddrInUse | AddrNotAvailable
  | Interrupted | NotFound | OtherKind

datatype io_error = IoError (io_kind: io_error_kind) (io_message: string)

datatype 'a poll = Ready 'a | PollPending

datatype 'a io_answer = Accept 'a | Refuse io_error | Wait

record io_stream =
  io_reads :: "bytes io_answer list"
  io_writes :: "nat io_answer list"
  io_flushes :: "unit io_answer list"
  io_shutdowns :: "unit io_answer list"
  io_wire :: bytes

definition stream_poll_read :: "nat \<Rightarrow> io_stream \<Rightarrow> (io_error + bytes) poll \<times> io_stream" where
  "stream_poll_read cap s =
     (case io_reads s of
        [] \<Rightarrow> (PollPending, s)
      | Wait # as \<Rightarrow> (PollPending, s\<lparr>io_reads := as\<rparr>)
      | Refuse e # as \<Rightarrow> (Ready (Inl e), s\<lparr>io_reads := as\<rparr>)
      | Accept bs # as \<Rightarrow>
          (Ready (Inr (take cap bs)),
           s\<lparr>io_reads := (if cap < length bs then Accept (drop cap bs) # as else as)\<rparr>))"

definition stream_poll_write :: "bytes \<Rightarrow> io_stream \<Rightarrow> (io_error + nat) poll \<times> io_stream" where
  "stream_poll_write bs s =
     (case io_writes s of
        [] \<Rightarrow> (PollPending, s)
      | Wait # as \<Rightarrow> (PollPending, s\<lparr>io_writes := as\<rparr>)
      | Refuse e # as \<Rightarrow> (Ready (Inl e), s\<lparr>io_writes := as\<rparr>)
      | Accept n # as \<Rightarrow>
          (Ready (Inr (min n (length bs))), s\<lparr>io_writes := as, io_wire := io_wire s @ take n bs\<rparr>))"

definition stream_poll_flush :: "io_stream \<Rightarrow> (io_error + unit) poll \<times> io_stream" where
  "stream_poll_flush s =
     (case io_flushes s of
        [] \<Rightarrow> (PollPending, s)
      | Wait # as \<Rightarrow> (PollPending, s\<lparr>io_flushes := as\<rparr>)
      | Refuse e # as \<Rightarrow> (Ready (Inl e), s\<lparr>io_flushes := as\<rparr>)
      | Accept u # as \<Rightarrow> (Ready (Inr ()), s\<lparr>io_flushes := as\<rparr>))"

definition stream_poll_shutdown :: "io_stream \<Rightarrow> (io_error + unit) poll \<times> io_stream" where
  "stream_poll_shutdown s =
     (case io_shutdowns s of
        [] \<Rightarrow> (PollPending, s)
      | Wait # as \<Rightarrow> (PollPending, s\<lparr>io_shutdowns := as\<rparr>)
      | Refuse e # as \<Rightarrow> (Ready (Inl e), s\<lparr>io_shutdowns := as\<rparr>)
      | Accept u # as \<Rightarrow> (Ready (Inr ()), s\<lparr>io_shutdowns := as\<rparr>))"

lemmas stream_poll_defs =
  stream_poll_read_def stream_poll_write_def stream_poll_flush_def stream_poll_shutdown_def

text \<open>Awaiting a flush or a shutdown: poll until the stream answers.\<close>

fun await_unit :: "unit io_answer list \<Rightarrow> (io_error + unit) poll \<times> unit io_answer list" where
  "await_unit [] = (PollPending, [])"
| "await_unit (Wait # as) = await_unit as"
| "await_unit (Refuse e # as) = (Ready (Inl e), as)"
| "await_unit (Accept u # as) = (Ready (Inr ()), as)"

definition stream_flush :: "io_stream \<Rightarrow> (io_error + unit) poll \<times> io_stream" where
  "stream_flush s = (case await_unit (io_flushes s) of (r, as) \<Rightarrow> (r, s\<lparr>io_flushes := as\<rparr>))"

definition stream_shutdown :: "io_stream \<Rightarrow> (io_error + unit) poll \<times> io_stream" where
  "stream_shutdown s = (case await_unit (io_shutdowns s) of (r, as) \<Rightarrow> (r, s\<lparr>io_shutdowns := as\<rparr>))"

definition write_zero :: io_error where
  "write_zero = IoError WriteZero ''write zero''"

definition early_eof :: io_error where
  "early_eof = IoError UnexpectedEof ''early eof''"

function stream_write_all :: "bytes \<Rightarrow> io_stream \<Rightarrow> (io_error + unit) poll \<times> io_stream" where
  "stream_write_all bs s =
     (if bs = [] then (Ready (Inr ()), s)
      else if io_writes s = [] then (PollPending, s)
      else case stream_poll_write bs s of
             (PollPending, s') \<Rightarrow> stream_write_all bs s'
           | (Ready (Inl e), s') \<Rightarrow> (Ready (Inl e), s')
           | (Ready (Inr n), s') \<Rightarrow>
               if n = 0 then (Ready (Inl write_zero), s') else stream_write_all (drop n bs) s')"
  by pat_completeness auto
termination
  by (relation "measure (\<lambda>(bs, s). length (io_writes s))")
     (auto simp: stream_poll_write_def split: list.splits io_answer.splits)

declare stream_write_all.simps [simp del]

text \<open>
  How much a stream still has to say to its reader. A poll with room for a byte lowers it,
  which is the measure of every read loop.
\<close>

fun reads_size :: "bytes io_answer list \<Rightarrow> nat" where
  "reads_size [] = 0"
| "reads_size (Accept bs # as) = Suc (length bs + reads_size as)"
| "reads_size (a # as) = Suc (reads_size as)"

lemma reads_size_0 [simp]: "reads_size as = 0 \<longleftrightarrow> as = []"
  by (cases as rule: reads_size.cases) auto

lemma stream_poll_read_shrinks:
  assumes "stream_poll_read cap s = (r, s')" and "0 < cap" and "io_reads s \<noteq> []"
  shows "reads_size (io_reads s') < reads_size (io_reads s)"
  using assms by (auto simp: stream_poll_read_def split: list.splits io_answer.splits if_splits)

function stream_read_exact :: "nat \<Rightarrow> io_stream \<Rightarrow> (io_error + bytes) poll \<times> io_stream" where
  "stream_read_exact k s =
     (if k = 0 then (Ready (Inr []), s)
      else if io_reads s = [] then (PollPending, s)
      else case stream_poll_read k s of
             (PollPending, s') \<Rightarrow> stream_read_exact k s'
           | (Ready (Inl e), s') \<Rightarrow> (Ready (Inl e), s')
           | (Ready (Inr bs), s') \<Rightarrow>
               if bs = [] then (Ready (Inl early_eof), s')
               else (case stream_read_exact (k - length bs) s' of
                       (Ready (Inr rest), s'') \<Rightarrow> (Ready (Inr (bs @ rest)), s'')
                     | res \<Rightarrow> res))"
  by pat_completeness auto
termination
  by (relation "measure (\<lambda>(k, s). reads_size (io_reads s))") (auto dest: stream_poll_read_shrinks [OF sym])

declare stream_read_exact.simps [simp del]

section \<open>What the loops deliver\<close>

text \<open>
  A live script hands over bytes or makes the reader wait: it neither ends the stream nor
  fails. \<open>script_bytes\<close> is what it carries, whatever the size of the pieces.
\<close>

fun live_reads :: "bytes io_answer list \<Rightarrow> bool" where
  "live_reads [] = True"
| "live_reads (Accept bs # as) = (bs \<noteq> [] \<and> live_reads as)"
| "live_reads (Wait # as) = live_reads as"
| "live_reads (Refuse e # as) = False"

fun script_bytes :: "bytes io_answer list \<Rightarrow> bytes" where
  "script_bytes [] = []"
| "script_bytes (Accept bs # as) = bs @ script_bytes as"
| "script_bytes (a # as) = script_bytes as"

lemma read_exact_live:
  assumes "live_reads as" and "k \<le> length (script_bytes as)"
  shows "\<exists>as'. stream_read_exact k (s\<lparr>io_reads := as @ tl_as\<rparr>) =
      (Ready (Inr (take k (script_bytes as))), s\<lparr>io_reads := as' @ tl_as\<rparr>)
    \<and> live_reads as' \<and> script_bytes as' = drop k (script_bytes as)"
  using assms
proof (induction as arbitrary: k rule: live_reads.induct)
  case 1
  then show ?case by (intro exI [of _ "[]"]) (simp add: stream_read_exact.simps)
next
  case (2 bs as)
  show ?case
  proof (cases "k = 0")
    case True
    with 2 show ?thesis by (intro exI [of _ "Accept bs # as"]) (simp add: stream_read_exact.simps)
  next
    case False
    show ?thesis
    proof (cases "k < length bs")
      case True
      with False 2 show ?thesis
        by (intro exI [of _ "Accept (drop k bs) # as"])
           (auto simp: stream_read_exact.simps [of k] stream_read_exact.simps [of 0] stream_poll_read_def)
    next
      case long: False
      then have "k - length bs \<le> length (script_bytes as)" and "live_reads as"
        using "2.prems" by auto
      from "2.IH" [OF this(2,1)] obtain as' where ih: "stream_read_exact (k - length bs) (s\<lparr>io_reads := as @ tl_as\<rparr>) =
          (Ready (Inr (take (k - length bs) (script_bytes as))), s\<lparr>io_reads := as' @ tl_as\<rparr>)"
        "live_reads as'" "script_bytes as' = drop (k - length bs) (script_bytes as)" by blast
      with False long "2.prems"(1) show ?thesis
        by (intro exI [of _ as']) (simp add: stream_read_exact.simps [of k] stream_poll_read_def)
    qed
  qed
next
  case (3 as)
  show ?case
  proof (cases "k = 0")
    case True
    with 3 show ?thesis by (intro exI [of _ "Wait # as"]) (simp add: stream_read_exact.simps)
  next
    case False
    from 3 obtain as' where "stream_read_exact k (s\<lparr>io_reads := as @ tl_as\<rparr>) =
          (Ready (Inr (take k (script_bytes as))), s\<lparr>io_reads := as' @ tl_as\<rparr>)"
        "live_reads as'" "script_bytes as' = drop k (script_bytes as)" by auto
    with False show ?thesis
      by (intro exI [of _ as']) (simp add: stream_read_exact.simps [of k] stream_poll_read_def)
  qed
next
  case (4 e as)
  then show ?case by simp
qed

text \<open>Reading touches nothing but the read answers.\<close>

lemma stream_poll_read_frame:
  "stream_poll_read cap s = (r, s') \<Longrightarrow> s' = s\<lparr>io_reads := io_reads s'\<rparr>"
  by (auto simp: stream_poll_read_def split: list.splits io_answer.splits if_splits)

text \<open>
  \<open>stream_write_all\<close> puts a prefix of its bytes on the wire, all of them exactly when it
  succeeds, and it leaves the other answers alone.
\<close>

lemma stream_poll_write_wire:
  assumes "stream_poll_write bs s = (r, s')"
  shows "io_wire s' = io_wire s @ (case r of Ready (Inr n) \<Rightarrow> take n bs | _ \<Rightarrow> [])"
    and "io_reads s' = io_reads s \<and> io_flushes s' = io_flushes s \<and> io_shutdowns s' = io_shutdowns s"
    and "r = Ready (Inr n) \<Longrightarrow> n \<le> length bs"
  using assms
  by (auto simp: stream_poll_write_def min_def split: list.splits io_answer.splits if_splits poll.splits sum.splits)

lemma stream_poll_write_shrinks:
  "stream_poll_write bs s = (r, s') \<Longrightarrow> io_writes s \<noteq> []
    \<Longrightarrow> length (io_writes s') < length (io_writes s)"
  by (auto simp: stream_poll_write_def split: list.splits io_answer.splits)

lemma stream_write_all_wire:
  "stream_write_all bs s = (r, s') \<Longrightarrow>
     \<exists>k \<le> length bs. io_wire s' = io_wire s @ take k bs \<and> (r = Ready (Inr ()) \<longrightarrow> k = length bs)"
proof (induction bs s arbitrary: r s' rule: stream_write_all.induct)
  case (1 bs s)
  show ?case
  proof (cases "bs = [] \<or> io_writes s = []")
    case True
    with "1.prems" show ?thesis by (auto simp: stream_write_all.simps [of bs s] split: if_splits)
  next
    case False
    then have ne: "bs \<noteq> []" "io_writes s \<noteq> []" by auto
    obtain p s1 where p: "stream_poll_write bs s = (p, s1)" by force
    note w = stream_poll_write_wire [OF p]
    consider (wait) "p = PollPending" | (err) e where "p = Ready (Inl e)" | (ok) n where "p = Ready (Inr n)"
      by (metis poll.exhaust sum.exhaust)
    then show ?thesis
    proof cases
      case wait
      then have "stream_write_all bs s1 = (r, s')"
        using "1.prems" ne p by (simp add: stream_write_all.simps [of bs s])
      from "1.IH"(2) [OF ne p [symmetric] wait this] w(1) wait show ?thesis by simp
    next
      case err
      with "1.prems" ne p w(1) show ?thesis by (intro exI [of _ 0]) (auto simp: stream_write_all.simps [of bs s])
    next
      case ok
      show ?thesis
      proof (cases "n = 0")
        case True
        with "1.prems" ne p ok w(1) show ?thesis
          by (intro exI [of _ 0]) (auto simp: stream_write_all.simps [of bs s])
      next
        case False
        then have "stream_write_all (drop n bs) s1 = (r, s')"
          using "1.prems" ne p ok by (simp add: stream_write_all.simps [of bs s])
        from "1.IH"(1) [OF ne p [symmetric] ok refl False this] obtain k where
          k: "k \<le> length (drop n bs)" "io_wire s' = io_wire s1 @ take k (drop n bs)"
            "r = Ready (Inr ()) \<longrightarrow> k = length (drop n bs)" by blast
        have "io_wire s' = io_wire s @ take (n + k) bs"
          using k(2) w(1) ok by (simp add: take_add)
        then show ?thesis using k w(3) ok by (intro exI [of _ "n + k"]) auto
      qed
    qed
  qed
qed

lemma stream_write_all_ok:
  "stream_write_all bs s = (Ready (Inr ()), s') \<Longrightarrow> io_wire s' = io_wire s @ bs"
  using stream_write_all_wire by fastforce

end
