(* ===== verification/Tcp_Stream.thy ===== *)
theory Tcp_Stream
  imports Tcp_Frame Async_Io
begin

text \<open>
  \<open>crates/atrust-tcp/src/stream.rs\<close> and \<open>target.rs\<close>: the framed tunnel a TCP connection runs
  in after its handshake. The tunnel is generic over the stream below it, whose behaviour is the
  script of answers of \<open>Async_Io\<close>; the JSON decoder of a status body is a parameter, as in
  \<open>Tcp_Frame\<close>. A tunnel is compared with the byte stream its callers see: what
  \<open>tunnel_write_all\<close> puts on the wire is \<open>app_frames\<close> of the bytes, and what \<open>read_to_end\<close>
  returns is \<open>tunnel_payload\<close> of the bytes received, however either side is cut into pieces.
\<close>

section \<open>Definitions\<close>

subsection \<open>Tunnel targets\<close>

datatype tunnel_target =
    TargetIpv4 ipv4 u16 string
  | TargetDomain string u16 string "ipv4 option"

fun target_app_id :: "tunnel_target \<Rightarrow> string" where
  "target_app_id (TargetIpv4 ip port app_id) = app_id"
| "target_app_id (TargetDomain host port app_id resolved) = app_id"

fun target_port :: "tunnel_target \<Rightarrow> u16" where
  "target_port (TargetIpv4 ip port app_id) = port"
| "target_port (TargetDomain host port app_id resolved) = port"

fun dest_addr_string :: "tunnel_target \<Rightarrow> string" where
  "dest_addr_string (TargetIpv4 ip port app_id) = ipv4_to_string ip @ '':'' @ dec_string (unat port)"
| "dest_addr_string (TargetDomain host port app_id resolved) = host @ '':'' @ dec_string (unat port)"

fun json_dest_host :: "tunnel_target \<Rightarrow> string" where
  "json_dest_host (TargetIpv4 ip port app_id) = ipv4_to_string ip"
| "json_dest_host (TargetDomain host port app_id resolved) = host"

subsection \<open>Errors\<close>

datatype tunnel_error =
    TunnelClosed
  | TunnelFrame tcp_frame_error
  | TunnelIo io_error
  | UnexpectedFrame byte byte
  | ProtocolError string

definition hex_pair :: "byte \<Rightarrow> byte \<Rightarrow> string" where
  "hex_pair a b = ''['' @ hex_byte False a @ '', '' @ hex_byte False b @ '']''"

fun tcp_frame_error_display :: "tcp_frame_error \<Rightarrow> string" where
  "tcp_frame_error_display (PayloadTooLarge len max_len) =
     ''payload length '' @ dec_string len @ '' exceeds max '' @ dec_string max_len"
| "tcp_frame_error_display EmptyDomain = ''domain name is empty''"
| "tcp_frame_error_display (DomainTooLong len) =
     ''domain name length '' @ dec_string len @ '' exceeds 255 bytes''"
| "tcp_frame_error_display (TcpTruncated needed got) =
     ''frame truncated: need '' @ dec_string needed @ '' bytes, got '' @ dec_string got"
| "tcp_frame_error_display (UnexpectedStatusHeader a b) =
     ''unexpected status header '' @ hex_pair a b @ '', expected 53 00''"

fun tunnel_error_display :: "tunnel_error \<Rightarrow> string" where
  "tunnel_error_display TunnelClosed = ''tunnel is closed''"
| "tunnel_error_display (TunnelFrame e) = tcp_frame_error_display e"
| "tunnel_error_display (TunnelIo e) = ''I/O error: '' @ io_message e"
| "tunnel_error_display (UnexpectedFrame a b) = ''unexpected tunnel frame header '' @ hex_pair a b"
| "tunnel_error_display (ProtocolError body) = ''protocol error during data phase: '' @ body"

subsection \<open>The decoder\<close>

datatype decode = App bytes | DecodeClosed | NeedMore

definition SERVER_CLOSE_TRAILER :: bytes where
  "SERVER_CLOSE_TRAILER = [0x30, 0x30]"

definition MAX_SKIPPED_CHATTER_BYTES :: nat where
  "MAX_SKIPPED_CHATTER_BYTES = 1024"

text \<open>
  One pass of \<open>try_decode_app\<close> with \<open>skipped\<close> unrecognised bytes behind it. The result is
  paired with what is left in the read buffer.
\<close>

function decode_loop ::
  "(bytes \<Rightarrow> status_body option) \<Rightarrow> nat \<Rightarrow> bytes \<Rightarrow> (tunnel_error + decode) \<times> bytes" where
  "decode_loop from_slice skipped read_buf =
     (if length read_buf - skipped < 2 then (Inr NeedMore, read_buf)
      else let h0 = read_buf ! skipped; h1 = read_buf ! (skipped + 1) in
      if h0 = 0x01 \<and> h1 = 0x00 then
        (if length read_buf < skipped + 4 then (Inr NeedMore, read_buf)
         else let len = unat (u16_from_be (read_buf ! (skipped + 2)) (read_buf ! (skipped + 3))) in
           if length read_buf < skipped + 4 + len then (Inr NeedMore, read_buf)
           else (Inr (App (slice read_buf (skipped + 4) (skipped + 4 + len))),
                 drop (skipped + 4 + len) read_buf))
      else if h0 = 0x01 \<and> h1 = 0x01 then
        (if length read_buf < skipped + 4 then (Inr NeedMore, read_buf)
         else let trailer = [read_buf ! (skipped + 2), read_buf ! (skipped + 3)];
                  rest = drop (skipped + 4) read_buf in
           if trailer = SERVER_CLOSE_TRAILER then (Inr DecodeClosed, rest)
           else decode_loop from_slice 0 rest)
      else if h0 = 0x05 \<and> h1 = 0x81 then decode_loop from_slice 0 (drop (skipped + 2) read_buf)
      else if h0 = 0x53 \<and> h1 = 0x00 then
        (if length read_buf < skipped + 4 then (Inr NeedMore, read_buf)
         else let len = unat (u16_from_be (read_buf ! (skipped + 2)) (read_buf ! (skipped + 3))) in
           if length read_buf < skipped + 4 + len then (Inr NeedMore, read_buf)
           else let body = slice read_buf (skipped + 4) (skipped + 4 + len);
                    rest = drop (skipped + 4 + len) read_buf in
             if \<not> is_status_ok from_slice body then (Inl (ProtocolError (from_utf8_lossy body)), rest)
             else decode_loop from_slice 0 rest)
      else if MAX_SKIPPED_CHATTER_BYTES < skipped + 2 then (Inl (UnexpectedFrame h0 h1), read_buf)
      else decode_loop from_slice (skipped + 2) read_buf)"
  by pat_completeness auto
termination
  by (relation "measure (\<lambda>(p, skipped, buf). length buf - skipped)") auto

declare decode_loop.simps [simp del]

definition try_decode_app ::
  "(bytes \<Rightarrow> status_body option) \<Rightarrow> bytes \<Rightarrow> (tunnel_error + decode) \<times> bytes" where
  "try_decode_app from_slice read_buf = decode_loop from_slice 0 read_buf"

subsection \<open>The tunnel\<close>

record tcp_tunnel =
  stream :: io_stream
  read_buf :: bytes
  app_pending :: bytes
  write_pending :: bytes
  write_offset :: nat
  closed :: bool

definition from_stream :: "io_stream \<Rightarrow> tcp_tunnel" where
  "from_stream s = \<lparr>stream = s, read_buf = [], app_pending = [], write_pending = [],
     write_offset = 0, closed = False\<rparr>"

definition send_probe :: "tcp_tunnel \<Rightarrow> (tunnel_error + unit) poll \<times> tcp_tunnel" where
  "send_probe t =
     (if closed t then (Ready (Inl TunnelClosed), t)
      else case stream_write_all encode_tcp_probe (stream t) of
             (Ready (Inr u), s) \<Rightarrow>
               (case stream_flush s of
                  (Ready (Inr u'), s') \<Rightarrow> (Ready (Inr ()), t\<lparr>stream := s'\<rparr>)
                | (Ready (Inl e), s') \<Rightarrow> (Ready (Inl (TunnelIo e)), t\<lparr>stream := s'\<rparr>)
                | (PollPending, s') \<Rightarrow> (PollPending, t\<lparr>stream := s'\<rparr>))
           | (Ready (Inl e), s) \<Rightarrow> (Ready (Inl (TunnelIo e)), t\<lparr>stream := s\<rparr>)
           | (PollPending, s) \<Rightarrow> (PollPending, t\<lparr>stream := s\<rparr>))"

text \<open>\<open>close\<close> runs all three steps and reports the first error.\<close>

fun result_err :: "(io_error + unit) poll \<Rightarrow> io_error option" where
  "result_err (Ready (Inl e)) = Some e"
| "result_err _ = None"

fun get_or_insert :: "'a option \<Rightarrow> 'a option \<Rightarrow> 'a option" where
  "get_or_insert None e = e"
| "get_or_insert (Some e) _ = Some e"

definition close :: "tcp_tunnel \<Rightarrow> (tunnel_error + unit) poll \<times> tcp_tunnel" where
  "close t =
     (if closed t then (Ready (Inr ()), t)
      else case stream_write_all encode_tcp_close (stream t) of (r1, s1) \<Rightarrow>
        if r1 = PollPending then (PollPending, t\<lparr>closed := True, stream := s1\<rparr>)
        else case stream_flush s1 of (r2, s2) \<Rightarrow>
        if r2 = PollPending then (PollPending, t\<lparr>closed := True, stream := s2\<rparr>)
        else case stream_shutdown s2 of (r3, s3) \<Rightarrow>
        if r3 = PollPending then (PollPending, t\<lparr>closed := True, stream := s3\<rparr>)
        else (case get_or_insert (get_or_insert (result_err r1) (result_err r2)) (result_err r3) of
                None \<Rightarrow> (Ready (Inr ()), t\<lparr>closed := True, stream := s3\<rparr>)
              | Some e \<Rightarrow> (Ready (Inl (TunnelIo e)), t\<lparr>closed := True, stream := s3\<rparr>)))"

text \<open>Writing out what is pending, shared by \<open>poll_write\<close> and \<open>poll_shutdown\<close>.\<close>

function write_pending_loop :: "tcp_tunnel \<Rightarrow> (io_error + unit) poll \<times> tcp_tunnel" where
  "write_pending_loop t =
     (if length (write_pending t) \<le> write_offset t then (Ready (Inr ()), t)
      else if io_writes (stream t) = [] then (PollPending, t)
      else case stream_poll_write (drop (write_offset t) (write_pending t)) (stream t) of
             (Ready (Inr n), s) \<Rightarrow>
               if n = 0 then (Ready (Inl write_zero), t\<lparr>stream := s\<rparr>)
               else write_pending_loop (t\<lparr>stream := s, write_offset := write_offset t + n\<rparr>)
           | (Ready (Inl e), s) \<Rightarrow> (Ready (Inl e), t\<lparr>stream := s\<rparr>)
           | (PollPending, s) \<Rightarrow> (PollPending, t\<lparr>stream := s\<rparr>))"
  by pat_completeness auto
termination
  by (relation "measure (\<lambda>t. length (io_writes (stream t)))")
     (auto dest: stream_poll_write_shrinks [OF sym])

declare write_pending_loop.simps [simp del]

definition tunnel_user_len :: "bytes \<Rightarrow> nat" where
  "tunnel_user_len pending =
     (if 4 \<le> length pending then unat (u16_from_be (pending ! 2) (pending ! 3)) else 0)"

definition poll_write :: "bytes \<Rightarrow> tcp_tunnel \<Rightarrow> (io_error + nat) poll \<times> tcp_tunnel" where
  "poll_write buf t =
     (if closed t then (Ready (Inl (IoError BrokenPipe ''tunnel closed'')), t)
      else if buf = [] then (Ready (Inr 0), t)
      else case (if write_pending t = []
                 then (case encode_tcp_app_data (take (min (length buf) 65535) buf) of
                         Inl e \<Rightarrow> Inl (IoError InvalidInput (tcp_frame_error_display e))
                       | Inr frame \<Rightarrow> Inr (t\<lparr>write_pending := frame, write_offset := 0\<rparr>))
                 else Inr t) of
             Inl e \<Rightarrow> (Ready (Inl e), t)
           | Inr t1 \<Rightarrow>
               (case write_pending_loop t1 of
                  (Ready (Inr u), t2) \<Rightarrow>
                    (Ready (Inr (tunnel_user_len (write_pending t1))),
                     t2\<lparr>write_pending := [], write_offset := 0\<rparr>)
                | (Ready (Inl e), t2) \<Rightarrow> (Ready (Inl e), t2)
                | (PollPending, t2) \<Rightarrow> (PollPending, t2)))"

definition poll_flush :: "tcp_tunnel \<Rightarrow> (io_error + unit) poll \<times> tcp_tunnel" where
  "poll_flush t = (case stream_poll_flush (stream t) of (r, s) \<Rightarrow> (r, t\<lparr>stream := s\<rparr>))"

definition poll_shutdown :: "tcp_tunnel \<Rightarrow> (io_error + unit) poll \<times> tcp_tunnel" where
  "poll_shutdown t =
     (let t1 = (if \<not> closed t \<and> write_pending t = []
                then t\<lparr>write_pending := encode_tcp_close, write_offset := 0\<rparr> else t) in
      case write_pending_loop t1 of
        (Ready (Inr u), t2) \<Rightarrow>
          (case stream_poll_shutdown (stream t2) of
             (r, s) \<Rightarrow> (r, t2\<lparr>write_pending := [], closed := True, stream := s\<rparr>))
      | (Ready (Inl e), t2) \<Rightarrow> (Ready (Inl e), t2\<lparr>write_pending := [], closed := True\<rparr>)
      | (PollPending, t2) \<Rightarrow> (PollPending, t2))"

text \<open>
  \<open>write_all\<close> on the tunnel itself, the documented loop over \<open>poll_write\<close>. A wait is polled
  again with the same bytes.
\<close>

lemma write_pending_loop_shrinks:
  "write_pending_loop t = (r, t') \<Longrightarrow> length (io_writes (stream t')) \<le> length (io_writes (stream t))"
proof (induction t arbitrary: r t' rule: write_pending_loop.induct)
  case (1 t)
  show ?case
  proof (cases "length (write_pending t) \<le> write_offset t \<or> io_writes (stream t) = []")
    case True
    with "1.prems" show ?thesis by (auto simp: write_pending_loop.simps [of t] split: if_splits)
  next
    case False
    then have ne: "\<not> length (write_pending t) \<le> write_offset t" "io_writes (stream t) \<noteq> []" by auto
    obtain p s where p: "stream_poll_write (drop (write_offset t) (write_pending t)) (stream t) = (p, s)"
      by force
    note less = stream_poll_write_shrinks [OF p ne(2)]
    show ?thesis
    proof (cases "\<exists>n. p = Ready (Inr n) \<and> n \<noteq> 0")
      case True
      then obtain n where n: "p = Ready (Inr n)" "n \<noteq> 0" by blast
      have "write_pending_loop (t\<lparr>stream := s, write_offset := write_offset t + n\<rparr>) = (r, t')"
        using "1.prems" ne p n by (simp add: write_pending_loop.simps [of t])
      from "1.IH" [OF ne p [symmetric] n(1) refl n(2) this] less show ?thesis by simp
    next
      case stop: False
      with "1.prems" ne p less show ?thesis
        by (auto simp: write_pending_loop.simps [of t] split: poll.splits sum.splits if_splits)
    qed
  qed
qed

lemma write_pending_loop_strict:
  assumes "write_pending_loop t = (r, t')" and "write_offset t < length (write_pending t)"
    and "io_writes (stream t) \<noteq> []"
  shows "length (io_writes (stream t')) < length (io_writes (stream t))"
proof -
  obtain p s where p: "stream_poll_write (drop (write_offset t) (write_pending t)) (stream t) = (p, s)"
    by force
  note less = stream_poll_write_shrinks [OF p assms(3)]
  show ?thesis
  proof (cases "\<exists>n. p = Ready (Inr n) \<and> n \<noteq> 0")
    case True
    then obtain n where n: "p = Ready (Inr n)" "n \<noteq> 0" by blast
    have "write_pending_loop (t\<lparr>stream := s, write_offset := write_offset t + n\<rparr>) = (r, t')"
      using assms p n by (simp add: write_pending_loop.simps [of t])
    from write_pending_loop_shrinks [OF this] less show ?thesis by simp
  next
    case False
    with assms p less show ?thesis
      by (auto simp: write_pending_loop.simps [of t] split: poll.splits sum.splits if_splits)
  qed
qed

lemma write_pending_loop_done:
  "length (write_pending t) \<le> write_offset t \<Longrightarrow> write_pending_loop t = (Ready (Inr ()), t)"
  by (simp add: write_pending_loop.simps)

lemma encode_app_data_min:
  "encode_tcp_app_data (take (min (length buf) 65535) buf) =
    Inr ([0x01, 0x00] @ u16_to_be (word_of_nat (min (length buf) 65535)) @ take 65535 buf)"
proof -
  have "take (min (length buf) 65535) buf = take 65535 buf" by (simp add: min_def)
  then show ?thesis by (simp add: encode_tcp_app_data_def u16_try_from_def min_def)
qed

abbreviation write_measure :: "tcp_tunnel \<Rightarrow> nat" where
  "write_measure t \<equiv> 2 * length (io_writes (stream t)) + (if write_pending t = [] then 0 else 1)"

lemma write_pending_loop_silent:
  assumes "write_offset t < length (write_pending t)" and "io_writes (stream t) = []"
  shows "write_pending_loop t = (PollPending, t)"
  using assms by (simp add: write_pending_loop.simps [of t])

lemma poll_write_progress:
  assumes "poll_write buf t = (r, t')" and "buf \<noteq> []"
    and "(r = PollPending \<and> io_writes (stream t) \<noteq> []) \<or> (\<exists>n. r = Ready (Inr n))"
  shows "write_measure t' < write_measure t"
proof -
  have opn: "\<not> closed t" using assms by (auto simp: poll_write_def)
  show ?thesis
  proof (cases "write_pending t = []")
    case True
    obtain frame where f: "encode_tcp_app_data (take (min (length buf) 65535) buf) = Inr frame" "frame \<noteq> []"
      by (simp add: encode_app_data_min)
    let ?t1 = "t\<lparr>write_pending := frame, write_offset := 0\<rparr>"
    obtain q t2 where q: "write_pending_loop ?t1 = (q, t2)" by force
    have res: "stream t' = stream t2" and "(r = PollPending) = (q = PollPending)"
      using assms True q f opn by (auto simp: poll_write_def split: poll.splits sum.splits)
    then have "io_writes (stream t) \<noteq> []"
      using assms(3) write_pending_loop_silent [of ?t1] q f(2) by auto
    then have "length (io_writes (stream t2)) < length (io_writes (stream ?t1))"
      using f(2) by (intro write_pending_loop_strict [OF q]) auto
    with True res show ?thesis by simp
  next
    case False
    obtain q t2 where q: "write_pending_loop t = (q, t2)" by force
    show ?thesis
    proof (cases "length (write_pending t) \<le> write_offset t")
      case True
      with False assms opn show ?thesis by (auto simp: poll_write_def write_pending_loop_done)
    next
      case part: False
      have res: "stream t' = stream t2" "(r = PollPending) = (q = PollPending)"
        using assms False q opn by (auto simp: poll_write_def split: poll.splits sum.splits)
      then have "io_writes (stream t) \<noteq> []"
        using assms(3) write_pending_loop_silent [of t] q part by auto
      then have "length (io_writes (stream t2)) < length (io_writes (stream t))"
        using write_pending_loop_strict [OF q] part by simp
      with False res show ?thesis by simp
    qed
  qed
qed

function tunnel_write_all :: "bytes \<Rightarrow> tcp_tunnel \<Rightarrow> (io_error + unit) poll \<times> tcp_tunnel" where
  "tunnel_write_all buf t =
     (if buf = [] then (Ready (Inr ()), t)
      else case poll_write buf t of
             (PollPending, t') \<Rightarrow>
               if io_writes (stream t) = [] then (PollPending, t') else tunnel_write_all buf t'
           | (Ready (Inl e), t') \<Rightarrow> (Ready (Inl e), t')
           | (Ready (Inr n), t') \<Rightarrow>
               if n = 0 then (Ready (Inl write_zero), t') else tunnel_write_all (drop n buf) t')"
  by pat_completeness auto
termination
proof (relation "measure (\<lambda>(buf, t). write_measure t)")
qed (auto dest!: poll_write_progress [OF sym])

declare tunnel_write_all.simps [simp del]

definition write_app :: "bytes \<Rightarrow> tcp_tunnel \<Rightarrow> (tunnel_error + unit) poll \<times> tcp_tunnel" where
  "write_app payload t =
     (if closed t then (Ready (Inl TunnelClosed), t)
      else case tunnel_write_all payload t of
             (Ready (Inr u), t1) \<Rightarrow>
               (case stream_flush (stream t1) of
                  (Ready (Inr u'), s) \<Rightarrow> (Ready (Inr ()), t1\<lparr>stream := s\<rparr>)
                | (Ready (Inl e), s) \<Rightarrow> (Ready (Inl (TunnelIo e)), t1\<lparr>stream := s\<rparr>)
                | (PollPending, s) \<Rightarrow> (PollPending, t1\<lparr>stream := s\<rparr>))
           | (Ready (Inl e), t1) \<Rightarrow> (Ready (Inl (TunnelIo e)), t1)
           | (PollPending, t1) \<Rightarrow> (PollPending, t1))"

subsection \<open>The frames of a tunnel\<close>

text \<open>
  The reference for the decoder: the first frame of a stream, with the number of bytes up to its
  end, after \<open>k\<close> bytes of padding. It asks for more bytes, reports a frame, or gives up on
  padding that runs past the bound.
\<close>

datatype tunnel_frame = Data bytes | CloseFrame | Marker byte byte | NodeChatter | StatusFrame bytes

fun sized_frame :: "(bytes \<Rightarrow> tunnel_frame) \<Rightarrow> nat \<Rightarrow> bytes \<Rightarrow> (tunnel_frame \<times> nat) option" where
  "sized_frame mk k (l0 # l1 # body) =
     (let len = unat (u16_from_be l0 l1) in
      if length body < len then None else Some (mk (take len body), k + 4 + len))"
| "sized_frame mk k _ = None"

fun marker_frame :: "nat \<Rightarrow> bytes \<Rightarrow> (tunnel_frame \<times> nat) option" where
  "marker_frame k (a # b # r) =
     Some (if [a, b] = SERVER_CLOSE_TRAILER then CloseFrame else Marker a b, k + 4)"
| "marker_frame k _ = None"

fun scan_frame :: "nat \<Rightarrow> bytes \<Rightarrow> tunnel_error + (tunnel_frame \<times> nat) option" where
  "scan_frame k (h0 # h1 # r) =
     (if h0 = 0x01 \<and> h1 = 0x00 then Inr (sized_frame Data k r)
      else if h0 = 0x01 \<and> h1 = 0x01 then Inr (marker_frame k r)
      else if h0 = 0x05 \<and> h1 = 0x81 then Inr (Some (NodeChatter, k + 2))
      else if h0 = 0x53 \<and> h1 = 0x00 then Inr (sized_frame StatusFrame k r)
      else if MAX_SKIPPED_CHATTER_BYTES < k + 2 then Inl (UnexpectedFrame h0 h1)
      else scan_frame (k + 2) r)"
| "scan_frame k _ = Inr None"

lemma sized_frame_size: "sized_frame mk k r = Some (f, n) \<Longrightarrow> k < n \<and> n \<le> k + 2 + length r"
  by (cases "(mk, k, r)" rule: sized_frame.cases) (auto simp: Let_def split: if_splits)

lemma sized_frame_stable: "sized_frame mk k r = Some fn \<Longrightarrow> sized_frame mk k (r @ x) = Some fn"
  by (cases "(mk, k, r)" rule: sized_frame.cases) (auto simp: Let_def split: if_splits)

lemma marker_frame_size: "marker_frame k r = Some (f, n) \<Longrightarrow> k < n \<and> n \<le> k + 2 + length r"
  by (cases "(k, r)" rule: marker_frame.cases) auto

lemma marker_frame_stable: "marker_frame k r = Some fn \<Longrightarrow> marker_frame k (r @ x) = Some fn"
  by (cases "(k, r)" rule: marker_frame.cases) auto

lemma scan_frame_size: "scan_frame k r = Inr (Some (f, n)) \<Longrightarrow> k < n \<and> n \<le> k + length r"
  by (induction k r rule: scan_frame.induct)
     (auto split: if_splits dest!: sized_frame_size marker_frame_size)

lemma data_frame_size:
  "scan_frame k r = Inr (Some (f, n)) \<Longrightarrow> f = Data p \<Longrightarrow> k + length p + 4 \<le> n"
proof (induction k r rule: scan_frame.induct)
  case (1 k h0 h1 r)
  then show ?case
    by (cases "(Data, k, r)" rule: sized_frame.cases)
       (auto simp: Let_def split: if_splits)
qed auto

lemma scan_frame_stable: "scan_frame k r = Inr (Some fn) \<Longrightarrow> scan_frame k (r @ x) = Inr (Some fn)"
  by (induction k r rule: scan_frame.induct)
     (auto split: if_splits simp: sized_frame_stable marker_frame_stable)

lemma scan_frame_error: "scan_frame k r = Inl e \<Longrightarrow> scan_frame k (r @ x) = Inl e"
  by (induction k r rule: scan_frame.induct) (auto split: if_splits)

interpretation tunnel_framing: framing "scan_frame 0"
  by unfold_locales (auto dest: scan_frame_size scan_frame_stable scan_frame_error)

text \<open>The decoder acts on the frames the reference finds.\<close>

fun decode_frame ::
  "(bytes \<Rightarrow> status_body option) \<Rightarrow> tunnel_frame \<Rightarrow> bytes \<Rightarrow> (tunnel_error + decode) \<times> bytes" where
  "decode_frame from_slice (Data p) rest = (Inr (App p), rest)"
| "decode_frame from_slice CloseFrame rest = (Inr DecodeClosed, rest)"
| "decode_frame from_slice (Marker a b) rest = try_decode_app from_slice rest"
| "decode_frame from_slice NodeChatter rest = try_decode_app from_slice rest"
| "decode_frame from_slice (StatusFrame body) rest =
     (if is_status_ok from_slice body then try_decode_app from_slice rest
      else (Inl (ProtocolError (from_utf8_lossy body)), rest))"

lemma nth_past: "(pre @ xs) ! (length pre + i) = xs ! i"
  by (simp add: nth_append)

lemma decode_loop_scan:
  "k = length pre \<Longrightarrow> decode_loop from_slice k (pre @ r) =
     (case scan_frame k r of
        Inl e \<Rightarrow> (Inl e, pre @ r)
      | Inr None \<Rightarrow> (Inr NeedMore, pre @ r)
      | Inr (Some (f, n)) \<Rightarrow> decode_frame from_slice f (drop n (pre @ r)))"
proof (induction k r arbitrary: pre rule: scan_frame.induct)
  case (1 k h0 h1 r)
  have h: "(pre @ h0 # h1 # r) ! k = h0" "(pre @ h0 # h1 # r) ! (k + 1) = h1"
    using "1.prems" by (simp_all add: nth_append)
  note step = decode_loop.simps [of from_slice k "pre @ h0 # h1 # r"]
  have enough: "\<not> length (pre @ h0 # h1 # r) - k < 2" using "1.prems" by simp
  show ?case
  proof (cases "h0 = 0x01 \<and> h1 = 0x01")
    case True
    then show ?thesis
      using "1.prems" unfolding step
      by (cases "(k, r)" rule: marker_frame.cases)
         (auto simp: h try_decode_app_def Let_def nth_append)
  next
    case marker: False
    show ?thesis
    proof (cases "(h0 = 0x01 \<or> h0 = 0x53) \<and> h1 = 0x00 \<or> h0 = 0x05 \<and> h1 = 0x81")
      case True
      then show ?thesis
        using "1.prems" unfolding step
        by (cases "(Data, k, r)" rule: sized_frame.cases)
           (auto simp: h try_decode_app_def Let_def nth_append slice_def)
    next
      case pad: False
      have ih: "decode_loop from_slice (k + 2) ((pre @ [h0, h1]) @ r) =
        (case scan_frame (k + 2) r of
          Inl e \<Rightarrow> (Inl e, (pre @ [h0, h1]) @ r)
        | Inr None \<Rightarrow> (Inr NeedMore, (pre @ [h0, h1]) @ r)
        | Inr (Some (f, n)) \<Rightarrow> decode_frame from_slice f (drop n ((pre @ [h0, h1]) @ r)))"
        if "\<not> MAX_SKIPPED_CHATTER_BYTES < k + 2"
        using "1.prems" marker pad that by (intro "1.IH") auto
      have loop: "decode_loop from_slice k (pre @ h0 # h1 # r) =
        (if MAX_SKIPPED_CHATTER_BYTES < k + 2 then (Inl (UnexpectedFrame h0 h1), pre @ h0 # h1 # r)
         else decode_loop from_slice (k + 2) (pre @ h0 # h1 # r))"
        unfolding step h Let_def using enough marker pad by (simp only: if_False simp_thms) argo
      have scan: "scan_frame k (h0 # h1 # r) =
        (if MAX_SKIPPED_CHATTER_BYTES < k + 2 then Inl (UnexpectedFrame h0 h1) else scan_frame (k + 2) r)"
        using marker pad by auto
      show ?thesis
      proof (cases "MAX_SKIPPED_CHATTER_BYTES < k + 2")
        case True
        then show ?thesis unfolding loop scan by simp
      next
        case False
        then show ?thesis unfolding loop scan
          using ih [OF False] by (simp only: append_assoc append_Cons append_Nil if_False)
      qed
    qed
  qed
qed (simp_all add: decode_loop.simps)

lemma try_decode_scan:
  "try_decode_app from_slice buf =
     (case scan_frame 0 buf of
        Inl e \<Rightarrow> (Inl e, buf)
      | Inr None \<Rightarrow> (Inr NeedMore, buf)
      | Inr (Some (f, n)) \<Rightarrow> decode_frame from_slice f (drop n buf))"
  using decode_loop_scan [of 0 "[]" from_slice buf] by (simp only: try_decode_app_def append_Nil list.size)
subsection \<open>Reading\<close>

lemma try_decode_shrinks:
  "try_decode_app from_slice buf = (r, rest) \<Longrightarrow>
     length rest + (case r of Inr (App p) \<Rightarrow> length p + 4 | _ \<Rightarrow> 0) \<le> length buf"
proof (induction "length buf" arbitrary: buf rule: less_induct)
  case less
  show ?case
  proof (cases "\<exists>f n. scan_frame 0 buf = Inr (Some (f, n))")
    case True
    then obtain f n where f: "scan_frame 0 buf = Inr (Some (f, n))" by blast
    note n = tunnel_framing.frame_size [OF f]
    have rest: "decode_frame from_slice f (drop n buf) = (r, rest)"
      using less.prems f by (simp add: try_decode_scan [of _ buf])
    have rec: ?thesis if "try_decode_app from_slice (drop n buf) = (r, rest)"
      using less.hyps [of "drop n buf"] that n by fastforce
    show ?thesis
      using rest n rec data_frame_size [OF f] by (cases f) (auto split: if_splits)
  next
    case False
    then have "length rest = length buf \<and> (\<forall>p. r \<noteq> Inr (App p))"
      using less.prems by (auto simp: try_decode_scan [of _ buf] split: sum.splits option.splits)
    then show ?thesis by (auto split: sum.splits decode.splits)
  qed
qed

lemma try_decode_app_shrinks:
  "try_decode_app from_slice buf = (Inr (App p), rest) \<Longrightarrow> length rest + length p + 4 \<le> length buf"
  by (drule try_decode_shrinks) simp

function poll_read_loop ::
  "(bytes \<Rightarrow> status_body option) \<Rightarrow> nat \<Rightarrow> tcp_tunnel \<Rightarrow> (io_error + bytes) poll \<times> tcp_tunnel" where
  "poll_read_loop from_slice cap t =
     (case try_decode_app from_slice (read_buf t) of
        (Inl e, rb) \<Rightarrow> (Ready (Inl (IoError InvalidData (tunnel_error_display e))), t\<lparr>read_buf := rb\<rparr>)
      | (Inr (App payload), rb) \<Rightarrow>
          if payload = [] then poll_read_loop from_slice cap (t\<lparr>read_buf := rb\<rparr>)
          else let pending = app_pending t @ payload; n = min cap (length pending) in
            (Ready (Inr (take n pending)), t\<lparr>read_buf := rb, app_pending := drop n pending\<rparr>)
      | (Inr DecodeClosed, rb) \<Rightarrow> (Ready (Inr []), t\<lparr>read_buf := rb, closed := True\<rparr>)
      | (Inr NeedMore, rb) \<Rightarrow>
          if io_reads (stream t) = [] then (PollPending, t\<lparr>read_buf := rb\<rparr>)
          else case stream_poll_read 8192 (stream t) of
                 (Ready (Inr bs), s) \<Rightarrow>
                   if bs = [] then (Ready (Inr []), t\<lparr>read_buf := rb, stream := s, closed := True\<rparr>)
                   else poll_read_loop from_slice cap (t\<lparr>read_buf := rb @ bs, stream := s\<rparr>)
               | (Ready (Inl e), s) \<Rightarrow> (Ready (Inl e), t\<lparr>read_buf := rb, stream := s\<rparr>)
               | (PollPending, s) \<Rightarrow> (PollPending, t\<lparr>read_buf := rb, stream := s\<rparr>))"
  by pat_completeness auto
termination
proof (relation "measures [\<lambda>(p, cap, t). reads_size (io_reads (stream t)), \<lambda>(p, cap, t). length (read_buf t)]")
qed (auto dest!: try_decode_app_shrinks [OF sym] stream_poll_read_shrinks [OF sym])

declare poll_read_loop.simps [simp del]

definition poll_read ::
  "(bytes \<Rightarrow> status_body option) \<Rightarrow> nat \<Rightarrow> tcp_tunnel \<Rightarrow> (io_error + bytes) poll \<times> tcp_tunnel" where
  "poll_read from_slice cap t =
     (if cap = 0 then (Ready (Inr []), t)
      else if app_pending t \<noteq> []
      then let n = min cap (length (app_pending t)) in
             (Ready (Inr (take n (app_pending t))), t\<lparr>app_pending := drop n (app_pending t)\<rparr>)
      else if closed t then (Ready (Inr []), t)
      else poll_read_loop from_slice cap t)"

function read_app_loop ::
  "(bytes \<Rightarrow> status_body option) \<Rightarrow> tcp_tunnel \<Rightarrow> (tunnel_error + bytes option) poll \<times> tcp_tunnel" where
  "read_app_loop from_slice t =
     (case try_decode_app from_slice (read_buf t) of
        (Inl e, rb) \<Rightarrow> (Ready (Inl e), t\<lparr>read_buf := rb\<rparr>)
      | (Inr (App payload), rb) \<Rightarrow>
          if payload = [] then read_app_loop from_slice (t\<lparr>read_buf := rb\<rparr>)
          else (Ready (Inr (Some payload)), t\<lparr>read_buf := rb\<rparr>)
      | (Inr DecodeClosed, rb) \<Rightarrow> (Ready (Inr None), t\<lparr>read_buf := rb, closed := True\<rparr>)
      | (Inr NeedMore, rb) \<Rightarrow>
          if io_reads (stream t) = [] then (PollPending, t\<lparr>read_buf := rb\<rparr>)
          else case stream_poll_read 8192 (stream t) of
                 (Ready (Inr bs), s) \<Rightarrow>
                   if bs = [] then (Ready (Inr None), t\<lparr>read_buf := rb, stream := s, closed := True\<rparr>)
                   else read_app_loop from_slice (t\<lparr>read_buf := rb @ bs, stream := s\<rparr>)
               | (Ready (Inl e), s) \<Rightarrow> (Ready (Inl (TunnelIo e)), t\<lparr>read_buf := rb, stream := s\<rparr>)
               | (PollPending, s) \<Rightarrow> read_app_loop from_slice (t\<lparr>read_buf := rb, stream := s\<rparr>))"
  by pat_completeness auto
termination
proof (relation "measures [\<lambda>(p, t). reads_size (io_reads (stream t)), \<lambda>(p, t). length (read_buf t)]")
qed (auto dest!: try_decode_app_shrinks [OF sym] stream_poll_read_shrinks [OF sym])

declare read_app_loop.simps [simp del]

definition read_app ::
  "(bytes \<Rightarrow> status_body option) \<Rightarrow> tcp_tunnel \<Rightarrow> (tunnel_error + bytes option) poll \<times> tcp_tunnel" where
  "read_app from_slice t = (if closed t then (Ready (Inr None), t) else read_app_loop from_slice t)"

text \<open>
  A caller that reads to the end: one poll after another, with buffers of any positive sizes,
  until the stream ends, fails, or stays silent.
\<close>

lemma poll_read_loop_shrinks:
  "poll_read_loop from_slice cap t = (r, t') \<Longrightarrow> 0 < cap \<Longrightarrow> app_pending t = [] \<Longrightarrow>
     reads_size (io_reads (stream t')) < reads_size (io_reads (stream t)) \<or>
     stream t' = stream t \<and> length (read_buf t') + length (app_pending t') \<le> length (read_buf t) \<and>
       (r = PollPending \<longrightarrow> io_reads (stream t) = []) \<and>
       (\<forall>bs. r = Ready (Inr bs) \<and> bs \<noteq> [] \<longrightarrow>
          length (read_buf t') + length (app_pending t') < length (read_buf t))"
proof (induction from_slice cap t arbitrary: r t' rule: poll_read_loop.induct)
  case (1 from_slice cap t)
  obtain d rb where d: "try_decode_app from_slice (read_buf t) = (d, rb)" by force
  have rb: "length rb \<le> length (read_buf t)"
    using try_decode_shrinks [OF d] by linarith
  consider (err) e where "d = Inl e" | (probe) "d = Inr (App [])" | (app) p where "d = Inr (App p)" "p \<noteq> []"
    | (cl) "d = Inr DecodeClosed" | (need) "d = Inr NeedMore"
    by (metis sum.exhaust decode.exhaust)
  then show ?case
  proof cases
    case probe
    have "poll_read_loop from_slice cap (t\<lparr>read_buf := rb\<rparr>) = (r, t')"
      using "1.prems"(1) d probe by (simp add: poll_read_loop.simps [of _ _ t])
    from "1.IH"(1) [OF d [symmetric] probe refl refl this] "1.prems" rb
    show ?thesis by fastforce
  next
    case app
    with "1.prems" d try_decode_app_shrinks [of from_slice "read_buf t" p rb] show ?thesis
      by (auto simp: poll_read_loop.simps [of _ _ t] Let_def)
  next
    case need
    show ?thesis
    proof (cases "io_reads (stream t) = []")
      case True
      with "1.prems" d need rb show ?thesis by (auto simp: poll_read_loop.simps [of _ _ t])
    next
      case False
      obtain q s where q: "stream_poll_read 8192 (stream t) = (q, s)" by force
      have less: "reads_size (io_reads s) < reads_size (io_reads (stream t))"
        by (rule stream_poll_read_shrinks [OF q _ False]) simp
      show ?thesis
      proof (cases "\<exists>bs. q = Ready (Inr bs) \<and> bs \<noteq> []")
        case True
        then obtain bs where bs: "q = Ready (Inr bs)" "bs \<noteq> []" by blast
        have "poll_read_loop from_slice cap (t\<lparr>read_buf := rb @ bs, stream := s\<rparr>) = (r, t')"
          using "1.prems"(1) d need False q bs by (simp add: poll_read_loop.simps [of _ _ t])
        from "1.IH"(2) [OF d [symmetric] need refl False q [symmetric] bs(1) refl bs(2) this] "1.prems" less
        show ?thesis by fastforce
      next
        case stop: False
        with "1.prems" d need False q less show ?thesis
          by (auto simp: poll_read_loop.simps [of _ _ t] split: poll.splits sum.splits if_splits)
      qed
    qed
  qed (use "1.prems" d rb in \<open>auto simp: poll_read_loop.simps [of _ _ t]\<close>)
qed

lemma poll_read_shrinks:
  assumes "poll_read from_slice cap t = (r, t')" and "0 < cap"
    and "r = PollPending \<and> io_reads (stream t) \<noteq> [] \<or> (\<exists>bs. r = Ready (Inr bs) \<and> bs \<noteq> [])"
  shows "reads_size (io_reads (stream t')) < reads_size (io_reads (stream t)) \<or>
    reads_size (io_reads (stream t')) = reads_size (io_reads (stream t)) \<and>
      length (read_buf t') + length (app_pending t') < length (read_buf t) + length (app_pending t)"
proof (cases "app_pending t = []")
  case True
  then have "poll_read_loop from_slice cap t = (r, t')"
    using assms by (auto simp: poll_read_def split: if_splits)
  from poll_read_loop_shrinks [OF this assms(2) True] assms(3) True show ?thesis by auto
next
  case False
  with assms show ?thesis by (auto simp: poll_read_def Let_def split: if_splits)
qed

function read_to_end ::
  "(bytes \<Rightarrow> status_body option) \<Rightarrow> (nat \<Rightarrow> nat) \<Rightarrow> nat \<Rightarrow> tcp_tunnel
    \<Rightarrow> (bytes \<times> (io_error + unit) poll) \<times> tcp_tunnel" where
  "read_to_end from_slice sizes i t =
     (case poll_read from_slice (Suc (sizes i)) t of
        (PollPending, t') \<Rightarrow>
          if io_reads (stream t) = [] then (([], PollPending), t')
          else read_to_end from_slice sizes (Suc i) t'
      | (Ready (Inl e), t') \<Rightarrow> (([], Ready (Inl e)), t')
      | (Ready (Inr bs), t') \<Rightarrow>
          if bs = [] then (([], Ready (Inr ())), t')
          else case read_to_end from_slice sizes (Suc i) t' of
                 ((later, r), t'') \<Rightarrow> ((bs @ later, r), t''))"
  by pat_completeness auto
termination
proof (relation "measures [\<lambda>(p, f, i, t). reads_size (io_reads (stream t)),
    \<lambda>(p, f, i, t). length (read_buf t) + length (app_pending t)]")
qed (auto dest!: poll_read_shrinks [OF sym])

declare read_to_end.simps [simp del]

section \<open>The byte stream a reader sees\<close>

fun payload_act ::
  "(bytes \<Rightarrow> status_body option) \<Rightarrow> tunnel_frame \<Rightarrow> bytes \<Rightarrow> bytes \<times> (tunnel_error + unit) option" where
  "payload_act from_slice (Data p) st = (st @ p, None)"
| "payload_act from_slice CloseFrame st = (st, Some (Inr ()))"
| "payload_act from_slice (StatusFrame body) st =
     (st, if is_status_ok from_slice body then None else Some (Inl (ProtocolError (from_utf8_lossy body))))"
| "payload_act from_slice (Marker a b) st = (st, None)"
| "payload_act from_slice NodeChatter st = (st, None)"

fun payload_end :: "bytes \<times> (byte, tunnel_error, tunnel_error + unit) drain_end \<Rightarrow> bytes \<times> (tunnel_error + unit)" where
  "payload_end (st, Pending p) = (st, Inr ())"
| "payload_end (st, SplitError e) = (st, Inl e)"
| "payload_end (st, Stopped r) = (st, r)"

text \<open>
  The payload of a received byte stream: the contents of its data frames up to the server's
  close, the first error or the end of the stream.
\<close>

definition payload_from ::
  "(bytes \<Rightarrow> status_body option) \<Rightarrow> bytes \<Rightarrow> bytes \<Rightarrow> bytes \<times> (tunnel_error + unit)" where
  "payload_from from_slice st w = payload_end (drain_with (scan_frame 0) (payload_act from_slice) st w)"

abbreviation tunnel_payload ::
  "(bytes \<Rightarrow> status_body option) \<Rightarrow> bytes \<Rightarrow> bytes \<times> (tunnel_error + unit)" where
  "tunnel_payload from_slice w \<equiv> payload_from from_slice [] w"

lemma payload_frame:
  assumes "scan_frame 0 buf = Inr (Some (f, n))"
  shows "payload_from from_slice st buf =
    (case payload_act from_slice f st of
       (st', Some r) \<Rightarrow> (st', r)
     | (st', None) \<Rightarrow> payload_from from_slice st' (drop n buf))"
  unfolding payload_from_def tunnel_framing.drain_frame [OF assms]
  by (auto split: prod.splits option.splits)

lemma payload_more: "scan_frame 0 buf = Inr None \<Longrightarrow> payload_from from_slice st buf = (st, Inr ())"
  by (simp add: payload_from_def tunnel_framing.drain_more)

lemma payload_error: "scan_frame 0 buf = Inl e \<Longrightarrow> payload_from from_slice st buf = (st, Inl e)"
  by (simp add: payload_from_def tunnel_framing.drain_error)

lemma payload_acc:
  "payload_from from_slice (a @ st) w = map_prod ((@) a) id (payload_from from_slice st w)"
proof (induction "length w" arbitrary: w st rule: less_induct)
  case less
  consider (err) e where "scan_frame 0 w = Inl e" | (need) "scan_frame 0 w = Inr None"
    | (frame) f n where "scan_frame 0 w = Inr (Some (f, n))"
    by (metis sum.exhaust option.exhaust prod.exhaust)
  then show ?case
  proof cases
    case frame
    then have n: "length (drop n w) < length w" using tunnel_framing.frame_size by fastforce
    show ?thesis
      using less.hyps [OF n] by (cases f) (simp_all add: payload_frame [OF frame])
  qed (simp_all add: payload_error payload_more)
qed

text \<open>One call of the decoder is one step of the reference, whatever bytes follow.\<close>

lemma payload_decode:
  "try_decode_app from_slice buf = (res, rest) \<Longrightarrow>
     payload_from from_slice st (buf @ x) =
       (case res of
          Inl e \<Rightarrow> (st, Inl e)
        | Inr NeedMore \<Rightarrow> payload_from from_slice st (rest @ x)
        | Inr DecodeClosed \<Rightarrow> (st, Inr ())
        | Inr (App p) \<Rightarrow> payload_from from_slice (st @ p) (rest @ x))"
proof (induction "length buf" arbitrary: buf rule: less_induct)
  case less
  consider (err) e where "scan_frame 0 buf = Inl e" | (need) "scan_frame 0 buf = Inr None"
    | (frame) f n where "scan_frame 0 buf = Inr (Some (f, n))"
    by (metis sum.exhaust option.exhaust prod.exhaust)
  then show ?case
  proof cases
    case err
    with less.prems show ?thesis by (auto simp: try_decode_scan [of _ buf] payload_error scan_frame_error)
  next
    case need
    with less.prems show ?thesis by (auto simp: try_decode_scan [of _ buf])
  next
    case frame
    note n = tunnel_framing.frame_size [OF frame]
    note step = payload_frame [OF scan_frame_stable [OF frame, of x], of from_slice st]
    have rest: "decode_frame from_slice f (drop n buf) = (res, rest)"
      using less.prems frame by (simp add: try_decode_scan [of _ buf])
    have "length (drop n buf) < length buf" using n by auto
    note ih = less.hyps [OF this]
    show ?thesis
      using rest ih n by (cases f) (auto simp: step split: if_splits)
  qed
qed

lemma try_decode_need:
  "try_decode_app from_slice buf = (Inr NeedMore, rest) \<Longrightarrow> scan_frame 0 rest = Inr None"
proof (induction "length buf" arbitrary: buf rule: less_induct)
  case less
  show ?case
  proof (cases "\<exists>f n. scan_frame 0 buf = Inr (Some (f, n))")
    case True
    then obtain f n where f: "scan_frame 0 buf = Inr (Some (f, n))" by blast
    have n: "length (drop n buf) < length buf" using tunnel_framing.frame_size [OF f] by auto
    have "decode_frame from_slice f (drop n buf) = (Inr NeedMore, rest)"
      using less.prems f by (simp add: try_decode_scan [of _ buf])
    then show ?thesis using less.hyps [OF n] by (cases f) (auto split: if_splits)
  next
    case False
    with less.prems show ?thesis
      by (auto simp: try_decode_scan [of _ buf] split: sum.splits option.splits)
  qed
qed

section \<open>Reading is independent of the pieces\<close>

text \<open>
  A tunnel that still reads, from a stream that hands over \<open>script_bytes as\<close> in any pieces and
  then ends. \<open>unread\<close> is everything the reference has yet to see.
\<close>

definition reading :: "bytes io_answer list \<Rightarrow> tcp_tunnel \<Rightarrow> bool" where
  "reading as t \<longleftrightarrow> \<not> closed t \<and> live_reads as \<and> io_reads (stream t) = as @ [Accept []]"

lemma stream_poll_read_live:
  assumes "live_reads as" and "io_reads s = as @ [Accept []]" and "stream_poll_read 8192 s = (q, s')"
  shows "(q = PollPending \<and> (\<exists>as'. live_reads as' \<and> io_reads s' = as' @ [Accept []] \<and> script_bytes as' = script_bytes as))
    \<or> (q = Ready (Inr []) \<and> as = [])
    \<or> (\<exists>bs as'. q = Ready (Inr bs) \<and> bs \<noteq> [] \<and> live_reads as' \<and> io_reads s' = as' @ [Accept []]
          \<and> script_bytes as = bs @ script_bytes as')"
proof (cases as rule: live_reads.cases)
  case 1
  with assms show ?thesis by (simp add: stream_poll_read_def)
next
  case (2 bs as1)
  let ?as' = "if 8192 < length bs then Accept (drop 8192 bs) # as1 else as1"
  have "q = Ready (Inr (take 8192 bs))" "io_reads s' = ?as' @ [Accept []]"
    using assms 2 by (auto simp: stream_poll_read_def)
  moreover have "live_reads ?as'" "script_bytes as = take 8192 bs @ script_bytes ?as'" "take 8192 bs \<noteq> []"
    using assms(1) 2 by auto
  ultimately show ?thesis by blast
next
  case (3 as1)
  with assms show ?thesis by (intro disjI1) (auto simp: stream_poll_read_def)
next
  case (4 e as1)
  with assms show ?thesis by simp
qed

text \<open>What one poll leaves of the payload \<open>pay\<close> that was due when \<open>st\<close> had been delivered.\<close>

fun read_outcome ::
  "(bytes \<Rightarrow> status_body option) \<Rightarrow> bytes \<Rightarrow> bytes \<times> (tunnel_error + unit) \<Rightarrow> (io_error + bytes) poll
    \<Rightarrow> tcp_tunnel \<Rightarrow> bool" where
  "read_outcome from_slice st pay PollPending t' \<longleftrightarrow> app_pending t' = [] \<and>
     (\<exists>as'. reading as' t' \<and> pay = payload_from from_slice st (read_buf t' @ script_bytes as'))"
| "read_outcome from_slice st pay (Ready (Inr bs)) t' \<longleftrightarrow>
     (if bs = [] then pay = (st, Inr ())
      else \<exists>as'. reading as' t' \<and>
        pay = payload_from from_slice (st @ bs @ app_pending t') (read_buf t' @ script_bytes as'))"
| "read_outcome from_slice st pay (Ready (Inl e)) t' \<longleftrightarrow>
     (\<exists>e'. e = IoError InvalidData (tunnel_error_display e') \<and> pay = (st, Inl e'))"

lemma poll_read_loop_payload:
  "poll_read_loop from_slice cap t = (r, t') \<Longrightarrow> 0 < cap \<Longrightarrow> app_pending t = [] \<Longrightarrow> reading as t \<Longrightarrow>
   read_outcome from_slice st (payload_from from_slice st (read_buf t @ script_bytes as)) r t'"
proof (induction from_slice cap t arbitrary: r t' as rule: poll_read_loop.induct)
  case (1 from_slice cap t)
  obtain d rb where d: "try_decode_app from_slice (read_buf t) = (d, rb)" by force
  note pay = payload_decode [OF d, of st "script_bytes as"]
  consider (err) e where "d = Inl e" | (probe) "d = Inr (App [])" | (app) p where "d = Inr (App p)" "p \<noteq> []"
    | (cl) "d = Inr DecodeClosed" | (need) "d = Inr NeedMore"
    by (metis sum.exhaust decode.exhaust)
  then show ?case
  proof cases
    case err
    with "1.prems" d pay show ?thesis by (auto simp: poll_read_loop.simps [of _ _ t])
  next
    case probe
    have "poll_read_loop from_slice cap (t\<lparr>read_buf := rb\<rparr>) = (r, t')"
      using "1.prems"(1) d probe by (simp add: poll_read_loop.simps [of _ _ t])
    from "1.IH"(1) [OF d [symmetric] probe refl refl this, of as] "1.prems" pay probe
    show ?thesis by (simp add: reading_def)
  next
    case app
    with "1.prems" d pay show ?thesis
      by (auto simp: poll_read_loop.simps [of _ _ t] Let_def reading_def min_def split: if_splits)
  next
    case cl
    with "1.prems" d pay show ?thesis by (auto simp: poll_read_loop.simps [of _ _ t])
  next
    case need
    have open_reads: "io_reads (stream t) \<noteq> []" using "1.prems"(4) by (simp add: reading_def)
    obtain q s where q: "stream_poll_read 8192 (stream t) = (q, s)" by force
    note live = "1.prems"(4) [unfolded reading_def]
    from stream_poll_read_live [OF _ _ q, of as] live
    consider (wait) as' where "q = PollPending" "live_reads as'" "io_reads s = as' @ [Accept []]"
        "script_bytes as' = script_bytes as"
      | (eof) "q = Ready (Inr [])" "as = []"
      | (chunk) bs as' where "q = Ready (Inr bs)" "bs \<noteq> []" "live_reads as'" "io_reads s = as' @ [Accept []]"
        "script_bytes as = bs @ script_bytes as'" by blast
    then show ?thesis
    proof cases
      case wait
      with "1.prems" d need open_reads q pay show ?thesis
        by (auto simp: poll_read_loop.simps [of _ _ t] reading_def)
    next
      case eof
      have "payload_from from_slice st rb = (st, Inr ())"
        by (rule payload_more) (use try_decode_need [of from_slice "read_buf t" rb] d need in simp)
      with "1.prems" d need open_reads q pay eof show ?thesis
        by (auto simp: poll_read_loop.simps [of _ _ t])
    next
      case chunk
      have "poll_read_loop from_slice cap (t\<lparr>read_buf := rb @ bs, stream := s\<rparr>) = (r, t')"
        using "1.prems"(1) d need open_reads q chunk by (simp add: poll_read_loop.simps [of _ _ t])
      from "1.IH"(2) [OF d [symmetric] need refl open_reads q [symmetric] chunk(1) refl chunk(2) this, of as']
      have "read_outcome from_slice st (payload_from from_slice st ((rb @ bs) @ script_bytes as')) r t'"
        using "1.prems" chunk by (simp add: reading_def)
      then show ?thesis using pay need chunk by simp
    qed
  qed
qed

lemma poll_read_payload:
  assumes "poll_read from_slice (Suc c) t = (r, t')" and "reading as t"
  shows "read_outcome from_slice st (payload_from from_slice (st @ app_pending t) (read_buf t @ script_bytes as)) r t'"
proof (cases "app_pending t = []")
  case True
  then have "poll_read_loop from_slice (Suc c) t = (r, t')"
    using assms by (auto simp: poll_read_def reading_def split: if_splits)
  from poll_read_loop_payload [OF this _ True assms(2)] True show ?thesis by simp
next
  case False
  with assms show ?thesis
    by (auto simp: poll_read_def Let_def reading_def min_def split: if_splits)
qed

fun reported :: "bytes \<times> (tunnel_error + unit) \<Rightarrow> bytes \<times> (io_error + unit) poll" where
  "reported (bs, Inr u) = (bs, Ready (Inr ()))"
| "reported (bs, Inl e) = (bs, Ready (Inl (IoError InvalidData (tunnel_error_display e))))"

lemma reported_prefix: "reported (map_prod ((@) a) id p) = map_prod ((@) a) id (reported p)"
  by (cases p rule: reported.cases) simp_all

lemma read_to_end_payload:
  "reading as t \<Longrightarrow> fst (read_to_end from_slice sizes i t) =
     reported (payload_from from_slice (app_pending t) (read_buf t @ script_bytes as))"
proof (induction from_slice sizes i t arbitrary: as rule: read_to_end.induct)
  case (1 from_slice sizes i t)
  obtain r t' where r: "poll_read from_slice (Suc (sizes i)) t = (r, t')" by force
  note out = poll_read_payload [OF r "1.prems", of "[]"]
  have reads: "io_reads (stream t) \<noteq> []" using "1.prems" by (simp add: reading_def)
  consider (wait) "r = PollPending" | (err) e where "r = Ready (Inl e)" | (eof) "r = Ready (Inr [])"
    | (data) bs where "r = Ready (Inr bs)" "bs \<noteq> []"
    by (metis poll.exhaust sum.exhaust)
  then show ?case
  proof cases
    case wait
    with out obtain as' where "reading as' t'"
      "payload_from from_slice (app_pending t) (read_buf t @ script_bytes as) =
        payload_from from_slice [] (read_buf t' @ script_bytes as')" "app_pending t' = []" by auto
    with "1.IH"(2) [OF r [symmetric] wait reads, of as'] wait r reads show ?thesis
      by (simp add: read_to_end.simps [of _ _ _ t])
  next
    case err
    with out r show ?thesis by (auto simp: read_to_end.simps [of _ _ _ t])
  next
    case eof
    with out r show ?thesis by (auto simp: read_to_end.simps [of _ _ _ t])
  next
    case data
    with out obtain as' where as': "reading as' t'"
      "payload_from from_slice (app_pending t) (read_buf t @ script_bytes as) =
        payload_from from_slice (bs @ app_pending t') (read_buf t' @ script_bytes as')" by auto
    have "fst (read_to_end from_slice sizes (Suc i) t') =
        reported (payload_from from_slice (app_pending t') (read_buf t' @ script_bytes as'))"
      by (rule "1.IH"(1) [OF r [symmetric] data(1) refl data(2) as'(1)])
    moreover have "fst (read_to_end from_slice sizes i t) =
        map_prod ((@) bs) id (fst (read_to_end from_slice sizes (Suc i) t'))"
      using r data by (simp add: read_to_end.simps [of _ _ _ t] split: prod.splits)
    ultimately show ?thesis
      by (simp only: as'(2) payload_acc reported_prefix)
  qed
qed

section \<open>The byte stream a writer produces\<close>

text \<open>The bytes of a payload on the wire: one data frame per 65535 bytes.\<close>

definition data_frame :: "bytes \<Rightarrow> bytes" where
  "data_frame p = [0x01, 0x00] @ u16_to_be (word_of_nat (length p)) @ p"

function app_frames :: "bytes \<Rightarrow> bytes" where
  "app_frames p = (if p = [] then [] else data_frame (take 65535 p) @ app_frames (drop 65535 p))"
  by pat_completeness auto
termination
  by (relation "measure length") auto

declare app_frames.simps [simp del]

lemma encode_app_data_frame:
  "encode_tcp_app_data (take (min (length buf) 65535) buf) = Inr (data_frame (take 65535 buf))"
  by (simp add: encode_app_data_min data_frame_def min.commute)

lemma tunnel_user_len_frame: "length p < 65536 \<Longrightarrow> tunnel_user_len (data_frame p) = length p"
  using u16_from_to_be [of "word_of_nat (length p)"]
  by (simp add: tunnel_user_len_def data_frame_def u16_to_be_def)

lemma data_frame_nonempty [simp]: "data_frame p \<noteq> []"
  by (simp add: data_frame_def)

text \<open>
  What is still due on the wire for \<open>buf\<close>: the rest of the staged frame, then the frames of
  what follows. A tunnel is staged for \<open>buf\<close> when its pending frame, if any, is the first one
  of \<open>buf\<close>.
\<close>

definition due :: "bytes \<Rightarrow> tcp_tunnel \<Rightarrow> bytes" where
  "due buf t = (if write_pending t = [] then app_frames buf
     else drop (write_offset t) (write_pending t) @ app_frames (drop 65535 buf))"

definition staged :: "bytes \<Rightarrow> tcp_tunnel \<Rightarrow> bool" where
  "staged buf t \<longleftrightarrow> \<not> closed t \<and>
     (write_pending t = [] \<or>
      buf \<noteq> [] \<and> write_pending t = data_frame (take 65535 buf) \<and> write_offset t < length (write_pending t))"

text \<open>Answers that take at least a byte each, and how many of them there are.\<close>

fun eager_writes :: "nat io_answer list \<Rightarrow> bool" where
  "eager_writes [] = True"
| "eager_writes (Accept n # as) = (0 < n \<and> eager_writes as)"
| "eager_writes (Wait # as) = eager_writes as"
| "eager_writes (Refuse e # as) = False"

fun accepts :: "nat io_answer list \<Rightarrow> nat" where
  "accepts [] = 0"
| "accepts (Accept n # as) = Suc (accepts as)"
| "accepts (a # as) = accepts as"

definition can_write :: "nat \<Rightarrow> io_stream \<Rightarrow> bool" where
  "can_write n s \<longleftrightarrow> eager_writes (io_writes s) \<and> n \<le> accepts (io_writes s)"

lemma stream_poll_write_eager:
  assumes "stream_poll_write bs s = (r, s')" and "can_write (length bs + k) s" and "bs \<noteq> []"
  shows "io_writes s \<noteq> [] \<and>
    (r = PollPending \<and> can_write (length bs + k) s' \<or>
     (\<exists>n. r = Ready (Inr n) \<and> 0 < n \<and> can_write (length (drop n bs) + k) s'))"
proof (cases "io_writes s" rule: eager_writes.cases)
  case 1
  with assms show ?thesis by (simp add: can_write_def)
next
  case (2 n as)
  then have "r = Ready (Inr (min n (length bs)))" "io_writes s' = as" "0 < min n (length bs)"
    using assms by (auto simp: stream_poll_write_def can_write_def)
  moreover have "length (drop (min n (length bs)) bs) + k \<le> accepts as" "eager_writes as"
    using 2 assms(2,3) by (cases bs; auto simp: can_write_def min_def split: if_splits)+
  ultimately show ?thesis using 2 by (auto simp: can_write_def)
next
  case (3 as)
  with assms show ?thesis by (auto simp: stream_poll_write_def can_write_def)
next
  case (4 e as)
  with assms show ?thesis by (simp add: can_write_def)
qed

lemma write_pending_loop_wire:
  "write_pending_loop t = (r, t') \<Longrightarrow> write_offset t \<le> length (write_pending t) \<Longrightarrow>
     \<exists>s k. t' = t\<lparr>stream := s, write_offset := k\<rparr> \<and> k \<le> length (write_pending t) \<and>
       (r = Ready (Inr ()) \<longleftrightarrow> k = length (write_pending t)) \<and>
       io_wire s @ drop k (write_pending t) = io_wire (stream t) @ drop (write_offset t) (write_pending t) \<and>
       (\<forall>m. can_write (length (drop (write_offset t) (write_pending t)) + m) (stream t) \<longrightarrow>
          r \<in> {Ready (Inr ()), PollPending} \<and> can_write (length (drop k (write_pending t)) + m) s)"
proof (induction t arbitrary: r t' rule: write_pending_loop.induct)
  case (1 t)
  let ?off = "write_offset t" and ?wp = "write_pending t"
  show ?case
  proof (cases "length ?wp \<le> ?off \<or> io_writes (stream t) = []")
    case True
    with "1.prems" show ?thesis
      by (intro exI [of _ "stream t"] exI [of _ ?off])
         (auto simp: write_pending_loop.simps [of t] split: if_splits)
  next
    case False
    then have ne: "\<not> length ?wp \<le> ?off" "io_writes (stream t) \<noteq> []" by auto
    obtain p s where p: "stream_poll_write (drop ?off ?wp) (stream t) = (p, s)" by force
    note w = stream_poll_write_wire [OF p]
    note eager = stream_poll_write_eager [OF p]
    show ?thesis
    proof (cases "\<exists>n. p = Ready (Inr n) \<and> n \<noteq> 0")
      case True
      then obtain n where n: "p = Ready (Inr n)" "n \<noteq> 0" by blast
      let ?t1 = "t\<lparr>stream := s, write_offset := ?off + n\<rparr>"
      have loop: "write_pending_loop ?t1 = (r, t')"
        using "1.prems" ne p n by (simp add: write_pending_loop.simps [of t])
      have fits: "?off + n \<le> length ?wp" using w(3) [OF n(1)] ne by auto
      from "1.IH" [OF ne p [symmetric] n(1) refl n(2) loop] fits obtain s' k where
        t': "t' = t\<lparr>stream := s', write_offset := k\<rparr>" and k: "k \<le> length ?wp"
        and r: "r = Ready (Inr ()) \<longleftrightarrow> k = length ?wp"
        and wire: "io_wire s' @ drop k ?wp = io_wire s @ drop (?off + n) ?wp"
        and live: "\<And>m. can_write (length (drop (?off + n) ?wp) + m) s \<Longrightarrow>
            r \<in> {Ready (Inr ()), PollPending} \<and> can_write (length (drop k ?wp) + m) s'"
        by auto
      have "io_wire s @ drop (?off + n) ?wp = io_wire (stream t) @ drop ?off ?wp"
        using w(1) n by (simp add: append_take_drop_id add.commute drop_drop [symmetric] del: drop_drop)
      moreover have "can_write (length (drop (?off + n) ?wp) + m) s"
        if "can_write (length (drop ?off ?wp) + m) (stream t)" for m
        using eager [OF that] n ne by (simp add: add.commute)
      ultimately show ?thesis using t' k r wire live by (intro exI [of _ s'] exI [of _ k]) auto
    next
      case stop: False
      then have "t' = t\<lparr>stream := s\<rparr>" "io_wire s = io_wire (stream t)" "r \<noteq> Ready (Inr ())"
        "p = PollPending \<Longrightarrow> r = PollPending"
        using "1.prems" ne p w(1)
        by (auto simp: write_pending_loop.simps [of t] split: poll.splits sum.splits if_splits)
      with ne stop eager show ?thesis
        by (intro exI [of _ s] exI [of _ ?off]) auto
    qed
  qed
qed

lemma poll_write_wire:
  assumes "poll_write buf t = (r, t')" and "staged buf t" and "buf \<noteq> []"
  shows "(case r of
      Ready (Inr n) \<Rightarrow> n = min (length buf) 65535 \<and> write_pending t' = [] \<and> staged (drop n buf) t' \<and>
        io_wire (stream t') @ due (drop n buf) t' = io_wire (stream t) @ due buf t
    | _ \<Rightarrow> staged buf t' \<and> io_wire (stream t') @ due buf t' = io_wire (stream t) @ due buf t)"
    and "can_write (length (due buf t)) (stream t) \<Longrightarrow>
      r = PollPending \<and> io_writes (stream t) \<noteq> [] \<and> can_write (length (due buf t')) (stream t') \<or>
      (\<exists>n. r = Ready (Inr n) \<and> can_write (length (due (drop n buf) t')) (stream t'))"
proof -
  let ?frame = "data_frame (take 65535 buf)"
  define t1 where "t1 = (if write_pending t = [] then t\<lparr>write_pending := ?frame, write_offset := 0\<rparr> else t)"
  have t1: "write_pending t1 = ?frame" "write_offset t1 < length ?frame" "stream t1 = stream t" "\<not> closed t1"
    using assms(2) by (auto simp: t1_def staged_def)
  have due: "due buf t = drop (write_offset t1) ?frame @ app_frames (drop 65535 buf)"
    using assms(2,3) app_frames.simps [of buf] by (auto simp: due_def t1_def staged_def)
  obtain q t2 where q: "write_pending_loop t1 = (q, t2)" by force
  from write_pending_loop_wire [OF q] t1 obtain s k where
    t2: "t2 = t1\<lparr>stream := s, write_offset := k\<rparr>" and k: "k \<le> length ?frame"
    and qk: "q = Ready (Inr ()) \<longleftrightarrow> k = length ?frame"
    and wire: "io_wire s @ drop k ?frame = io_wire (stream t) @ drop (write_offset t1) ?frame"
    and live: "\<And>m. can_write (length (drop (write_offset t1) ?frame) + m) (stream t) \<Longrightarrow>
        q \<in> {Ready (Inr ()), PollPending} \<and> can_write (length (drop k ?frame) + m) s"
    by auto
  have wire': "io_wire (stream t) @ due buf t = io_wire s @ drop k ?frame @ app_frames (drop 65535 buf)"
    unfolding due append_assoc [symmetric] wire ..
  have poll: "poll_write buf t = (case q of
      Ready (Inr u) \<Rightarrow> (Ready (Inr (tunnel_user_len ?frame)), t2\<lparr>write_pending := [], write_offset := 0\<rparr>)
    | Ready (Inl e) \<Rightarrow> (Ready (Inl e), t2) | PollPending \<Rightarrow> (PollPending, t2))"
    using assms(2,3) q t1(1)
    by (auto simp: poll_write_def encode_app_data_frame t1_def staged_def split: poll.splits sum.splits)
  have len: "tunnel_user_len ?frame = min (length buf) 65535"
    by (simp add: tunnel_user_len_frame min.commute)
  have tail: "drop (min (length buf) 65535) buf = drop 65535 buf" by (simp add: min_def)
  show "(case r of
      Ready (Inr n) \<Rightarrow> n = min (length buf) 65535 \<and> write_pending t' = [] \<and> staged (drop n buf) t' \<and>
        io_wire (stream t') @ due (drop n buf) t' = io_wire (stream t) @ due buf t
    | _ \<Rightarrow> staged buf t' \<and> io_wire (stream t') @ due buf t' = io_wire (stream t) @ due buf t)"
  proof (cases "q = Ready (Inr ())")
    case True
    then show ?thesis
      using assms(1) qk t1(4) unfolding wire' poll t2 by (auto simp: len due_def staged_def tail)
  next
    case False
    then show ?thesis
      using assms(1,3) qk k t1 unfolding wire' poll t2
      by (auto simp: due_def staged_def split: poll.splits sum.splits)
  qed
  assume "can_write (length (due buf t)) (stream t)"
  then have can: "q \<in> {Ready (Inr ()), PollPending}"
      "can_write (length (drop k ?frame) + length (app_frames (drop 65535 buf))) s"
    using live [of "length (app_frames (drop 65535 buf))"] by (simp_all add: due)
  have "io_writes (stream t) \<noteq> []"
    using \<open>can_write (length (due buf t)) (stream t)\<close> t1(2) by (auto simp: due can_write_def)
  with can show "r = PollPending \<and> io_writes (stream t) \<noteq> [] \<and> can_write (length (due buf t')) (stream t') \<or>
      (\<exists>n. r = Ready (Inr n) \<and> can_write (length (due (drop n buf) t')) (stream t'))"
    using assms(1) qk t1(1) unfolding poll t2 by (auto simp: len due_def tail)
qed

lemma tunnel_write_all_wire:
  "tunnel_write_all buf t = (r, t') \<Longrightarrow> staged buf t \<Longrightarrow>
     (\<exists>later. io_wire (stream t) @ due buf t = io_wire (stream t') @ later
        \<and> (r = Ready (Inr ()) \<longrightarrow> later = [] \<and> write_pending t' = [] \<and> \<not> closed t'))
     \<and> (can_write (length (due buf t)) (stream t) \<longrightarrow> r = Ready (Inr ()))"
proof (induction buf t arbitrary: r t' rule: tunnel_write_all.induct)
  case (1 buf t)
  show ?case
  proof (cases "buf = []")
    case True
    with "1.prems" show ?thesis
      by (auto simp: tunnel_write_all.simps [of "[]"] due_def staged_def app_frames.simps)
  next
    case False
    obtain p t1 where p: "poll_write buf t = (p, t1)" by force
    note w = poll_write_wire [OF p "1.prems"(2) False]
    consider (silent) "p = PollPending" "io_writes (stream t) = []"
      | (wait) "p = PollPending" "io_writes (stream t) \<noteq> []"
      | (err) e where "p = Ready (Inl e)" | (ok) n where "p = Ready (Inr n)" "n \<noteq> 0"
      | (zero) "p = Ready (Inr 0)"
      by (metis poll.exhaust sum.exhaust)
    then show ?thesis
    proof cases
      case silent
      with "1.prems" False p have "r = PollPending" "t' = t1"
        by (auto simp: tunnel_write_all.simps [of buf t])
      with w silent show ?thesis by (auto intro: exI [of _ "due buf t1"])
    next
      case wait
      have "tunnel_write_all buf t1 = (r, t')"
        using "1.prems" False p wait by (simp add: tunnel_write_all.simps [of buf t])
      from "1.IH"(2) [OF False p [symmetric] wait this] w wait show ?thesis by auto
    next
      case err
      with "1.prems" False p have "r = Ready (Inl e)" "t' = t1"
        by (auto simp: tunnel_write_all.simps [of buf t])
      with w err show ?thesis by (auto intro: exI [of _ "due buf t1"])
    next
      case ok
      have "tunnel_write_all (drop n buf) t1 = (r, t')"
        using "1.prems" False p ok by (simp add: tunnel_write_all.simps [of buf t])
      from "1.IH"(1) [OF False p [symmetric] ok(1) refl ok(2) this] w ok show ?thesis by auto
    next
      case zero
      with w(1) False show ?thesis by (simp add: min_def split: if_splits)
    qed
  qed
qed

subsection \<open>What the frames carry\<close>

lemma scan_data_frame:
  assumes "length p < 65536"
  shows "scan_frame 0 (data_frame p @ x) = Inr (Some (Data p, length (data_frame p)))"
  using assms u16_from_to_be [of "word_of_nat (length p)"]
  by (simp add: data_frame_def u16_to_be_def)

lemma payload_data_frame:
  assumes "length p < 65536"
  shows "payload_from from_slice st (data_frame p @ x) = payload_from from_slice (st @ p) x"
  by (simp add: payload_frame [OF scan_data_frame [OF assms]])

lemma payload_app_frames: "payload_from from_slice st (app_frames p @ x) = payload_from from_slice (st @ p) x"
proof (induction p arbitrary: st rule: app_frames.induct)
  case (1 p)
  show ?case
  proof (cases "p = []")
    case True
    then show ?thesis by (simp add: app_frames.simps)
  next
    case False
    have "st @ take 65535 p @ drop 65535 p = st @ p" by (simp only: append_take_drop_id)
    with 1 [OF False, of "st @ take 65535 p"] False show ?thesis
      by (simp add: app_frames.simps [of p] payload_data_frame)
  qed
qed

lemma payload_probe: "payload_from from_slice st (encode_tcp_probe @ x) = payload_from from_slice st x"
  using payload_data_frame [of "[]" from_slice st x]
  by (simp add: encode_tcp_probe_def data_frame_def u16_to_be_def)

lemma payload_nil [simp]: "payload_from from_slice st [] = (st, Inr ())"
  by (rule payload_more) simp

text \<open>A writer's session: application writes and keepalive probes, up to the first that fails.\<close>

datatype tunnel_op = WriteApp bytes | Probe

fun run_op :: "tunnel_op \<Rightarrow> tcp_tunnel \<Rightarrow> (tunnel_error + unit) poll \<times> tcp_tunnel" where
  "run_op (WriteApp p) t = write_app p t"
| "run_op Probe t = send_probe t"

fun run_ops :: "tunnel_op list \<Rightarrow> tcp_tunnel \<Rightarrow> (tunnel_error + unit) poll \<times> tcp_tunnel" where
  "run_ops [] t = (Ready (Inr ()), t)"
| "run_ops (op # ops) t =
     (case run_op op t of (Ready (Inr u), t') \<Rightarrow> run_ops ops t' | res \<Rightarrow> res)"

fun op_bytes :: "tunnel_op list \<Rightarrow> bytes" where
  "op_bytes [] = []"
| "op_bytes (WriteApp p # ops) = p @ op_bytes ops"
| "op_bytes (Probe # ops) = op_bytes ops"

lemma stream_flush_wire: "stream_flush s = (r, s') \<Longrightarrow> io_wire s' = io_wire s"
  by (auto simp: stream_flush_def split: prod.splits)

lemma write_app_ok:
  assumes "write_app p t = (Ready (Inr ()), t')" and "write_pending t = []"
  shows "io_wire (stream t') = io_wire (stream t) @ app_frames p \<and> write_pending t' = [] \<and> \<not> closed t'"
proof -
  have "\<not> closed t" using assms(1) by (auto simp: write_app_def)
  then obtain t1 s where w: "tunnel_write_all p t = (Ready (Inr ()), t1)" "t' = t1\<lparr>stream := s\<rparr>"
      "stream_flush (stream t1) = (Ready (Inr ()), s)"
    using assms(1) by (auto simp: write_app_def split: prod.splits poll.splits sum.splits)
  have "staged p t" using assms(2) \<open>\<not> closed t\<close> by (simp add: staged_def)
  from tunnel_write_all_wire [OF w(1) this] assms(2) stream_flush_wire [OF w(3)] w(2) show ?thesis
    by (auto simp: due_def)
qed

lemma send_probe_ok:
  assumes "send_probe t = (Ready (Inr ()), t')"
  shows "io_wire (stream t') = io_wire (stream t) @ encode_tcp_probe \<and> write_pending t' = write_pending t
    \<and> \<not> closed t'"
  using assms stream_write_all_ok [of encode_tcp_probe "stream t"]
  by (auto simp: send_probe_def split: if_splits prod.splits poll.splits sum.splits dest!: stream_flush_wire)

lemma run_ops_wire:
  "run_ops ops t = (Ready (Inr ()), t') \<Longrightarrow> write_pending t = [] \<Longrightarrow>
     \<exists>w. io_wire (stream t') = io_wire (stream t) @ w \<and>
       (\<forall>st. payload_from from_slice st w = (st @ op_bytes ops, Inr ()))"
proof (induction ops arbitrary: t)
  case Nil
  then show ?case by auto
next
  case (Cons op ops)
  from Cons.prems obtain t1 where t1: "run_op op t = (Ready (Inr ()), t1)" "run_ops ops t1 = (Ready (Inr ()), t')"
    by (auto split: prod.splits poll.splits sum.splits)
  obtain v where v: "io_wire (stream t1) = io_wire (stream t) @ v" "write_pending t1 = []"
    "\<And>st x. payload_from from_slice st (v @ x) = payload_from from_slice (st @ op_bytes [op]) x"
  proof (cases op)
    case (WriteApp p)
    with write_app_ok [of p t t1] t1(1) Cons.prems(2) that [of "app_frames p"] show ?thesis
      by (simp add: payload_app_frames)
  next
    case Probe
    with send_probe_ok [of t t1] t1(1) Cons.prems(2) that [of encode_tcp_probe] show ?thesis
      by (simp add: payload_probe)
  qed
  from Cons.IH [OF t1(2) v(2)] obtain w where
    w: "io_wire (stream t') = io_wire (stream t1) @ w"
       "\<And>st. payload_from from_slice st w = (st @ op_bytes ops, Inr ())" by blast
  have "op_bytes (op # ops) = op_bytes [op] @ op_bytes ops" by (cases op) simp_all
  with v w show ?case by (intro exI [of _ "v @ w"]) simp
qed

lemma write_pending_loop_flushes:
  "write_pending_loop t = (r, t') \<Longrightarrow> io_flushes (stream t') = io_flushes (stream t)"
proof (induction t arbitrary: r t' rule: write_pending_loop.induct)
  case (1 t)
  obtain p s where p: "stream_poll_write (drop (write_offset t) (write_pending t)) (stream t) = (p, s)" by force
  note io = stream_poll_write_wire(2) [OF p]
  note step = write_pending_loop.simps [of t]
  show ?case
  proof (cases "length (write_pending t) \<le> write_offset t \<or> io_writes (stream t) = [] \<or> (\<forall>n. p = Ready (Inr n) \<longrightarrow> n = 0)")
    case True
    with "1.prems" p io show ?thesis
      by (auto simp: step split: if_splits poll.splits sum.splits)
  next
    case False
    then obtain n where n: "\<not> length (write_pending t) \<le> write_offset t" "io_writes (stream t) \<noteq> []"
      "p = Ready (Inr n)" "n \<noteq> 0" by blast
    have "write_pending_loop (t\<lparr>stream := s, write_offset := write_offset t + n\<rparr>) = (r, t')"
      using "1.prems" n p by (simp add: step)
    from "1.IH" [OF n(1,2) p [symmetric] n(3) refl n(4) this] io show ?thesis by simp
  qed
qed

lemma poll_write_flushes: "poll_write buf t = (r, t') \<Longrightarrow> io_flushes (stream t') = io_flushes (stream t)"
  by (auto simp: poll_write_def encode_app_data_min split: if_splits poll.splits sum.splits prod.splits
      dest!: write_pending_loop_flushes)

lemma tunnel_write_all_flushes:
  "tunnel_write_all buf t = (r, t') \<Longrightarrow> io_flushes (stream t') = io_flushes (stream t)"
proof (induction buf t arbitrary: r t' rule: tunnel_write_all.induct)
  case (1 buf t)
  obtain p t1 where p: "poll_write buf t = (p, t1)" by force
  note io = poll_write_flushes [OF p]
  note step = tunnel_write_all.simps [of buf t]
  consider (stop) "(r, t') = (Ready (Inr ()), t) \<or> t' = t1"
    | (wait) "buf \<noteq> []" "p = PollPending" "io_writes (stream t) \<noteq> []" "tunnel_write_all buf t1 = (r, t')"
    | (ok) n where "buf \<noteq> []" "p = Ready (Inr n)" "n \<noteq> 0" "tunnel_write_all (drop n buf) t1 = (r, t')"
    using "1.prems" p by (auto simp: step split: if_splits poll.splits sum.splits)
  then show ?case
  proof cases
    case wait
    from "1.IH"(2) [OF wait(1) p [symmetric] wait(2-4)] io show ?thesis by simp
  next
    case ok
    from "1.IH"(1) [OF ok(1) p [symmetric] ok(2) refl ok(3-4)] io show ?thesis by simp
  qed (use io in auto)
qed

section \<open>Properties\<close>

text \<open>
  C5: refinement. The tunnel implements a reliable byte stream. Whatever a writer sends in any
  sequence of application writes and keepalive probes that succeed, and however the stream below
  splits, delays and regroups the bytes on both sides, a reader at the other end that polls with
  buffers of any sizes receives exactly the written bytes in order, and then the end of the stream.
\<close>

theorem tunnel_refines_byte_stream:
  assumes "run_ops ops writer = (Ready (Inr ()), writer')" and "write_pending writer = []"
    and "live_reads as" and "io_wire (stream writer') = io_wire (stream writer) @ script_bytes as"
  shows "fst (read_to_end from_slice sizes i (from_stream (s\<lparr>io_reads := as @ [Accept []]\<rparr>))) =
    (op_bytes ops, Ready (Inr ()))"
proof -
  from run_ops_wire [OF assms(1,2), of from_slice] assms(4)
  have pay: "payload_from from_slice [] (script_bytes as) = (op_bytes ops, Inr ())" by auto
  have "reading as (from_stream (s\<lparr>io_reads := as @ [Accept []]\<rparr>))"
    using assms(3) by (simp add: reading_def from_stream_def)
  from read_to_end_payload [OF this, of from_slice sizes i] show ?thesis
    by (simp add: from_stream_def pay)
qed

definition quiet_stream :: io_stream where
  "quiet_stream = \<lparr>io_reads = [], io_writes = [], io_flushes = [], io_shutdowns = [], io_wire = []\<rparr>"

definition sample_writer :: tcp_tunnel where
  "sample_writer = from_stream (quiet_stream\<lparr>io_writes := [Accept 3, Wait, Accept 9, Accept 4],
     io_flushes := [Accept (), Wait, Accept ()]\<rparr>)"

theorem tunnel_refines_byte_stream_witness:
  "fst (read_to_end (\<lambda>_. None) (\<lambda>_. 0) 0
     (from_stream (quiet_stream\<lparr>io_reads := [Accept [1, 0, 0], Wait, Accept [2, 65], Accept [66, 1, 0, 0, 0]] @ [Accept []]\<rparr>))) =
   ([65, 66], Ready (Inr ()))"
proof -
  have "run_ops [WriteApp [65, 66], Probe] sample_writer =
      (Ready (Inr ()), sample_writer\<lparr>stream := quiet_stream\<lparr>io_wire := [1, 0, 0, 2, 65, 66, 1, 0, 0, 0]\<rparr>\<rparr>)"
    by (simp add: write_app_def send_probe_def poll_write_def tunnel_write_all.simps write_pending_loop.simps
      encode_tcp_app_data_def u16_try_from_def u16_to_be_def tunnel_user_len_def u16_from_be_def encode_tcp_probe_def
      stream_write_all.simps stream_poll_write_def stream_flush_def sample_writer_def from_stream_def quiet_stream_def)
  from tunnel_refines_byte_stream [OF this, of "[Accept [1, 0, 0], Wait, Accept [2, 65], Accept [66, 1, 0, 0, 0]]"
      "\<lambda>_. None" "\<lambda>_. 0" 0 quiet_stream]
  show ?thesis by (simp add: sample_writer_def from_stream_def quiet_stream_def)
qed

text \<open>
  C12: equivalence. Reading to the end gives the reference payload of the received bytes (data
  frames in order; probes, markers, chatter, successful statuses and bounded padding skipped; a
  refused status or unbounded padding an error), with no dependence on how the stream below cut
  the bytes, on its delays, or on the sizes of the reader's buffers.
\<close>

theorem tunnel_reads_reference:
  assumes "live_reads as"
  shows "fst (read_to_end from_slice sizes i (from_stream (s\<lparr>io_reads := as @ [Accept []]\<rparr>))) =
    reported (tunnel_payload from_slice (script_bytes as))"
proof -
  have "reading as (from_stream (s\<lparr>io_reads := as @ [Accept []]\<rparr>))"
    using assms by (simp add: reading_def from_stream_def)
  from read_to_end_payload [OF this] show ?thesis by (simp add: from_stream_def)
qed

theorem tunnel_reads_reference_witness:
  "fst (read_to_end (\<lambda>_. None) (\<lambda>n. n) 0
     (from_stream (quiet_stream\<lparr>io_reads := [Accept [1, 1, 0], Wait, Accept [0, 9, 9, 5, 0x81, 1, 0, 0, 1, 65, 1, 1, 0x30], Accept [0x30, 7]]
        @ [Accept []]\<rparr>))) = ([65], Ready (Inr ()))"
proof -
  let ?as = "[Accept [1, 1, 0], Wait, Accept [0, 9, 9, 5, 0x81, 1, 0, 0, 1, 65, 1, 1, 0x30], Accept [0x30, 7]]
    :: bytes io_answer list"
  have "tunnel_payload (\<lambda>_. None) (script_bytes ?as) = ([65], Inr ())"
    by (simp add: payload_from_def drain_with.simps SERVER_CLOSE_TRAILER_def
        MAX_SKIPPED_CHATTER_BYTES_def u16_from_be_def)
  with tunnel_reads_reference [of ?as "\<lambda>_. None" "\<lambda>n. n" 0 quiet_stream] show ?thesis by simp
qed

text \<open>
  C34: liveness. A write ends: when the stream below takes at least one byte whenever it answers,
  often enough for the frames of the payload, and finishes the flush, \<open>write_app\<close> succeeds, with
  every frame on the wire and nothing staged.
\<close>

theorem write_app_completes:
  assumes "\<not> closed t" and "write_pending t = []"
    and "can_write (length (app_frames p)) (stream t)"
    and "fst (await_unit (io_flushes (stream t))) = Ready (Inr ())"
  shows "\<exists>t'. write_app p t = (Ready (Inr ()), t') \<and> write_pending t' = []
    \<and> io_wire (stream t') = io_wire (stream t) @ app_frames p"
proof -
  obtain r t1 where w: "tunnel_write_all p t = (r, t1)" by force
  have "staged p t" "due p t = app_frames p" using assms(1,2) by (simp_all add: staged_def due_def)
  with tunnel_write_all_wire [OF w] assms(3) have r: "r = Ready (Inr ())" by simp
  have "io_flushes (stream t1) = io_flushes (stream t)" by (rule tunnel_write_all_flushes [OF w])
  then obtain s where "stream_flush (stream t1) = (Ready (Inr ()), s)"
    using assms(4) by (cases "await_unit (io_flushes (stream t))") (simp add: stream_flush_def)
  then have "write_app p t = (Ready (Inr ()), t1\<lparr>stream := s\<rparr>)"
    using w r assms(1) by (simp add: write_app_def)
  with write_app_ok [OF this assms(2)] show ?thesis by blast
qed

lemma sample_can_write: "can_write 6 (quiet_stream\<lparr>io_writes := Accept 2 # replicate 5 (Accept 1)\<rparr>)"
  by (simp add: can_write_def quiet_stream_def eval_nat_numeral)

theorem write_app_completes_witness:
  "\<exists>t'. write_app [7, 8] (from_stream (quiet_stream\<lparr>io_writes := Accept 2 # replicate 5 (Accept 1), io_flushes := [Wait, Accept ()]\<rparr>))
      = (Ready (Inr ()), t') \<and> write_pending t' = [] \<and> io_wire (stream t') = [1, 0, 0, 2, 7, 8]"
proof -
  have frames: "app_frames [7, 8] = [1, 0, 0, 2, 7, 8]"
    by (simp add: app_frames.simps data_frame_def u16_to_be_def)
  show ?thesis
    using write_app_completes [of "from_stream (quiet_stream\<lparr>io_writes := Accept 2 # replicate 5 (Accept 1),
        io_flushes := [Wait, Accept ()]\<rparr>)" "[7, 8]"] sample_can_write
    by (simp add: frames from_stream_def stream_flush_def quiet_stream_def can_write_def)
qed

text \<open>
  A write that finds a frame staged by an earlier, abandoned write reports the size of that
  frame, whatever bytes it was given.
\<close>

lemma poll_write_reports_staged:
  assumes "write_pending t = data_frame q" and "length q < 65536"
    and "buf \<noteq> []" and "poll_write buf t = (Ready (Inr n), t')"
  shows "n = length q"
  using assms
  by (auto simp: poll_write_def tunnel_user_len_frame split: if_splits poll.splits sum.splits prod.splits)

text \<open>
  C37: error. A shutdown of an open tunnel that finds a half-written data frame finishes that
  frame and ends the stream: the close frame is never sent, and no later shutdown sends it.
\<close>

theorem staged_frame_hides_close:
  assumes "\<not> closed t" and "write_pending t = data_frame q"
    and "write_offset t < length (data_frame q)" and "poll_shutdown t = (Ready (Inr ()), t')"
  shows "closed t' \<and> io_wire (stream t') = io_wire (stream t) @ drop (write_offset t) (data_frame q)
    \<and> io_wire (stream (snd (poll_shutdown t'))) = io_wire (stream t')"
proof -
  obtain r t1 where r: "write_pending_loop t = (r, t1)" by force
  from write_pending_loop_wire [OF r] assms(2,3) obtain k s1 where
    t1: "t1 = t\<lparr>stream := s1, write_offset := k\<rparr>" "r = Ready (Inr ()) \<longleftrightarrow> k = length (data_frame q)"
      "io_wire s1 @ drop k (data_frame q) = io_wire (stream t) @ drop (write_offset t) (data_frame q)" by auto
  with assms r have t': "closed t'" "write_pending t' = []"
      "io_wire (stream t') = io_wire (stream t) @ drop (write_offset t) (data_frame q)"
    by (auto simp: poll_shutdown_def stream_poll_shutdown_def
        split: poll.splits sum.splits list.splits io_answer.splits)
  moreover have "io_wire (stream (snd (poll_shutdown t'))) = io_wire (stream t')"
    using t'(1,2) by (auto simp: poll_shutdown_def write_pending_loop_done stream_poll_shutdown_def
        split: list.splits io_answer.splits)
  ultimately show ?thesis by blast
qed

definition half_written :: tcp_tunnel where
  "half_written = from_stream (quiet_stream\<lparr>io_writes := [Accept 9], io_shutdowns := [Accept ()], io_wire := [1, 0]\<rparr>)
     \<lparr>write_pending := data_frame [7], write_offset := 2\<rparr>"

theorem staged_frame_hides_close_witness:
  "\<exists>t'. poll_shutdown half_written = (Ready (Inr ()), t') \<and> closed t' \<and> io_wire (stream t') = [1, 0, 0, 1, 7]"
proof -
  have "\<exists>t'. poll_shutdown half_written = (Ready (Inr ()), t')"
    by (simp add: half_written_def from_stream_def quiet_stream_def poll_shutdown_def write_pending_loop.simps
        data_frame_def u16_to_be_def stream_poll_write_def stream_poll_shutdown_def)
  then obtain t' where "poll_shutdown half_written = (Ready (Inr ()), t')" by blast
  with staged_frame_hides_close [of half_written "[7]" t'] show ?thesis
    by (simp add: half_written_def from_stream_def quiet_stream_def data_frame_def u16_to_be_def)
qed

end
