(* ===== verification/Tcp_Dial.thy ===== *)
theory Tcp_Dial
  imports Tcp_Stream Signed_Json
begin

text \<open>
  \<open>crates/atrust-tcp/src/dial.rs\<close>: opening a tunnel. The handshake runs on any stream
  (\<open>Async_Io\<close>); a node that stays silent leaves it waiting, which is when the caller's timeout
  fires. TLS connection set-up is the business of the transport: each attempt to connect has one
  of the outcomes of \<open>connect_outcome\<close>. SHA-256, HMAC-SHA-256 and the JSON serializer are
  parameters, as in \<open>Signed_Json\<close>.
\<close>

section \<open>Definitions\<close>

definition TCP_DIAL_RETRIES :: nat where
  "TCP_DIAL_RETRIES = 1"

datatype tls_connect_error =
    InvalidServerName | TlsResolve io_error | TlsTcp io_error | TlsTls io_error

datatype 'se dial_tcp_error =
    EmptyNodeHost
  | InvalidNodePort
  | DialEmptyAppId
  | InvalidTargetPort
  | ConnectTimeout
  | HandshakeTimeout
  | DialTls tls_connect_error
  | InitJson "'se tcp_init_error"
  | DialFrame tcp_frame_error
  | DialIo io_error
  | DialUnexpectedStatusHeader bytes
  | AddressRejected string
  | ConnectRejected byte

fun is_retryable :: "'se dial_tcp_error \<Rightarrow> bool" where
  "is_retryable ConnectTimeout = True"
| "is_retryable HandshakeTimeout = True"
| "is_retryable (DialTls e) = (e \<noteq> InvalidServerName)"
| "is_retryable (DialIo e) =
     (io_kind e \<in> {BrokenPipe, ConnectionAborted, ConnectionReset, NotConnected, TimedOut, UnexpectedEof})"
| "is_retryable _ = False"

record dial_tcp_request =
  dr_node_host :: string
  dr_node_port :: u16
  dr_sid :: string
  dr_device_id :: string
  dr_connection_id :: string
  dr_sign_key :: bytes
  dr_username :: string
  dr_target :: tunnel_target
  dr_process :: "process_identity option"
  dr_lang :: string

definition validate_request :: "dial_tcp_request \<Rightarrow> 'se dial_tcp_error + unit" where
  "validate_request r =
     (if dr_node_host r = [] then Inl EmptyNodeHost
      else if dr_node_port r = 0 then Inl InvalidNodePort
      else if target_app_id (dr_target r) = [] then Inl DialEmptyAppId
      else if target_port (dr_target r) = 0 then Inl InvalidTargetPort
      else Inr ())"

fun encode_dest_frame :: "tunnel_target \<Rightarrow> 'se dial_tcp_error + bytes" where
  "encode_dest_frame (TargetIpv4 ip port app_id) = Inr (encode_tcp_target_ipv4 ip port)"
| "encode_dest_frame (TargetDomain host port app_id resolved) =
     (case encode_tcp_target_domain host port of Inl e \<Rightarrow> Inl (DialFrame e) | Inr b \<Rightarrow> Inr b)"

definition build_handshake_frames ::
  "(bytes \<Rightarrow> bytes) \<Rightarrow> (bytes \<Rightarrow> bytes \<Rightarrow> bytes) \<Rightarrow> (tcp_init_wire \<Rightarrow> 'se + bytes)
    \<Rightarrow> dial_tcp_request \<Rightarrow> process_identity \<Rightarrow> 'se dial_tcp_error + bytes \<times> bytes" where
  "build_handshake_frames sha256 hmac to_vec r process =
     (let params = \<lparr>tp_sid = dr_sid r, tp_app_id = target_app_id (dr_target r),
            tp_dest_host = json_dest_host (dr_target r), tp_dest_port = target_port (dr_target r),
            tp_device_id = dr_device_id r, tp_connection_id = dr_connection_id r,
            tp_username = dr_username r, tp_process = process, tp_lang = dr_lang r\<rparr> in
      case build_signed_tcp_init_json sha256 hmac to_vec params (dr_sign_key r) of
        Inl e \<Rightarrow> Inl (InitJson e)
      | Inr init_json \<Rightarrow>
          (case encode_tcp_init_frame init_json of
             Inl e \<Rightarrow> Inl (DialFrame e)
           | Inr init_frame \<Rightarrow>
               (case encode_dest_frame (dr_target r) of
                  Inl e \<Rightarrow> Inl e
                | Inr dest_frame \<Rightarrow> Inr (init_frame, dest_frame))))"

subsection \<open>The handshake\<close>

text \<open>\<open>.await?\<close>: go on with the value, or leave with the error, or keep waiting.\<close>

definition await_then ::
  "(io_error + 'a) poll \<times> io_stream \<Rightarrow> ('a \<Rightarrow> io_stream \<Rightarrow> ('se dial_tcp_error + 'b) poll \<times> io_stream)
    \<Rightarrow> ('se dial_tcp_error + 'b) poll \<times> io_stream" where
  "await_then m f =
     (case m of
        (Ready (Inr a), s) \<Rightarrow> f a s
      | (Ready (Inl e), s) \<Rightarrow> (Ready (Inl (DialIo e)), s)
      | (PollPending, s) \<Rightarrow> (PollPending, s))"

lemma await_then_cong [fundef_cong]:
  assumes "m = m'" and "\<And>a s. m' = (Ready (Inr a), s) \<Longrightarrow> f a s = g a s"
  shows "await_then m f = await_then m' g"
  using assms by (auto simp: await_then_def split: prod.splits poll.splits sum.splits)

lemma stream_read_exact_le: "stream_read_exact k s = (r, s') \<Longrightarrow> reads_size (io_reads s') \<le> reads_size (io_reads s)"
proof (induction k s arbitrary: r s' rule: stream_read_exact.induct)
  case (1 k s)
  show ?case
  proof (cases "k = 0 \<or> io_reads s = []")
    case True
    with "1.prems" show ?thesis by (auto simp: stream_read_exact.simps [of k s] split: if_splits)
  next
    case False
    then have ne: "k \<noteq> 0" "io_reads s \<noteq> []" by auto
    obtain p s1 where p: "stream_poll_read k s = (p, s1)" by force
    have less: "reads_size (io_reads s1) < reads_size (io_reads s)"
      using stream_poll_read_shrinks [OF p] ne by simp
    consider (wait) "p = PollPending" | (err) e where "p = Ready (Inl e)" | (eof) "p = Ready (Inr [])"
      | (chunk) bs where "p = Ready (Inr bs)" "bs \<noteq> []" by (metis poll.exhaust sum.exhaust)
    then show ?thesis
    proof cases
      case wait
      with "1.prems" ne p have "stream_read_exact k s1 = (r, s')" by (simp add: stream_read_exact.simps [of k s])
      from "1.IH"(2) [OF ne p [symmetric] wait this] less show ?thesis by simp
    next
      case chunk
      obtain q s2 where q: "stream_read_exact (k - length bs) s1 = (q, s2)" by force
      with "1.prems" ne p chunk have "s' = s2"
        by (auto simp: stream_read_exact.simps [of k s] split: poll.splits sum.splits)
      with "1.IH"(1) [OF ne p [symmetric] chunk(1) refl chunk(2) q] less show ?thesis by simp
    qed (use "1.prems" ne p less in \<open>auto simp: stream_read_exact.simps [of k s]\<close>)
  qed
qed

lemma stream_read_exact_shrinks:
  assumes "stream_read_exact k s = (Ready (Inr bs), s')" and "0 < k"
  shows "reads_size (io_reads s') < reads_size (io_reads s)"
proof -
  have reads: "io_reads s \<noteq> []" using assms by (auto simp: stream_read_exact.simps [of k s] split: if_splits)
  obtain p s1 where p: "stream_poll_read k s = (p, s1)" by force
  have "reads_size (io_reads s1) < reads_size (io_reads s)"
    using stream_poll_read_shrinks [OF p assms(2) reads] .
  moreover have "reads_size (io_reads s') \<le> reads_size (io_reads s1)"
    using assms p reads stream_read_exact_le
    by (fastforce simp: stream_read_exact.simps [of k s] split: poll.splits sum.splits if_splits prod.splits)
  ultimately show ?thesis by simp
qed

function wait_for_address_ok ::
  "(bytes \<Rightarrow> status_body option) \<Rightarrow> io_stream \<Rightarrow> ('se dial_tcp_error + unit) poll \<times> io_stream" where
  "wait_for_address_ok from_slice s =
     await_then (stream_read_exact 2 s) (\<lambda>header s1.
       if header ! 0 = 0x05 \<and> header ! 1 = 0x81 then wait_for_address_ok from_slice s1
       else if header ! 0 \<noteq> 0x53 \<or> header ! 1 \<noteq> 0x00
       then (Ready (Inl (DialUnexpectedStatusHeader header)), s1)
       else await_then (stream_read_exact 2 s1) (\<lambda>len_bytes s2.
         let len = unat (u16_from_be (len_bytes ! 0) (len_bytes ! 1)) in
         await_then (stream_read_exact len s2) (\<lambda>payload s3.
           let body = (if take 2 payload = [0x53, 0x00] then parse_status_payload payload else Inr payload) in
           (case body of
              Inl e \<Rightarrow> (Ready (Inl (DialFrame e)), s3)
            | Inr b \<Rightarrow>
                if is_status_ok from_slice b then (Ready (Inr ()), s3)
                else (Ready (Inl (AddressRejected (from_utf8_lossy b))), s3)))))"
  by pat_completeness auto
termination
  by (relation "measure (\<lambda>(p, s). reads_size (io_reads s))") (auto dest: stream_read_exact_shrinks)

declare wait_for_address_ok.simps [simp del]

definition wait_for_connect_status :: "io_stream \<Rightarrow> ('se dial_tcp_error + unit) poll \<times> io_stream" where
  "wait_for_connect_status s =
     await_then (stream_read_exact 2 s) (\<lambda>status s1.
       if status ! 0 \<noteq> 0x05 then (Ready (Inl (DialUnexpectedStatusHeader status)), s1)
       else if status ! 1 = 0x00 then (Ready (Inr ()), s1)
       else (Ready (Inl (ConnectRejected (status ! 1))), s1))"

text \<open>The same for a step that already has a dial error.\<close>

definition dial_then ::
  "('se dial_tcp_error + 'a) poll \<times> io_stream \<Rightarrow> (io_stream \<Rightarrow> ('se dial_tcp_error + 'b) poll \<times> io_stream)
    \<Rightarrow> ('se dial_tcp_error + 'b) poll \<times> io_stream" where
  "dial_then m f =
     (case m of
        (Ready (Inr a), s) \<Rightarrow> f s
      | (Ready (Inl e), s) \<Rightarrow> (Ready (Inl e), s)
      | (PollPending, s) \<Rightarrow> (PollPending, s))"

definition complete_handshake ::
  "(bytes \<Rightarrow> status_body option) \<Rightarrow> io_stream \<Rightarrow> bytes \<Rightarrow> bytes
    \<Rightarrow> ('se dial_tcp_error + unit) poll \<times> io_stream" where
  "complete_handshake from_slice s init_frame dest_frame =
     await_then (stream_write_all init_frame s) (\<lambda>_ s1.
     await_then (stream_write_all dest_frame s1) (\<lambda>_ s2.
     await_then (stream_flush s2) (\<lambda>_ s3.
     dial_then (wait_for_address_ok from_slice s3) (\<lambda>s4.
     await_then (stream_write_all encode_tcp_probe s4) (\<lambda>_ s5.
     await_then (stream_flush s5) (\<lambda>_ s6. wait_for_connect_status s6))))))"

subsection \<open>Dialling\<close>

datatype connect_outcome = Connected io_stream | ConnectFailed tls_connect_error | ConnectElapsed

definition dial_tcp_with_underlay ::
  "(bytes \<Rightarrow> bytes) \<Rightarrow> (bytes \<Rightarrow> bytes \<Rightarrow> bytes) \<Rightarrow> (tcp_init_wire \<Rightarrow> 'se + bytes)
    \<Rightarrow> (bytes \<Rightarrow> status_body option) \<Rightarrow> dial_tcp_request \<Rightarrow> connect_outcome
    \<Rightarrow> 'se dial_tcp_error + tcp_tunnel" where
  "dial_tcp_with_underlay sha256 hmac to_vec from_slice r outcome =
     (case validate_request r of
        Inl e \<Rightarrow> Inl e
      | Inr u \<Rightarrow>
          let process = (case dr_process r of Some p \<Rightarrow> p | None \<Rightarrow> default_for_port (target_port (dr_target r))) in
          (case build_handshake_frames sha256 hmac to_vec r process of
             Inl e \<Rightarrow> Inl e
           | Inr (init_frame, dest_frame) \<Rightarrow>
               (case outcome of
                  ConnectElapsed \<Rightarrow> Inl ConnectTimeout
                | ConnectFailed e \<Rightarrow> Inl (DialTls e)
                | Connected s \<Rightarrow>
                    (case complete_handshake from_slice s init_frame dest_frame of
                       (PollPending, s') \<Rightarrow> Inl HandshakeTimeout
                     | (Ready (Inl e), s') \<Rightarrow> Inl e
                     | (Ready (Inr v), s') \<Rightarrow> Inr (from_stream s')))))"

text \<open>
  The retry loop, on the outcomes of the successive attempts. The result is paired with the
  number of attempts made.
\<close>

function dial_retry_loop ::
  "(connect_outcome \<Rightarrow> 'se dial_tcp_error + tcp_tunnel) \<Rightarrow> nat \<Rightarrow> (nat \<Rightarrow> connect_outcome) \<Rightarrow> nat
    \<Rightarrow> ('se dial_tcp_error + tcp_tunnel) \<times> nat" where
  "dial_retry_loop dial max_retries outcomes retries =
     (case dial (outcomes retries) of
        Inr tunnel \<Rightarrow> (Inr tunnel, Suc retries)
      | Inl e \<Rightarrow>
          if retries < max_retries \<and> is_retryable e
          then dial_retry_loop dial max_retries outcomes (retries + 1)
          else (Inl e, Suc retries))"
  by pat_completeness auto
termination
  by (relation "measure (\<lambda>(d, m, f, retries). m - retries)") auto

declare dial_retry_loop.simps [simp del]

definition dial_tcp_with_retry ::
  "(bytes \<Rightarrow> bytes) \<Rightarrow> (bytes \<Rightarrow> bytes \<Rightarrow> bytes) \<Rightarrow> (tcp_init_wire \<Rightarrow> 'se + bytes)
    \<Rightarrow> (bytes \<Rightarrow> status_body option) \<Rightarrow> dial_tcp_request \<Rightarrow> nat \<Rightarrow> (nat \<Rightarrow> connect_outcome)
    \<Rightarrow> ('se dial_tcp_error + tcp_tunnel) \<times> nat" where
  "dial_tcp_with_retry sha256 hmac to_vec from_slice r max_retries outcomes =
     dial_retry_loop (dial_tcp_with_underlay sha256 hmac to_vec from_slice r) max_retries outcomes 0"

section \<open>The handshake against a node that answers\<close>

lemma stream_write_all_live:
  "can_write (length bs + k) s \<Longrightarrow>
     \<exists>s'. stream_write_all bs s = (Ready (Inr ()), s') \<and> can_write k s' \<and> io_wire s' = io_wire s @ bs \<and>
       io_reads s' = io_reads s \<and> io_flushes s' = io_flushes s"
proof (induction bs s rule: stream_write_all.induct)
  case (1 bs s)
  show ?case
  proof (cases "bs = []")
    case True
    with "1.prems" show ?thesis by (simp add: stream_write_all.simps)
  next
    case False
    obtain p s1 where p: "stream_poll_write bs s = (p, s1)" by force
    note w = stream_poll_write_wire [OF p]
    from stream_poll_write_eager [OF p "1.prems" False] have ne: "io_writes s \<noteq> []" and
      "p = PollPending \<and> can_write (length bs + k) s1 \<or>
       (\<exists>n. p = Ready (Inr n) \<and> 0 < n \<and> can_write (length (drop n bs) + k) s1)" by auto
    then consider (wait) "p = PollPending" "can_write (length bs + k) s1"
      | (ok) n where "p = Ready (Inr n)" "n \<noteq> 0" "can_write (length (drop n bs) + k) s1" by auto
    then show ?thesis
    proof cases
      case wait
      from "1.IH"(2) [OF False ne p [symmetric] wait] w wait(1) p False ne show ?thesis
        by (auto simp: stream_write_all.simps [of bs s])
    next
      case ok
      from "1.IH"(1) [OF False ne p [symmetric] ok(1) refl ok(2,3)] w ok(1,2) p False ne show ?thesis
        by (auto simp: stream_write_all.simps [of bs s])
    qed
  qed
qed

text \<open>Reading from a stream in any state whose answers start with a live script.\<close>

lemma read_exact_script:
  assumes "live_reads as" and "io_reads s = as @ later" and "script_bytes as = a @ b"
    and "n = length a"
  obtains as' where "stream_read_exact n s = (Ready (Inr a), s\<lparr>io_reads := as' @ later\<rparr>)"
    "live_reads as'" "script_bytes as' = b"
proof -
  have "s = s\<lparr>io_reads := as @ later\<rparr>" using assms(2) by simp
  moreover obtain as' where "stream_read_exact n (s\<lparr>io_reads := as @ later\<rparr>) = (Ready (Inr a), s\<lparr>io_reads := as' @ later\<rparr>)"
      "live_reads as'" "script_bytes as' = b"
    using read_exact_live [where as = as and k = n and s = s and tl_as = later] assms by auto
  ultimately show ?thesis using that by metis
qed

fun handshake_verdict ::
  "(bytes \<Rightarrow> status_body option) \<Rightarrow> bytes \<Rightarrow> 'se dial_tcp_error + unit" where
  "handshake_verdict from_slice payload =
     (case (if take 2 payload = [0x53, 0x00] then parse_status_payload payload else Inr payload) of
        Inl e \<Rightarrow> Inl (DialFrame e)
      | Inr b \<Rightarrow> if is_status_ok from_slice b then Inr () else Inl (AddressRejected (from_utf8_lossy b)))"

definition status_reply :: "nat \<Rightarrow> bytes \<Rightarrow> bytes" where
  "status_reply k body =
     concat (replicate k [0x05, 0x81]) @ [0x53, 0x00] @ u16_to_be (word_of_nat (length body)) @ body"

lemma wait_for_address_ok_reply:
  assumes "live_reads as" and "io_reads s = as @ later" and "script_bytes as = status_reply k body @ w"
    and "length body < 65536"
  shows "\<exists>as'. wait_for_address_ok from_slice s =
      (Ready (handshake_verdict from_slice body), s\<lparr>io_reads := as' @ later\<rparr>)
    \<and> live_reads as' \<and> script_bytes as' = w"
  using assms(1-3)
proof (induction k arbitrary: as s)
  case 0
  let ?len = "u16_to_be (word_of_nat (length body))"
  from 0 have "script_bytes as = [0x53, 0x00] @ ?len @ body @ w" by (simp add: status_reply_def)
  from read_exact_script [OF 0(1,2) this, of 2] obtain a1 where
    r1: "stream_read_exact 2 s = (Ready (Inr [0x53, 0x00]), s\<lparr>io_reads := a1 @ later\<rparr>)"
      "live_reads a1" "script_bytes a1 = ?len @ body @ w" by auto
  from read_exact_script [OF r1(2) _ r1(3), of "s\<lparr>io_reads := a1 @ later\<rparr>" later 2] obtain a2 where
    r2: "stream_read_exact 2 (s\<lparr>io_reads := a1 @ later\<rparr>) =
        (Ready (Inr ?len), s\<lparr>io_reads := a2 @ later\<rparr>)"
      "live_reads a2" "script_bytes a2 = body @ w" by auto
  from read_exact_script [OF r2(2) _ r2(3), of "s\<lparr>io_reads := a2 @ later\<rparr>" later "length body"] obtain a3 where
    r3: "stream_read_exact (length body) (s\<lparr>io_reads := a2 @ later\<rparr>) =
        (Ready (Inr body), s\<lparr>io_reads := a3 @ later\<rparr>)"
      "live_reads a3" "script_bytes a3 = w" by auto
  have len: "unat (u16_from_be (?len ! 0) (?len ! 1)) = length body"
    using assms(4) u16_to_be_nth [of "word_of_nat (length body)"] by simp
  have "wait_for_address_ok from_slice s =
      (Ready (handshake_verdict from_slice body), s\<lparr>io_reads := a3 @ later\<rparr>)"
    using r1(1) r2(1) r3(1) len
    by (simp add: wait_for_address_ok.simps [of _ s] await_then_def Let_def split: sum.splits)
  with r3 show ?case by blast
next
  case (Suc k)
  from Suc.prems have "script_bytes as = [0x05, 0x81] @ status_reply k body @ w"
    by (simp add: status_reply_def)
  from read_exact_script [OF Suc.prems(1,2) this, of 2] obtain a1 where
    r1: "stream_read_exact 2 s = (Ready (Inr [0x05, 0x81]), s\<lparr>io_reads := a1 @ later\<rparr>)"
      "live_reads a1" "script_bytes a1 = status_reply k body @ w" by auto
  from Suc.IH [OF r1(2) _ r1(3), of "s\<lparr>io_reads := a1 @ later\<rparr>"] r1(1) show ?case
    by (simp add: wait_for_address_ok.simps [of _ s] await_then_def)
qed

fun connect_verdict :: "byte \<Rightarrow> byte \<Rightarrow> 'se dial_tcp_error + unit" where
  "connect_verdict a b =
     (if a \<noteq> 0x05 then Inl (DialUnexpectedStatusHeader [a, b])
      else if b = 0x00 then Inr () else Inl (ConnectRejected b))"

lemma wait_for_connect_status_reply:
  assumes "live_reads as" and "io_reads s = as @ later" and "script_bytes as = [a, b] @ w"
  shows "\<exists>as'. wait_for_connect_status s = (Ready (connect_verdict a b), s\<lparr>io_reads := as' @ later\<rparr>)
    \<and> live_reads as' \<and> script_bytes as' = w"
proof -
  from read_exact_script [OF assms, of 2] obtain as' where
    "stream_read_exact 2 s = (Ready (Inr [a, b]), s\<lparr>io_reads := as' @ later\<rparr>)" "live_reads as'" "script_bytes as' = w"
    by auto
  then show ?thesis by (auto simp: wait_for_connect_status_def await_then_def)
qed

text \<open>A stream whose next two flushes succeed.\<close>

definition flushes_twice :: "io_stream \<Rightarrow> bool" where
  "flushes_twice s \<longleftrightarrow> fst (await_unit (io_flushes s)) = Ready (Inr ())
     \<and> fst (await_unit (snd (await_unit (io_flushes s)))) = Ready (Inr ())"

lemma handshake_exchange:
  fixes s :: io_stream
  assumes "can_write (length init + length dest + 4) s" and "flushes_twice s"
    and "live_reads as" and "io_reads s = as @ later"
    and "script_bytes as = status_reply k body @ [a, b] @ w" and "length body < 65536"
  shows "\<exists>s' as'. (complete_handshake from_slice s init dest :: ('se dial_tcp_error + unit) poll \<times> io_stream) =
      (Ready (case handshake_verdict from_slice body of Inl e \<Rightarrow> Inl e | Inr u \<Rightarrow> connect_verdict a b), s')
    \<and> (handshake_verdict from_slice body = (Inr () :: 'se dial_tcp_error + unit) \<longrightarrow>
        io_wire s' = io_wire s @ init @ dest @ encode_tcp_probe \<and>
        io_reads s' = as' @ later \<and> live_reads as' \<and> script_bytes as' = w)"
proof -
  have "can_write (length init + (length dest + 4)) s" using assms(1) by (simp add: add.assoc)
  from stream_write_all_live [OF this] obtain s1 where
    s1: "stream_write_all init s = (Ready (Inr ()), s1)" "can_write (length dest + 4) s1"
      "io_wire s1 = io_wire s @ init" "io_reads s1 = io_reads s" "io_flushes s1 = io_flushes s" by blast
  from stream_write_all_live [OF s1(2)] obtain s2 where
    s2: "stream_write_all dest s1 = (Ready (Inr ()), s2)" "can_write 4 s2"
      "io_wire s2 = io_wire s1 @ dest" "io_reads s2 = io_reads s1" "io_flushes s2 = io_flushes s1" by blast
  define fl where "fl = snd (await_unit (io_flushes s))"
  have fl: "await_unit (io_flushes s) = (Ready (Inr ()), fl)" "fst (await_unit fl) = Ready (Inr ())"
    using assms(2) by (simp_all add: fl_def flushes_twice_def prod_eq_iff)
  define s3 where "s3 = s2\<lparr>io_flushes := fl\<rparr>"
  have f1: "stream_flush s2 = (Ready (Inr ()), s3)"
    using fl s1(5) s2(5) by (simp add: stream_flush_def s3_def)
  have s3: "io_reads s3 = as @ later" "io_wire s3 = io_wire s @ init @ dest" "can_write 4 s3" "io_flushes s3 = fl"
    using s1 s2 assms(4) by (simp_all add: s3_def can_write_def)
  from wait_for_address_ok_reply [OF assms(3) s3(1) assms(5,6), of from_slice] obtain a1 where
    v: "(wait_for_address_ok from_slice s3 :: ('se dial_tcp_error + unit) poll \<times> io_stream) =
        (Ready (handshake_verdict from_slice body), s3\<lparr>io_reads := a1 @ later\<rparr>)"
      "live_reads a1" "script_bytes a1 = [a, b] @ w" by blast
  define s4 where "s4 = s3\<lparr>io_reads := a1 @ later\<rparr>"
  have "can_write (length encode_tcp_probe + 0) s4"
    using s3(3) by (simp add: s4_def can_write_def encode_tcp_probe_def)
  from stream_write_all_live [OF this] obtain s5 where
    s5: "stream_write_all encode_tcp_probe s4 = (Ready (Inr ()), s5)"
      "io_wire s5 = io_wire s4 @ encode_tcp_probe" "io_reads s5 = io_reads s4" "io_flushes s5 = io_flushes s4"
    by blast
  define s6 where "s6 = s5\<lparr>io_flushes := snd (await_unit fl)\<rparr>"
  have f2: "stream_flush s5 = (Ready (Inr ()), s6)"
    using fl(2) s5(4) s3(4) by (cases "await_unit fl") (simp add: stream_flush_def s6_def s4_def)
  have s6: "io_reads s6 = a1 @ later" "io_wire s6 = io_wire s @ init @ dest @ encode_tcp_probe"
    using s5 s3(2) by (simp_all add: s6_def s4_def)
  from wait_for_connect_status_reply [OF v(2) s6(1) v(3)] obtain a2 where
    c: "(wait_for_connect_status s6 :: ('se dial_tcp_error + unit) poll \<times> io_stream) =
      (Ready (connect_verdict a b), s6\<lparr>io_reads := a2 @ later\<rparr>)"
      "live_reads a2" "script_bytes a2 = w" by blast
  have "(complete_handshake from_slice s init dest :: ('se dial_tcp_error + unit) poll \<times> io_stream) =
    dial_then (Ready (handshake_verdict from_slice body), s4) (\<lambda>_. (Ready (connect_verdict a b), s6\<lparr>io_reads := a2 @ later\<rparr>))"
    using s1(1) s2(1) f1 v(1) s5(1) f2 c(1)
    by (cases "handshake_verdict from_slice body :: 'se dial_tcp_error + unit")
       (simp_all add: complete_handshake_def await_then_def dial_then_def s4_def)
  then show ?thesis
    using c(2,3) s6(2)
    by (cases "handshake_verdict from_slice body :: 'se dial_tcp_error + unit")
       (auto simp: dial_then_def)
qed

section \<open>Properties\<close>

text \<open>
  C29: functional. A dial to a node that accepts the address and the connection opens a tunnel:
  the wire carries the init frame, the target frame and one probe, the handshake takes exactly its
  own replies, after any number of chatter headers, and whatever the node sends next, in any
  pieces and already part of the same read or not, is what the tunnel's reader receives.
\<close>

theorem dial_hands_over_to_tunnel:
  fixes sha256 :: "bytes \<Rightarrow> bytes" and to_vec :: "tcp_init_wire \<Rightarrow> 'se + bytes"
  assumes "(validate_request r :: 'se dial_tcp_error + unit) = Inr ()"
    and "build_handshake_frames sha256 hmac to_vec r
       (case dr_process r of Some p \<Rightarrow> p | None \<Rightarrow> default_for_port (target_port (dr_target r))) = Inr (init, dest)"
    and "can_write (length init + length dest + 4) s" and "flushes_twice s"
    and "live_reads as" and "io_reads s = as @ [Accept []]"
    and "script_bytes as = status_reply k body @ [0x05, 0x00] @ w" and "length body < 65536"
    and "handshake_verdict from_slice body = (Inr () :: 'se dial_tcp_error + unit)"
  shows "\<exists>t. dial_tcp_with_underlay sha256 hmac to_vec from_slice r (Connected s) = Inr t
    \<and> io_wire (stream t) = io_wire s @ init @ dest @ encode_tcp_probe
    \<and> fst (read_to_end from_slice sizes i t) = reported (tunnel_payload from_slice w)"
proof -
  have "(connect_verdict 0x05 0x00 :: 'se dial_tcp_error + unit) = Inr ()" by simp
  with handshake_exchange [OF assms(3-8), where from_slice = from_slice and ?'se = 'se] assms(9)
  obtain s' as' where h: "(complete_handshake from_slice s init dest :: ('se dial_tcp_error + unit) poll \<times> io_stream)
      = (Ready (Inr ()), s')"
    and s': "io_wire s' = io_wire s @ init @ dest @ encode_tcp_probe" "io_reads s' = as' @ [Accept []]"
      "live_reads as'" "script_bytes as' = w"
    by (auto simp del: handshake_verdict.simps connect_verdict.simps)
  have dial: "dial_tcp_with_underlay sha256 hmac to_vec from_slice r (Connected s) = Inr (from_stream s')"
    using assms(1,2) h by (simp add: dial_tcp_with_underlay_def Let_def)
  have "reading as' (from_stream s')" using s' by (simp add: reading_def from_stream_def)
  from read_to_end_payload [OF this, of from_slice sizes i] s'(4) dial s'(1) show ?thesis
    by (simp add: from_stream_def)
qed

definition sample_dial :: dial_tcp_request where
  "sample_dial = \<lparr>dr_node_host = ''n'', dr_node_port = 441, dr_sid = ''s'', dr_device_id = ''d'',
     dr_connection_id = ''c'', dr_sign_key = [1], dr_username = ''u'',
     dr_target = TargetIpv4 (Ipv4 10 0 0 1) 80 ''app'', dr_process = None, dr_lang = ''en''\<rparr>"

definition sample_node :: io_stream where
  "sample_node = \<lparr>io_reads = [Accept [5, 0x81, 0x53], Wait, Accept [0, 0, 2, 79, 75, 5, 0, 1, 0, 0, 1, 65]] @ [Accept []],
     io_writes = replicate 40 (Accept 9), io_flushes = [Accept (), Wait, Accept ()], io_shutdowns = [], io_wire = []\<rparr>"

theorem dial_hands_over_to_tunnel_witness:
  "\<exists>t. dial_tcp_with_underlay id append (\<lambda>w. Inr (as_bytes (tw_app_id w)) :: unit + bytes) (\<lambda>_. None)
        sample_dial (Connected sample_node) = Inr t
    \<and> io_wire (stream t) = [5, 1, 0x81, 0x53, 3, 0, 3, 97, 112, 112] @ [5, 1, 1, 1, 10, 0, 0, 1, 0, 80] @ [1, 0, 0, 0]
    \<and> fst (read_to_end (\<lambda>_. None) (\<lambda>_. 7) 0 t) = ([65], Ready (Inr ()))"
proof -
  have ok: "(validate_request sample_dial :: unit dial_tcp_error + unit) = Inr ()"
    by (simp add: validate_request_def sample_dial_def)
  have frames: "build_handshake_frames id append (\<lambda>w. Inr (as_bytes (tw_app_id w)) :: unit + bytes) sample_dial
      (case dr_process sample_dial of Some p \<Rightarrow> p | None \<Rightarrow> default_for_port (target_port (dr_target sample_dial)))
    = Inr ([5, 1, 0x81, 0x53, 3, 0, 3, 97, 112, 112], [5, 1, 1, 1, 10, 0, 0, 1, 0, 80])"
    by (simp add: sample_dial_def build_handshake_frames_def build_signed_tcp_init_json_def to_wire_json_def
        tcp_init_unsigned_def tcp_frame_defs u16_to_be_def as_bytes_def Let_def)
  have reply: "script_bytes [Accept [5, 0x81, 0x53], Wait, Accept [0, 0, 2, 79, 75, 5, 0, 1, 0, 0, 1, 65]] =
      status_reply 1 [79, 75] @ [5, 0] @ [1, 0, 0, 1, 65]"
    by (simp add: status_reply_def u16_to_be_def)
  have verdict: "handshake_verdict (\<lambda>_. None) [79, 75] = (Inr () :: unit dial_tcp_error + unit)"
    by (simp add: is_status_ok_def as_bytes_def)
  have pay: "tunnel_payload (\<lambda>_. None) [1, 0, 0, 1, 65] = ([65], Inr ())"
    using payload_data_frame [of "[65]" "\<lambda>_. None" "[]" "[]"] by (simp add: data_frame_def u16_to_be_def)
  have "can_write (length [5, 1, 0x81, 0x53, 3, 0, 3, 97, 112, 112 :: byte] + length [5, 1, 1, 1, 10, 0, 0, 1, 0, 80 :: byte] + 4) sample_node"
    "flushes_twice sample_node" "io_reads sample_node =
      [Accept [5, 0x81, 0x53], Wait, Accept [0, 0, 2, 79, 75, 5, 0, 1, 0, 0, 1, 65]] @ [Accept []]"
    by (simp_all add: sample_node_def can_write_def flushes_twice_def eval_nat_numeral)
  from dial_hands_over_to_tunnel [OF ok frames this(1,2) _ this(3) reply _ verdict, of "\<lambda>_. 7" 0] show ?thesis
    by (simp add: pay sample_node_def encode_tcp_probe_def)
qed

lemma dial_retry_loop_spec:
  "dial_retry_loop dial m outcomes i = (res, n) \<Longrightarrow> i \<le> m \<Longrightarrow>
     i < n \<and> n \<le> Suc m \<and> res = dial (outcomes (n - 1)) \<and>
     (\<forall>j. i \<le> j \<and> j < n - 1 \<longrightarrow> (\<exists>e. dial (outcomes j) = Inl e \<and> is_retryable e)) \<and>
     (\<forall>e. res = Inl e \<longrightarrow> \<not> is_retryable e \<or> n = Suc m)"
proof (induction dial m outcomes i rule: dial_retry_loop.induct)
  case (1 dial m outcomes i)
  show ?case
  proof (cases "\<exists>e. dial (outcomes i) = Inl e \<and> i < m \<and> is_retryable e")
    case True
    then obtain e where e: "dial (outcomes i) = Inl e" "i < m \<and> is_retryable e" by blast
    have "dial_retry_loop dial m outcomes (i + 1) = (res, n)"
      using "1.prems"(1) e by (simp add: dial_retry_loop.simps [of _ _ _ i])
    moreover have "i + 1 \<le> m" using e by simp
    ultimately have ih: "i + 1 < n" "n \<le> Suc m" "res = dial (outcomes (n - 1))"
      "\<And>j. i + 1 \<le> j \<Longrightarrow> j < n - 1 \<Longrightarrow> \<exists>e. dial (outcomes j) = Inl e \<and> is_retryable e"
      "\<forall>e. res = Inl e \<longrightarrow> \<not> is_retryable e \<or> n = Suc m"
      using "1.IH" [OF e] by blast+
    have "\<exists>e. dial (outcomes j) = Inl e \<and> is_retryable e" if "i \<le> j" "j < n - 1" for j
      using that e(1) e(2) ih(4) [of j] by (cases "j = i") auto
    moreover have "i < n" using ih(1) by simp
    ultimately show ?thesis using ih(2,3,5) by blast
  next
    case False
    with "1.prems" show ?thesis
      by (auto simp: dial_retry_loop.simps [of _ _ _ i] split: sum.splits if_splits)
  qed
qed

text \<open>
  C35: bounds. Dialling with retries makes at most \<open>max_retries + 1\<close> attempts, goes on only past
  failures of the establishment that a fresh connection may cure, and reports the outcome of its
  last attempt; a rejection by the node or a malformed reply is never retried.
\<close>

theorem dial_retries_bounded:
  assumes "dial_tcp_with_retry sha256 hmac to_vec from_slice r m outcomes = (res, n)"
  shows "1 \<le> n \<and> n \<le> m + 1
    \<and> res = dial_tcp_with_underlay sha256 hmac to_vec from_slice r (outcomes (n - 1))
    \<and> (\<forall>j < n - 1. \<exists>e. dial_tcp_with_underlay sha256 hmac to_vec from_slice r (outcomes j) = Inl e \<and> is_retryable e)
    \<and> (\<forall>e. res = Inl e \<longrightarrow> \<not> is_retryable e \<or> n = m + 1)"
  using dial_retry_loop_spec [OF assms [unfolded dial_tcp_with_retry_def] le0]
  unfolding Suc_eq_plus1 [symmetric] by (metis Suc_leI le0 One_nat_def)

theorem dial_retries_bounded_witness:
  "dial_tcp_with_retry id append (\<lambda>w. Inr (as_bytes (tw_app_id w)) :: unit + bytes) (\<lambda>_. None) sample_dial 1
     (\<lambda>_. ConnectElapsed) = (Inl ConnectTimeout, 2) \<and> (2::nat) \<le> 1 + 1"
proof -
  have "dial_tcp_with_underlay id append (\<lambda>w. Inr (as_bytes (tw_app_id w)) :: unit + bytes) (\<lambda>_. None) sample_dial
      ConnectElapsed = Inl ConnectTimeout"
    by (simp add: dial_tcp_with_underlay_def validate_request_def sample_dial_def build_handshake_frames_def
        build_signed_tcp_init_json_def to_wire_json_def tcp_init_unsigned_def tcp_frame_defs u16_to_be_def
        as_bytes_def Let_def)
  then have "dial_tcp_with_retry id append (\<lambda>w. Inr (as_bytes (tw_app_id w)) :: unit + bytes) (\<lambda>_. None) sample_dial 1
     (\<lambda>_. ConnectElapsed) = (Inl ConnectTimeout, 2)"
    by (simp add: dial_tcp_with_retry_def dial_retry_loop.simps)
  with dial_retries_bounded [OF this] show ?thesis by simp
qed

end
