(* ===== verification/L3_Cache.thy ===== *)
theory L3_Cache
  imports L3_Manager
begin

text \<open>
  The second half of \<open>crates/atrust-l3/src/manager.rs\<close>: the cache of session managers, keyed by
  node group and stamped with the resource generation that last set their endpoints. Managers are
  kept in a store and named by their position, so that handles given out earlier stay visible.
\<close>

section \<open>State and operations\<close>

record cached_manager =
  cm_manager :: nat
  cm_generation :: u64

record manager_cache =
  ca_managers :: "(string, cached_manager) hmap"
  ca_store :: "l3_session_manager list"
  ca_retired :: bool
  ca_world :: world

definition cache_new :: "world \<Rightarrow> manager_cache" where
  "cache_new w = \<lparr>ca_managers = [], ca_store = [], ca_retired = False, ca_world = w\<rparr>"

definition with_manager :: "nat \<Rightarrow> (l3_session_manager \<Rightarrow> l3_session_manager) \<Rightarrow> manager_cache \<Rightarrow> manager_cache" where
  "with_manager p f c = c\<lparr>ca_store := (ca_store c)[p := f (ca_store c ! p)]\<rparr>"

text \<open>An operation of the manager at \<open>p\<close> that also changes sessions.\<close>

definition run_manager ::
  "nat \<Rightarrow> (world \<Rightarrow> l3_session_manager \<Rightarrow> world \<times> l3_session_manager) \<Rightarrow> manager_cache \<Rightarrow> manager_cache" where
  "run_manager p f c =
     (let (w, m) = f (ca_world c) (ca_store c ! p) in c\<lparr>ca_store := (ca_store c)[p := m], ca_world := w\<rparr>)"

definition cache_managers :: "manager_cache \<Rightarrow> nat list" where
  "cache_managers c = map (cm_manager \<circ> snd) (ca_managers c)"

definition cache_get :: "string \<Rightarrow> manager_cache \<Rightarrow> nat option" where
  "cache_get g c = map_option cm_manager (hm_get (ca_managers c) g)"

definition cache_len :: "manager_cache \<Rightarrow> nat" where "cache_len c = length (ca_managers c)"

definition cache_retire :: "(nat \<Rightarrow> bool) \<Rightarrow> clock \<Rightarrow> manager_cache \<Rightarrow> manager_cache" where
  "cache_retire locked ck c =
     fold (\<lambda>p. run_manager p (manager_retire (locked p) ck)) (cache_managers c) (c\<lparr>ca_retired := True\<rparr>)"

definition update_endpoints_for_generation ::
  "string \<Rightarrow> l3_node_endpoint list \<Rightarrow> u64 \<Rightarrow> manager_cache \<Rightarrow> manager_cache" where
  "update_endpoints_for_generation g endpoints generation c =
     (case hm_get (ca_managers c) g of
        None \<Rightarrow> c
      | Some cached \<Rightarrow>
          if generation \<ge> cm_generation cached
          then with_manager (cm_manager cached) (update_endpoints endpoints)
                 (c\<lparr>ca_managers := hm_insert g (cached\<lparr>cm_generation := generation\<rparr>) (ca_managers c)\<rparr>)
          else c)"

text \<open>The entry of a group, created when absent.\<close>

definition cache_entry ::
  "string \<Rightarrow> l3_node_endpoint list \<Rightarrow> u64 \<Rightarrow> manager_cache \<Rightarrow> manager_cache \<times> cached_manager" where
  "cache_entry g endpoints generation c =
     (case hm_get (ca_managers c) g of
        Some cached \<Rightarrow> (c, cached)
      | None \<Rightarrow>
          (let cached = \<lparr>cm_manager = length (ca_store c), cm_generation = generation\<rparr>
           in (c\<lparr>ca_managers := hm_insert g cached (ca_managers c),
                 ca_store := ca_store c @ [manager_new endpoints g]\<rparr>, cached)))"

definition manager_for_generation ::
  "(nat \<Rightarrow> bool) \<Rightarrow> clock \<Rightarrow> string \<Rightarrow> l3_node_endpoint list \<Rightarrow> u64 \<Rightarrow> manager_cache \<Rightarrow> manager_cache \<times> nat" where
  "manager_for_generation locked ck g endpoints generation c0 =
     (let (c, cached) = cache_entry g endpoints generation c0;
          p = cm_manager cached;
          c1 = (if generation \<ge> cm_generation cached
                then with_manager p (update_endpoints endpoints)
                       (c\<lparr>ca_managers := hm_insert g (cached\<lparr>cm_generation := generation\<rparr>) (ca_managers c)\<rparr>)
                else c);
          c2 = (if ca_retired c1 then run_manager p (manager_retire (locked p) ck) c1 else c1)
      in (c2, p))"

definition cache_manager ::
  "(nat \<Rightarrow> bool) \<Rightarrow> clock \<Rightarrow> string \<Rightarrow> l3_node_endpoint list \<Rightarrow> manager_cache \<Rightarrow> manager_cache \<times> nat" where
  "cache_manager locked ck g endpoints c = manager_for_generation locked ck g endpoints 0 c"

text \<open>A resource refresh: groups no longer published go, the others get their new endpoints.\<close>

definition is_removed :: "u64 \<Rightarrow> (string, l3_node_endpoint list) hmap \<Rightarrow> string \<times> cached_manager \<Rightarrow> bool" where
  "is_removed generation groups x =
     (generation \<ge> cm_generation (snd x) \<and> hm_get groups (fst x) = None)"

definition refresh_endpoints :: "nat \<times> l3_node_endpoint list \<Rightarrow> manager_cache \<Rightarrow> manager_cache" where
  "refresh_endpoints x c =
     (let c1 = with_manager (fst x) (update_endpoints (snd x)) c
      in c1\<lparr>ca_world := publish (NodeEndpointsUpdated (mg_node_group_id (ca_store c1 ! fst x)) (length (snd x))) (ca_world c1)\<rparr>)"

definition retire_group :: "(nat \<Rightarrow> bool) \<Rightarrow> clock \<Rightarrow> nat \<Rightarrow> manager_cache \<Rightarrow> manager_cache" where
  "retire_group locked ck p c =
     (let c1 = run_manager p (manager_close ck) (run_manager p (manager_retire (locked p) ck) c)
      in c1\<lparr>ca_world := publish (NodeGroupRetired (mg_node_group_id (ca_store c1 ! p))) (ca_world c1)\<rparr>)"

definition cache_reconcile ::
  "(nat \<Rightarrow> bool) \<Rightarrow> clock \<Rightarrow> u64 \<Rightarrow> (string, l3_node_endpoint list) hmap \<Rightarrow> manager_cache \<Rightarrow> manager_cache" where
  "cache_reconcile locked ck generation groups c =
     (let removed = map (cm_manager \<circ> snd) (filter (is_removed generation groups) (ca_managers c));
          kept = filter (\<lambda>x. \<not> is_removed generation groups x) (ca_managers c);
          stamped = map (\<lambda>x. if generation < cm_generation (snd x) then x
                             else (fst x, (snd x)\<lparr>cm_generation := generation\<rparr>)) kept;
          updated = List.map_filter (\<lambda>x. if generation < cm_generation (snd x) then None
                      else map_option (Pair (cm_manager (snd x))) (hm_get groups (fst x))) kept
      in fold (retire_group locked ck) removed (fold refresh_endpoints updated (c\<lparr>ca_managers := stamped\<rparr>)))"

definition cache_close :: "(nat \<Rightarrow> bool) \<Rightarrow> clock \<Rightarrow> manager_cache \<Rightarrow> manager_cache" where
  "cache_close locked ck c =
     (let c1 = cache_retire locked ck c
      in fold (\<lambda>p. run_manager p (manager_close ck)) (cache_managers c1) (c1\<lparr>ca_managers := []\<rparr>))"

section \<open>Operations on the store\<close>

text \<open>\<open>settles c c'\<close>: the same managers under the same keys, and none is taken out of retirement.\<close>

definition settles :: "manager_cache \<Rightarrow> manager_cache \<Rightarrow> bool" where
  "settles c c' \<longleftrightarrow> ca_managers c' = ca_managers c \<and> ca_retired c' = ca_retired c
     \<and> length (ca_store c') = length (ca_store c)
     \<and> (\<forall>q < length (ca_store c). mg_retired (ca_store c ! q) \<longrightarrow> mg_retired (ca_store c' ! q))"

lemma settles_refl [simp]: "settles c c"
  by (simp add: settles_def)

lemma settles_trans: "settles c c' \<Longrightarrow> settles c' c'' \<Longrightarrow> settles c c''"
  by (auto simp: settles_def)

lemma settles_fold: "(\<And>p c. settles c (f p c)) \<Longrightarrow> settles c (fold f ps c)"
  by (induction ps arbitrary: c) (auto intro: settles_trans)

lemma nth_update_retired:
  "q < length s \<Longrightarrow> mg_retired (s ! q) \<Longrightarrow> (mg_retired (s ! p) \<Longrightarrow> mg_retired m) \<Longrightarrow> mg_retired (s[p := m] ! q)"
  by (cases "p = q") auto

lemma settles_run:
  assumes "\<And>w m. mg_retired m \<Longrightarrow> mg_retired (snd (f w m))"
  shows "settles c (run_manager p f c)"
  using assms [of "ca_store c ! p" "ca_world c"]
  by (auto simp: settles_def run_manager_def Let_def split: prod.split intro: nth_update_retired)

lemma settles_with:
  "(\<And>m. mg_retired m \<Longrightarrow> mg_retired (f m)) \<Longrightarrow> settles c (with_manager p f c)"
  by (auto simp: settles_def with_manager_def intro: nth_update_retired)

lemma settles_world [simp]: "settles c (c'\<lparr>ca_world := w\<rparr>) \<longleftrightarrow> settles c c'"
  by (simp add: settles_def)

lemma manager_retired_kept [simp]:
  "mg_retired (snd (manager_retire locked ck w m))"
  "mg_retired (snd (manager_close ck w m)) = mg_retired m"
  "mg_retired (snd (invalidate ck p w m)) = mg_retired m"
  "mg_retired (update_endpoints es m) = mg_retired m"
  by (auto simp: manager_retire_def manager_close_def invalidate_def update_endpoints_def split: option.split)

lemma run_retire: "p < length (ca_store c) \<Longrightarrow> mg_retired (ca_store (run_manager p (manager_retire l ck) c) ! p)"
  using manager_retired_kept(1) [of l ck "ca_world c" "ca_store c ! p"]
  by (cases "manager_retire l ck (ca_world c) (ca_store c ! p)") (simp add: run_manager_def)

lemma fold_retires:
  assumes step: "\<And>p c. settles c (f p c)" "\<And>p c. p < length (ca_store c) \<Longrightarrow> mg_retired (ca_store (f p c) ! p)"
    and q: "q \<in> set ps" "q < length (ca_store c)"
  shows "mg_retired (ca_store (fold f ps c) ! q)"
  using q
proof (induction ps arbitrary: c)
  case (Cons p ps)
  have len: "length (ca_store (f p c)) = length (ca_store c)" using step(1) by (simp add: settles_def)
  show ?case
  proof (cases "q \<in> set ps")
    case True
    then show ?thesis using Cons len by simp
  next
    case False
    then have "mg_retired (ca_store (f p c) ! q)" using Cons.prems step(2) by simp
    then show ?thesis using settles_fold [of f "f p c" ps, OF step(1)] Cons.prems(2) len by (simp add: settles_def)
  qed
qed simp

lemma retire_group_settles: "settles c (retire_group locked ck p c)"
  unfolding retire_group_def Let_def settles_world
  by (rule settles_trans [of _ "run_manager p (manager_retire (locked p) ck) c"]; rule settles_run) simp_all

lemma retire_group_retires: "p < length (ca_store c) \<Longrightarrow> mg_retired (ca_store (retire_group locked ck p c) ! p)"
  using run_retire [of p c "locked p" ck] settles_run [of "manager_close ck" "run_manager p (manager_retire (locked p) ck) c" p]
    settles_run [of "manager_retire (locked p) ck" c p]
  by (simp add: retire_group_def Let_def settles_def)

lemma refresh_settles: "settles c (refresh_endpoints x c)"
  unfolding refresh_endpoints_def Let_def settles_world by (rule settles_with) simp

section \<open>The cache as a state machine\<close>

text \<open>
  Every call on the cache, every call on a manager it ever created, and arbitrary changes of the
  sessions by their own tasks.
\<close>

inductive cache_step :: "('se, 'de) network \<Rightarrow> manager_cache \<Rightarrow> manager_cache \<Rightarrow> bool" for net where
  retire: "cache_step net c (cache_retire locked ck c)"
| update: "cache_step net c (update_endpoints_for_generation g es generation c)"
| lookup: "manager_for_generation locked ck g es generation c = (c', p) \<Longrightarrow> cache_step net c c'"
| reconcile: "cache_step net c (cache_reconcile locked ck generation groups c)"
| close: "cache_step net c (cache_close locked ck c)"
| session: "p < length (ca_store c) \<Longrightarrow>
    manager_session (nt_dial net k) (nt_text net) ck fin (ca_world c) (ca_store c ! p) = (w, m, res) \<Longrightarrow>
    cache_step net c (c\<lparr>ca_store := (ca_store c)[p := m], ca_world := w\<rparr>)"
| retire_one: "cache_step net c (run_manager p (manager_retire l ck) c)"
| close_one: "cache_step net c (run_manager p (manager_close ck) c)"
| invalidate_one: "cache_step net c (run_manager p (invalidate ck failed) c)"
| sessions: "cache_step net c (c\<lparr>ca_world := w\<rparr>)"

inductive cache_reachable :: "('se, 'de) network \<Rightarrow> manager_cache \<Rightarrow> bool" for net where
  start: "cache_reachable net (cache_new w)"
| step: "cache_reachable net c \<Longrightarrow> cache_step net c c' \<Longrightarrow> cache_reachable net c'"

text \<open>A manager is in the cache or retired, and a retired cache holds and held only retired ones.\<close>

definition cache_inv :: "manager_cache \<Rightarrow> bool" where
  "cache_inv c \<longleftrightarrow> (\<forall>p \<in> set (cache_managers c). p < length (ca_store c))
     \<and> (\<forall>p < length (ca_store c). p \<in> set (cache_managers c) \<or> mg_retired (ca_store c ! p))
     \<and> (ca_retired c \<longrightarrow> (\<forall>p < length (ca_store c). mg_retired (ca_store c ! p)))"

lemma settles_inv: "settles c c' \<Longrightarrow> cache_inv c \<Longrightarrow> cache_inv c'"
  by (auto simp: settles_def cache_inv_def cache_managers_def)

lemma cache_retire_inv:
  assumes "cache_inv c"
  shows "cache_inv (cache_retire locked ck c)" "ca_retired (cache_retire locked ck c)"
proof -
  let ?f = "\<lambda>p. run_manager p (manager_retire (locked p) ck)"
  let ?c = "fold ?f (cache_managers c) (c\<lparr>ca_retired := True\<rparr>)"
  have settles: "settles (c\<lparr>ca_retired := True\<rparr>) ?c" by (rule settles_fold) (rule settles_run, simp)
  have "mg_retired (ca_store ?c ! p)" if "p < length (ca_store c)" for p
  proof (cases "p \<in> set (cache_managers c)")
    case True
    then show ?thesis using that by (intro fold_retires settles_run run_retire) simp_all
  next
    case False
    then have "mg_retired (ca_store c ! p)" using assms that by (auto simp: cache_inv_def)
    then show ?thesis using settles that by (simp add: settles_def)
  qed
  then show "cache_inv (cache_retire locked ck c)" "ca_retired (cache_retire locked ck c)"
    using settles assms unfolding cache_retire_def by (auto simp: settles_def cache_inv_def cache_managers_def)
qed

lemma cache_reconcile_inv:
  assumes "cache_inv c"
  shows "cache_inv (cache_reconcile locked ck generation groups c)"
proof -
  let ?kept = "filter (\<lambda>x. \<not> is_removed generation groups x) (ca_managers c)"
  let ?removed = "map (cm_manager \<circ> snd) (filter (is_removed generation groups) (ca_managers c))"
  let ?stamped = "map (\<lambda>x. if generation < cm_generation (snd x) then x
                     else (fst x, (snd x)\<lparr>cm_generation := generation\<rparr>)) ?kept"
  let ?updated = "List.map_filter (\<lambda>x. if generation < cm_generation (snd x) then None
                      else map_option (Pair (cm_manager (snd x))) (hm_get groups (fst x))) ?kept"
  let ?c1 = "fold refresh_endpoints ?updated (c\<lparr>ca_managers := ?stamped\<rparr>)"
  let ?c2 = "fold (retire_group locked ck) ?removed ?c1"
  have s1: "settles (c\<lparr>ca_managers := ?stamped\<rparr>) ?c1" by (rule settles_fold) (rule refresh_settles)
  have s2: "settles ?c1 ?c2" by (rule settles_fold) (rule retire_group_settles)
  have "ca_managers ?c2 = ?stamped" using s1 s2 by (simp add: settles_def)
  then have "cache_managers ?c2 = map (cm_manager \<circ> snd) ?stamped" by (simp only: cache_managers_def)
  also have "\<dots> = map (cm_manager \<circ> snd) ?kept" by (induction "?kept") simp_all
  finally have pointers: "set (cache_managers ?c2) = (cm_manager \<circ> snd) ` set ?kept" by (simp only: set_map)
  have all: "set (cache_managers c) = (cm_manager \<circ> snd) ` set ?kept \<union> set ?removed"
    by (auto simp: cache_managers_def)
  have len: "length (ca_store ?c2) = length (ca_store c)" "length (ca_store ?c1) = length (ca_store c)"
    and flag: "ca_retired ?c2 = ca_retired c"
    using s1 s2 by (simp_all add: settles_def)
  have kept: "mg_retired (ca_store ?c2 ! p)" if "p < length (ca_store c)" "mg_retired (ca_store c ! p)" for p
    using s1 s2 that by (simp add: settles_def)
  have gone: "mg_retired (ca_store ?c2 ! p)" if "p < length (ca_store c)" "p \<in> set ?removed" for p
    using that len by (intro fold_retires retire_group_settles retire_group_retires) simp_all
  have "cache_inv ?c2"
    using assms kept gone unfolding cache_inv_def pointers len flag all by blast
  then show ?thesis by (simp only: cache_reconcile_def Let_def)
qed

lemma cache_close_inv:
  assumes "cache_inv c"
  shows "cache_inv (cache_close locked ck c)" "ca_retired (cache_close locked ck c)"
proof -
  let ?c1 = "cache_retire locked ck c"
  let ?c2 = "fold (\<lambda>p. run_manager p (manager_close ck)) (cache_managers ?c1) (?c1\<lparr>ca_managers := []\<rparr>)"
  have "settles (?c1\<lparr>ca_managers := []\<rparr>) ?c2" by (rule settles_fold) (rule settles_run, simp)
  then show "cache_inv (cache_close locked ck c)" "ca_retired (cache_close locked ck c)"
    using cache_retire_inv [OF assms] unfolding cache_close_def Let_def
    by (auto simp: settles_def cache_inv_def cache_managers_def)
qed

lemma pointers_update:
  "hm_get m g = Some cached \<Longrightarrow> cm_manager v = cm_manager cached \<Longrightarrow>
     map (cm_manager \<circ> snd) (hm_insert g v m) = map (cm_manager \<circ> snd) m"
  by (induction m) (auto split: if_splits)

lemma restamp_inv:
  assumes "cache_inv c" "hm_get (ca_managers c) g = Some cached"
  shows "cache_inv (with_manager (cm_manager cached) (update_endpoints es)
    (c\<lparr>ca_managers := hm_insert g (cached\<lparr>cm_generation := generation\<rparr>) (ca_managers c)\<rparr>))"
proof (rule settles_inv)
  let ?c = "c\<lparr>ca_managers := hm_insert g (cached\<lparr>cm_generation := generation\<rparr>) (ca_managers c)\<rparr>"
  show "settles ?c (with_manager (cm_manager cached) (update_endpoints es) ?c)" by (rule settles_with) simp
  have "cache_managers ?c = cache_managers c"
    using pointers_update [OF assms(2)] by (simp add: cache_managers_def)
  with assms(1) show "cache_inv ?c" by (simp add: cache_inv_def)
qed

lemma update_generation_inv: "cache_inv c \<Longrightarrow> cache_inv (update_endpoints_for_generation g es generation c)"
  by (simp add: update_endpoints_for_generation_def restamp_inv split: option.split)

text \<open>A fresh manager is the only one that may be missing from a retired cache's roll of retirees.\<close>

lemma insert_inv:
  assumes "cache_inv c" "hm_get (ca_managers c) g = None" "cm_manager cached = length (ca_store c)"
    "mg_retired m = ca_retired c"
  shows "cache_inv (c\<lparr>ca_managers := hm_insert g cached (ca_managers c), ca_store := ca_store c @ [m]\<rparr>)"
proof -
  have "hm_insert g cached (ca_managers c) = ca_managers c @ [(g, cached)]"
    by (rule hm_insert_absent [OF assms(2)])
  then show ?thesis
    using assms by (auto simp: cache_inv_def cache_managers_def nth_append less_Suc_eq)
qed

lemma lookup_fresh:
  assumes "hm_get (ca_managers c) g = None" "manager_for_generation locked ck g es generation c = (c', p)"
  obtains m where "c' = c\<lparr>ca_managers := hm_insert g \<lparr>cm_manager = length (ca_store c), cm_generation = generation\<rparr> (ca_managers c),
      ca_store := ca_store c @ [m]\<rparr>" "p = length (ca_store c)" "mg_retired m = ca_retired c"
    "mg_endpoints m = deduplicate_endpoints es" "mg_node_group_id m = g"
proof -
  let ?m = "update_endpoints es (manager_new es g)" and ?p = "length (ca_store c)"
  let ?ms = "hm_insert g \<lparr>cm_manager = ?p, cm_generation = generation\<rparr> (ca_managers c)"
  obtain w m where m: "manager_retire (locked ?p) ck (ca_world c) ?m = (w, m)" by (metis prod.exhaust)
  then have props: "w = ca_world c" "mg_retired m" "mg_endpoints m = deduplicate_endpoints es" "mg_node_group_id m = g"
    by (auto simp: manager_retire_def update_endpoints_def manager_new_def state_default_def)
  have c': "c' = (if ca_retired c then run_manager ?p (manager_retire (locked ?p) ck) (c\<lparr>ca_managers := ?ms, ca_store := ca_store c @ [?m]\<rparr>)
      else c\<lparr>ca_managers := ?ms, ca_store := ca_store c @ [?m]\<rparr>)" "p = ?p"
    using assms(2) by (auto simp: manager_for_generation_def cache_entry_def assms(1) Let_def with_manager_def split: if_splits)
  show ?thesis
  proof (cases "ca_retired c")
    case True
    then have "c' = c\<lparr>ca_managers := ?ms, ca_store := ca_store c @ [m]\<rparr>"
      by (simp add: c'(1) run_manager_def m props(1))
    then show ?thesis by (rule that) (simp_all add: c'(2) True props)
  next
    case False
    then have "c' = c\<lparr>ca_managers := ?ms, ca_store := ca_store c @ [?m]\<rparr>" by (simp add: c'(1))
    then show ?thesis by (rule that) (simp_all add: c'(2) False update_endpoints_def manager_new_def)
  qed
qed

lemma lookup_inv:
  assumes "cache_inv c" "manager_for_generation locked ck g es generation c = (c', p)"
  shows "cache_inv c'"
proof (cases "hm_get (ca_managers c) g")
  case None
  from lookup_fresh [OF None assms(2)] obtain m where
    "c' = c\<lparr>ca_managers := hm_insert g \<lparr>cm_manager = length (ca_store c), cm_generation = generation\<rparr> (ca_managers c),
      ca_store := ca_store c @ [m]\<rparr>" "mg_retired m = ca_retired c" by metis
  then show ?thesis using insert_inv [OF assms(1) None] by simp
next
  case (Some cached)
  let ?c1 = "if generation \<ge> cm_generation cached
      then with_manager (cm_manager cached) (update_endpoints es)
        (c\<lparr>ca_managers := hm_insert g (cached\<lparr>cm_generation := generation\<rparr>) (ca_managers c)\<rparr>) else c"
  have "cache_inv ?c1" using restamp_inv [OF assms(1) Some] assms(1) by simp
  moreover have "c' = (if ca_retired ?c1 then run_manager (cm_manager cached) (manager_retire (locked (cm_manager cached)) ck) ?c1 else ?c1)"
    using assms(2) unfolding manager_for_generation_def cache_entry_def Let_def Some by simp
  moreover have "settles ?c1 (run_manager (cm_manager cached) (manager_retire (locked (cm_manager cached)) ck) ?c1)"
    by (rule settles_run) simp
  ultimately show ?thesis using settles_inv by auto
qed

lemma session_settles:
  assumes "manager_session dial err_text ck fin (ca_world c) (ca_store c ! p) = (w, m, res)"
  shows "settles c (c\<lparr>ca_store := (ca_store c)[p := m], ca_world := w\<rparr>)"
proof -
  have "mg_retired m" if "mg_retired (ca_store c ! p)"
    using assms that by (simp add: manager_session_def)
  then show ?thesis by (auto simp: settles_def intro: nth_update_retired)
qed

lemma cache_step_inv: "cache_step net c c' \<Longrightarrow> cache_inv c \<Longrightarrow> cache_inv c'"
  by (induction rule: cache_step.induct)
     (auto intro: cache_retire_inv(1) update_generation_inv lookup_inv cache_reconcile_inv cache_close_inv(1)
        settles_inv [OF settles_run] settles_inv [OF session_settles] settles_inv [where c = c and c' = "c\<lparr>ca_world := w\<rparr>" for c w])

lemma cache_reachable_inv: "cache_reachable net c \<Longrightarrow> cache_inv c"
proof (induction rule: cache_reachable.induct)
  case (start w)
  show ?case by (simp add: cache_inv_def cache_new_def cache_managers_def)
qed (blast intro: cache_step_inv)

lemma cache_step_retired: "cache_step net c c' \<Longrightarrow> cache_inv c \<Longrightarrow> ca_retired c \<Longrightarrow> ca_retired c'"
proof (induction rule: cache_step.induct)
  case (lookup locked ck g es generation c c' p)
  then show ?case
    by (auto simp: manager_for_generation_def cache_entry_def Let_def with_manager_def run_manager_def split: option.splits prod.splits if_splits)
next
  case (update c g es generation)
  then show ?case by (simp add: update_endpoints_for_generation_def with_manager_def split: option.split)
next
  case (reconcile c locked ck generation groups)
  have "ca_retired (fold (retire_group locked ck) ps (fold refresh_endpoints us (c\<lparr>ca_managers := ms\<rparr>)))" for ps us ms
    using reconcile(2) settles_fold [of refresh_endpoints "c\<lparr>ca_managers := ms\<rparr>" us, OF refresh_settles]
      settles_fold [of "retire_group locked ck" _ ps, OF retire_group_settles] by (auto simp: settles_def)
  then show ?case by (simp add: cache_reconcile_def Let_def)
qed (auto simp: cache_retire_inv cache_close_inv run_manager_def Let_def split: prod.split)

section \<open>Properties of the cache\<close>


definition sample_cache :: manager_cache where
  "sample_cache = fst (manager_for_generation (\<lambda>p. False) idle_clock ''g'' [] 1
     (cache_retire (\<lambda>p. False) idle_clock (cache_new sample_world)))"

lemma sample_cache_reachable: "cache_reachable sample_network sample_cache"
  unfolding sample_cache_def
  by (rule cache_reachable.step [OF cache_reachable.step [OF cache_reachable.start cache_step.retire]
        cache_step.lookup [OF surjective_pairing]])

lemma sample_cache_fields: "ca_retired sample_cache" "length (ca_store sample_cache) = 1"
  by (simp_all add: sample_cache_def manager_for_generation_def cache_retire_def cache_managers_def cache_new_def
      cache_entry_def Let_def with_manager_def run_manager_def split: prod.split)


text \<open>
  An older resource generation never overwrites a newer one. A lookup or a probe result stamped
  with an older generation than the cached manager's leaves its endpoints and its stamp alone; one
  of the same or a newer generation installs its endpoints without duplicates and moves the stamp.
  The manager of a group stays the same object either way.
\<close>

theorem older_generation_never_overwrites:
  assumes "cache_reachable net c" "hm_get (ca_managers c) g = Some cached"
    and "manager_for_generation locked ck g es generation c = (c', p)"
  shows "p = cm_manager cached
    \<and> (generation < cm_generation cached \<longrightarrow>
        hm_get (ca_managers c') g = Some cached
        \<and> mg_endpoints (ca_store c' ! p) = mg_endpoints (ca_store c ! p)
        \<and> update_endpoints_for_generation g es generation c = c)
    \<and> (cm_generation cached \<le> generation \<longrightarrow>
        hm_get (ca_managers c') g = Some (cached\<lparr>cm_generation := generation\<rparr>)
        \<and> mg_endpoints (ca_store c' ! p) = deduplicate_endpoints es
        \<and> mg_endpoints (ca_store (update_endpoints_for_generation g es generation c) ! p) = deduplicate_endpoints es)"
proof -
  have "(g, cached) \<in> set (ca_managers c)" using assms(2) by (rule map_of_SomeD)
  then have bound: "cm_manager cached < length (ca_store c)"
    using cache_reachable_inv [OF assms(1)] by (force simp: cache_inv_def cache_managers_def)
  have retire: "mg_endpoints (snd (manager_retire l ck w m)) = mg_endpoints m" for l w m
    by (simp add: manager_retire_def split: option.split)
  have run: "mg_endpoints (ca_store (run_manager q (manager_retire l ck) c1) ! q) = mg_endpoints (ca_store c1 ! q)"
    "ca_managers (run_manager q (manager_retire l ck) c1) = ca_managers c1" if "q < length (ca_store c1)" for q l c1
    using that retire [of l "ca_world c1" "ca_store c1 ! q"]
    by (cases "manager_retire l ck (ca_world c1) (ca_store c1 ! q)", simp add: run_manager_def)+
  define c1 where "c1 = (if generation \<ge> cm_generation cached
      then with_manager (cm_manager cached) (update_endpoints es)
        (c\<lparr>ca_managers := hm_insert g (cached\<lparr>cm_generation := generation\<rparr>) (ca_managers c)\<rparr>) else c)"
  have c': "p = cm_manager cached"
    "c' = (if ca_retired c1 then run_manager p (manager_retire (locked p) ck) c1 else c1)"
    using assms(3) unfolding manager_for_generation_def cache_entry_def Let_def assms(2) c1_def by auto
  have "p < length (ca_store c1)" using bound c'(1) by (simp add: c1_def with_manager_def)
  from run [OF this] have "mg_endpoints (ca_store c' ! p) = mg_endpoints (ca_store c1 ! p)" "ca_managers c' = ca_managers c1"
    by (simp_all add: c'(2))
  then show ?thesis
    using assms(2) bound c'(1)
    by (auto simp: c1_def with_manager_def update_endpoints_def update_endpoints_for_generation_def)
qed

definition sample_live_cache :: manager_cache where
  "sample_live_cache = fst (manager_for_generation (\<lambda>p. False) idle_clock ''g'' [\<lparr>ne_host = ''new'', ne_port = 441\<rparr>] 2
     (cache_new sample_world))"

lemma sample_live_cache_reachable: "cache_reachable sample_network sample_live_cache"
  unfolding sample_live_cache_def
  by (rule cache_reachable.step [OF cache_reachable.start cache_step.lookup [OF surjective_pairing]])

lemma sample_live_cache_entry:
  "hm_get (ca_managers sample_live_cache) ''g'' = Some \<lparr>cm_manager = 0, cm_generation = 2\<rparr>"
  by (simp add: sample_live_cache_def manager_for_generation_def cache_new_def cache_entry_def Let_def with_manager_def)

theorem older_generation_never_overwrites_witness:
  "update_endpoints_for_generation ''g'' [\<lparr>ne_host = ''old'', ne_port = 441\<rparr>] 1 sample_live_cache = sample_live_cache"
proof -
  have "(1 :: u64) < cm_generation \<lparr>cm_manager = 0, cm_generation = 2\<rparr>" by simp
  then show ?thesis
    using older_generation_never_overwrites [OF sample_live_cache_reachable sample_live_cache_entry surjective_pairing] by blast
qed

end
