(* ===== verification/Client_Runtime.thy ===== *)
theory Client_Runtime
  imports Node_Select Tcp_Dial L3_Cache
begin

text \<open>
  \<open>crates/atrust-client/src/client.rs\<close>: the assembled runtime. A session is the control-plane
  client with its material, the resource cache, the node-group managers and the node selector; the
  client holds the active one and an epoch. The background tasks (refresh, reconciler, node
  probing) are the operations they perform, so that a run of the client is a sequence of
  operations. What lies outside is a parameter: the network of the L3 managers
  (\<open>network\<close> of \<open>L3_Manager\<close>), the outcomes of connection attempts, probe results and clock
  readings. Each publisher keeps the list of what it published itself (the resource cache, the
  managers and the client); the bus carries an interleaving of the three. An operation that a
  stop cancels halfway is not modelled; a replacement is two steps, since a shutdown may come
  between its validation and its commit.
\<close>

section \<open>Definitions\<close>

datatype ('ae, 'te, 'me) client_error =
    AuthenticationRequired
  | L3StackRequired
  | ClientClosed
  | GatewayMismatch
  | ClientAuth 'ae
  | ClientTcp 'te
  | ClientPacket packet_error
  | ClientSession 'me
  | Unauthorized string string
  | ClientNoEndpoints string

record client_session =
  cs_auth :: auth_client
  cs_auth_config :: auth_configuration
  cs_material :: session_material
  cs_resources :: resource_cache
  cs_managers :: manager_cache
  cs_nodes :: node_selector
  cs_background :: bool
  cs_stop :: bool

record atrust_client =
  ak_config :: client_config
  ak_active :: client_session
  ak_events :: "hermes_event list"
  ak_closed :: bool
  ak_epoch :: u64

text \<open>\<open>run\<close>: the gate every operation of a session passes.\<close>

definition run_gate :: "client_session \<Rightarrow> ('ae, 'te, 'me) client_error option" where
  "run_gate s =
     (if cs_stop s then Some ClientClosed
      else if rc_invalidated (cs_resources s) then Some AuthenticationRequired
      else None)"

definition client_run ::
  "(atrust_client \<Rightarrow> atrust_client \<times> (('ae, 'te, 'me) client_error + 'a)) \<Rightarrow> atrust_client
    \<Rightarrow> atrust_client \<times> (('ae, 'te, 'me) client_error + 'a)" where
  "client_run work k = (case run_gate (ak_active k) of Some e \<Rightarrow> (k, Inl e) | None \<Rightarrow> work k)"

definition session_shutdown :: "(nat \<Rightarrow> bool) \<Rightarrow> clock \<Rightarrow> client_session \<Rightarrow> client_session" where
  "session_shutdown locked ck s =
     s\<lparr>cs_stop := True, cs_background := False,
       cs_managers := cache_close locked ck (cache_retire locked ck (cs_managers s))\<rparr>"

definition session_build ::
  "client_config \<Rightarrow> auth_client \<Rightarrow> auth_configuration \<Rightarrow> session_material \<Rightarrow> resource_cache \<Rightarrow> client_session" where
  "session_build config auth auth_config material resources =
     \<lparr>cs_auth = auth, cs_auth_config = auth_config, cs_material = material,
      cs_resources = with_events (Some []) resources,
      cs_managers = cache_new \<lparr>wo_sessions = [], wo_events = []\<rparr>,
      cs_nodes = node_selector_new config, cs_background = True, cs_stop = False\<rparr>"

definition build_session ::
  "('n, 'te, 'se, 'je, 'ue, 're) auth_env \<Rightarrow> string \<Rightarrow> auth_client \<Rightarrow> auth_configuration \<Rightarrow> session_material
    \<Rightarrow> client_config \<Rightarrow> 'n \<Rightarrow> ((('te, 'se, 'je, 'ue, 're) auth_error, 'de, 'me) client_error + client_session) \<times> 'n" where
  "build_session env trace auth auth_config material config net =
     (case cache_load env auth trace auth_config net of
        (Inl e, net') \<Rightarrow> (Inl (ClientAuth e), net')
      | (Inr resources, net') \<Rightarrow> (Inr (session_build config auth auth_config material resources), net'))"

definition client_start ::
  "('n, 'te, 'se, 'je, 'ue, 're) auth_env \<Rightarrow> string \<Rightarrow> auth_client \<Rightarrow> auth_configuration \<Rightarrow> session_material
    \<Rightarrow> client_config \<Rightarrow> 'n \<Rightarrow> ((('te, 'se, 'je, 'ue, 're) auth_error, 'de, 'me) client_error + atrust_client) \<times> 'n" where
  "client_start env trace auth auth_config material config net =
     (case build_session env trace auth auth_config material config net of
        (Inl e, net') \<Rightarrow> (Inl e, net')
      | (Inr active, net') \<Rightarrow>
          (Inr \<lparr>ak_config = config, ak_active = active, ak_events = [], ak_closed = False, ak_epoch = 1\<rparr>, net'))"

definition check_session :: "atrust_client \<Rightarrow> atrust_client \<times> (('ae, 'te, 'me) client_error + unit)" where
  "check_session = client_run (\<lambda>k. (k, Inr ()))"

primrec client_flow_protocol :: "l3_ip_protocol \<Rightarrow> flow_protocol" where
  "client_flow_protocol Tcp = FpTcp"
| "client_flow_protocol Udp = FpUdp"
| "client_flow_protocol Icmp = FpIcmp"

definition tunnel_target_of :: "string \<Rightarrow> u16 \<Rightarrow> string \<Rightarrow> tunnel_target" where
  "tunnel_target_of host port app =
     (case parse_ipv4 host of
        Some ip \<Rightarrow> TargetIpv4 ip port app
      | None \<Rightarrow> TargetDomain host port app None)"

definition client_route :: "atrust_client \<Rightarrow> string \<Rightarrow> u16 \<Rightarrow> flow_protocol \<Rightarrow> matched_resource option" where
  "client_route k host port protocol =
     map_option to_matched_resource
       (match_destination (rn_routing (rc_current (cs_resources (ak_active k)))) host port protocol)"

subsection \<open>Packets\<close>

text \<open>What an operation takes from its surroundings.\<close>

record ('se, 'de) surroundings =
  su_measured :: "l3_node_endpoint list \<Rightarrow> node_tls_probe_result list"
  su_now :: nat
  su_later :: nat
  su_locked :: "nat \<Rightarrow> bool"
  su_clock :: clock
  su_network :: "('se, 'de) network"

record sent_flow =
  sf_flow :: ipv4_flow
  sf_app_id :: string
  sf_node_group_id :: string
  sf_connect_token_len :: nat
  sf_session :: nat

definition session_endpoints ::
  "('se, 'de) surroundings \<Rightarrow> resource_snapshot \<Rightarrow> string \<Rightarrow> client_session \<Rightarrow> client_session \<times> l3_node_endpoint list" where
  "session_endpoints su snapshot node_group_id s =
     (case selector_endpoints (su_measured su) (su_now su) (su_later su) snapshot node_group_id (cs_nodes s) of
        (endpoints, nodes) \<Rightarrow> (s\<lparr>cs_nodes := nodes\<rparr>, endpoints))"

definition manager_for_snapshot ::
  "('se, 'de) surroundings \<Rightarrow> resource_snapshot \<Rightarrow> string \<Rightarrow> client_session
    \<Rightarrow> client_session \<times> (('ae, 'te, 'me) client_error + nat)" where
  "manager_for_snapshot su snapshot node_group_id s =
     (case session_endpoints su snapshot node_group_id s of
        (s1, endpoints) \<Rightarrow>
          if endpoints = [] then (s1, Inl (ClientNoEndpoints node_group_id))
          else (case manager_for_generation (su_locked su) (su_clock su) node_group_id endpoints
                       (rn_generation snapshot) (cs_managers s1) of
                  (managers, p) \<Rightarrow> (s1\<lparr>cs_managers := managers\<rparr>, Inr p)))"

text \<open>An operation of the manager at \<open>p\<close>, written back to the store.\<close>

definition on_manager ::
  "(world \<Rightarrow> l3_session_manager \<Rightarrow> world \<times> l3_session_manager \<times> 'r) \<Rightarrow> nat \<Rightarrow> client_session
    \<Rightarrow> client_session \<times> 'r" where
  "on_manager f p s =
     (case f (ca_world (cs_managers s)) (ca_store (cs_managers s) ! p) of
        (w, m, r) \<Rightarrow>
          (s\<lparr>cs_managers := (cs_managers s)\<lparr>ca_store := (ca_store (cs_managers s))[p := m], ca_world := w\<rparr>\<rparr>, r))"

definition dispatch_on ::
  "('se, 'de) network \<Rightarrow> bool \<Rightarrow> string \<Rightarrow> ipv4_flow \<Rightarrow> world \<Rightarrow> l3_session_manager
    \<Rightarrow> world \<times> l3_session_manager \<times> (('se, 'de) manager_error + nat \<times> string)" where
  "dispatch_on net send app flow w m =
     (case (if send then authorize_and_send net app flow (run_start w m) else manager_authorize_flow net app flow w m) of
        (run, r) \<Rightarrow> (rs_world run, rs_manager run, r))"

definition session_dispatch ::
  "('se, 'de) surroundings \<Rightarrow> bytes \<Rightarrow> bool \<Rightarrow> string option \<Rightarrow> client_session
    \<Rightarrow> client_session \<times> (('ae, 'te, ('se, 'de) manager_error) client_error + sent_flow)" where
  "session_dispatch su packet send domain s =
     (case parse_ipv4_flow packet of
        Inl e \<Rightarrow> (s, Inl (ClientPacket e))
      | Inr flow \<Rightarrow>
          let snapshot = rc_current (cs_resources s);
              host = (case domain of Some d \<Rightarrow> d | None \<Rightarrow> ipv4_to_string (fl_dst_addr flow)) in
          (case match_destination (rn_routing snapshot) host (fl_dst_port flow)
                  (client_flow_protocol (fl_protocol flow)) of
             None \<Rightarrow>
               (s, Inl (Unauthorized
                     (ipv4_to_string (fl_dst_addr flow) @ '':'' @ dec_string (unat (fl_dst_port flow)))
                     (scheme (fl_protocol flow))))
           | Some d \<Rightarrow>
               let route = to_matched_resource d in
               (case manager_for_snapshot su snapshot (mr_node_group_id route) s of
                  (s1, Inl e) \<Rightarrow> (s1, Inl e)
                | (s1, Inr p) \<Rightarrow>
                    (case on_manager (dispatch_on (su_network su) send (mr_app_id route) flow) p s1 of
                       (s2, Inl e) \<Rightarrow> (s2, Inl (ClientSession e))
                     | (s2, Inr (session, token)) \<Rightarrow>
                         (s2, Inr \<lparr>sf_flow = flow, sf_app_id = mr_app_id route,
                                   sf_node_group_id = mr_node_group_id route,
                                   sf_connect_token_len = length token, sf_session = session\<rparr>)))))"

text \<open>An operation of the active session.\<close>

definition on_active :: "(client_session \<Rightarrow> client_session \<times> 'r) \<Rightarrow> atrust_client \<Rightarrow> atrust_client \<times> 'r" where
  "on_active f k = (case f (ak_active k) of (s, r) \<Rightarrow> (k\<lparr>ak_active := s\<rparr>, r))"

definition client_dispatch ::
  "('se, 'de) surroundings \<Rightarrow> bytes \<Rightarrow> bool \<Rightarrow> string option \<Rightarrow> atrust_client
    \<Rightarrow> atrust_client \<times> (('ae, 'te, ('se, 'de) manager_error) client_error + sent_flow)" where
  "client_dispatch su packet send domain = client_run (on_active (session_dispatch su packet send domain))"

definition send_ipv4 ::
  "('se, 'de) surroundings \<Rightarrow> bytes \<Rightarrow> atrust_client
    \<Rightarrow> atrust_client \<times> (('ae, 'te, ('se, 'de) manager_error) client_error + sent_flow)" where
  "send_ipv4 su packet = client_dispatch su packet True None"

definition send_ipv4_for_domain ::
  "('se, 'de) surroundings \<Rightarrow> bytes \<Rightarrow> string \<Rightarrow> atrust_client
    \<Rightarrow> atrust_client \<times> (('ae, 'te, ('se, 'de) manager_error) client_error + sent_flow)" where
  "send_ipv4_for_domain su packet domain = client_dispatch su packet True (Some domain)"

definition authorize_ipv4 ::
  "('se, 'de) surroundings \<Rightarrow> bytes \<Rightarrow> atrust_client
    \<Rightarrow> atrust_client \<times> (('ae, 'te, ('se, 'de) manager_error) client_error + sent_flow)" where
  "authorize_ipv4 su packet = client_dispatch su packet False None"

definition connect_node_group ::
  "('se, 'de) surroundings \<Rightarrow> string \<Rightarrow> atrust_client
    \<Rightarrow> atrust_client \<times> (('ae, 'te, ('se, 'de) manager_error) client_error + nat)" where
  "connect_node_group su node_group_id =
     client_run (on_active (\<lambda>s.
       case manager_for_snapshot su (rc_current (cs_resources s)) node_group_id s of
         (s1, Inl e) \<Rightarrow> (s1, Inl e)
       | (s1, Inr p) \<Rightarrow>
           (case on_manager (manager_session (nt_dial (su_network su) 0) (nt_text (su_network su))
                    (nt_clock (su_network su) 0) (nt_fin (su_network su) 0)) p s1 of
              (s2, Inl e) \<Rightarrow> (s2, Inl (ClientSession e))
            | (s2, Inr session) \<Rightarrow> (s2, Inr session))))"

text \<open>
  Receiving never dials: without a live session the answer is \<open>None\<close>. A call on a live session
  whose queue is empty waits; \<open>recv_packet\<close> answers \<open>None\<close> for it too.
\<close>

definition recv_ipv4 :: "string \<Rightarrow> atrust_client \<Rightarrow> atrust_client \<times> bytes option" where
  "recv_ipv4 node_group_id k =
     (let c = cs_managers (ak_active k) in
      case Option.bind (cache_get node_group_id c) (\<lambda>p. current_session (ca_world c) (ca_store c ! p)) of
        None \<Rightarrow> (k, None)
      | Some q \<Rightarrow>
          (if run_gate (ak_active k) \<noteq> (None :: (unit, unit, unit) client_error option) then (k, None)
           else case recv_packet (wo_sessions (ca_world c) ! q) of
             (x, packet) \<Rightarrow>
               (k\<lparr>ak_active := (ak_active k)\<lparr>cs_managers := c\<lparr>ca_world := update_session q (\<lambda>_. x) (ca_world c)\<rparr>\<rparr>\<rparr>,
                packet)))"

subsection \<open>TCP tunnels\<close>

record dialed_tunnel =
  dt_tunnel :: tcp_tunnel
  dt_app_id :: string
  dt_node_group_id :: string
  dt_node_host :: string
  dt_node_port :: u16

text \<open>
  What dialling takes from its surroundings: the cryptography and JSON of the handshake, the
  \<open>Display\<close> form of an error, and the outcome of each connection attempt by endpoint and number.
\<close>

record 'je dialer =
  dl_sha256 :: "bytes \<Rightarrow> bytes"
  dl_hmac :: "bytes \<Rightarrow> bytes \<Rightarrow> bytes"
  dl_to_vec :: "tcp_init_wire \<Rightarrow> 'je + bytes"
  dl_from_slice :: "bytes \<Rightarrow> status_body option"
  dl_display :: "'je dial_tcp_error \<Rightarrow> string"
  dl_outcomes :: "l3_node_endpoint \<Rightarrow> nat \<Rightarrow> connect_outcome"

definition dial_request :: "client_config \<Rightarrow> session_material \<Rightarrow> tunnel_target \<Rightarrow> l3_node_endpoint \<Rightarrow> dial_tcp_request" where
  "dial_request config material target endpoint =
     \<lparr>dr_node_host = ne_host endpoint, dr_node_port = ne_port endpoint, dr_sid = sm_sid material,
      dr_device_id = sm_device_id material, dr_connection_id = sm_connection_id material,
      dr_sign_key = sm_sign_key material,
      dr_username = (case sm_username material of Some u \<Rightarrow> u | None \<Rightarrow> []),
      dr_target = target, dr_process = None, dr_lang = cfg_lang config\<rparr>"

definition dial_endpoint ::
  "'je dialer \<Rightarrow> client_config \<Rightarrow> session_material \<Rightarrow> tunnel_target \<Rightarrow> l3_node_endpoint
    \<Rightarrow> 'je dial_tcp_error + tcp_tunnel" where
  "dial_endpoint d config material target endpoint =
     fst (dial_tcp_with_retry (dl_sha256 d) (dl_hmac d) (dl_to_vec d) (dl_from_slice d)
            (dial_request config material target endpoint) TCP_DIAL_RETRIES (dl_outcomes d endpoint))"

text \<open>
  The loop over the endpoints, given as the one to try and the others after it: it is entered with
  at least one, so the last error is always there. The first component is what it publishes.
\<close>

fun dial_endpoints ::
  "(l3_node_endpoint \<Rightarrow> 'je dial_tcp_error + tcp_tunnel) \<Rightarrow> ('je dial_tcp_error \<Rightarrow> string) \<Rightarrow> matched_resource
    \<Rightarrow> tunnel_target \<Rightarrow> l3_node_endpoint \<Rightarrow> l3_node_endpoint list
    \<Rightarrow> hermes_event list \<times> ('je dial_tcp_error + dialed_tunnel)" where
  "dial_endpoints dial display route target endpoint others =
     (case dial endpoint of
        Inr tunnel \<Rightarrow>
          ([TcpTunnelOpened (mr_node_group_id route) (ne_host endpoint) (ne_port endpoint) (mr_app_id route)
              (dest_addr_string target)],
           Inr \<lparr>dt_tunnel = tunnel, dt_app_id = mr_app_id route, dt_node_group_id = mr_node_group_id route,
                dt_node_host = ne_host endpoint, dt_node_port = ne_port endpoint\<rparr>)
      | Inl error \<Rightarrow>
          let failed = TcpDialFailed (mr_node_group_id route) (ne_host endpoint) (ne_port endpoint)
                (dest_addr_string target) (display error) in
          if \<not> is_retryable error then ([failed], Inl error)
          else (case others of
                  [] \<Rightarrow> ([failed], Inl error)
                | following # rest \<Rightarrow>
                    (case dial_endpoints dial display route target following rest of
                       (events, r) \<Rightarrow> (failed # events, r))))"

declare dial_endpoints.simps [simp del]

definition client_dial_tcp ::
  "'je dialer \<Rightarrow> ('se, 'de) surroundings \<Rightarrow> string \<Rightarrow> u16 \<Rightarrow> atrust_client
    \<Rightarrow> atrust_client \<times> (('ae, 'je dial_tcp_error, 'me) client_error + dialed_tunnel)" where
  "client_dial_tcp d su host port =
     client_run (\<lambda>k.
       let s = ak_active k; snapshot = rc_current (cs_resources s) in
       case match_destination (rn_routing snapshot) host port FpTcp of
         None \<Rightarrow> (k, Inl (Unauthorized (host @ '':'' @ dec_string (unat port)) ''tcp''))
       | Some destination \<Rightarrow>
           let route = to_matched_resource destination;
               target = tunnel_target_of host port (mr_app_id route) in
           if mr_tcp_prefers_l3 route then (k, Inl L3StackRequired)
           else (case session_endpoints su snapshot (mr_node_group_id route) s of
                   (s1, []) \<Rightarrow> (k\<lparr>ak_active := s1\<rparr>, Inl (ClientNoEndpoints (mr_node_group_id route)))
                 | (s1, endpoint # others) \<Rightarrow>
                     (case dial_endpoints (dial_endpoint d (ak_config k) (cs_material s) target) (dl_display d)
                             route target endpoint others of
                        (events, r) \<Rightarrow>
                          (k\<lparr>ak_active := s1, ak_events := ak_events k @ events\<rparr>, map_sum ClientTcp id r))))"

subsection \<open>Control\<close>

definition refresh_resources ::
  "(('te, 'se, 'je, 'ue, 're) auth_error \<Rightarrow> string) \<Rightarrow> ('n, 'te, 'se, 'je, 'ue, 're) auth_env \<Rightarrow> string
    \<Rightarrow> atrust_client \<Rightarrow> 'n
    \<Rightarrow> atrust_client \<times> ((('te, 'se, 'je, 'ue, 're) auth_error, 'de, 'me) client_error + resource_snapshot) \<times> 'n" where
  "refresh_resources display env trace k net =
     (let s = ak_active k in
      case run_gate s of
        Some e \<Rightarrow> (k, Inl e, net)
      | None \<Rightarrow>
          (case refresh_request display env (cs_auth s) trace (cs_auth_config s) (cs_resources s) net of
             (r, resources, net') \<Rightarrow> (k\<lparr>ak_active := s\<lparr>cs_resources := resources\<rparr>\<rparr>, map_sum ClientAuth id r, net')))"

definition client_reconnect :: "clock \<Rightarrow> string \<Rightarrow> atrust_client \<Rightarrow> atrust_client" where
  "client_reconnect ck node_group_id k =
     (case cache_get node_group_id (cs_managers (ak_active k)) of
        None \<Rightarrow> k
      | Some p \<Rightarrow>
          k\<lparr>ak_active := (ak_active k)\<lparr>cs_managers := run_manager p (manager_close ck) (cs_managers (ak_active k))\<rparr>\<rparr>)"

definition client_shutdown :: "(nat \<Rightarrow> bool) \<Rightarrow> clock \<Rightarrow> atrust_client \<Rightarrow> atrust_client" where
  "client_shutdown locked ck k = k\<lparr>ak_closed := True, ak_active := session_shutdown locked ck (ak_active k)\<rparr>"

text \<open>
  \<open>replace_session\<close> up to the control lock: the new session is checked and built, the client only
  read. The second half commits it, or discards it when a shutdown came first. The session that
  is given up, the old one or the new one, is returned as well.
\<close>

definition replace_prepare ::
  "('n, 'te, 'se, 'je, 'ue, 're) auth_env \<Rightarrow> (nat \<Rightarrow> string) \<Rightarrow> auth_client \<Rightarrow> auth_configuration \<Rightarrow> session_material
    \<Rightarrow> atrust_client \<Rightarrow> 'n
    \<Rightarrow> ((('te, 'se, 'je, 'ue, 're) auth_error, 'de, 'me) client_error + client_session) \<times> 'n" where
  "replace_prepare env traces auth auth_config material k net =
     (if ak_closed k then (Inl ClientClosed, net)
      else if cl_endpoint auth \<noteq> cfg_gateway (ak_config k) then (Inl GatewayMismatch, net)
      else case online_info env auth (traces 0) auth_config net of
        (Inl e, net') \<Rightarrow> (Inl (ClientAuth e), net')
      | (Inr username, net') \<Rightarrow>
          build_session env (traces 1) auth auth_config (material\<lparr>sm_username := Some username\<rparr>) (ak_config k) net')"

definition replace_commit ::
  "(nat \<Rightarrow> bool) \<Rightarrow> clock \<Rightarrow> client_session \<Rightarrow> atrust_client
    \<Rightarrow> atrust_client \<times> client_session \<times> (('ae, 'te, 'me) client_error + unit)" where
  "replace_commit locked ck session k =
     (if ak_closed k then (k, session_shutdown locked ck session, Inl ClientClosed)
      else (k\<lparr>ak_epoch := ak_epoch k + 1, ak_active := session, ak_events := ak_events k @ [SessionReplaced]\<rparr>,
            session_shutdown locked ck (ak_active k), Inr ()))"

subsection \<open>Background tasks\<close>

definition refresh_tick ::
  "(('te, 'se, 'je, 'ue, 're) auth_error \<Rightarrow> string) \<Rightarrow> ('n, 'te, 'se, 'je, 'ue, 're) auth_env \<Rightarrow> string
    \<Rightarrow> client_session \<Rightarrow> 'n \<Rightarrow> client_session \<times> 'n" where
  "refresh_tick display env trace s net =
     (case refresh_request display env (cs_auth s) trace (cs_auth_config s) (cs_resources s) net of
        (r, resources, net') \<Rightarrow> (s\<lparr>cs_resources := resources\<rparr>, net'))"

text \<open>The endpoints the reconciler hands to the managers; collecting into a map keeps the last of a key.\<close>

definition reconciled_endpoints ::
  "string option \<Rightarrow> l3_node_endpoint list option \<Rightarrow> bool \<Rightarrow> resolved_node_group \<Rightarrow> l3_node_endpoint list" where
  "reconciled_endpoints override_group override_endpoints unbound g =
     (let own = map (\<lambda>e. \<lparr>ne_host = re_host e, ne_port = re_port e\<rparr>) (rg_endpoints g) in
      case (override_group, override_endpoints) of
        (Some og, Some es) \<Rightarrow> if og = rg_id g then es else own
      | (None, Some es) \<Rightarrow> if unbound then es else own
      | _ \<Rightarrow> own)"

definition reconcile_groups :: "client_config \<Rightarrow> resource_snapshot \<Rightarrow> (string, l3_node_endpoint list) hmap" where
  "reconcile_groups config snapshot =
     (let resolved = resolve_node_groups (rn_resources snapshot) (ge_host (cfg_gateway config));
          unbound = (cfg_endpoint_override_node_group_id config = None \<and> length resolved = 1) in
      fold (\<lambda>g. hm_insert (rg_id g)
              (reconciled_endpoints (cfg_endpoint_override_node_group_id config) (cfg_endpoint_override config) unbound g))
        resolved [])"

definition reconcile_tick :: "(nat \<Rightarrow> bool) \<Rightarrow> clock \<Rightarrow> client_config \<Rightarrow> client_session \<Rightarrow> client_session" where
  "reconcile_tick locked ck config s =
     (let snapshot = fst (rc_updates (cs_resources s)) in
      s\<lparr>cs_managers := cache_reconcile locked ck (rn_generation snapshot) (reconcile_groups config snapshot) (cs_managers s)\<rparr>)"

text \<open>One pass of the node task, group by group.\<close>

definition node_pass_group ::
  "('se, 'de) surroundings \<Rightarrow> resource_snapshot \<Rightarrow> node_group \<Rightarrow> client_session \<Rightarrow> client_session" where
  "node_pass_group su snapshot g s =
     (case session_endpoints su snapshot (ng_id g) s of
        (s1, endpoints) \<Rightarrow>
          s1\<lparr>cs_managers := update_endpoints_for_generation (ng_id g) endpoints (rn_generation snapshot) (cs_managers s1)\<rparr>)"

definition node_tick :: "('se, 'de) surroundings \<Rightarrow> client_config \<Rightarrow> client_session \<Rightarrow> client_session" where
  "node_tick su config s =
     (if cfg_node_refresh_interval config = 0 then s
      else let snapshot = rc_current (cs_resources s) in
        fold (node_pass_group su snapshot) (cr_node_groups (rn_resources snapshot)) s)"

subsection \<open>Statistics\<close>

record node_group_stats =
  gs_node_group_id :: string
  gs_vip :: "ipv4 option"
  gs_connected :: bool
  gs_dropped_packets :: u64
  gs_tracked_flows :: nat
  gs_flow_auth_requests_sent :: u64
  gs_flow_auth_outcomes_received :: u64
  gs_flow_auth_timeouts :: u64
  gs_flow_auth_in_flight :: u64
  gs_flow_auth_peak_in_flight :: u64

record client_stats =
  ct_resource_generation :: u64
  ct_consecutive_refresh_failures :: u32
  ct_ip_resources :: nat
  ct_domain_resources :: nat
  ct_node_groups_advertised :: nat
  ct_node_groups_active :: nat
  ct_events_published :: u64
  ct_groups :: "node_group_stats list"

definition group_stats :: "world \<Rightarrow> l3_session_manager \<Rightarrow> node_group_stats" where
  "group_stats w m =
     (let session = map_option (\<lambda>q. wo_sessions w ! q) (current_session w m);
          auth = map_option ss_stats session;
          counted = (\<lambda>f. case auth of None \<Rightarrow> 0 | Some a \<Rightarrow> f a) in
      \<lparr>gs_node_group_id = mg_node_group_id m, gs_vip = last_vip w m, gs_connected = (session \<noteq> None),
       gs_dropped_packets = (case session of None \<Rightarrow> 0 | Some x \<Rightarrow> ss_dropped_packets x),
       gs_tracked_flows = (case session of None \<Rightarrow> 0 | Some x \<Rightarrow> table_len (ss_conntrack x)),
       gs_flow_auth_requests_sent = counted fs_requests_sent,
       gs_flow_auth_outcomes_received = counted fs_outcomes_received,
       gs_flow_auth_timeouts = counted fs_timeouts, gs_flow_auth_in_flight = counted fs_in_flight,
       gs_flow_auth_peak_in_flight = counted fs_peak_in_flight\<rparr>)"

text \<open>The number of events published so far is the bus's own counter, given as \<open>on_bus\<close>.\<close>

definition client_stats_of :: "u64 \<Rightarrow> atrust_client \<Rightarrow> client_stats" where
  "client_stats_of on_bus k =
     (let s = ak_active k; snapshot = rc_current (cs_resources s); resources = rn_resources snapshot;
          c = cs_managers s;
          groups = sort_key gs_node_group_id (map (\<lambda>p. group_stats (ca_world c) (ca_store c ! p)) (cache_managers c)) in
      \<lparr>ct_resource_generation = rn_generation snapshot,
       ct_consecutive_refresh_failures = rc_consecutive_failures (cs_resources s),
       ct_ip_resources = length (cr_ip_resources resources),
       ct_domain_resources = length (cr_domain_resources resources),
       ct_node_groups_advertised = length (cr_node_groups resources),
       ct_node_groups_active = length groups, ct_events_published = on_bus, ct_groups = groups\<rparr>)"

end
