(* ===== verification/Routing_Correctness.thy ===== *)
theory Routing_Correctness
  imports Routing
begin

text \<open>
  The properties of the resource tables and the routing index: the indexed lookups agree with a
  linear search, the result is the most specific match in the gateway's order, patterns and
  address blocks mean what they say, and a routing decision always carries the application and
  node group of one published address.
\<close>

section \<open>Lookups\<close>

text \<open>
  C7: An address lookup through the interval tree returns the first entry \<open>match_ip_all\<close> lists. It
  is \<open>None\<close> exactly when no published address authorizes the flow, and otherwise the narrowest
  match, the gateway's order deciding between equally specific ones.
\<close>

theorem match_ip_most_specific:
  "match_ip (resource_index_build cr) flow =
     (case match_ip_all (resource_index_build cr) flow of [] \<Rightarrow> None | r # _ \<Rightarrow> Some r)
   \<and> (match_ip (resource_index_build cr) flow = None \<longleftrightarrow>
       (\<forall>r \<in> set (cr_ip_resources cr). \<not> ip_resource_matches r flow))
   \<and> (\<forall>r. match_ip (resource_index_build cr) flow = Some r \<longrightarrow>
       best_in ip_specificity (\<lambda>r. ip_resource_matches r flow) (cr_ip_resources cr) r)"
proof (intro conjI allI impI)
  show "match_ip (resource_index_build cr) flow =
     (case match_ip_all (resource_index_build cr) flow of [] \<Rightarrow> None | r # _ \<Rightarrow> Some r)"
    unfolding match_ip_find find_hd_filter by (simp add: match_ip_all_def resource_index_build_def Let_def)
qed (simp_all only: match_ip_find find_sort_key_None find_sort_key_best)

definition sample_ip :: "ipv4 \<Rightarrow> ipv4 \<Rightarrow> u16 \<Rightarrow> u16 \<Rightarrow> string \<Rightarrow> ip_resource" where
  "sample_ip lo hi p q app = \<lparr>ir_ip_min = lo, ir_ip_max = hi, ir_port_min = p, ir_port_max = q,
     ir_protocol = RpAll, ir_app_id = app, ir_node_group_id = ''ng'', ir_tcp_prefers_l3 = False,
     ir_addr_pretend = True\<rparr>"

definition sample_domain :: "string \<Rightarrow> string \<Rightarrow> domain_resource" where
  "sample_domain host app = \<lparr>dr_host = host, dr_port_min = 1, dr_port_max = 443, dr_protocol = RpTcp,
     dr_app_id = app, dr_node_group_id = ''ng'', dr_tcp_prefers_l3 = False, dr_addr_pretend = True,
     dr_resolved_ips = []\<rparr>"

definition sample_tables :: client_resources where
  "sample_tables = \<lparr>
     cr_ip_resources = [sample_ip (Ipv4 10 0 0 0) (Ipv4 10 0 255 255) 1 65535 ''wide'',
                        sample_ip (Ipv4 10 0 0 7) (Ipv4 10 0 0 7) 80 80 ''host''],
     cr_domain_resources = [sample_domain ''*.edu'' ''wild'', sample_domain ''jw.edu'' ''exact''],
     cr_node_groups = [], cr_major_node_group_id = None,
     cr_dns = \<lparr>dns_primary = None, dns_secondary = None\<rparr>\<rparr>"

lemmas sample_eval = sample_tables_def sample_ip_def sample_domain_def ip_specificity_def
  ip_resource_matches_def protocol_matches_def port_matches_def has_ports_def port_span_def
  u32_saturating_sub_def ipv4_u32_def Let_def

lemma sample_match_ip:
  "match_ip (resource_index_build sample_tables) (route_key_tcp (Ipv4 10 0 0 7) 80) =
     Some (sample_ip (Ipv4 10 0 0 7) (Ipv4 10 0 0 7) 80 80 ''host'')"
  unfolding match_ip_find by (simp add: sample_eval route_key_tcp_def)

theorem match_ip_most_specific_witness:
  "best_in ip_specificity (\<lambda>r. ip_resource_matches r (route_key_tcp (Ipv4 10 0 0 7) 80))
     (cr_ip_resources sample_tables) (sample_ip (Ipv4 10 0 0 7) (Ipv4 10 0 0 7) 80 80 ''host'')"
  using match_ip_most_specific [of sample_tables "route_key_tcp (Ipv4 10 0 0 7) 80"] sample_match_ip by blast

text \<open>
  C13: A name lookup through the trie returns the first entry \<open>match_domain_all\<close> lists: nothing for
  an empty name, nothing when no usable pattern of the table authorizes the flow, and otherwise
  the entry ranked first (an exact name before wildcards, more labels before fewer), the
  gateway's order deciding between equally specific ones.
\<close>

theorem match_domain_most_specific:
  "match_domain (resource_index_build cr) flow =
     (case match_domain_all (resource_index_build cr) flow of [] \<Rightarrow> None | r # _ \<Rightarrow> Some r)
   \<and> (normalize_host (df_host flow) = None \<longrightarrow> match_domain (resource_index_build cr) flow = None)
   \<and> (\<forall>host. normalize_host (df_host flow) = Some host \<longrightarrow>
       (match_domain (resource_index_build cr) flow = None \<longleftrightarrow>
         (\<forall>e \<in> set (List.map_filter indexed_domain_of (cr_domain_resources cr)). \<not> domain_entry_matches e host flow))
       \<and> (\<forall>r. match_domain (resource_index_build cr) flow = Some r \<longrightarrow>
         (\<exists>e. id_resource e = r \<and> best_in domain_specificity (\<lambda>e. domain_entry_matches e host flow)
           (List.map_filter indexed_domain_of (cr_domain_resources cr)) e)))"
proof (cases "normalize_host (df_host flow)")
  case None
  then show ?thesis by (simp add: match_domain_def match_domain_all_def)
next
  case (Some host)
  have "match_domain (resource_index_build cr) flow =
     (case match_domain_all (resource_index_build cr) flow of [] \<Rightarrow> None | r # _ \<Rightarrow> Some r)"
    unfolding match_domain_find [OF Some] find_hd_filter
    by (simp add: match_domain_all_def resource_index_build_def Let_def Some split: list.split)
  moreover have "match_domain (resource_index_build cr) flow = None \<longleftrightarrow>
       (\<forall>e \<in> set (List.map_filter indexed_domain_of (cr_domain_resources cr)). \<not> domain_entry_matches e host flow)"
    by (simp only: match_domain_find [OF Some] option.map_disc_iff find_sort_key_None)
  moreover have "\<exists>e. id_resource e = r \<and> best_in domain_specificity (\<lambda>e. domain_entry_matches e host flow)
           (List.map_filter indexed_domain_of (cr_domain_resources cr)) e"
    if "match_domain (resource_index_build cr) flow = Some r" for r
    using that by (auto simp: match_domain_find [OF Some] dest: find_sort_key_best)
  ultimately show ?thesis using Some by simp
qed

definition sample_domain_flow :: domain_flow where
  "sample_domain_flow = \<lparr>df_host = ''JW.edu.'', df_port = 80, df_protocol = FpTcp\<rparr>"

lemma sample_host: "normalize_host (df_host sample_domain_flow) = Some ''jw.edu''"
  by (simp add: sample_domain_flow_def normalize_host_def trim_eval to_ascii_lowercase_def ascii_lower_def trim_end_char_def char_of_def bit_0)

lemma sample_indexed: "List.map_filter indexed_domain_of (cr_domain_resources sample_tables) =
  [\<lparr>id_pattern = \<lparr>pat_suffix = ''edu'', pat_wildcard = True\<rparr>, id_resource = sample_domain ''*.edu'' ''wild''\<rparr>,
   \<lparr>id_pattern = \<lparr>pat_suffix = ''jw.edu'', pat_wildcard = False\<rparr>, id_resource = sample_domain ''jw.edu'' ''exact''\<rparr>]"
  by (simp add: sample_tables_def sample_domain_def List.map_filter_simps indexed_domain_of_def
      domain_pattern_parse_def trim_eval to_ascii_lowercase_def ascii_lower_def trim_end_char_def strip_prefix_def)

lemma sample_match_domain:
  "match_domain (resource_index_build sample_tables) sample_domain_flow = Some (sample_domain ''jw.edu'' ''exact'')"
  unfolding match_domain_find [OF sample_host] sample_indexed
  by (simp add: domain_specificity_def label_count_def domain_entry_matches_def domain_pattern_matches_def
      ends_with_def sample_domain_def sample_domain_flow_def protocol_matches_def port_matches_def has_ports_def)

theorem match_domain_most_specific_witness:
  "\<exists>e. id_resource e = sample_domain ''jw.edu'' ''exact'' \<and>
     best_in domain_specificity (\<lambda>e. domain_entry_matches e ''jw.edu'' sample_domain_flow)
       (List.map_filter indexed_domain_of (cr_domain_resources sample_tables)) e"
  using match_domain_most_specific [of sample_tables sample_domain_flow] sample_host sample_match_domain by blast

section \<open>Patterns and blocks\<close>

text \<open>
  What a published host pattern covers. A lone star covers every host. A name behind \<open>*.\<close>
  covers exactly the hosts with at least one more character and a dot in front of the name: not
  the name itself, and nothing that merely ends in it. Any other pattern covers exactly itself,
  up to case and trailing dots. A \<open>*.\<close> with nothing but dots behind it is dropped: it never
  becomes the pattern that covers everything.
\<close>

theorem domain_pattern_semantics:
  fixes t :: string
  defines "s \<equiv> to_ascii_lowercase (str_trim t)"
  shows "(s = ''*'' \<longrightarrow> (\<exists>p. domain_pattern_parse t = Some p \<and> (\<forall>h. domain_pattern_matches p h)))
    \<and> (\<forall>name. s = ''*.'' @ name \<longrightarrow>
        (if trim_end_char CHR ''.'' name = [] then domain_pattern_parse t = None
         else \<exists>p. domain_pattern_parse t = Some p \<and> (\<forall>h. domain_pattern_matches p h \<longleftrightarrow>
           (\<exists>sub. sub \<noteq> [] \<and> h = sub @ ''.'' @ trim_end_char CHR ''.'' name))))
    \<and> (s \<noteq> ''*'' \<and> (\<nexists>name. s = ''*.'' @ name) \<longrightarrow>
        (if trim_end_char CHR ''.'' s = [] then domain_pattern_parse t = None
         else \<exists>p. domain_pattern_parse t = Some p \<and> (\<forall>h. domain_pattern_matches p h \<longleftrightarrow>
           h = trim_end_char CHR ''.'' s)))"
proof (intro conjI allI impI)
  assume "s = ''*''"
  then show "\<exists>p. domain_pattern_parse t = Some p \<and> (\<forall>h. domain_pattern_matches p h)"
    by (simp add: domain_pattern_parse_def s_def domain_pattern_matches_def)
next
  fix name assume s: "s = ''*.'' @ name"
  then have "strip_prefix ''*.'' s = Some name" by (simp only: strip_prefix_Some)
  with s show "if trim_end_char CHR ''.'' name = [] then domain_pattern_parse t = None
      else \<exists>p. domain_pattern_parse t = Some p \<and> (\<forall>h. domain_pattern_matches p h \<longleftrightarrow>
        (\<exists>sub. sub \<noteq> [] \<and> h = sub @ ''.'' @ trim_end_char CHR ''.'' name))"
    by (simp add: domain_pattern_parse_def wildcard_matches flip: s_def)
next
  assume s: "s \<noteq> ''*'' \<and> (\<nexists>name. s = ''*.'' @ name)"
  then have "strip_prefix ''*.'' s = None" by (metis strip_prefix_Some not_None_eq)
  with s show "if trim_end_char CHR ''.'' s = [] then domain_pattern_parse t = None
      else \<exists>p. domain_pattern_parse t = Some p \<and> (\<forall>h. domain_pattern_matches p h \<longleftrightarrow>
        h = trim_end_char CHR ''.'' s)"
    by (simp add: domain_pattern_parse_def domain_pattern_matches_def flip: s_def)
qed

theorem domain_pattern_semantics_witness:
  "domain_pattern_parse ''*.'' = None
   \<and> (\<exists>p. domain_pattern_parse ''*.edu'' = Some p \<and> (\<forall>h. domain_pattern_matches p h \<longleftrightarrow>
        (\<exists>sub. sub \<noteq> [] \<and> h = sub @ ''.'' @ ''edu'')))"
proof
  have s: "to_ascii_lowercase (str_trim ''*.'') = ''*.'' @ []" "trim_end_char CHR ''.'' [] = []"
    by (simp_all add: trim_eval to_ascii_lowercase_def ascii_lower_def trim_end_char_def)
  show "domain_pattern_parse ''*.'' = None"
    using domain_pattern_semantics [of "''*.''"] s by metis
  have s: "to_ascii_lowercase (str_trim ''*.edu'') = ''*.'' @ ''edu''" "trim_end_char CHR ''.'' ''edu'' = ''edu''"
    by (simp_all add: trim_eval to_ascii_lowercase_def ascii_lower_def trim_end_char_def)
  have "''edu'' \<noteq> []" by simp
  then show "\<exists>p. domain_pattern_parse ''*.edu'' = Some p \<and> (\<forall>h. domain_pattern_matches p h \<longleftrightarrow>
        (\<exists>sub. sub \<noteq> [] \<and> h = sub @ ''.'' @ ''edu''))"
    using domain_pattern_semantics [of "''*.edu''"] s by metis
qed

text \<open>
  An address published in prefix notation authorizes exactly the flows of its protocol and
  ports whose destination agrees with the base address on the first \<open>bits\<close> bits; bits of the
  base address behind the prefix do not matter.
\<close>

theorem cidr_resource_exact:
  assumes "parse_ipv4 (str_trim network) = Some base" "parse_u8 pre = Some bits" "bits \<le> 32"
    and "CHR ''/'' \<notin> set network" "parse_ipv4 (network @ ''/'' @ pre) = None"
    and "str_trim (ai_host address) = network @ ''/'' @ pre"
    and "resource_protocol_parse (ai_protocol address) = Some protocol"
    and "parse_port_range (ai_port address) = Some ports"
  shows "\<exists>r. address_resource app address = Some (Inl r)
    \<and> (\<forall>flow. ip_resource_matches r flow \<longleftrightarrow>
        ipv4_num (rk_destination flow) div 2 ^ (32 - unat bits) = ipv4_num base div 2 ^ (32 - unat bits)
        \<and> protocol_matches protocol (rk_protocol flow)
        \<and> port_matches (fst ports) (snd ports) (rk_port flow) (rk_protocol flow))"
proof -
  obtain lo hi where c: "cidr_of (network @ ''/'' @ pre) = Some (lo, hi)"
    and member: "\<And>x. ipv4_num lo \<le> ipv4_num x \<and> ipv4_num x \<le> ipv4_num hi \<longleftrightarrow>
      ipv4_num x div 2 ^ (32 - unat bits) = ipv4_num base div 2 ^ (32 - unat bits)"
    using cidr_of_block [OF assms(1-4)] by blast
  have "classify_host (network @ ''/'' @ pre) = HkCidr lo hi"
    unfolding classify_host_def assms(5) c by simp
  then have r: "address_resource app address = Some (Inl (ip_entry app protocol ports lo hi))"
    unfolding address_resource_def assms(6-8) Let_def by simp
  show ?thesis
    by (rule exI [of _ "ip_entry app protocol ports lo hi"])
       (simp add: r ip_resource_matches_def ip_entry_def Let_def word_le_nat_alt member [symmetric])
qed

definition sample_block :: address_item where
  "sample_block = \<lparr>ai_protocol = ''TCP'', ai_port = ''80-443'', ai_host = ''10.1.2.3/16'', ai_ip = []\<rparr>"

definition sample_app :: app_item where
  "sample_app = \<lparr>app_tcp_prefers_l3 = False, app_addr_pretend = None, app_id = ''app'',
     app_node_group_id = ''ng'', app_address_list = [sample_block]\<rparr>"

lemma sample_block_parts:
  "parse_ipv4 (str_trim ''10.1.2.3'') = Some (Ipv4 10 1 2 3)" "parse_u8 ''16'' = Some 16"
  "parse_ipv4 (''10.1.2.3'' @ ''/'' @ ''16'') = None"
  "str_trim (ai_host sample_block) = ''10.1.2.3'' @ ''/'' @ ''16''"
  "resource_protocol_parse (ai_protocol sample_block) = Some RpTcp"
  "parse_port_range (ai_port sample_block) = Some (80, 443)"
  by (simp_all add: sample_block_def trim_eval parse_ipv4_def parse_octet_def parse_u8_def parse_uint_def
      is_digit_def dec_value_def digit_value_def resource_protocol_parse_def to_ascii_lowercase_def
      ascii_lower_def char_of_def bit_0 parse_port_range_def parse_u16_def)

theorem cidr_resource_exact_witness:
  "\<exists>r. address_resource sample_app sample_block = Some (Inl r)
    \<and> (\<forall>flow. ip_resource_matches r flow \<longleftrightarrow>
        ipv4_num (rk_destination flow) div 2 ^ (32 - unat (16 :: byte)) =
          ipv4_num (Ipv4 10 1 2 3) div 2 ^ (32 - unat (16 :: byte))
        \<and> protocol_matches RpTcp (rk_protocol flow)
        \<and> port_matches (fst (80 :: u16, 443 :: u16)) (snd (80 :: u16, 443 :: u16)) (rk_port flow) (rk_protocol flow))"
  by (rule cidr_resource_exact [OF sample_block_parts(1,2) _ _ sample_block_parts(3-6)]) simp_all

section \<open>From the published body to a routing decision\<close>

lemma match_ip_published:
  assumes "match_ip (resource_index_build (from_data data)) flow = Some r"
  shows "ip_resource_matches r flow" "\<exists>app address. published data (Inl r) app address"
  using assms unfolding match_ip_find by (auto dest!: find_SomeD simp: from_data_ip)

lemma match_domain_published:
  assumes "match_domain (resource_index_build (from_data data)) flow = Some r"
  shows "\<exists>h p. normalize_host (df_host flow) = Some h \<and> domain_pattern_parse (dr_host r) = Some p
      \<and> domain_entry_matches \<lparr>id_pattern = p, id_resource = r\<rparr> h flow"
    and "\<exists>app address. published data (Inr r) app address"
proof -
  obtain h where h: "normalize_host (df_host flow) = Some h"
    using assms by (auto simp: match_domain_def split: option.splits)
  with assms obtain e where e: "id_resource e = r" "domain_entry_matches e h flow"
    "e \<in> set (List.map_filter indexed_domain_of (cr_domain_resources (from_data data)))"
    by (auto simp: match_domain_find dest: find_SomeD)
  then have i: "domain_pattern_parse (dr_host r) = Some (id_pattern e)" "r \<in> set (cr_domain_resources (from_data data))"
    by (auto simp: in_map_filter indexed_domain_of_def split: option.splits)
  from i(2) show "\<exists>app address. published data (Inr r) app address" by (simp only: from_data_domain)
  from e(1,2) have "domain_entry_matches \<lparr>id_pattern = id_pattern e, id_resource = r\<rparr> h flow"
    by (simp add: domain_entry_matches_def)
  with h i(1) show "\<exists>h p. normalize_host (df_host flow) = Some h \<and> domain_pattern_parse (dr_host r) = Some p
      \<and> domain_entry_matches \<lparr>id_pattern = p, id_resource = r\<rparr> h flow" by blast
qed

text \<open>
  \<open>authorizes data app address\<close>: this address of this application of the body authorizes the
  destination and is the source of every part of the decision.
\<close>

definition authorizes ::
  "client_resource_data \<Rightarrow> app_item \<Rightarrow> address_item \<Rightarrow> string \<Rightarrow> u16 \<Rightarrow> flow_protocol \<Rightarrow> destination \<Rightarrow> bool" where
  "authorizes data app address host port protocol d \<longleftrightarrow> app \<in> set (concat (cd_app_info data))
    \<and> address \<in> set (app_address_list app)
    \<and> to_matched_resource d = \<lparr>mr_app_id = app_id app, mr_node_group_id = app_node_group_id app,
        mr_tcp_prefers_l3 = app_tcp_prefers_l3 app, mr_addr_pretend = pretends app\<rparr>
    \<and> app_id app \<noteq> [] \<and> app_node_group_id app \<noteq> []
    \<and> (case parse_ipv4 (str_trim host) of
         Some ip \<Rightarrow> \<exists>r. d = DestIp r \<and> address_resource app address = Some (Inl r)
           \<and> ip_resource_matches r \<lparr>rk_destination = ip, rk_port = port, rk_protocol = protocol\<rparr>
       | None \<Rightarrow> \<exists>r p h. d = DestDomain r \<and> address_resource app address = Some (Inr r)
           \<and> domain_pattern_parse (dr_host r) = Some p \<and> normalize_host host = Some h
           \<and> domain_pattern_matches p h \<and> protocol_matches (dr_protocol r) protocol
           \<and> port_matches (dr_port_min r) (dr_port_max r) port protocol)"

lemma match_destination_authorized:
  assumes "from_envelope env = Inr cr" "match_destination (resource_index_build cr) host port protocol = Some d"
  shows "\<exists>data app address. en_data env = Some data \<and> authorizes data app address host port protocol d"
proof -
  obtain data where env: "en_data env = Some data" and cr: "cr = from_data data"
    using assms(1) by (auto simp: from_envelope_def split: option.splits if_splits)
  show ?thesis
  proof (cases "parse_ipv4 (str_trim host)")
    case (Some ip)
    with assms(2) obtain r where d: "d = DestIp r"
      and r: "match_ip (resource_index_build (from_data data)) \<lparr>rk_destination = ip, rk_port = port, rk_protocol = protocol\<rparr> = Some r"
      by (auto simp: match_destination_def cr)
    from match_ip_published [OF r] obtain app address where "published data (Inl r) app address" by blast
    with Some match_ip_published(1) [OF r] env show ?thesis
      by (intro exI [of _ data] exI [of _ app] exI [of _ address])
         (auto simp: d published_def authorizes_def address_resource_ip_matched)
  next
    case None
    with assms(2) obtain r where d: "d = DestDomain r"
      and r: "match_domain (resource_index_build (from_data data)) \<lparr>df_host = host, df_port = port, df_protocol = protocol\<rparr> = Some r"
      by (auto simp: match_destination_def cr)
    from match_domain_published(2) [OF r] obtain app address where "published data (Inr r) app address" by blast
    with None match_domain_published(1) [OF r] env show ?thesis
      by (intro exI [of _ data] exI [of _ app] exI [of _ address])
         (auto simp: d published_def authorizes_def domain_entry_matches_def address_resource_domain_matched)
  qed
qed

text \<open>
  A destination is routed only on the authority of one published address. The application,
  node group and flags of the decision all come from the same application of the body, both
  identifiers are set, and the address authorizes the destination: an IPv4 literal through an
  address resource whose range, protocol and ports cover it, a name through a domain resource
  whose pattern, protocol and ports cover it, never through a local resolution.
\<close>

theorem routing_follows_policy:
  assumes "from_envelope env = Inr cr" "match_destination (resource_index_build cr) host port protocol = Some d"
  shows "\<exists>data app address. en_data env = Some data \<and> app \<in> set (concat (cd_app_info data))
    \<and> address \<in> set (app_address_list app)
    \<and> to_matched_resource d = \<lparr>mr_app_id = app_id app, mr_node_group_id = app_node_group_id app,
        mr_tcp_prefers_l3 = app_tcp_prefers_l3 app, mr_addr_pretend = pretends app\<rparr>
    \<and> app_id app \<noteq> [] \<and> app_node_group_id app \<noteq> []
    \<and> (case parse_ipv4 (str_trim host) of
         Some ip \<Rightarrow> \<exists>r. d = DestIp r \<and> address_resource app address = Some (Inl r)
           \<and> ip_resource_matches r \<lparr>rk_destination = ip, rk_port = port, rk_protocol = protocol\<rparr>
       | None \<Rightarrow> \<exists>r p h. d = DestDomain r \<and> address_resource app address = Some (Inr r)
           \<and> domain_pattern_parse (dr_host r) = Some p \<and> normalize_host host = Some h
           \<and> domain_pattern_matches p h \<and> protocol_matches (dr_protocol r) protocol
           \<and> port_matches (dr_port_min r) (dr_port_max r) port protocol)"
  using match_destination_authorized [OF assms] by (simp add: authorizes_def)

definition sample_body :: client_resource_envelope where
  "sample_body = \<lparr>en_code = Some 0, en_message = [], en_data = Some
     \<lparr>cd_app_info = [[sample_app]], cd_major_node_group_id = [],
      cd_node_group_list = [], cd_dns_option = \<lparr>do_first_dns = [], do_second_dns = []\<rparr>,
      cd_dns_option_v2 = \<lparr>do_first_dns = [], do_second_dns = []\<rparr>\<rparr>\<rparr>"

lemma sample_app_fields: "app_id sample_app = ''app''" "app_node_group_id sample_app = ''ng''"
  "app_address_list sample_app = [sample_block]" "app_tcp_prefers_l3 sample_app = False" "pretends sample_app"
  by (simp_all add: sample_app_def pretends_def)

definition sample_route :: ip_resource where
  "sample_route = ip_entry sample_app RpTcp (80, 443) (Ipv4 10 1 0 0) (Ipv4 10 1 255 255)"

lemma sample_resource: "address_resource sample_app sample_block = Some (Inl sample_route)"
proof -
  have "cidr_of (''10.1.2.3'' @ ''/'' @ ''16'') = Some (Ipv4 10 1 0 0, Ipv4 10 1 255 255)"
    using sample_block_parts(1,2) by (simp add: cidr_of_def cidr_mask_def ipv4_u32_def ipv4_from_u32_def ipv4_of_num_def mask_eq_exp_minus_1)
  then have "classify_host (''10.1.2.3'' @ ''/'' @ ''16'') = HkCidr (Ipv4 10 1 0 0) (Ipv4 10 1 255 255)"
    unfolding classify_host_def sample_block_parts by simp
  then show ?thesis unfolding address_resource_def sample_block_parts Let_def sample_route_def by simp
qed

lemma sample_body_routed: "\<exists>cr. from_envelope sample_body = Inr cr \<and>
  match_destination (resource_index_build cr) ''10.1.2.3'' 80 FpTcp = Some (DestIp sample_route)"
  unfolding match_destination_def sample_block_parts
  by (simp add: match_ip_find from_envelope_def sample_body_def from_data_def app_resources_def
      sample_app_fields sample_resource List.map_filter_simps sample_route_def sample_eval ip_entry_def)

theorem routing_follows_policy_witness:
  "\<exists>data app. en_data sample_body = Some data \<and> app \<in> set (concat (cd_app_info data))
     \<and> to_matched_resource (DestIp sample_route) = \<lparr>mr_app_id = app_id app, mr_node_group_id = app_node_group_id app,
         mr_tcp_prefers_l3 = app_tcp_prefers_l3 app, mr_addr_pretend = pretends app\<rparr>"
proof -
  obtain cr where "from_envelope sample_body = Inr cr"
    "match_destination (resource_index_build cr) ''10.1.2.3'' 80 FpTcp = Some (DestIp sample_route)"
    using sample_body_routed by blast
  from routing_follows_policy [OF this] show ?thesis by blast
qed

section \<open>Inverted port ranges\<close>

text \<open>
  A port range published upside down is kept. It matches no TCP or UDP flow, but an address
  published for ICMP or for all protocols still authorizes every ICMP flow into its range, and
  its port span ranks as narrow as a single port: it wins over an equally wide address with the
  full port range that was published first.
\<close>

theorem inverted_range_matches_icmp:
  "parse_port_range ''443-80'' = Some (443, 80)
   \<and> (\<forall>port. \<not> port_matches 443 80 port FpTcp \<and> \<not> port_matches 443 80 port FpUdp)
   \<and> match_ip (resource_index_build
        (sample_tables\<lparr>cr_ip_resources := [sample_ip (Ipv4 10 0 0 7) (Ipv4 10 0 0 7) 0 65535 ''valid'',
                                           sample_ip (Ipv4 10 0 0 7) (Ipv4 10 0 0 7) 443 80 ''inverted'']\<rparr>))
        (route_key_icmp (Ipv4 10 0 0 7))
      = Some (sample_ip (Ipv4 10 0 0 7) (Ipv4 10 0 0 7) 443 80 ''inverted'')"
proof (intro conjI allI)
  show "parse_port_range ''443-80'' = Some (443, 80)"
    by (simp add: parse_port_range_def trim_eval parse_u16_def parse_uint_def is_digit_def dec_value_def digit_value_def)
  show "match_ip (resource_index_build
        (sample_tables\<lparr>cr_ip_resources := [sample_ip (Ipv4 10 0 0 7) (Ipv4 10 0 0 7) 0 65535 ''valid'',
                                           sample_ip (Ipv4 10 0 0 7) (Ipv4 10 0 0 7) 443 80 ''inverted'']\<rparr>))
        (route_key_icmp (Ipv4 10 0 0 7))
      = Some (sample_ip (Ipv4 10 0 0 7) (Ipv4 10 0 0 7) 443 80 ''inverted'')"
    unfolding match_ip_find by (simp add: sample_eval route_key_icmp_def)
qed (auto simp: port_matches_def has_ports_def word_le_nat_alt)

end
