(* ===== verification/Client_Correctness.thy ===== *)
theory Client_Correctness
  imports Client_Runtime Routing_Correctness
begin

text \<open>
  Properties of the assembled runtime of \<open>Client_Runtime\<close>: what a run of it keeps, whatever the
  order of callers, background tasks, handovers and shutdowns; that only destinations of the
  resource table are used; in which order endpoints are dialled; and that the reconciler and the
  node selector agree on the endpoints of a group.
\<close>

section \<open>Sessions\<close>

text \<open>
  What holds of a session at all times: its managers are well formed, a stopped session has retired
  them, and the routing index is the one built from the table it is kept with, which came from
  a body the gateway served.
\<close>

definition snapshot_ok :: "resource_snapshot \<Rightarrow> bool" where
  "snapshot_ok x \<longleftrightarrow> rn_routing x = resource_index_build (rn_resources x)
     \<and> (\<exists>body. from_envelope body = Inr (rn_resources x))"

lemma client_resource_served: "client_resource env c trace ac net = (Inr t, net') \<Longrightarrow> \<exists>body. from_envelope body = Inr t"
  by (auto simp: client_resource_def parse_bytes_def split: prod.splits sum.splits)

definition session_ok :: "client_session \<Rightarrow> bool" where
  "session_ok s \<longleftrightarrow> cache_inv (cs_managers s) \<and> (cs_stop s \<longrightarrow> ca_retired (cs_managers s))
     \<and> snapshot_ok (rc_current (cs_resources s))"

text \<open>The steps a session's parts take: each keeps the stop flag and the invariant.\<close>

definition tends :: "client_session \<Rightarrow> client_session \<Rightarrow> bool" where
  "tends s s' \<longleftrightarrow> cs_stop s' = cs_stop s \<and> (session_ok s \<longrightarrow> session_ok s')"

lemma tends_refl [simp]: "tends s s"
  by (simp add: tends_def)

lemma tends_trans: "tends s s' \<Longrightarrow> tends s' s'' \<Longrightarrow> tends s s''"
  by (auto simp: tends_def)

lemma tends_fold: "(\<And>x s. tends s (f x s)) \<Longrightarrow> tends s (fold f xs s)"
  by (induction xs arbitrary: s) (auto intro: tends_trans)

lemma tends_managers:
  assumes "\<And>c. cache_inv c \<Longrightarrow> cache_inv (f c)" "\<And>c. cache_inv c \<Longrightarrow> ca_retired c \<Longrightarrow> ca_retired (f c)"
  shows "tends s (s\<lparr>cs_managers := f (cs_managers s)\<rparr>)"
  using assms by (simp add: tends_def session_ok_def)

text \<open>Every step of the manager cache is such a step.\<close>

lemma tends_cache_step:
  assumes "cache_step net (cs_managers s) c"
  shows "tends s (s\<lparr>cs_managers := c\<rparr>)"
  using assms by (auto simp: tends_def session_ok_def intro: cache_step_inv cache_step_retired)

lemma session_endpoints_tends: "session_endpoints su x g s = (s', es) \<Longrightarrow> tends s s'"
  by (auto simp: session_endpoints_def tends_def session_ok_def split: prod.splits)

lemma manager_for_snapshot_tends:
  fixes su :: "('se, 'de) surroundings"
  assumes "manager_for_snapshot su x g s = (s', r)"
  shows "tends s s'"
proof -
  obtain s1 es where e: "session_endpoints su x g s = (s1, es)" by fastforce
  obtain c p where c: "manager_for_generation (su_locked su) (su_clock su) g es (rn_generation x) (cs_managers s1) = (c, p)"
    by fastforce
  have "tends s1 (s1\<lparr>cs_managers := c\<rparr>)"
    by (rule tends_cache_step [OF cache_step.lookup [OF c, of "su_network su"]])
  with session_endpoints_tends [OF e] assms show ?thesis
    by (auto simp: manager_for_snapshot_def e c split: if_splits intro: tends_trans)
qed

text \<open>A retired manager refuses; so an operation on one leaves it retired.\<close>

lemma authorize_retired:
  "mg_retired (rs_manager r) \<Longrightarrow>
     authorize_with_budget net app flow r = (r\<lparr>rs_attempts := rs_attempts r + 1\<rparr>, Inl Retired)"
  by (subst authorize_with_budget.simps) (simp add: manager_session_def Let_def)

lemma authorize_and_send_retired:
  "mg_retired (rs_manager r) \<Longrightarrow>
     authorize_and_send net app flow r = (r\<lparr>rs_attempts := rs_attempts r + 1\<rparr>, Inl Retired)"
  by (subst authorize_and_send.simps) (simp add: authorize_retired)

lemma dispatch_on_retired:
  "mg_retired m \<Longrightarrow> dispatch_on net send app flow w m = (w, m, Inl Retired)"
  by (simp add: dispatch_on_def manager_authorize_flow_def authorize_retired authorize_and_send_retired run_start_def)

lemma on_manager_tends:
  assumes "on_manager f p s = (s', r)" and "\<And>w m. mg_retired m \<Longrightarrow> f w m = (w, m, refusal)"
  shows "tends s s'"
proof -
  obtain w m x where f: "f (ca_world (cs_managers s)) (ca_store (cs_managers s) ! p) = (w, m, x)"
    by (metis prod.exhaust)
  let ?c = "(cs_managers s)\<lparr>ca_store := (ca_store (cs_managers s))[p := m], ca_world := w\<rparr>"
  have "settles (cs_managers s) ?c"
    using f assms(2) [of "ca_store (cs_managers s) ! p" "ca_world (cs_managers s)"]
    by (auto simp: settles_def intro: nth_update_retired)
  then show ?thesis
    using assms(1) settles_inv by (auto simp: on_manager_def f tends_def session_ok_def settles_def)
qed

lemma session_dispatch_tends:
  assumes "session_dispatch su packet send domain s = (s', r)"
  shows "tends s s'"
  using assms
  by (auto simp: session_dispatch_def Let_def split: sum.splits option.splits prod.splits
      intro: tends_trans dest!: manager_for_snapshot_tends on_manager_tends [OF _ dispatch_on_retired])

section \<open>Runs of the client\<close>

text \<open>
  The client, the sessions prepared for a handover and not yet committed, and those given up.
\<close>

record client_world =
  cw_client :: atrust_client
  cw_pending :: "client_session list"
  cw_past :: "client_session list"

text \<open>The background tasks of a session; they end when it is shut down.\<close>

inductive task_step ::
  "('se, 'de) surroundings set \<Rightarrow> ('n, 'te, 'fe, 'je, 'ue, 're) auth_env \<Rightarrow> client_config
    \<Rightarrow> client_session \<Rightarrow> client_session \<Rightarrow> bool" for surr env config where
  refreshing: "cs_background s \<Longrightarrow> refresh_tick display env trace s net = (s', net') \<Longrightarrow> task_step surr env config s s'"
| reconciling: "cs_background s \<Longrightarrow> task_step surr env config s (reconcile_tick locked ck config s)"
| probing: "cs_background s \<Longrightarrow> su \<in> surr \<Longrightarrow> task_step surr env config s (node_tick su config s)"

text \<open>
  One step: an operation a caller invokes, one half of a handover, a shutdown, a background task,
  or the sessions of a node group changing on their own.
\<close>

inductive client_step ::
  "('se, 'de) surroundings set \<Rightarrow> 'd dialer set \<Rightarrow> ('n, 'te, 'fe, 'je, 'ue, 're) auth_env
    \<Rightarrow> client_world \<Rightarrow> client_world \<Rightarrow> bool" for surr :: "('se, 'de) surroundings set" and dials :: "'d dialer set"
    and env :: "('n, 'te, 'fe, 'je, 'ue, 're) auth_env" where
  dispatch: "su \<in> surr \<Longrightarrow>
    client_dispatch su packet send domain (cw_client x) =
      (k, r :: (unit, unit, ('se, 'de) manager_error) client_error + sent_flow) \<Longrightarrow>
    client_step surr dials env x (x\<lparr>cw_client := k\<rparr>)"
| connect: "su \<in> surr \<Longrightarrow>
    connect_node_group su g (cw_client x) = (k, r :: (unit, unit, ('se, 'de) manager_error) client_error + nat) \<Longrightarrow>
    client_step surr dials env x (x\<lparr>cw_client := k\<rparr>)"
| recv: "recv_ipv4 g (cw_client x) = (k, p) \<Longrightarrow> client_step surr dials env x (x\<lparr>cw_client := k\<rparr>)"
| dial: "su \<in> surr \<Longrightarrow> d \<in> dials \<Longrightarrow>
    client_dial_tcp d su host port (cw_client x) =
      (k, r :: (unit, 'd dial_tcp_error, unit) client_error + dialed_tunnel) \<Longrightarrow>
    client_step surr dials env x (x\<lparr>cw_client := k\<rparr>)"
| refresh: "refresh_resources display env trace (cw_client x) net =
      (k, r :: (('te, 'fe, 'je, 'ue, 're) auth_error, unit, unit) client_error + resource_snapshot, net') \<Longrightarrow>
    client_step surr dials env x (x\<lparr>cw_client := k\<rparr>)"
| reconnect: "client_step surr dials env x (x\<lparr>cw_client := client_reconnect ck g (cw_client x)\<rparr>)"
| shutdown: "client_step surr dials env x (x\<lparr>cw_client := client_shutdown locked ck (cw_client x)\<rparr>)"
| prepare: "replace_prepare env traces auth auth_config material (cw_client x) net =
      (Inr s :: (('te, 'fe, 'je, 'ue, 're) auth_error, unit, unit) client_error + client_session, net') \<Longrightarrow>
    client_step surr dials env x (x\<lparr>cw_pending := s # cw_pending x\<rparr>)"
| commit: "cw_pending x = before @ s # after \<Longrightarrow>
    replace_commit locked ck s (cw_client x) = (k, gone, r :: (unit, unit, unit) client_error + unit) \<Longrightarrow>
    client_step surr dials env x \<lparr>cw_client = k, cw_pending = before @ after, cw_past = gone # cw_past x\<rparr>"
| active_task: "task_step surr env (ak_config (cw_client x)) (ak_active (cw_client x)) s \<Longrightarrow>
    client_step surr dials env x (x\<lparr>cw_client := (cw_client x)\<lparr>ak_active := s\<rparr>\<rparr>)"
| pending_task: "cw_pending x = before @ s # after \<Longrightarrow> task_step surr env (ak_config (cw_client x)) s s' \<Longrightarrow>
    client_step surr dials env x (x\<lparr>cw_pending := before @ s' # after\<rparr>)"
| traffic: "client_step surr dials env x
    (x\<lparr>cw_client := (cw_client x)\<lparr>ak_active := (ak_active (cw_client x))\<lparr>cs_managers :=
        (cs_managers (ak_active (cw_client x)))\<lparr>ca_world := w\<rparr>\<rparr>\<rparr>\<rparr>)"
| past_traffic: "cw_past x = before @ s # after \<Longrightarrow>
    client_step surr dials env x (x\<lparr>cw_past := before @ s\<lparr>cs_managers := (cs_managers s)\<lparr>ca_world := w\<rparr>\<rparr> # after\<rparr>)"

inductive client_reachable ::
  "('se, 'de) surroundings set \<Rightarrow> 'd dialer set \<Rightarrow> ('n, 'te, 'fe, 'je, 'ue, 're) auth_env
    \<Rightarrow> client_world \<Rightarrow> bool" for surr :: "('se, 'de) surroundings set" and dials :: "'d dialer set"
    and env :: "('n, 'te, 'fe, 'je, 'ue, 're) auth_env" where
  started: "client_start env trace auth auth_config material config net =
      (Inr k :: (('te, 'fe, 'je, 'ue, 're) auth_error, unit, unit) client_error + atrust_client, net') \<Longrightarrow>
    client_reachable surr dials env \<lparr>cw_client = k, cw_pending = [], cw_past = []\<rparr>"
| stepped: "client_reachable surr dials env x \<Longrightarrow> client_step surr dials env x y \<Longrightarrow> client_reachable surr dials env y"

text \<open>
  The client stays as it was but for its active session, which takes such a step, and for what it
  publishes, which is no handover.
\<close>

definition handovers :: "hermes_event list \<Rightarrow> nat" where
  "handovers es = length (filter (\<lambda>e. e = SessionReplaced) es)"

definition serves :: "atrust_client \<Rightarrow> atrust_client \<Rightarrow> bool" where
  "serves k k' \<longleftrightarrow> ak_config k' = ak_config k \<and> ak_closed k' = ak_closed k \<and> ak_epoch k' = ak_epoch k
     \<and> tends (ak_active k) (ak_active k') \<and> handovers (ak_events k') = handovers (ak_events k)"

lemma serves_refl [simp]: "serves k k"
  by (simp add: serves_def)

lemma handovers_append [simp]: "handovers (xs @ ys) = handovers xs + handovers ys"
  by (simp add: handovers_def)

lemma serves_run: "client_run work k = (k', r) \<Longrightarrow> (\<And>k' r. work k = (k', r) \<Longrightarrow> serves k k') \<Longrightarrow> serves k k'"
  by (auto simp: client_run_def split: option.splits)

lemma serves_active: "on_active f k = (k', r) \<Longrightarrow> (\<And>s r. f (ak_active k) = (s, r) \<Longrightarrow> tends (ak_active k) s) \<Longrightarrow> serves k k'"
  by (auto simp: on_active_def serves_def split: prod.splits)

lemma client_dispatch_serves: "client_dispatch su packet send domain k = (k', r) \<Longrightarrow> serves k k'"
  unfolding client_dispatch_def by (erule serves_run, erule serves_active) (rule session_dispatch_tends)

lemma manager_session_retired: "mg_retired m \<Longrightarrow> manager_session dial txt ck fin w m = (w, m, Inl Retired)"
  by (simp add: manager_session_def)

lemma connect_node_group_serves: "connect_node_group su g k = (k', r) \<Longrightarrow> serves k k'"
  unfolding connect_node_group_def
  by (erule serves_run, erule serves_active)
     (auto split: sum.splits prod.splits intro: tends_trans
        dest!: manager_for_snapshot_tends on_manager_tends [OF _ manager_session_retired])

lemma tends_world: "tends s (s\<lparr>cs_managers := (cs_managers s)\<lparr>ca_world := w\<rparr>\<rparr>)"
  by (simp add: tends_def session_ok_def cache_inv_def cache_managers_def)

lemma recv_serves: "recv_ipv4 g k = (k', p) \<Longrightarrow> serves k k'"
  by (auto simp: recv_ipv4_def Let_def serves_def tends_world split: option.splits if_splits prod.splits)

lemma dial_endpoints_handovers: "dial_endpoints dial display route target e es = (events, r) \<Longrightarrow> handovers events = 0"
proof (induction dial display route target e es arbitrary: events r rule: dial_endpoints.induct)
  case (1 dial display route target e es)
  from "1.prems" "1.IH" show ?case
    by (subst (asm) dial_endpoints.simps)
       (auto simp: handovers_def Let_def split: sum.splits if_splits list.splits prod.splits)
qed

lemma client_dial_tcp_serves: "client_dial_tcp d su host port k = (k', r) \<Longrightarrow> serves k k'"
  unfolding client_dial_tcp_def
  by (erule serves_run)
     (auto simp: Let_def serves_def split: option.splits if_splits prod.splits list.splits
        dest!: session_endpoints_tends dial_endpoints_handovers)

lemma cache_refresh_ok:
  "cache_refresh display fetched c = (r, c') \<Longrightarrow> (\<And>t. fetched = Inr t \<Longrightarrow> \<exists>body. from_envelope body = Inr t) \<Longrightarrow>
     snapshot_ok (rc_current c) \<Longrightarrow> snapshot_ok (rc_current c')"
  by (auto simp: cache_refresh_def report_failure_def cache_emit_def snapshot_ok_def snapshot_new_def Let_def
      split: sum.splits if_splits)

lemma refresh_request_tends:
  assumes "refresh_request display env a trace ac (cs_resources s) net = (r, c, net')"
  shows "tends s (s\<lparr>cs_resources := c\<rparr>)"
proof -
  obtain fetched where "client_resource env a trace ac net = (fetched, net')"
    and "cache_refresh display fetched (cs_resources s) = (r, c)"
    using assms by (auto simp: refresh_request_def split: prod.splits)
  then have "snapshot_ok (rc_current (cs_resources s)) \<Longrightarrow> snapshot_ok (rc_current c)"
    by (auto dest: client_resource_served intro: cache_refresh_ok)
  then show ?thesis by (simp add: tends_def session_ok_def)
qed

lemma refresh_resources_serves: "refresh_resources display env trace k net = (k', r, net') \<Longrightarrow> serves k k'"
  by (auto simp: refresh_resources_def Let_def serves_def split: option.splits prod.splits dest!: refresh_request_tends)

lemma reconnect_serves: "serves k (client_reconnect ck g k)"
  using tends_cache_step [OF cache_step.close_one]
  by (auto simp: client_reconnect_def serves_def split: option.split)

lemma node_pass_group_tends: "tends s (node_pass_group su x g s)"
proof -
  obtain s1 es where e: "session_endpoints su x (ng_id g) s = (s1, es)" by fastforce
  show ?thesis
    using tends_trans [OF session_endpoints_tends [OF e] tends_cache_step [OF cache_step.update]]
    by (simp add: node_pass_group_def e)
qed

lemma task_tends: "task_step surr env config s s' \<Longrightarrow> tends s s'"
proof (induction rule: task_step.induct)
  case (refreshing s display trace net s' net')
  then show ?case by (auto simp: refresh_tick_def split: prod.splits dest!: refresh_request_tends)
next
  case (reconciling s locked ck)
  show ?case using tends_cache_step [OF cache_step.reconcile] by (simp add: reconcile_tick_def Let_def)
next
  case (probing s su)
  show ?case by (simp add: node_tick_def Let_def tends_fold node_pass_group_tends)
qed

lemma session_shutdown_ok:
  assumes "session_ok s"
  shows "session_ok (session_shutdown locked ck s)" "cs_stop (session_shutdown locked ck s)"
  using assms by (simp_all add: session_shutdown_def session_ok_def cache_retire_inv cache_close_inv)

lemma map_sum_Inr: "map_sum f g x = Inr y \<longleftrightarrow> (\<exists>z. x = Inr z \<and> y = g z)"
  by (cases x) auto

lemma build_session_ok:
  "build_session env trace auth ac material config net = (Inr s, net') \<Longrightarrow> session_ok s \<and> \<not> cs_stop s"
  by (auto simp: build_session_def cache_load_def session_build_def session_ok_def cache_new_def cache_inv_def
      cache_managers_def with_events_def resource_cache_new_def snapshot_ok_def snapshot_new_def Let_def map_sum_Inr
      split: prod.splits sum.splits dest!: client_resource_served)

lemma replace_prepare_ok:
  "replace_prepare env traces auth ac material k net = (Inr s, net') \<Longrightarrow> session_ok s"
  by (auto simp: replace_prepare_def split: if_splits prod.splits sum.splits dest: build_session_ok)

definition world_ok :: "client_world \<Rightarrow> bool" where
  "world_ok x \<longleftrightarrow> session_ok (ak_active (cw_client x))
     \<and> (ak_closed (cw_client x) \<longrightarrow> cs_stop (ak_active (cw_client x)))
     \<and> (\<forall>s \<in> set (cw_pending x). session_ok s)
     \<and> (\<forall>s \<in> set (cw_past x). session_ok s \<and> cs_stop s)
     \<and> ak_epoch (cw_client x) = 1 + word_of_nat (handovers (ak_events (cw_client x)))"

lemma world_ok_serves: "world_ok x \<Longrightarrow> serves (cw_client x) k \<Longrightarrow> world_ok (x\<lparr>cw_client := k\<rparr>)"
  by (auto simp: world_ok_def serves_def tends_def)

lemmas operation_serves = client_dispatch_serves connect_node_group_serves recv_serves client_dial_tcp_serves
  refresh_resources_serves

lemma client_step_ok: "client_step surr dials env x y \<Longrightarrow> world_ok x \<Longrightarrow> world_ok y"
proof (induction rule: client_step.induct)
  case (shutdown x locked ck)
  then show ?case using session_shutdown_ok by (auto simp: world_ok_def client_shutdown_def)
next
  case (prepare traces auth ac material x net s net')
  then show ?case using replace_prepare_ok by (auto simp: world_ok_def)
next
  case (commit x before s after locked ck k gone r)
  then show ?case using session_shutdown_ok
    by (auto simp: world_ok_def replace_commit_def handovers_def split: if_splits)
next
  case (active_task x s)
  then show ?case by (intro world_ok_serves) (auto simp: serves_def dest: task_tends)
next
  case (pending_task x before s after s')
  then show ?case using task_tends by (fastforce simp: world_ok_def tends_def)
next
  case (traffic x w)
  then show ?case by (intro world_ok_serves) (auto simp: serves_def tends_world)
next
  case (past_traffic x before s after w)
  then show ?case using tends_world [of s w] by (auto simp: world_ok_def tends_def)
qed (auto intro: world_ok_serves reconnect_serves dest: operation_serves)

lemma client_reachable_ok: "client_reachable surr dials env x \<Longrightarrow> world_ok x"
proof (induction rule: client_reachable.induct)
  case (started trace auth ac material config net k net')
  then show ?case
    by (auto simp: client_start_def world_ok_def handovers_def split: prod.splits sum.splits dest: build_session_ok)
qed (blast intro: client_step_ok)

text \<open>No manager of a stopped session opens a connection.\<close>

definition disconnected :: "client_session \<Rightarrow> bool" where
  "disconnected s \<longleftrightarrow> cs_stop s \<and> (\<forall>p < length (ca_store (cs_managers s)). mg_retired (ca_store (cs_managers s) ! p))"

lemma stopped_disconnected: "session_ok s \<Longrightarrow> cs_stop s \<Longrightarrow> disconnected s"
  by (simp add: disconnected_def session_ok_def cache_inv_def)

section \<open>Properties of runs\<close>


text \<open>
  C6: Shutting down is final. In every reachable state after a shutdown each operation answers
  that the client is closed and changes nothing: sending and authorizing packets, connecting a
  node group, opening a tunnel, refreshing the table and committing a session that was prepared
  before the shutdown; receiving yields nothing; no manager connects; and no further step opens
  the client again.
\<close>

theorem shutdown_is_final:
  assumes "client_reachable surr dials env x" and "ak_closed (cw_client x)"
  shows "client_dispatch su packet send domain (cw_client x) = (cw_client x, Inl ClientClosed)
    \<and> connect_node_group su g (cw_client x) = (cw_client x, Inl ClientClosed)
    \<and> client_dial_tcp d su' host port (cw_client x) = (cw_client x, Inl ClientClosed)
    \<and> refresh_resources display env' trace (cw_client x) net = (cw_client x, Inl ClientClosed, net)
    \<and> recv_ipv4 g (cw_client x) = (cw_client x, None)
    \<and> (\<exists>gone. replace_commit locked ck s (cw_client x) = (cw_client x, gone, Inl ClientClosed))
    \<and> fst (replace_prepare env' traces auth auth_config material (cw_client x) net) = Inl ClientClosed
    \<and> (\<forall>p < length (ca_store (cs_managers (ak_active (cw_client x)))).
         mg_retired (ca_store (cs_managers (ak_active (cw_client x))) ! p))
    \<and> (\<forall>y. client_step surr dials env x y \<longrightarrow> ak_closed (cw_client y))"
proof -
  from client_reachable_ok [OF assms(1)] assms(2) have stop: "cs_stop (ak_active (cw_client x))"
    and ok: "session_ok (ak_active (cw_client x))" by (simp_all add: world_ok_def)
  have "ak_closed (cw_client y)" if "client_step surr dials env x y" for y
    using that assms(2)
    by (induction rule: client_step.induct)
       (auto simp: client_shutdown_def replace_commit_def dest!: operation_serves simp: serves_def client_reconnect_def
          split: option.splits)
  moreover have "recv_ipv4 g (cw_client x) = (cw_client x, None)"
    by (auto simp: recv_ipv4_def Let_def run_gate_def stop split: option.split)
  ultimately show ?thesis
    using assms(2) stopped_disconnected [OF ok stop]
    by (auto simp: client_dispatch_def connect_node_group_def client_dial_tcp_def refresh_resources_def client_run_def
        run_gate_def stop replace_commit_def replace_prepare_def disconnected_def Let_def)
qed

section \<open>Only published destinations\<close>

text \<open>What the table in force says of a destination.\<close>

abbreviation table_in_force :: "client_world \<Rightarrow> client_resources" where
  "table_in_force x \<equiv> rn_resources (rc_current (cs_resources (ak_active (cw_client x))))"

lemma reachable_table:
  assumes "client_reachable surr dials env x"
  obtains body where "from_envelope body = Inr (table_in_force x)"
    and "rn_routing (rc_current (cs_resources (ak_active (cw_client x)))) = resource_index_build (table_in_force x)"
  using client_reachable_ok [OF assms] by (auto simp: world_ok_def session_ok_def snapshot_ok_def)

lemma client_dispatch_sent:
  assumes "client_dispatch su packet send domain k = (k', Inr sent)"
  obtains d where "parse_ipv4_flow packet = Inr (sf_flow sent)"
    and "match_destination (rn_routing (rc_current (cs_resources (ak_active k))))
      (case domain of Some h \<Rightarrow> h | None \<Rightarrow> ipv4_to_string (fl_dst_addr (sf_flow sent)))
      (fl_dst_port (sf_flow sent)) (client_flow_protocol (fl_protocol (sf_flow sent))) = Some d"
    and "sf_app_id sent = mr_app_id (to_matched_resource d)"
    and "sf_node_group_id sent = mr_node_group_id (to_matched_resource d)"
  using assms
  by (auto simp: client_dispatch_def client_run_def on_active_def session_dispatch_def Let_def
      split: sum.splits option.splits prod.splits)


section \<open>Opening a tunnel\<close>

text \<open>The endpoints before \<open>n\<close> all failed in a way another endpoint may mend.\<close>

definition passed_over :: "(l3_node_endpoint \<Rightarrow> 'je dial_tcp_error + tcp_tunnel) \<Rightarrow> l3_node_endpoint list \<Rightarrow> nat \<Rightarrow> bool" where
  "passed_over dial es n \<longleftrightarrow> (\<forall>i < n. \<exists>e. dial (es ! i) = Inl e \<and> is_retryable e)"

lemma passed_over_Suc:
  "dial a = Inl e \<Longrightarrow> is_retryable e \<Longrightarrow> passed_over dial es n \<Longrightarrow> passed_over dial (a # es) (Suc n)"
  by (auto simp: passed_over_def nth_Cons split: nat.splits)

lemma dial_endpoints_spec:
  assumes "dial_endpoints dial display route target e es = (events, r)"
  shows "\<exists>n < length (e # es). passed_over dial (e # es) n \<and> length events = Suc n \<and>
    (case dial ((e # es) ! n) of
       Inr t \<Rightarrow> r = Inr \<lparr>dt_tunnel = t, dt_app_id = mr_app_id route, dt_node_group_id = mr_node_group_id route,
          dt_node_host = ne_host ((e # es) ! n), dt_node_port = ne_port ((e # es) ! n)\<rparr>
     | Inl er \<Rightarrow> r = Inl er \<and> (is_retryable er \<longrightarrow> Suc n = length (e # es)))"
  using assms
proof (induction es arbitrary: e events r)
  case Nil
  then show ?case
    by (subst (asm) dial_endpoints.simps) (auto simp: passed_over_def Let_def split: sum.splits if_splits)
next
  case (Cons a es)
  show ?case
  proof (cases "\<exists>er. dial e = Inl er \<and> is_retryable er")
    case True
    then obtain er where er: "dial e = Inl er" "is_retryable er" by blast
    obtain events' where step: "dial_endpoints dial display route target a es = (events', r)" "length events = Suc (length events')"
      using Cons.prems by (subst (asm) dial_endpoints.simps) (auto simp: er Let_def split: prod.splits)
    from Cons.IH [OF step(1)] obtain n where n: "n < length (a # es)" "passed_over dial (a # es) n" "length events' = Suc n"
      and "case dial ((a # es) ! n) of
       Inr t \<Rightarrow> r = Inr \<lparr>dt_tunnel = t, dt_app_id = mr_app_id route, dt_node_group_id = mr_node_group_id route,
          dt_node_host = ne_host ((a # es) ! n), dt_node_port = ne_port ((a # es) ! n)\<rparr>
     | Inl er \<Rightarrow> r = Inl er \<and> (is_retryable er \<longrightarrow> Suc n = length (a # es))" by blast
    with er step(2) show ?thesis
      by (intro exI [of _ "Suc n"]) (auto intro: passed_over_Suc split: sum.splits)
  next
    case False
    with Cons.prems show ?thesis
      by (subst (asm) dial_endpoints.simps)
         (auto simp: passed_over_def Let_def split: sum.splits if_splits intro!: exI [of _ 0])
  qed
qed

text \<open>The endpoints of a group in the order in which they are tried, and one dial with its retries.\<close>

definition ranked_for :: "('se, 'de) surroundings \<Rightarrow> atrust_client \<Rightarrow> string \<Rightarrow> l3_node_endpoint list" where
  "ranked_for su k g = snd (session_endpoints su (rc_current (cs_resources (ak_active k))) g (ak_active k))"

definition dial_to ::
  "'je dialer \<Rightarrow> atrust_client \<Rightarrow> string \<Rightarrow> u16 \<Rightarrow> string \<Rightarrow> l3_node_endpoint \<Rightarrow> 'je dial_tcp_error + tcp_tunnel" where
  "dial_to d k host port app = dial_endpoint d (ak_config k) (cs_material (ak_active k)) (tunnel_target_of host port app)"

lemma client_dial_tcp_outcome:
  assumes "client_dial_tcp d su host port k = (k', r)"
  obtains (refused) e where "r = Inl e" "\<And>e'. r \<noteq> Inl (ClientTcp e')"
  | (dialled) dest n where
      "match_destination (rn_routing (rc_current (cs_resources (ak_active k)))) host port FpTcp = Some dest"
      "\<not> mr_tcp_prefers_l3 (to_matched_resource dest)"
      "n < length (ranked_for su k (mr_node_group_id (to_matched_resource dest)))"
      "passed_over (dial_to d k host port (mr_app_id (to_matched_resource dest)))
         (ranked_for su k (mr_node_group_id (to_matched_resource dest))) n"
      "case dial_to d k host port (mr_app_id (to_matched_resource dest))
          (ranked_for su k (mr_node_group_id (to_matched_resource dest)) ! n) of
        Inr t \<Rightarrow> r = Inr \<lparr>dt_tunnel = t, dt_app_id = mr_app_id (to_matched_resource dest),
          dt_node_group_id = mr_node_group_id (to_matched_resource dest),
          dt_node_host = ne_host (ranked_for su k (mr_node_group_id (to_matched_resource dest)) ! n),
          dt_node_port = ne_port (ranked_for su k (mr_node_group_id (to_matched_resource dest)) ! n)\<rparr>
      | Inl e \<Rightarrow> r = Inl (ClientTcp e) \<and> (is_retryable e \<longrightarrow>
          Suc n = length (ranked_for su k (mr_node_group_id (to_matched_resource dest))))"
proof -
  let ?m = "match_destination (rn_routing (rc_current (cs_resources (ak_active k)))) host port FpTcp"
  consider (refused) e where "r = Inl e" "\<And>e'. r \<noteq> Inl (ClientTcp e')"
    | (dialled) dest s1 e es events r0 where "?m = Some dest" "\<not> mr_tcp_prefers_l3 (to_matched_resource dest)"
      "session_endpoints su (rc_current (cs_resources (ak_active k))) (mr_node_group_id (to_matched_resource dest)) (ak_active k) = (s1, e # es)"
      "dial_endpoints (dial_to d k host port (mr_app_id (to_matched_resource dest))) (dl_display d) (to_matched_resource dest)
         (tunnel_target_of host port (mr_app_id (to_matched_resource dest))) e es = (events, r0)"
      "r = map_sum ClientTcp id r0"
    using assms
    by (auto simp: client_dial_tcp_def client_run_def run_gate_def Let_def dial_to_def
        split: option.splits if_splits prod.splits list.splits)
  then show ?thesis
  proof cases
    case refused
    then show ?thesis by (rule that(1))
  next
    case dialled
    have ranked: "ranked_for su k (mr_node_group_id (to_matched_resource dest)) = e # es"
      by (simp add: ranked_for_def dialled(3))
    from dial_endpoints_spec [OF dialled(4)] show ?thesis
      by (elim exE conjE, intro that(2) [OF dialled(1,2)]; (unfold ranked)?) (auto simp: dialled(5) split: sum.splits)
  qed
qed

text \<open>
  C11: A tunnel is opened only to a published destination and only after the better endpoints
  failed. It carries the application and node group of one published application that leaves TCP
  to the tunnel and one of whose addresses authorizes the destination; its node is one of the
  group's endpoints, and every endpoint ranked before it failed with an error that another node
  may not repeat. A dial that fails reports the error of the last endpoint tried, which is the
  last of the list unless the error concerns the destination. A destination the table does not
  cover is refused without a dial.
\<close>

theorem tunnels_follow_policy_and_ranking:
  assumes reach: "client_reachable surr dials env x"
    and dial: "client_dial_tcp d su host port (cw_client x) = (k, r)"
  shows "(\<forall>t. r = Inr t \<longrightarrow> (\<exists>body data app address dest n.
        from_envelope body = Inr (table_in_force x) \<and> en_data body = Some data
      \<and> authorizes data app address host port FpTcp dest \<and> \<not> app_tcp_prefers_l3 app
      \<and> n < length (ranked_for su (cw_client x) (app_node_group_id app))
      \<and> passed_over (dial_to d (cw_client x) host port (app_id app)) (ranked_for su (cw_client x) (app_node_group_id app)) n
      \<and> dial_to d (cw_client x) host port (app_id app) (ranked_for su (cw_client x) (app_node_group_id app) ! n) = Inr (dt_tunnel t)
      \<and> t = \<lparr>dt_tunnel = dt_tunnel t, dt_app_id = app_id app, dt_node_group_id = app_node_group_id app,
             dt_node_host = ne_host (ranked_for su (cw_client x) (app_node_group_id app) ! n),
             dt_node_port = ne_port (ranked_for su (cw_client x) (app_node_group_id app) ! n)\<rparr>))
    \<and> (\<forall>e. r = Inl (ClientTcp e) \<longrightarrow> (\<exists>dest n g.
        match_destination (resource_index_build (table_in_force x)) host port FpTcp = Some dest
      \<and> g = ranked_for su (cw_client x) (mr_node_group_id (to_matched_resource dest)) \<and> n < length g
      \<and> passed_over (dial_to d (cw_client x) host port (mr_app_id (to_matched_resource dest))) g n
      \<and> dial_to d (cw_client x) host port (mr_app_id (to_matched_resource dest)) (g ! n) = Inl e
      \<and> (is_retryable e \<longrightarrow> Suc n = length g)))
    \<and> (match_destination (resource_index_build (table_in_force x)) host port FpTcp = None \<longrightarrow>
        k = cw_client x \<and> (\<exists>e. r = Inl e))"
proof -
  obtain body where body: "from_envelope body = Inr (table_in_force x)"
    and index: "rn_routing (rc_current (cs_resources (ak_active (cw_client x)))) = resource_index_build (table_in_force x)"
    by (rule reachable_table [OF reach])
  have none: "match_destination (resource_index_build (table_in_force x)) host port FpTcp = None \<longrightarrow>
      k = cw_client x \<and> (\<exists>e. r = Inl e)"
    using dial by (auto simp: client_dial_tcp_def client_run_def index Let_def split: option.splits)
  from dial show ?thesis
  proof (cases rule: client_dial_tcp_outcome)
    case (refused e)
    with none show ?thesis by blast
  next
    case (dialled dest n)
    let ?g = "ranked_for su (cw_client x) (mr_node_group_id (to_matched_resource dest))"
    show ?thesis
    proof (cases "dial_to d (cw_client x) host port (mr_app_id (to_matched_resource dest)) (?g ! n)")
      case (Inl e)
      with dialled none index show ?thesis by auto
    next
      case (Inr t)
      from match_destination_authorized [OF body dialled(1) [unfolded index]] obtain data app address where
        app: "en_data body = Some data" "authorizes data app address host port FpTcp dest" by blast
      then have "to_matched_resource dest = \<lparr>mr_app_id = app_id app, mr_node_group_id = app_node_group_id app,
        mr_tcp_prefers_l3 = app_tcp_prefers_l3 app, mr_addr_pretend = pretends app\<rparr>" by (simp add: authorizes_def)
      with Inr dialled(2-5) none show ?thesis
        by (intro conjI allI impI, intro exI [of _ body] exI [of _ data] exI [of _ app] exI [of _ address] exI [of _ dest]
            exI [of _ n]) (simp_all add: body app)
    qed
  qed
qed

section \<open>The reconciler and the selector\<close>

lemma find_key_None: "find (\<lambda>g. f g = k) gs = None \<longleftrightarrow> k \<notin> f ` set gs"
  by (induction gs) auto

lemma hm_get_fold_insert:
  "distinct (map f gs) \<Longrightarrow> hm_get (fold (\<lambda>g. hm_insert (f g) (v g)) gs m) k =
     (case find (\<lambda>g. f g = k) gs of Some g \<Rightarrow> Some (v g) | None \<Rightarrow> hm_get m k)"
proof (induction gs arbitrary: m)
  case (Cons g gs)
  then show ?case using find_key_None [of f k gs] by (auto split: option.splits)
qed simp

lemma override_matches_resolved:
  assumes "find (\<lambda>g. rg_id g = grp) (resolve_node_groups (rn_resources x) gw) = Some g"
  shows "override_matches config x grp \<longleftrightarrow> cfg_endpoint_override config \<noteq> None \<and>
    (cfg_endpoint_override_node_group_id config = Some grp \<or>
     cfg_endpoint_override_node_group_id config = None \<and> length (resolve_node_groups (rn_resources x) gw) = 1)"
proof -
  have "ng_id (cr_node_groups (rn_resources x) ! 0) = grp" if "length (cr_node_groups (rn_resources x)) = 1"
  proof -
    from that obtain a where "cr_node_groups (rn_resources x) = [a]" by (auto simp: length_Suc_conv)
    with find_SomeD [OF assms] show ?thesis by (auto simp: resolve_node_groups_def)
  qed
  then show ?thesis by (auto simp: override_matches_def resolve_node_groups_def)
qed


section \<open>A run of the client\<close>

definition sample_runtime_env :: "(nat, unit, unit, unit, unit, unit) auth_env" where
  "sample_runtime_env = sample_env\<lparr>de_resources := (\<lambda>_. Inr sample_body)\<rparr>"

definition sample_node_endpoint :: l3_node_endpoint where
  "sample_node_endpoint = \<lparr>ne_host = ''n'', ne_port = 441\<rparr>"

definition sample_runtime_config :: client_config where
  "sample_runtime_config = with_node_group_endpoint_override ''ng'' (Some [sample_node_endpoint])
     (client_config_new \<lparr>ge_host = ''gw'', ge_port = 443\<rparr>)"

definition sample_runtime_material :: session_material where
  "sample_runtime_material = \<lparr>sm_sid = ''s'', sm_device_id = ''d'', sm_connection_id = ''c'', sm_sign_key = [1],
     sm_username = None, sm_sign_key_provisional = True, sm_sid_cookie_name = ''sid'', sm_sid_sig_present = False\<rparr>"

definition sample_served :: client_resources where
  "sample_served = (case from_envelope sample_body of Inr t \<Rightarrow> t)"

lemma sample_served: "from_envelope sample_body = Inr sample_served"
  "match_destination (resource_index_build sample_served) ''10.1.2.3'' 80 FpTcp = Some (DestIp sample_route)"
  using sample_body_routed by (auto simp: sample_served_def)

definition sample_active :: "string option \<Rightarrow> client_session" where
  "sample_active username = session_build sample_runtime_config (sample_client ''gw'') sample_configuration
     (sample_runtime_material\<lparr>sm_username := username\<rparr>) (resource_cache_new sample_served)"

definition sample_atrust :: atrust_client where
  "sample_atrust = \<lparr>ak_config = sample_runtime_config, ak_active = sample_active None, ak_events = [], ak_closed = False, ak_epoch = 1\<rparr>"

definition sample_start :: client_world where
  "sample_start = \<lparr>cw_client = sample_atrust, cw_pending = [], cw_past = []\<rparr>"

lemma sample_resource_request:
  "client_resource sample_runtime_env (sample_client ''gw'') ''00'' sample_configuration n = (Inr sample_served, Suc n)"
  by (simp add: client_resource_def client_resource_body_def parse_bytes_def auth_op_defs endpoint_url_def json_body_def
      to_wire_json_def sample_runtime_env_def sample_env_def is_success_def sample_served(1))

lemma sample_build: "build_session sample_runtime_env ''00'' (sample_client ''gw'') sample_configuration
    (sample_runtime_material\<lparr>sm_username := u\<rparr>) sample_runtime_config n = (Inr (sample_active u), Suc n)"
  by (simp add: build_session_def cache_load_def sample_resource_request sample_active_def)

lemma sample_start_reachable: "client_reachable surr dials sample_runtime_env sample_start"
  unfolding sample_start_def
proof (rule client_reachable.started)
  show "client_start sample_runtime_env ''00'' (sample_client ''gw'') sample_configuration
      (sample_runtime_material\<lparr>sm_username := None\<rparr>) sample_runtime_config 0 = (Inr sample_atrust, 1)"
    by (simp add: client_start_def sample_build sample_atrust_def)
qed

text \<open>A node group whose node answers, assigns \<open>10.0.0.1\<close> and grants the flow.\<close>

definition sample_surroundings :: "(unit, unit) surroundings" where
  "sample_surroundings = \<lparr>su_measured = (\<lambda>es. []), su_now = 0, su_later = 0, su_locked = (\<lambda>p. False), su_clock = idle_clock,
     su_network = sample_network\<lparr>
       nt_dial := (\<lambda>k i e. (Inr (shared_new (Ipv4 10 0 0 1) (Some ''ng'') False
          \<lparr>rc_enabled = False, rc_max_wire_retries_per_flow = 0, rc_delayed_retry_delay = 0, rc_overall_auth_deadline = 0\<rparr> idle_clock), False)),
       nt_authorize := (\<lambda>k p w. (w, Inr ''tok''))\<rparr>\<rparr>"

definition sample_packet :: bytes where
  "sample_packet = [0x45, 0, 0, 24, 0, 0, 0, 0, 64, 6, 0, 0, 10, 0, 0, 1, 10, 1, 2, 3, 0, 9, 0, 80]"

lemma sample_flow: "parse_ipv4_flow sample_packet =
    Inr \<lparr>fl_protocol = Tcp, fl_src_addr = Ipv4 10 0 0 1, fl_src_port = 9, fl_dst_addr = Ipv4 10 1 2 3, fl_dst_port = 80\<rparr>"
  by code_simp

lemma sample_address: "ipv4_to_string (Ipv4 10 1 2 3) = ''10.1.2.3''"
  by code_simp

lemma sample_to_matched: "to_matched_resource (DestIp sample_route) =
    \<lparr>mr_app_id = ''app'', mr_node_group_id = ''ng'', mr_tcp_prefers_l3 = False, mr_addr_pretend = True\<rparr>"
  by (simp add: sample_route_def ip_entry_def sample_app_fields to_matched_resource_def)

lemmas sample_client_defs = sample_start_def sample_atrust_def sample_active_def session_build_def
  resource_cache_new_def with_events_def snapshot_new_def

lemma sample_gate: "run_gate (sample_active u) = None"
  "rn_routing (rc_current (cs_resources (sample_active u))) = resource_index_build sample_served"
  "cs_managers (sample_active u) = cache_new \<lparr>wo_sessions = [], wo_events = []\<rparr>"
  by (simp_all add: run_gate_def sample_client_defs Let_def)

lemma sample_table_in_force: "rn_resources (rc_current (cs_resources (ak_active sample_atrust))) = sample_served"
  by (simp add: sample_client_defs Let_def)

lemma sample_selected:
  "session_endpoints su x ''ng'' (sample_active u) = (sample_active u, [sample_node_endpoint])"
  by (simp add: session_endpoints_def selector_endpoints_def sample_active_def session_build_def node_selector_new_def
      configured_endpoints_def override_matches_def sample_runtime_config_def with_node_group_endpoint_override_def
      non_empty_endpoints_def Let_def)

lemma sample_granted:
  "\<exists>r. authorize_and_send (su_network sample_surroundings) ''app''
      \<lparr>fl_protocol = Tcp, fl_src_addr = Ipv4 10 0 0 1, fl_src_port = 9, fl_dst_addr = Ipv4 10 1 2 3, fl_dst_port = 80\<rparr>
      (run_start \<lparr>wo_sessions = [], wo_events = []\<rparr> (update_endpoints [sample_node_endpoint] (manager_new [sample_node_endpoint] ''ng''))) =
    (r, Inr (0, ''tok''))"
  by (subst authorize_and_send.simps, subst authorize_with_budget.simps)
     (simp add: run_start_def sample_surroundings_def sample_network_def manager_session_def current_session_def
        drop_closed_session_def manager_new_def update_endpoints_def state_default_def deduplicate_endpoints_def
        attempt_order_def report_established_def shared_new_def publish_def Let_def)

lemma sample_sent:
  "\<exists>k s. client_dispatch sample_surroundings sample_packet True None sample_atrust =
     (k, Inr s :: (unit, unit, (unit, unit) manager_error) client_error + sent_flow)
     \<and> length (ca_store (cs_managers (ak_active k))) = 1 \<and> \<not> ak_closed k \<and> ak_config k = sample_runtime_config"
proof -
  obtain r where "authorize_and_send (su_network sample_surroundings) ''app''
      \<lparr>fl_protocol = Tcp, fl_src_addr = Ipv4 10 0 0 1, fl_src_port = 9, fl_dst_addr = Ipv4 10 1 2 3, fl_dst_port = 80\<rparr>
      (run_start \<lparr>wo_sessions = [], wo_events = []\<rparr> (update_endpoints [sample_node_endpoint] (manager_new [sample_node_endpoint] ''ng''))) =
    (r, Inr (0, ''tok''))" using sample_granted by blast
  then show ?thesis
    by (simp add: client_dispatch_def client_run_def sample_gate on_active_def session_dispatch_def sample_flow sample_address
        sample_served(2) sample_to_matched manager_for_snapshot_def sample_selected sample_atrust_def Let_def
        manager_for_generation_def cache_entry_def cache_new_def with_manager_def on_manager_def dispatch_on_def
        del: ipv4_to_string.simps)
qed

lemma sample_world_client [simp]: "cw_client sample_start = sample_atrust"
  by (simp add: sample_start_def)


text \<open>A node that refuses every connection.\<close>

definition sample_dialer :: "unit dialer" where
  "sample_dialer = \<lparr>dl_sha256 = id, dl_hmac = append, dl_to_vec = (\<lambda>w. Inr [1]), dl_from_slice = (\<lambda>_. None),
     dl_display = (\<lambda>_. []), dl_outcomes = (\<lambda>e k. ConnectElapsed)\<rparr>"

theorem tunnels_follow_policy_and_ranking_witness:
  "\<exists>g n. passed_over (dial_to sample_dialer sample_atrust ''10.1.2.3'' 80 ''app'') g n
     \<and> dial_to sample_dialer sample_atrust ''10.1.2.3'' 80 ''app'' (g ! n) = Inl ConnectTimeout \<and> Suc n = length g"
proof -
  let ?r = "dial_request sample_runtime_config (cs_material (sample_active None)) (TargetIpv4 (Ipv4 10 1 2 3) 80 ''app'') sample_node_endpoint"
  have "parse_ipv4 ''10.1.2.3'' = Some (Ipv4 10 1 2 3)"
    using parse_ipv4_to_string [of "Ipv4 10 1 2 3"] unfolding sample_address .
  then have target: "tunnel_target_of ''10.1.2.3'' 80 ''app'' = TargetIpv4 (Ipv4 10 1 2 3) 80 ''app''"
    by (simp add: tunnel_target_of_def)
  have "dial_tcp_with_underlay id append (\<lambda>w. Inr [1] :: unit + bytes) (\<lambda>_. None) ?r ConnectElapsed = Inl ConnectTimeout"
    by (simp add: dial_tcp_with_underlay_def validate_request_def dial_request_def sample_node_endpoint_def
        build_handshake_frames_def build_signed_tcp_init_json_def to_wire_json_def tcp_init_unsigned_def tcp_frame_defs
        u16_to_be_def Let_def)
  moreover have "dial_retry_loop f 1 (\<lambda>_. oc) 0 = (Inl ConnectTimeout, 2)" if "f oc = Inl ConnectTimeout"
    for f :: "connect_outcome \<Rightarrow> unit dial_tcp_error + tcp_tunnel" and oc
    using that by (simp add: dial_retry_loop.simps [of f "Suc 0" _ 0] dial_retry_loop.simps [of f "Suc 0" _ "Suc 0"])
  ultimately have elapsed: "dial_to sample_dialer sample_atrust ''10.1.2.3'' 80 ''app'' sample_node_endpoint = Inl ConnectTimeout"
    by (simp add: dial_to_def dial_endpoint_def dial_tcp_with_retry_def target sample_dialer_def sample_atrust_def TCP_DIAL_RETRIES_def)
  have "dial_endpoints (dial_to sample_dialer sample_atrust ''10.1.2.3'' 80 ''app'') display route target sample_node_endpoint [] =
      ([TcpDialFailed (mr_node_group_id route) ''n'' 441 (dest_addr_string target) (display ConnectTimeout)], Inl ConnectTimeout)"
    for display route target
    by (subst dial_endpoints.simps) (simp add: elapsed Let_def sample_node_endpoint_def [symmetric], simp add: sample_node_endpoint_def)
  then have "\<exists>k. client_dial_tcp sample_dialer sample_surroundings ''10.1.2.3'' 80 (cw_client sample_start) =
      (k, Inl (ClientTcp ConnectTimeout) :: (unit, unit dial_tcp_error, unit) client_error + dialed_tunnel)"
    by (simp add: client_dial_tcp_def client_run_def sample_gate sample_atrust_def sample_served(2) sample_to_matched
        sample_selected Let_def dial_to_def)
  then obtain k where dial: "client_dial_tcp sample_dialer sample_surroundings ''10.1.2.3'' 80 (cw_client sample_start) =
      (k, Inl (ClientTcp ConnectTimeout) :: (unit, unit dial_tcp_error, unit) client_error + dialed_tunnel)" by blast
  from tunnels_follow_policy_and_ranking [OF sample_start_reachable [of "{}" "{} :: unit dialer set"] dial] show ?thesis
    by (auto simp: sample_table_in_force sample_served(2) sample_to_matched)
qed

text \<open>A handover, then a shutdown.\<close>

lemma sample_online:
  "online_info sample_runtime_env (sample_client ''gw'') ''00'' sample_configuration n = (Inr ''u'', Suc n)"
  by (simp add: online_info_def auth_op_defs endpoint_url_def sample_runtime_env_def sample_env_def is_success_def)

lemma sample_replacement:
  assumes "\<not> ak_closed k" "ak_config k = sample_runtime_config"
  shows "replace_prepare sample_runtime_env (\<lambda>_. ''00'') (sample_client ''gw'') sample_configuration sample_runtime_material k 0 =
    (Inr (sample_active (Some ''u'')), 2)"
proof -
  have "cl_endpoint (sample_client ''gw'') = cfg_gateway sample_runtime_config"
    by (simp add: sample_client_def auth_client_new_def sample_runtime_config_def with_node_group_endpoint_override_def
        client_config_new_def)
  then show ?thesis using assms by (simp add: replace_prepare_def sample_online sample_build)
qed

lemma cache_retire_store: "length (ca_store (cache_retire locked ck c)) = length (ca_store c)"
  unfolding cache_retire_def
  using settles_fold [of "\<lambda>p. run_manager p (manager_retire (locked p) ck)" "c\<lparr>ca_retired := True\<rparr>" "cache_managers c", OF settles_run]
  by (simp add: settles_def)

lemma cache_close_store: "length (ca_store (cache_close locked ck c)) = length (ca_store c)"
proof -
  have "length (ca_store (fold (\<lambda>p. run_manager p (manager_close ck)) ps c)) = length (ca_store c)" for ps c
    using settles_fold [of "\<lambda>p. run_manager p (manager_close ck)" c ps, OF settles_run] by (simp add: settles_def)
  then show ?thesis by (simp add: cache_close_def Let_def cache_retire_store)
qed

lemma session_shutdown_store:
  "length (ca_store (cs_managers (session_shutdown locked ck s))) = length (ca_store (cs_managers s))"
  by (simp add: session_shutdown_def cache_close_store cache_retire_store)

lemma sample_handover:
  obtains x s where "client_reachable {sample_surroundings} {sample_dialer} sample_runtime_env x"
    and "cw_past x = [s]" and "length (ca_store (cs_managers s)) = 1"
    and "\<not> ak_closed (cw_client x)"
    and "SessionReplaced \<in> set (ak_events (cw_client x))"
proof -
  obtain k r where k: "client_dispatch sample_surroundings sample_packet True None sample_atrust =
      (k, r :: (unit, unit, (unit, unit) manager_error) client_error + sent_flow)"
    "length (ca_store (cs_managers (ak_active k))) = 1" "\<not> ak_closed k" "ak_config k = sample_runtime_config"
    using sample_sent by blast
  let ?x1 = "sample_start\<lparr>cw_client := k\<rparr>"
  let ?x2 = "?x1\<lparr>cw_pending := sample_active (Some ''u'') # cw_pending ?x1\<rparr>"
  let ?gone = "session_shutdown (\<lambda>_. False) idle_clock (ak_active k)"
  let ?k = "k\<lparr>ak_epoch := ak_epoch k + 1, ak_active := sample_active (Some ''u''), ak_events := ak_events k @ [SessionReplaced]\<rparr>"
  let ?x3 = "\<lparr>cw_client = ?k, cw_pending = [] @ [], cw_past = ?gone # cw_past ?x2\<rparr>"
  note reach = client_reachable.stepped [where surr = "{sample_surroundings}" and dials = "{sample_dialer}" and env = sample_runtime_env]
  have "client_reachable {sample_surroundings} {sample_dialer} sample_runtime_env ?x1"
    using k(1) by (intro reach [OF sample_start_reachable] client_step.dispatch) simp_all
  moreover have "client_step {sample_surroundings} {sample_dialer} sample_runtime_env ?x1 ?x2"
    using sample_replacement [OF k(3,4)] by (intro client_step.prepare) simp
  moreover have "client_step {sample_surroundings} {sample_dialer} sample_runtime_env ?x2 ?x3"
    by (rule client_step.commit [where s = "sample_active (Some ''u'')" and locked = "\<lambda>_. False" and ck = idle_clock and r = "Inr ()"])
       (simp_all add: sample_start_def replace_commit_def k(3))
  ultimately have "client_reachable {sample_surroundings} {sample_dialer} sample_runtime_env ?x3" by (blast intro: reach)
  moreover have "length (ca_store (cs_managers ?gone)) = 1" using k(2) by (simp only: session_shutdown_store)
  ultimately show ?thesis by (intro that [of ?x3 ?gone]) (simp_all add: sample_start_def k(3))
qed


theorem shutdown_is_final_witness:
  "\<exists>x :: client_world. check_session (cw_client x) = (cw_client x, Inl ClientClosed :: (unit, unit, unit) client_error + unit)
     \<and> recv_ipv4 ''ng'' (cw_client x) = (cw_client x, None) \<and> cw_past x \<noteq> []"
proof -
  obtain x s where x: "client_reachable {sample_surroundings} {sample_dialer} sample_runtime_env x"
    and past: "cw_past x = [s]" by (rule sample_handover)
  let ?y = "x\<lparr>cw_client := client_shutdown (\<lambda>_. False) idle_clock (cw_client x)\<rparr>"
  have "client_reachable {sample_surroundings} {sample_dialer} sample_runtime_env ?y"
    by (rule client_reachable.stepped [OF x client_step.shutdown])
  moreover have "ak_closed (cw_client ?y)" by (simp add: client_shutdown_def)
  ultimately have "recv_ipv4 ''ng'' (cw_client ?y) = (cw_client ?y, None)" by (simp only: shutdown_is_final)
  moreover have "check_session (cw_client ?y) = (cw_client ?y, Inl ClientClosed :: (unit, unit, unit) client_error + unit)"
    by (simp add: check_session_def client_run_def run_gate_def client_shutdown_def session_shutdown_def)
  ultimately show ?thesis using past by (intro exI [of _ ?y]) simp
qed


end
