(* ===== verification/Udp_Packet.thy ===== *)
theory Udp_Packet
  imports Ipv4_Packet Async_Io
begin

unbundle bit_operations_syntax

text \<open>
  \<open>crates/atrust-net/src/udp.rs\<close>: UDP datagrams as IPv4 packets, with the Internet checksum, and
  the pool of source ports. An error is the kind of the \<open>io::Error\<close>; its message is left out. The
  sum of a checksum is kept at 32 bits; that it never wraps is part of what is shown. The
  connection that sends and receives such packets is in \<open>Net_Dial\<close>.
\<close>

section \<open>Definitions\<close>

record socket_v4 =
  sv_ip :: ipv4
  sv_port :: u16

fun sum_pairs :: "bytes \<Rightarrow> u32" where
  "sum_pairs [] = 0"
| "sum_pairs [a] = ucast (u16_from_be a 0)"
| "sum_pairs (a # b # rest) = ucast (u16_from_be a b) + sum_pairs rest"

lemma unat_low_half: "unat (s AND 65535 :: u32) = unat s mod 65536"
proof -
  have "s AND 65535 = take_bit 16 s" by (simp add: take_bit_eq_mask mask_eq_exp_minus_1)
  then show ?thesis by (simp add: take_bit_eq_mod unat_mod_distrib)
qed

lemma unat_high_half: "unat (drop_bit 16 s :: u32) = unat s div 65536"
  by (simp add: drop_bit_eq_div unat_div_distrib)

lemma unat_fold_step: "unat ((s AND 65535) + drop_bit 16 s :: u32) = unat s mod 65536 + unat s div 65536"
proof -
  have "unat s < 4294967296" using unsigned_less [of s] by simp
  then have "unat s mod 65536 + unat s div 65536 < 2 ^ 32" by auto
  then show ?thesis by (simp add: unat_word_ariths unat_low_half unat_high_half)
qed

lemma carry_shrinks: "65536 \<le> n \<Longrightarrow> n mod 65536 + n div 65536 < (n :: nat)"
proof -
  assume "65536 \<le> n"
  then have "0 < n div 65536" by (simp add: div_greater_zero_iff)
  then show ?thesis using div_mult_mod_eq [of n 65536] by linarith
qed

function fold_carry :: "u32 \<Rightarrow> u32" where
  "fold_carry s = (if 65535 < s then fold_carry ((s AND 65535) + drop_bit 16 s) else s)"
  by pat_completeness auto
termination
proof (relation "measure unat")
  fix s :: u32
  assume "65535 < s"
  then have "65536 \<le> unat s" by (simp add: word_less_nat_alt)
  then show "((s AND 65535) + drop_bit 16 s, s) \<in> measure unat"
    using carry_shrinks by (simp add: unat_fold_step)
qed simp

declare fold_carry.simps [simp del]

definition checksum :: "bytes \<Rightarrow> u16" where
  "checksum bs = NOT (ucast (fold_carry (sum_pairs bs)))"

definition udp_checksum :: "socket_v4 \<Rightarrow> socket_v4 \<Rightarrow> bytes \<Rightarrow> u16" where
  "udp_checksum source dest udp =
     checksum (octets (sv_ip source) @ octets (sv_ip dest) @ [0, 17] @ u16_to_be (word_of_nat (length udp)) @ udp)"

text \<open>The header and the datagram with empty checksum fields, which are then filled in.\<close>

definition udp_encode :: "socket_v4 \<Rightarrow> socket_v4 \<Rightarrow> bytes \<Rightarrow> io_error_kind + bytes" where
  "udp_encode source dest payload =
     (if length payload > 65507 then Inl InvalidInput
      else let ip = [0x45, 0] @ u16_to_be (word_of_nat (28 + length payload)) @ [0, 0, 0x40, 0, 64, 17, 0, 0]
                      @ octets (sv_ip source) @ octets (sv_ip dest);
               ip_checksum = checksum ip;
               udp = u16_to_be (sv_port source) @ u16_to_be (sv_port dest) @ u16_to_be (word_of_nat (8 + length payload))
                      @ [0, 0] @ payload;
               sum = udp_checksum source dest udp
           in Inr (take 10 ip @ u16_to_be ip_checksum @ drop 12 ip
                   @ take 6 udp @ u16_to_be (if sum = 0 then 65535 else sum) @ drop 8 udp))"

definition udp_decode :: "bytes \<Rightarrow> socket_v4 \<Rightarrow> socket_v4 \<Rightarrow> io_error_kind + bytes" where
  "udp_decode packet source dest =
     (case parse_ipv4_flow packet of
        Inl e \<Rightarrow> Inl OtherKind
      | Inr flow \<Rightarrow>
          let ihl = unat (packet ! 0 AND 15) * 4 in
          if length packet < ihl + 8 \<or> packet ! 9 \<noteq> 17
             \<or> fl_src_addr flow \<noteq> sv_ip source \<or> fl_dst_addr flow \<noteq> sv_ip dest
             \<or> fl_src_port flow \<noteq> sv_port source \<or> fl_dst_port flow \<noteq> sv_port dest
             \<or> unat (u16_from_be (packet ! 2) (packet ! 3)) \<noteq> length packet
             \<or> checksum (take ihl packet) \<noteq> 0
          then Inl InvalidData
          else let udp = drop ihl packet in
            if unat (u16_from_be (udp ! 4) (udp ! 5)) \<noteq> length udp
               \<or> slice udp 6 8 \<noteq> [0, 0] \<and> udp_checksum source dest udp \<noteq> 0
            then Inl InvalidData
            else Inr (drop 8 udp))"

text \<open>The leased source ports; a lease ends when its connection is dropped.\<close>

definition UDP_PORTS :: "u16 list" where
  "UDP_PORTS = map word_of_nat [49152..<65536]"

definition port_allocate :: "u16 list \<Rightarrow> io_error_kind + u16 \<times> u16 list" where
  "port_allocate used =
     (case find (\<lambda>p. p \<notin> set used) UDP_PORTS of
        Some p \<Rightarrow> Inr (p, p # used)
      | None \<Rightarrow> Inl AddrInUse)"

definition port_release :: "u16 \<Rightarrow> u16 list \<Rightarrow> u16 list" where
  "port_release p used = remove1 p used"

section \<open>The checksum\<close>

text \<open>The same sum without a bound.\<close>

fun word_sum :: "bytes \<Rightarrow> nat" where
  "word_sum [] = 0"
| "word_sum [a] = 256 * unat a"
| "word_sum (a # b # rest) = 256 * unat a + unat b + word_sum rest"

lemma unat_byte_le: "unat (b :: byte) \<le> 255"
  using unat_byte_less [of b] by linarith

lemma word_sum_bound: "word_sum bs \<le> 65535 * ((length bs + 1) div 2)"
proof (induction bs rule: word_sum.induct)
  case (2 a)
  show ?case using unat_byte_le [of a] by simp
next
  case (3 a b rest)
  show ?case using 3 unat_byte_le [of a] unat_byte_le [of b] by simp
qed simp

lemma word_sum_append: "even (length xs) \<Longrightarrow> word_sum (xs @ ys) = word_sum xs + word_sum ys"
  by (induction xs rule: word_sum.induct) simp_all

lemma unat_widen: "unat (ucast (w :: u16) :: u32) = unat w"
  by (simp add: unsigned_ucast_eq take_bit_nat_eq_self less_trans [OF unat_u16_less])

lemma unat_narrow: "unat w \<le> 65535 \<Longrightarrow> unat (ucast (w :: u32) :: u16) = unat w"
  by (simp add: unsigned_ucast_eq take_bit_nat_eq_self)

lemma unat_sum_pairs: "length bs \<le> 131000 \<Longrightarrow> unat (sum_pairs bs) = word_sum bs"
proof (induction bs rule: sum_pairs.induct)
  case (2 a)
  show ?case by (simp add: unat_widen unat_u16_from_be)
next
  case (3 a b rest)
  have "word_sum (a # b # rest) \<le> 65535 * ((length (a # b # rest) + 1) div 2)" by (rule word_sum_bound)
  also have "\<dots> < 2 ^ 32" using 3(2) by simp
  finally show ?case using 3 by (simp add: unat_word_ariths unat_widen unat_u16_from_be)
qed simp

text \<open>Folding the carries keeps the sum modulo \<open>65535\<close> and never turns a positive sum into zero.\<close>

lemma fold_carry_spec:
  "unat (fold_carry s) \<le> 65535 \<and> unat (fold_carry s) mod 65535 = unat s mod 65535 \<and> (fold_carry s = 0 \<longleftrightarrow> s = 0)"
proof (induction s rule: fold_carry.induct)
  case (1 s)
  show ?case
  proof (cases "65535 < s")
    case True
    let ?t = "(s AND 65535) + drop_bit 16 s"
    have "unat s = 65535 * (unat s div 65536) + (unat s mod 65536 + unat s div 65536)"
      using div_mult_mod_eq [of "unat s" 65536] by linarith
    then have "unat ?t mod 65535 = unat s mod 65535" unfolding unat_fold_step by (metis mod_mult_self4)
    moreover have "?t \<noteq> 0"
    proof
      assume "?t = 0"
      then have "unat s mod 65536 + unat s div 65536 = 0" using unat_fold_step [of s] by simp
      then have "unat s = 0" using div_mult_mod_eq [of "unat s" 65536] by auto
      with True show False by (simp add: word_less_nat_alt)
    qed
    moreover have "s \<noteq> 0" using True by auto
    moreover have "fold_carry s = fold_carry ?t" using True by (subst fold_carry.simps) simp
    ultimately show ?thesis using "1.IH" [OF True] by simp
  next
    case False
    then have "fold_carry s = s" by (subst fold_carry.simps) simp
    with False show ?thesis by (simp add: word_less_nat_alt)
  qed
qed

lemma sum_residue: "a < 65536 \<Longrightarrow> b < 65536 \<Longrightarrow> (a + b) mod 65536 = 65535 \<Longrightarrow> a + b = (65535 :: nat)"
  by (cases "a + b < 65536") (simp_all add: le_mod_geq)

lemma unat_not: "unat (NOT w :: u16) = 65535 - unat w"
proof -
  have "NOT w + w = 65535" by (simp add: not_eq_complement)
  then have "unat (NOT w + w) = 65535" by simp
  then have "(unat (NOT w) + unat w) mod 65536 = 65535" by (simp only: unat_word_ariths) simp
  then have "unat (NOT w) + unat w = 65535" by (rule sum_residue [OF unat_u16_less unat_u16_less])
  then show ?thesis by linarith
qed

lemma top_residue: "f \<le> 65535 \<Longrightarrow> f = 65535 \<longleftrightarrow> 0 < f \<and> f mod 65535 = (0 :: nat)"
  by (cases "f = 65535") auto

lemma checksum_value:
  assumes "length bs \<le> 131000"
  shows "(unat (checksum bs) + word_sum bs) mod 65535 = 0"
    and "checksum bs = 0 \<longleftrightarrow> 0 < word_sum bs \<and> word_sum bs mod 65535 = 0"
proof -
  let ?f = "unat (fold_carry (sum_pairs bs))"
  have f: "?f \<le> 65535" "?f mod 65535 = word_sum bs mod 65535" "?f = 0 \<longleftrightarrow> word_sum bs = 0"
    using fold_carry_spec [of "sum_pairs bs"] unat_sum_pairs [OF assms] by (auto simp: unat_eq_0)
  have c: "unat (checksum bs) = 65535 - ?f"
    using f(1) by (simp add: checksum_def unat_not unat_narrow)
  have "(unat (checksum bs) + word_sum bs) mod 65535 = (unat (checksum bs) + ?f) mod 65535"
    using f(2) by (metis mod_add_right_eq)
  then show "(unat (checksum bs) + word_sum bs) mod 65535 = 0" using c f(1) by simp
  have "checksum bs = 0 \<longleftrightarrow> ?f = 65535" using c f(1) by (simp add: unat_eq_0 [symmetric] del: unat_eq_0)
  also have "\<dots> \<longleftrightarrow> 0 < ?f \<and> ?f mod 65535 = 0" using top_residue [OF f(1)] .
  also have "\<dots> \<longleftrightarrow> 0 < word_sum bs \<and> word_sum bs mod 65535 = 0" unfolding f(2) using f(3) by auto
  finally show "checksum bs = 0 \<longleftrightarrow> 0 < word_sum bs \<and> word_sum bs mod 65535 = 0" .
qed

section \<open>Packets\<close>

lemma u16_bytes:
  obtains a b where "u16_to_be w = [a, b]" "u16_from_be a b = w"
  by (metis u16_from_to_be u16_to_be_nth length_u16_to_be list_split4 u16_to_be_def)

lemma u16_zero: "u16_to_be w = [0, 0] \<longleftrightarrow> w = 0"
proof -
  have "u16_to_be 0 = [0, 0]" by (simp add: u16_to_be_def)
  then show ?thesis by (metis u16_to_be_inject)
qed

lemma word_sum_be [simp]: "word_sum (u16_to_be w) = unat w"
proof -
  obtain a b where "u16_to_be w = [a, b]" "u16_from_be a b = w" by (rule u16_bytes)
  then show ?thesis using unat_u16_from_be [of a b] by simp
qed

text \<open>Filling the field makes the checksum of the whole vanish.\<close>

lemma checksum_filled:
  assumes "even (length xs)" "length xs + length ys \<le> 130000" "0 < word_sum (xs @ [0, 0] @ ys)"
    and "(unat c + word_sum (xs @ [0, 0] @ ys)) mod 65535 = 0"
  shows "checksum (xs @ u16_to_be c @ ys) = 0"
proof -
  have "word_sum (xs @ u16_to_be c @ ys) = unat c + word_sum (xs @ [0, 0] @ ys)"
    by (simp add: word_sum_append assms(1))
  then show ?thesis using assms(2-4) checksum_value(2) [of "xs @ u16_to_be c @ ys"] by simp
qed

definition ip_bytes :: "socket_v4 \<Rightarrow> socket_v4 \<Rightarrow> nat \<Rightarrow> bytes \<Rightarrow> bytes" where
  "ip_bytes source dest n c = ([0x45, 0] @ u16_to_be (word_of_nat n) @ [0, 0, 0x40, 0, 64, 17]) @ c
     @ octets (sv_ip source) @ octets (sv_ip dest)"

definition udp_bytes :: "socket_v4 \<Rightarrow> socket_v4 \<Rightarrow> bytes \<Rightarrow> bytes \<Rightarrow> bytes" where
  "udp_bytes source dest c payload =
     (u16_to_be (sv_port source) @ u16_to_be (sv_port dest) @ u16_to_be (word_of_nat (8 + length payload))) @ c @ payload"

definition pseudo_bytes :: "socket_v4 \<Rightarrow> socket_v4 \<Rightarrow> nat \<Rightarrow> bytes" where
  "pseudo_bytes source dest n = octets (sv_ip source) @ octets (sv_ip dest) @ [0, 17] @ u16_to_be (word_of_nat n)"

text \<open>What the encoder writes, with both checksums in place.\<close>

definition ip_sum :: "socket_v4 \<Rightarrow> socket_v4 \<Rightarrow> nat \<Rightarrow> u16" where
  "ip_sum source dest n = checksum (ip_bytes source dest n [0, 0])"

definition udp_sum :: "socket_v4 \<Rightarrow> socket_v4 \<Rightarrow> bytes \<Rightarrow> u16" where
  "udp_sum source dest payload =
     (let sum = udp_checksum source dest (udp_bytes source dest [0, 0] payload) in if sum = 0 then 65535 else sum)"

lemma udp_encode_bytes:
  "length payload \<le> 65507 \<Longrightarrow> udp_encode source dest payload =
     Inr (ip_bytes source dest (28 + length payload) (u16_to_be (ip_sum source dest (28 + length payload)))
          @ udp_bytes source dest (u16_to_be (udp_sum source dest payload)) payload)"
  by (simp add: udp_encode_def Let_def ip_bytes_def udp_bytes_def ip_sum_def udp_sum_def)

lemma ip_sum_ok: "checksum (ip_bytes source dest n (u16_to_be (ip_sum source dest n))) = 0"
proof -
  let ?xs = "[0x45, 0] @ u16_to_be (word_of_nat n) @ [0, 0, 0x40, 0, 64, 17]"
  have "word_sum (?xs @ [0, 0] @ octets (sv_ip source) @ octets (sv_ip dest)) \<ge> 256 * 0x45" by simp
  then show ?thesis
    using checksum_value(1) [of "ip_bytes source dest n [0, 0]"]
    unfolding ip_bytes_def ip_sum_def by (intro checksum_filled) simp_all
qed

lemma udp_sum_ok:
  assumes "length payload \<le> 65507"
  shows "udp_checksum source dest (udp_bytes source dest (u16_to_be (udp_sum source dest payload)) payload) = 0"
    and "udp_sum source dest payload \<noteq> 0"
proof -
  let ?ports = "u16_to_be (sv_port source) @ u16_to_be (sv_port dest) @ u16_to_be (word_of_nat (8 + length payload))"
  let ?xs = "pseudo_bytes source dest (8 + length payload) @ ?ports"
  let ?sum = "udp_checksum source dest (udp_bytes source dest [0, 0] payload)"
  have pseudo: "udp_checksum source dest (udp_bytes source dest (u16_to_be c) payload) = checksum (?xs @ u16_to_be c @ payload)"
    "?sum = checksum (?xs @ [0, 0] @ payload)" for c
    by (simp_all add: udp_checksum_def udp_bytes_def pseudo_bytes_def)
  have "(unat ?sum + word_sum (?xs @ [0, 0] @ payload)) mod 65535 = 0"
    unfolding pseudo by (rule checksum_value(1)) (use assms in \<open>simp add: pseudo_bytes_def\<close>)
  then have "(unat (udp_sum source dest payload) + word_sum (?xs @ [0, 0] @ payload)) mod 65535 = 0"
    by (auto simp: udp_sum_def Let_def)
  moreover have "0 < word_sum (?xs @ [0, 0] @ payload)" by (simp add: pseudo_bytes_def word_sum_append)
  ultimately show "udp_checksum source dest (udp_bytes source dest (u16_to_be (udp_sum source dest payload)) payload) = 0"
    unfolding pseudo using assms by (intro checksum_filled) (simp_all add: pseudo_bytes_def)
  show "udp_sum source dest payload \<noteq> 0" by (simp add: udp_sum_def Let_def)
qed

lemma packet_flow:
  fixes n :: nat
  assumes "length c = 2" "length udp \<ge> 8"
    and "take 4 udp = u16_to_be (sv_port source) @ u16_to_be (sv_port dest)"
    and packet_def: "packet = ip_bytes source dest n c @ udp"
  shows "parse_ipv4_flow packet = Inr \<lparr>fl_protocol = Udp, fl_src_addr = sv_ip source, fl_src_port = sv_port source,
      fl_dst_addr = sv_ip dest, fl_dst_port = sv_port dest\<rparr>"
    and "packet ! 0 AND 15 = 5" "packet ! 9 = 17" "take 20 packet = ip_bytes source dest n c" "drop 20 packet = udp"
    "u16_from_be (packet ! 2) (packet ! 3) = word_of_nat n"
proof -
  obtain c1 c2 where c: "c = [c1, c2]" using assms(1) by (auto simp: length_Suc_conv numeral_2_eq_2)
  obtain n1 n2 where n: "u16_to_be (word_of_nat n :: u16) = [n1, n2]" "u16_from_be n1 n2 = word_of_nat n" by (rule u16_bytes)
  obtain s1 s2 where s: "u16_to_be (sv_port source) = [s1, s2]" "u16_from_be s1 s2 = sv_port source" by (rule u16_bytes)
  obtain d1 d2 where d: "u16_to_be (sv_port dest) = [d1, d2]" "u16_from_be d1 d2 = sv_port dest" by (rule u16_bytes)
  obtain rest where udp: "udp = [s1, s2, d1, d2] @ rest"
    using append_take_drop_id [of 4 udp] assms(3) s(1) d(1) by (metis append_Cons append_Nil)
  obtain a1 a2 a3 a4 where a: "sv_ip source = Ipv4 a1 a2 a3 a4" by (cases "sv_ip source") auto
  obtain b1 b2 b3 b4 where b: "sv_ip dest = Ipv4 b1 b2 b3 b4" by (cases "sv_ip dest") auto
  have p: "packet = [0x45, 0, n1, n2, 0, 0, 0x40, 0, 64, 17, c1, c2, a1, a2, a3, a4, b1, b2, b3, b4, s1, s2, d1, d2] @ rest"
    by (simp add: packet_def ip_bytes_def c n(1) udp a b)
  have "u16_from_be 0x40 0 = 0x4000" by (simp add: u16_from_be_def)
  then show "parse_ipv4_flow packet = Inr \<lparr>fl_protocol = Udp, fl_src_addr = sv_ip source, fl_src_port = sv_port source,
      fl_dst_addr = sv_ip dest, fl_dst_port = sv_port dest\<rparr>"
    using s(2) d(2) by (simp add: p parse_ipv4_flow_def MIN_IPV4_HEADER_def Let_def packet_ports_def protocol_from_u8_def a b)
  show "packet ! 0 AND 15 = 5" "packet ! 9 = 17" by (simp_all add: p)
  show "take 20 packet = ip_bytes source dest n c" "drop 20 packet = udp"
    by (simp_all add: packet_def ip_bytes_def c)
  show "u16_from_be (packet ! 2) (packet ! 3) = word_of_nat n" using n(2) by (simp add: p)
qed

lemma udp_bytes_fields:
  assumes "length c = 2" "length payload \<le> 65507"
  shows "length (udp_bytes source dest c payload) = 8 + length payload"
    "take 4 (udp_bytes source dest c payload) = u16_to_be (sv_port source) @ u16_to_be (sv_port dest)"
    "unat (u16_from_be (udp_bytes source dest c payload ! 4) (udp_bytes source dest c payload ! 5)) = 8 + length payload"
    "slice (udp_bytes source dest c payload) 6 8 = c" "drop 8 (udp_bytes source dest c payload) = payload"
proof -
  obtain c1 c2 where c: "c = [c1, c2]" using assms(1) by (auto simp: length_Suc_conv numeral_2_eq_2)
  obtain l1 l2 where l: "u16_to_be (word_of_nat (8 + length payload) :: u16) = [l1, l2]"
    "u16_from_be l1 l2 = word_of_nat (8 + length payload)" by (rule u16_bytes)
  obtain s1 s2 where s: "u16_to_be (sv_port source) = [s1, s2]" by (rule u16_bytes)
  obtain d1 d2 where d: "u16_to_be (sv_port dest) = [d1, d2]" by (rule u16_bytes)
  have u: "udp_bytes source dest c payload = [s1, s2, d1, d2, l1, l2, c1, c2] @ payload"
    unfolding udp_bytes_def c l(1) s d by simp
  have "unat (word_of_nat (8 + length payload) :: u16) = 8 + length payload" using assms(2) by (intro unat_of_nat_u16) simp
  then show "unat (u16_from_be (udp_bytes source dest c payload ! 4) (udp_bytes source dest c payload ! 5)) = 8 + length payload"
    unfolding u using l(2) by simp
  show "length (udp_bytes source dest c payload) = 8 + length payload"
    "take 4 (udp_bytes source dest c payload) = u16_to_be (sv_port source) @ u16_to_be (sv_port dest)"
    "slice (udp_bytes source dest c payload) 6 8 = c" "drop 8 (udp_bytes source dest c payload) = payload"
    unfolding u by (simp_all add: slice_def c s d)
qed

lemma udp_decode_plain:
  assumes "parse_ipv4_flow packet = Inr flow" "packet ! 0 AND 15 = 5" "packet ! 9 = 17" "checksum (take 20 packet) = 0"
    "unat (u16_from_be (packet ! 2) (packet ! 3)) = length packet" "28 \<le> length packet" "drop 20 packet = udp"
    "unat (u16_from_be (udp ! 4) (udp ! 5)) = length udp" "slice udp 6 8 \<noteq> [0, 0]"
  shows "udp_decode packet s d =
    (if fl_src_addr flow = sv_ip s \<and> fl_dst_addr flow = sv_ip d \<and> fl_src_port flow = sv_port s \<and> fl_dst_port flow = sv_port d
        \<and> udp_checksum s d udp = 0 then Inr (drop 8 udp) else Inl InvalidData)"
  using assms by (simp add: udp_decode_def Let_def)

section \<open>Corruption\<close>

definition byte_weight :: "nat \<Rightarrow> nat" where
  "byte_weight i = (if even i then 256 else 1)"

lemma weight_cases: "byte_weight i = 256 \<or> byte_weight i = 1"
  by (simp add: byte_weight_def)

lemma word_sum_update:
  "i < length bs \<Longrightarrow> word_sum (bs[i := v]) + byte_weight i * unat (bs ! i) = word_sum bs + byte_weight i * unat v"
proof (induction bs arbitrary: i rule: word_sum.induct)
  case (3 a b rest)
  consider "i = 0" | "i = 1" | j where "i = Suc (Suc j)" by (cases i; cases "i - 1") auto
  then show ?case
  proof cases
    case 3
    have "byte_weight i = byte_weight j" by (simp add: 3 byte_weight_def)
    then show ?thesis using "3.IH" [of j] "3.prems" by (simp add: 3)
  qed (simp_all add: byte_weight_def)
qed (simp_all add: byte_weight_def)

lemma residues_differ:
  fixes x y w a b :: nat
  assumes "x + w * a = y + w * b" "a \<noteq> b" "a \<le> 255" "b \<le> 255" "w = 256 \<or> w = 1" "y mod 65535 = 0"
  shows "x mod 65535 \<noteq> 0"
proof
  assume "x mod 65535 = 0"
  then have "65535 dvd x" "65535 dvd y" using assms(6) by auto
  then have "(65535 :: int) dvd int x - int y" by (metis dvd_diff int_dvd_int_iff of_nat_numeral)
  moreover have d: "int x - int y = int w * (int b - int a)"
    using arg_cong [OF assms(1), of int] by (simp add: algebra_simps)
  ultimately have "(65535 :: int) dvd int w * (int b - int a)" by simp
  moreover have "\<bar>int w * (int b - int a)\<bar> < 65535" "int w * (int b - int a) \<noteq> 0" using assms(2-5) by auto
  ultimately show False using zdvd_not_zless by (metis abs_ge_zero abs_0_eq dvd_abs_iff order_le_less)
qed

lemma changed_checksum:
  assumes "checksum (xs @ bs) = 0" "even (length xs)" "length xs + length bs \<le> 131000" "i < length bs" "v \<noteq> bs ! i"
  shows "checksum (xs @ bs[i := v]) \<noteq> 0"
proof -
  have "word_sum (xs @ bs) mod 65535 = 0" using assms(1,3) checksum_value(2) [of "xs @ bs"] by simp
  moreover have "word_sum (xs @ bs[i := v]) + byte_weight i * unat (bs ! i) = word_sum (xs @ bs) + byte_weight i * unat v"
    using word_sum_update [OF assms(4), of v] by (simp add: word_sum_append assms(2))
  ultimately have "word_sum (xs @ bs[i := v]) mod 65535 \<noteq> 0"
    using assms(5) by (intro residues_differ [OF _ _ _ _ weight_cases]) (auto simp: unat_byte_le)
  then show ?thesis using assms(3) checksum_value(2) [of "xs @ bs[i := v]"] by simp
qed

lemma udp_decode_filled:
  fixes payload source dest
  assumes "length payload \<le> 65507" and q: "length q = length payload"
  shows "udp_decode (ip_bytes source dest (28 + length payload) (u16_to_be (ip_sum source dest (28 + length payload)))
        @ udp_bytes source dest (u16_to_be (udp_sum source dest payload)) q) s d =
      (if (s, d) = (source, dest) \<and> udp_checksum source dest (udp_bytes source dest (u16_to_be (udp_sum source dest payload)) q) = 0
       then Inr q else Inl InvalidData)"
proof -
  let ?n = "28 + length payload" and ?c = "u16_to_be (udp_sum source dest payload)"
  let ?udp = "udp_bytes source dest ?c" and ?ip = "ip_bytes source dest ?n (u16_to_be (ip_sum source dest ?n))"
  have c: "length ?c = 2" by simp
  have le: "length q \<le> 65507" using q assms by simp
  note u = udp_bytes_fields [OF c le, of source dest]
  have "unat (word_of_nat ?n :: u16) = ?n" using assms by (intro unat_of_nat_u16) simp
  then have n: "unat (u16_from_be ((?ip @ ?udp q) ! 2) ((?ip @ ?udp q) ! 3)) = ?n"
    using packet_flow(6) [of "u16_to_be (ip_sum source dest ?n)" "?udp q" source dest _ ?n] u(1,2) by simp
  note p = packet_flow [of "u16_to_be (ip_sum source dest ?n)" "?udp q" source dest _ ?n, OF _ _ u(2) refl]
  have len: "length (?ip @ ?udp q) = ?n" using u(1) q by (simp add: ip_bytes_def)
  have eq: "(s, d) = (source, dest) \<longleftrightarrow>
      sv_ip source = sv_ip s \<and> sv_ip dest = sv_ip d \<and> sv_port source = sv_port s \<and> sv_port dest = sv_port d"
    by (metis socket_v4.equality old.unit.exhaust prod.inject)
  have "udp_decode (?ip @ ?udp q) s d =
    (if sv_ip source = sv_ip s \<and> sv_ip dest = sv_ip d \<and> sv_port source = sv_port s \<and> sv_port dest = sv_port d
      \<and> udp_checksum s d (?udp q) = 0 then Inr (drop 8 (?udp q)) else Inl InvalidData)"
    by (subst udp_decode_plain [OF p(1-3)])
       (use u(1) p(4,5) ip_sum_ok n len u(3,4) udp_sum_ok(2) [OF assms(1), of source dest] in \<open>simp_all add: u16_zero\<close>)
  then show ?thesis using eq by (auto simp: u(5))
qed

lemma udp_datagram_decodes:
  assumes "length payload \<le> 65507"
  shows "\<exists>packet. udp_encode source dest payload = Inr packet \<and> udp_decode packet source dest = Inr payload"
  using udp_encode_bytes [OF assms, of source dest] udp_decode_filled [OF assms refl] udp_sum_ok(1) [OF assms, of source dest]
  by simp

lemma udp_encoded_flow:
  assumes "length payload \<le> 65507"
  shows "\<exists>packet. udp_encode source dest payload = Inr packet
    \<and> parse_ipv4_flow packet = Inr \<lparr>fl_protocol = Udp, fl_src_addr = sv_ip source, fl_src_port = sv_port source,
        fl_dst_addr = sv_ip dest, fl_dst_port = sv_port dest\<rparr>"
proof -
  let ?c = "u16_to_be (udp_sum source dest payload)"
  have "length ?c = 2" by simp
  note fields = udp_bytes_fields(1,2) [OF this assms, of source dest]
  have "parse_ipv4_flow (ip_bytes source dest (28 + length payload) (u16_to_be (ip_sum source dest (28 + length payload)))
      @ udp_bytes source dest ?c payload) = Inr \<lparr>fl_protocol = Udp, fl_src_addr = sv_ip source,
      fl_src_port = sv_port source, fl_dst_addr = sv_ip dest, fl_dst_port = sv_port dest\<rparr>"
    using fields by (intro packet_flow(1) [OF _ _ _ refl]) simp_all
  then show ?thesis using udp_encode_bytes [OF assms, of source dest] by simp
qed

text \<open>A lease is never given out twice.\<close>

lemma port_allocate_fresh:
  assumes "port_allocate used = Inr (p, used')"
  shows "p \<notin> set used \<and> used' = p # used \<and> 49152 \<le> unat p"
proof -
  from assms have "find (\<lambda>q. q \<notin> set used) UDP_PORTS = Some p" and used': "used' = p # used"
    by (auto simp: port_allocate_def split: option.splits)
  from find_SomeD [OF this(1)] have "p \<notin> set used" "p \<in> word_of_nat ` {49152..<65536}"
    by (simp_all only: UDP_PORTS_def set_map set_upt simp_thms)
  then show ?thesis using used' by auto
qed

section \<open>Properties\<close>

text \<open>
  C26: A datagram survives the trip through the tunnel and nothing else does. For every payload that
  fits, the encoder writes a packet that the packet parser reads as the flow from \<open>source\<close> to
  \<open>dest\<close>, and the decoder at the other end returns the payload; it refuses the packet under any
  other pair of endpoints, and refuses it when any byte of the payload has changed.
\<close>

theorem udp_datagram_roundtrip:
  assumes "length payload \<le> 65507"
  shows "\<exists>packet. udp_encode source dest payload = Inr packet \<and> length packet = 28 + length payload
    \<and> parse_ipv4_flow packet = Inr \<lparr>fl_protocol = Udp, fl_src_addr = sv_ip source, fl_src_port = sv_port source,
        fl_dst_addr = sv_ip dest, fl_dst_port = sv_port dest\<rparr>
    \<and> udp_decode packet source dest = Inr payload
    \<and> (\<forall>s d. (s, d) \<noteq> (source, dest) \<longrightarrow> udp_decode packet s d = Inl InvalidData)
    \<and> (\<forall>i v. i < length payload \<longrightarrow> v \<noteq> payload ! i \<longrightarrow> udp_decode (packet[28 + i := v]) source dest = Inl InvalidData)"
proof -
  let ?n = "28 + length payload" and ?c = "u16_to_be (udp_sum source dest payload)"
  let ?udp = "udp_bytes source dest ?c" and ?ip = "ip_bytes source dest ?n (u16_to_be (ip_sum source dest ?n))"
  have c: "length ?c = 2" by simp
  note decode = udp_decode_filled [OF assms]
  have "udp_checksum source dest (?udp (payload[i := v])) \<noteq> 0" if "i < length payload" "v \<noteq> payload ! i" for i v
  proof -
    let ?xs = "pseudo_bytes source dest (8 + length payload) @ u16_to_be (sv_port source) @ u16_to_be (sv_port dest)
      @ u16_to_be (word_of_nat (8 + length payload)) @ ?c"
    have eq: "udp_checksum source dest (?udp q) = checksum (?xs @ q)" if "length q = length payload" for q
      using that by (simp add: udp_checksum_def udp_bytes_def pseudo_bytes_def)
    show ?thesis
      using changed_checksum [of ?xs payload i v] that assms udp_sum_ok(1) [OF assms, of source dest]
      by (simp add: eq pseudo_bytes_def)
  qed
  moreover have "(?ip @ ?udp payload)[28 + i := v] = ?ip @ ?udp (payload[i := v])" if "i < length payload" for i v
    by (simp add: ip_bytes_def udp_bytes_def list_update_append)
  moreover have "parse_ipv4_flow (?ip @ ?udp payload) = Inr \<lparr>fl_protocol = Udp, fl_src_addr = sv_ip source,
      fl_src_port = sv_port source, fl_dst_addr = sv_ip dest, fl_dst_port = sv_port dest\<rparr>"
    using udp_encoded_flow [OF assms, of source dest] udp_encode_bytes [OF assms, of source dest] by simp
  moreover have "length (?ip @ ?udp payload) = ?n" using udp_bytes_fields(1) [OF c assms] by (simp add: ip_bytes_def)
  ultimately show ?thesis
    using udp_encode_bytes [OF assms, of source dest] decode udp_sum_ok(1) [OF assms, of source dest]
    by (intro exI [of _ "?ip @ ?udp payload"]) simp
qed

theorem udp_datagram_roundtrip_witness:
  "\<exists>packet. udp_encode \<lparr>sv_ip = Ipv4 10 0 0 1, sv_port = 49152\<rparr> \<lparr>sv_ip = Ipv4 10 0 0 2, sv_port = 53\<rparr> [1, 2, 3] = Inr packet
     \<and> udp_decode packet \<lparr>sv_ip = Ipv4 10 0 0 1, sv_port = 49152\<rparr> \<lparr>sv_ip = Ipv4 10 0 0 2, sv_port = 53\<rparr> = Inr [1, 2, 3]
     \<and> udp_decode (packet[28 + 1 := 9]) \<lparr>sv_ip = Ipv4 10 0 0 1, sv_port = 49152\<rparr> \<lparr>sv_ip = Ipv4 10 0 0 2, sv_port = 53\<rparr>
         = Inl InvalidData"
proof -
  obtain packet where p: "udp_encode \<lparr>sv_ip = Ipv4 10 0 0 1, sv_port = 49152\<rparr> \<lparr>sv_ip = Ipv4 10 0 0 2, sv_port = 53\<rparr> [1, 2, 3] = Inr packet"
    "udp_decode packet \<lparr>sv_ip = Ipv4 10 0 0 1, sv_port = 49152\<rparr> \<lparr>sv_ip = Ipv4 10 0 0 2, sv_port = 53\<rparr> = Inr [1, 2, 3]"
    and bad: "\<And>i v. i < length [1, 2, 3 :: byte] \<Longrightarrow> v \<noteq> [1, 2, 3] ! i \<Longrightarrow>
      udp_decode (packet[28 + i := v]) \<lparr>sv_ip = Ipv4 10 0 0 1, sv_port = 49152\<rparr> \<lparr>sv_ip = Ipv4 10 0 0 2, sv_port = 53\<rparr> = Inl InvalidData"
    using udp_datagram_roundtrip [of "[1, 2, 3]" "\<lparr>sv_ip = Ipv4 10 0 0 1, sv_port = 49152\<rparr>" "\<lparr>sv_ip = Ipv4 10 0 0 2, sv_port = 53\<rparr>"]
    by auto
  show ?thesis using p bad [of 1 9] by (intro exI [of _ packet]) simp
qed

end
