(* ===== verification/Net_Resolver.thy ===== *)
theory Net_Resolver
  imports Client_Correctness Dns_Wire Udp_Packet
begin

text \<open>
  \<open>crates/atrust-net/src/lib.rs\<close> (errors, destinations, the stack interface) and
  \<open>crates/atrust-net/src/resolve.rs\<close>: the policy-aware resolver. Times and lifetimes are in
  milliseconds. An error is the kind of the \<open>io::Error\<close>.

  Other tasks change the client while a lookup waits, so an operation reads it through a view:
  \<open>v i\<close> is the client at its \<open>i\<close>-th reading, and \<open>t i\<close> the clock at its \<open>i\<close>-th reading. The
  network stack and the DNS exchange act on a state of any type. An exchange that does not finish
  is cut off by its timeout: a UDP query then answers an error, and the deadline of a lookup says
  during which server it struck.
\<close>

section \<open>Definitions\<close>

subsection \<open>Errors and destinations\<close>

fun net_io_error :: "('ae, 'te, 'me) client_error \<Rightarrow> io_error_kind" where
  "net_io_error (Unauthorized d s) = PermissionDenied"
| "net_io_error AuthenticationRequired = PermissionDenied"
| "net_io_error ClientClosed = ConnectionReset"
| "net_io_error L3StackRequired = Unsupported"
| "net_io_error e = OtherKind"

primrec dns_error_kind :: "dns_error \<Rightarrow> io_error_kind" where
  "dns_error_kind DnsInvalid = InvalidData"
| "dns_error_kind DnsHostname = InvalidInput"
| "dns_error_kind DnsRejected = NotFound"
| "dns_error_kind DnsNoAnswer = AddrNotAvailable"

record net_destination =
  nd_host :: string
  nd_address :: ipv4
  nd_port :: u16
  nd_domain_resource :: bool
  nd_resource :: matched_resource

record ('n, 's, 'd) network_stack =
  ns_dial_tcp :: "net_destination \<Rightarrow> 'n \<Rightarrow> (io_error_kind + 's) \<times> 'n"
  ns_dial_udp :: "net_destination \<Rightarrow> 'n \<Rightarrow> (io_error_kind + 'd) \<times> 'n"

text \<open>The operations of the connections a stack hands out: \<open>ByteStream\<close> and \<open>Datagram\<close>.\<close>

record ('n, 's, 'd) connection_ops =
  co_write_all :: "bytes \<Rightarrow> 's \<Rightarrow> 'n \<Rightarrow> (io_error_kind + 's) \<times> 'n"
  co_flush :: "'s \<Rightarrow> 'n \<Rightarrow> (io_error_kind + 's) \<times> 'n"
  co_read_exact :: "nat \<Rightarrow> 's \<Rightarrow> 'n \<Rightarrow> (io_error_kind + bytes \<times> 's) \<times> 'n"
  co_send :: "bytes \<Rightarrow> 'd \<Rightarrow> 'n \<Rightarrow> (io_error_kind + unit) \<times> 'n"
  co_recv :: "'d \<Rightarrow> 'n \<Rightarrow> (io_error_kind + bytes) \<times> 'n"
  co_drop :: "'d \<Rightarrow> 'n \<Rightarrow> 'n"

text \<open>The question mark operator on a step that changes the state.\<close>

definition io_then ::
  "(io_error_kind + 'a) \<times> 'n \<Rightarrow> ('a \<Rightarrow> 'n \<Rightarrow> (io_error_kind + 'b) \<times> 'n) \<Rightarrow> (io_error_kind + 'b) \<times> 'n" where
  "io_then r f = (case r of (Inl e, n) \<Rightarrow> (Inl e, n) | (Inr a, n) \<Rightarrow> f a n)"

subsection \<open>Queries through the stack\<close>

definition stack_dns_query ::
  "atrust_client \<Rightarrow> ('n, 's, 'd) network_stack \<Rightarrow> ('n, 's, 'd) connection_ops \<Rightarrow> socket_v4 \<Rightarrow> bytes \<Rightarrow> bool \<Rightarrow> 'n
    \<Rightarrow> (io_error_kind + bytes) \<times> 'n" where
  "stack_dns_query k stack ops server request tcp n =
     (case client_route k (ipv4_to_string (sv_ip server)) (sv_port server) (if tcp then FpTcp else FpUdp) of
        None \<Rightarrow> (Inl PermissionDenied, n)
      | Some resource \<Rightarrow>
          let target = \<lparr>nd_host = ipv4_to_string (sv_ip server), nd_address = sv_ip server,
                nd_port = sv_port server, nd_domain_resource = False, nd_resource = resource\<rparr> in
          if \<not> tcp then
            io_then (ns_dial_udp stack target n) (\<lambda>conn n1.
              case io_then (co_send ops request conn n1) (\<lambda>_. co_recv ops conn) of
                (r, n2) \<Rightarrow> (r, co_drop ops conn n2))
          else
            io_then (ns_dial_tcp stack target n) (\<lambda>conn n1.
              if length request > 65535 then (Inl InvalidInput, n1)
              else io_then (co_write_all ops (u16_to_be (word_of_nat (length request))) conn n1) (\<lambda>conn n2.
                io_then (co_write_all ops request conn n2) (\<lambda>conn n3.
                  io_then (co_flush ops conn n3) (\<lambda>conn n4.
                    io_then (co_read_exact ops 2 conn n4) (\<lambda>(len, conn) n5.
                      io_then (co_read_exact ops (unat (u16_from_be (len ! 0) (len ! 1))) conn n5)
                        (\<lambda>(response, conn) n6. (Inr response, n6))))))))"

subsection \<open>The resolver\<close>

record resolver_config =
  rf_servers :: "socket_v4 list"
  rf_udp_timeout :: nat
  rf_lookup_timeout :: nat
  rf_max_ttl :: nat
  rf_capacity :: nat

definition resolver_config_default :: resolver_config where
  "resolver_config_default = \<lparr>rf_servers = [], rf_udp_timeout = 300, rf_lookup_timeout = 10 * 1000,
     rf_max_ttl = 3600 * 1000, rf_capacity = 1024\<rparr>"

type_synonym cache_key = "u64 \<times> u64 \<times> string"

record cached =
  cd_addresses :: "ipv4 list"
  cd_until :: nat

text \<open>A flight is a weak reference to the gate with that number; \<open>rv_gates\<close> counts the gates made.\<close>

record resolver =
  rv_config :: resolver_config
  rv_cache :: "(cache_key, cached) hmap"
  rv_flights :: "(cache_key, nat) hmap"
  rv_gates :: nat
  rv_ids :: u16

definition resolver_new :: "resolver_config \<Rightarrow> resolver" where
  "resolver_new config = \<lparr>rv_config = config, rv_cache = [], rv_flights = [], rv_gates = 0, rv_ids = 1\<rparr>"

record lookup_target =
  lt_epoch :: u64
  lt_generation :: u64
  lt_host :: string
  lt_snapshot :: resource_snapshot

definition lt_key :: "lookup_target \<Rightarrow> cache_key" where
  "lt_key q = (lt_epoch q, lt_generation q, lt_host q)"

text \<open>Up to the key: an address literal answers at once.\<close>

definition lookup_begin :: "(nat \<Rightarrow> atrust_client) \<Rightarrow> string \<Rightarrow> io_error_kind + ipv4 + lookup_target" where
  "lookup_begin v host =
     (case snd (check_session (v 0)) :: (unit, unit, unit) client_error + unit of
        Inl e \<Rightarrow> Inl (net_io_error e)
      | Inr _ \<Rightarrow>
          (case parse_ipv4 host of
             Some ip \<Rightarrow> Inr (Inl ip)
           | None \<Rightarrow>
               (case dns_normalize host of
                  Inl e \<Rightarrow> Inl (dns_error_kind e)
                | Inr name \<Rightarrow>
                    let snapshot = rc_current (cs_resources (ak_active (v 2))) in
                    Inr (Inr \<lparr>lt_epoch = ak_epoch (v 1), lt_generation = rn_generation snapshot,
                              lt_host = name, lt_snapshot = snapshot\<rparr>))))"

text \<open>The gate of a key; \<open>alive g\<close> says that a lookup still holds gate \<open>g\<close>.\<close>

definition flight_gate :: "(nat \<Rightarrow> bool) \<Rightarrow> cache_key \<Rightarrow> resolver \<Rightarrow> resolver \<times> nat" where
  "flight_gate alive key r =
     (let flights = filter (\<lambda>(_, g). alive g) (rv_flights r) in
      case hm_get flights key of
        Some g \<Rightarrow> (r\<lparr>rv_flights := flights\<rparr>, g)
      | None \<Rightarrow> let g = rv_gates r in (r\<lparr>rv_flights := hm_insert key g flights, rv_gates := g + 1\<rparr>, g))"

definition cache_answer ::
  "(nat \<Rightarrow> atrust_client) \<Rightarrow> (nat \<Rightarrow> nat) \<Rightarrow> lookup_target \<Rightarrow> resolver \<Rightarrow> (ipv4 list \<times> nat) option" where
  "cache_answer v t q r =
     (case hm_get (rv_cache r) (lt_key q) of
        Some c \<Rightarrow>
          if cd_until c > t 0 \<and> ak_epoch (v 3) = lt_epoch q
          then Some (cd_addresses c, cd_until c - t 1) else None
      | None \<Rightarrow> None)"

definition parse_socket_v4 :: "string \<Rightarrow> socket_v4 option" where
  "parse_socket_v4 s =
     (case split_once CHR '':'' s of
        None \<Rightarrow> None
      | Some (ip, port) \<Rightarrow>
          (case (parse_ipv4 ip, if port \<noteq> [] \<and> list_all is_digit port then parse_u16 port else None) of
             (Some a, Some p) \<Rightarrow> Some \<lparr>sv_ip = a, sv_port = p\<rparr>
           | _ \<Rightarrow> None))"

definition server_of :: "string \<Rightarrow> socket_v4 option" where
  "server_of s =
     (case parse_socket_v4 s of
        Some a \<Rightarrow> Some a
      | None \<Rightarrow> map_option (\<lambda>ip. \<lparr>sv_ip = ip, sv_port = 53\<rparr>) (parse_ipv4 s))"

definition lookup_servers :: "resolver_config \<Rightarrow> resource_snapshot \<Rightarrow> socket_v4 list" where
  "lookup_servers config snapshot =
     (if rf_servers config = [] then
        List.map_filter server_of
          (List.map_filter id [dns_primary (cr_dns (rn_resources snapshot)), dns_secondary (cr_dns (rn_resources snapshot))])
      else rf_servers config)"

definition udp_answer :: "io_error_kind + bytes \<Rightarrow> string \<Rightarrow> u16 \<Rightarrow> (ipv4 list \<times> nat) option" where
  "udp_answer r host qid =
     (case r of
        Inl _ \<Rightarrow> None
      | Inr bs \<Rightarrow> (case dns_parse bs host qid of Inr (Addresses ips ttl) \<Rightarrow> Some (ips, ttl * 1000) | _ \<Rightarrow> None))"

fun remote_loop ::
  "(socket_v4 \<Rightarrow> bytes \<Rightarrow> bool \<Rightarrow> 'n \<Rightarrow> (io_error_kind + bytes) \<times> 'n) \<Rightarrow> string \<Rightarrow> io_error_kind \<Rightarrow> u16
    \<Rightarrow> socket_v4 list \<Rightarrow> 'n \<Rightarrow> (io_error_kind + ipv4 list \<times> nat) \<times> u16 \<times> 'n" where
  "remote_loop exchange host err ids [] n = (Inl err, ids, n)"
| "remote_loop exchange host err ids (server # servers) n =
     (case dns_query host ids of
        Inl e \<Rightarrow> (Inl (dns_error_kind e), ids + 1, n)
      | Inr query \<Rightarrow>
          (case exchange server query False n of
             (udp, n1) \<Rightarrow>
               (case udp_answer udp host ids of
                  Some answer \<Rightarrow> (Inr answer, ids + 1, n1)
                | None \<Rightarrow>
                    (case exchange server query True n1 of
                       (Inl failure, n2) \<Rightarrow> remote_loop exchange host failure (ids + 1) servers n2
                     | (Inr bs, n2) \<Rightarrow>
                         (case dns_parse bs host ids of
                            Inr (Addresses ips ttl) \<Rightarrow> (Inr (ips, ttl * 1000), ids + 1, n2)
                          | Inr DnsTruncated \<Rightarrow> remote_loop exchange host InvalidData (ids + 1) servers n2
                          | Inl e \<Rightarrow> remote_loop exchange host (dns_error_kind e) (ids + 1) servers n2)))))"

definition lookup_remote ::
  "(socket_v4 \<Rightarrow> bytes \<Rightarrow> bool \<Rightarrow> 'n \<Rightarrow> (io_error_kind + bytes) \<times> 'n) \<Rightarrow> string \<Rightarrow> socket_v4 list \<Rightarrow> resolver \<Rightarrow> 'n
    \<Rightarrow> (io_error_kind + ipv4 list \<times> nat) \<times> resolver \<times> 'n" where
  "lookup_remote exchange host servers r n =
     (case remote_loop exchange host NotConnected (rv_ids r) servers n of
        (result, ids, n') \<Rightarrow> (result, r\<lparr>rv_ids := ids\<rparr>, n'))"

definition static_ips :: "lookup_target \<Rightarrow> ipv4 list" where
  "static_ips q = concat (map dr_resolved_ips (domain_resources_for_host (rn_routing (lt_snapshot q)) (lt_host q)))"

text \<open>The deadline \<open>Some i\<close> strikes while the \<open>i\<close>-th server is asked.\<close>

definition lookup_fetch ::
  "(socket_v4 \<Rightarrow> bytes \<Rightarrow> bool \<Rightarrow> 'n \<Rightarrow> (io_error_kind + bytes) \<times> 'n) \<Rightarrow> nat option \<Rightarrow> lookup_target \<Rightarrow> resolver
    \<Rightarrow> 'n \<Rightarrow> (io_error_kind + ipv4 list \<times> nat) \<times> resolver \<times> 'n" where
  "lookup_fetch exchange deadline q r n =
     (if static_ips q \<noteq> [] then (Inr (static_ips q, rf_max_ttl (rv_config r)), r, n)
      else let servers = lookup_servers (rv_config r) (lt_snapshot q) in
        case deadline of
          None \<Rightarrow> lookup_remote exchange (lt_host q) servers r n
        | Some i \<Rightarrow> (case lookup_remote exchange (lt_host q) (take (Suc i) servers) r n of
                       (_, r', n') \<Rightarrow> (Inl TimedOut, r', n')))"

fun cache_victim :: "(cache_key, cached) hmap \<Rightarrow> cache_key option" where
  "cache_victim [] = None"
| "cache_victim ((k, c) # m) =
     (case cache_victim m of
        None \<Rightarrow> Some k
      | Some k' \<Rightarrow> (case hm_get m k' of
                      Some c' \<Rightarrow> if cd_until c' < cd_until c then Some k' else Some k
                    | None \<Rightarrow> Some k))"

definition cache_store ::
  "(nat \<Rightarrow> nat) \<Rightarrow> lookup_target \<Rightarrow> ipv4 list \<Rightarrow> nat \<Rightarrow> resolver \<Rightarrow> resolver" where
  "cache_store t q addresses ttl r =
     (let live = filter (\<lambda>((e, g, _), c). e = lt_epoch q \<and> g = lt_generation q \<and> cd_until c > t 2) (rv_cache r);
          room = (if length live \<ge> rf_capacity (rv_config r)
                  then (case cache_victim live of Some k \<Rightarrow> hm_remove k live | None \<Rightarrow> live) else live)
      in r\<lparr>rv_cache := hm_insert (lt_key q) \<lparr>cd_addresses = addresses, cd_until = t 3 + ttl\<rparr> room\<rparr>)"

definition lookup_commit ::
  "(nat \<Rightarrow> atrust_client) \<Rightarrow> (nat \<Rightarrow> nat) \<Rightarrow> lookup_target \<Rightarrow> ipv4 list \<times> nat \<Rightarrow> resolver
    \<Rightarrow> (io_error_kind + ipv4 list \<times> nat) \<times> resolver" where
  "lookup_commit v t q answer r =
     (if ak_epoch (v 4) \<noteq> lt_epoch q \<or> rn_generation (rc_current (cs_resources (ak_active (v 5)))) \<noteq> lt_generation q
      then (Inl Interrupted, r)
      else case answer of
        (addresses, ttl0) \<Rightarrow>
          let ttl = min ttl0 (rf_max_ttl (rv_config r)) in
          (Inr (addresses, ttl),
           if ttl \<noteq> 0 \<and> rf_capacity (rv_config r) \<noteq> 0 then cache_store t q addresses ttl r else r))"

text \<open>One lookup; the lookups of other tasks that come in between are in \<open>lookup_step\<close> below.\<close>

definition lookup_with_ttl ::
  "(nat \<Rightarrow> atrust_client) \<Rightarrow> (nat \<Rightarrow> nat) \<Rightarrow> (nat \<Rightarrow> bool)
    \<Rightarrow> (socket_v4 \<Rightarrow> bytes \<Rightarrow> bool \<Rightarrow> 'n \<Rightarrow> (io_error_kind + bytes) \<times> 'n) \<Rightarrow> nat option \<Rightarrow> string \<Rightarrow> resolver \<Rightarrow> 'n
    \<Rightarrow> (io_error_kind + ipv4 list \<times> nat) \<times> resolver \<times> 'n" where
  "lookup_with_ttl v t alive exchange deadline host r n =
     (case lookup_begin v host of
        Inl e \<Rightarrow> (Inl e, r, n)
      | Inr (Inl ip) \<Rightarrow> (Inr ([ip], 0), r, n)
      | Inr (Inr q) \<Rightarrow>
          let r1 = fst (flight_gate alive (lt_key q) r) in
          (case cache_answer v t q r1 of
             Some answer \<Rightarrow> (Inr answer, r1, n)
           | None \<Rightarrow>
               (case lookup_fetch exchange deadline q r1 n of
                  (Inl e, r2, n') \<Rightarrow> (Inl e, r2, n')
                | (Inr answer, r2, n') \<Rightarrow>
                    (case lookup_commit v t q answer r2 of (result, r3) \<Rightarrow> (result, r3, n')))))"

text \<open>
  \<open>resolve\<close>: the readings of the client after those of the lookup, one for each address that is
  checked.
\<close>

fun pick_address ::
  "(nat \<Rightarrow> atrust_client) \<Rightarrow> matched_resource option \<Rightarrow> string \<Rightarrow> u16 \<Rightarrow> flow_protocol \<Rightarrow> ipv4 list
    \<Rightarrow> io_error_kind + net_destination" where
  "pick_address v policy host port protocol [] = Inl PermissionDenied"
| "pick_address v policy host port protocol (address # rest) =
     (case policy of
        Some resource \<Rightarrow>
          (case dns_normalize host of
             Inl e \<Rightarrow> Inl (dns_error_kind e)
           | Inr name \<Rightarrow> Inr \<lparr>nd_host = name, nd_address = address, nd_port = port,
                              nd_domain_resource = True, nd_resource = resource\<rparr>)
      | None \<Rightarrow>
          (case client_route (v 0) (ipv4_to_string address) port protocol of
             Some resource \<Rightarrow> Inr \<lparr>nd_host = host, nd_address = address, nd_port = port,
                                  nd_domain_resource = False, nd_resource = resource\<rparr>
           | None \<Rightarrow> pick_address (\<lambda>i. v (Suc i)) policy host port protocol rest))"

definition resolve ::
  "atrust_client \<Rightarrow> (nat \<Rightarrow> atrust_client) \<Rightarrow> (nat \<Rightarrow> nat) \<Rightarrow> (nat \<Rightarrow> bool)
    \<Rightarrow> (socket_v4 \<Rightarrow> bytes \<Rightarrow> bool \<Rightarrow> 'n \<Rightarrow> (io_error_kind + bytes) \<times> 'n) \<Rightarrow> nat option
    \<Rightarrow> string \<Rightarrow> u16 \<Rightarrow> flow_protocol \<Rightarrow> resolver \<Rightarrow> 'n \<Rightarrow> (io_error_kind + net_destination) \<times> resolver \<times> 'n" where
  "resolve k v t alive exchange deadline host port protocol r n =
     (let policy = (if parse_ipv4 host = None then client_route k host port protocol else None) in
      case lookup_with_ttl v t alive exchange deadline host r n of
        (Inl e, r', n') \<Rightarrow> (Inl e, r', n')
      | (Inr (addresses, _), r', n') \<Rightarrow>
          (pick_address (\<lambda>i. v (i + 6)) policy host port protocol addresses, r', n'))"

section \<open>Concurrent lookups\<close>

text \<open>
  The lookups under way. A task waits for the gate of its key, holds it while it fetches, and
  gives it up when it ends; it may be cancelled at any point. Asking the servers is one step: it
  touches nothing of the resolver but the counter of query ids. \<open>gate_alive\<close> is
  \<open>strong_count() != 0\<close>.
\<close>

datatype lookup_phase = AtGate | Fetching | Fetched "ipv4 list \<times> nat"

record lookup_task =
  tk_target :: lookup_target
  tk_gate :: nat
  tk_phase :: lookup_phase

record resolver_world =
  rw_resolver :: resolver
  rw_tasks :: "lookup_task list"

definition gate_alive :: "lookup_task list \<Rightarrow> nat \<Rightarrow> bool" where
  "gate_alive tasks g = list_ex (\<lambda>k. tk_gate k = g) tasks"

definition holds_gate :: "lookup_task \<Rightarrow> bool" where
  "holds_gate k = (tk_phase k \<noteq> AtGate)"

definition gate_free :: "lookup_task list \<Rightarrow> nat \<Rightarrow> bool" where
  "gate_free tasks g = list_all (\<lambda>k. holds_gate k \<longrightarrow> tk_gate k \<noteq> g) tasks"

inductive lookup_step ::
  "(socket_v4 \<Rightarrow> bytes \<Rightarrow> bool \<Rightarrow> 'n \<Rightarrow> (io_error_kind + bytes) \<times> 'n) \<Rightarrow> resolver_world \<Rightarrow> resolver_world \<Rightarrow> bool"
  for exchange where
  lookup_begins: "lookup_begin v host = Inr (Inr q) \<Longrightarrow>
     flight_gate (gate_alive (rw_tasks w)) (lt_key q) (rw_resolver w) = (r, g) \<Longrightarrow>
     lookup_step exchange w
       \<lparr>rw_resolver = r, rw_tasks = rw_tasks w @ [\<lparr>tk_target = q, tk_gate = g, tk_phase = AtGate\<rparr>]\<rparr>"
| lookup_hits: "rw_tasks w = xs @ k # ys \<Longrightarrow> tk_phase k = AtGate \<Longrightarrow> gate_free (xs @ ys) (tk_gate k) \<Longrightarrow>
     cache_answer v t (tk_target k) (rw_resolver w) = Some answer \<Longrightarrow>
     lookup_step exchange w (w\<lparr>rw_tasks := xs @ ys\<rparr>)"
| lookup_misses: "rw_tasks w = xs @ k # ys \<Longrightarrow> tk_phase k = AtGate \<Longrightarrow> gate_free (xs @ ys) (tk_gate k) \<Longrightarrow>
     cache_answer v t (tk_target k) (rw_resolver w) = None \<Longrightarrow>
     lookup_step exchange w (w\<lparr>rw_tasks := xs @ k\<lparr>tk_phase := Fetching\<rparr> # ys\<rparr>)"
| lookup_fetches: "rw_tasks w = xs @ k # ys \<Longrightarrow> tk_phase k = Fetching \<Longrightarrow>
     lookup_fetch exchange deadline (tk_target k) (rw_resolver w) n = (Inr answer, r, n') \<Longrightarrow>
     lookup_step exchange w \<lparr>rw_resolver = r, rw_tasks = xs @ k\<lparr>tk_phase := Fetched answer\<rparr> # ys\<rparr>"
| lookup_fails: "rw_tasks w = xs @ k # ys \<Longrightarrow> tk_phase k = Fetching \<Longrightarrow>
     lookup_fetch exchange deadline (tk_target k) (rw_resolver w) n = (Inl e, r, n') \<Longrightarrow>
     lookup_step exchange w \<lparr>rw_resolver = r, rw_tasks = xs @ ys\<rparr>"
| lookup_commits: "rw_tasks w = xs @ k # ys \<Longrightarrow> tk_phase k = Fetched answer \<Longrightarrow>
     lookup_commit v t (tk_target k) answer (rw_resolver w) = (result, r) \<Longrightarrow>
     lookup_step exchange w \<lparr>rw_resolver = r, rw_tasks = xs @ ys\<rparr>"
| lookup_cancelled: "rw_tasks w = xs @ k # ys \<Longrightarrow> lookup_step exchange w (w\<lparr>rw_tasks := xs @ ys\<rparr>)"

definition resolver_start :: "resolver_config \<Rightarrow> resolver_world" where
  "resolver_start config = \<lparr>rw_resolver = resolver_new config, rw_tasks = []\<rparr>"

abbreviation task_key :: "lookup_task \<Rightarrow> cache_key" where
  "task_key k \<equiv> lt_key (tk_target k)"

definition gates_ok :: "resolver \<Rightarrow> lookup_task list \<Rightarrow> bool" where
  "gates_ok r tasks \<longleftrightarrow> hm_distinct (rv_flights r) \<and> distinct (map snd (rv_flights r))
     \<and> (\<forall>(_, g) \<in> set (rv_flights r). g < rv_gates r)
     \<and> (\<forall>k \<in> set tasks. hm_get (rv_flights r) (task_key k) = Some (tk_gate k))
     \<and> distinct (map tk_gate (filter holds_gate tasks))"

definition cache_bounded :: "resolver \<Rightarrow> bool" where
  "cache_bounded r \<longleftrightarrow> hm_distinct (rv_cache r) \<and> length (rv_cache r) \<le> rf_capacity (rv_config r)"

lemma gates_ok_drop: "gates_ok r (xs @ k # ys) \<Longrightarrow> gates_ok r (xs @ ys)"
  by (auto simp: gates_ok_def split: if_splits)

lemma gates_ok_phase:
  "gates_ok r (xs @ k # ys) \<Longrightarrow> holds_gate k \<or> gate_free (xs @ ys) (tk_gate k) \<Longrightarrow>
   gates_ok r (xs @ k\<lparr>tk_phase := p\<rparr> # ys)"
  by (auto simp: gates_ok_def gate_free_def list_all_iff holds_gate_def split: if_splits)

lemma gates_ok_fields:
  "gates_ok r tasks \<Longrightarrow> rv_flights r' = rv_flights r \<Longrightarrow> rv_gates r' = rv_gates r \<Longrightarrow> gates_ok r' tasks"
  by (simp add: gates_ok_def)

lemma distinct_map_filter_fst: "distinct (map f xs) \<Longrightarrow> distinct (map f (filter P xs))"
  by (induction xs) auto

lemma hm_get_filtered: "hm_distinct m \<Longrightarrow> hm_get m k = Some x \<Longrightarrow> P (k, x) \<Longrightarrow> hm_get (filter P m) k = Some x"
  using distinct_map_filter_fst [of fst m P] by (auto simp: hm_mem_iff [symmetric])

lemma length_hm_insert_le: "length (hm_insert k v m) \<le> Suc (length m)"
  by (cases "hm_get m k") (simp_all add: length_hm_insert length_hm_insert_present)

lemma flight_gate_ok:
  assumes ok: "gates_ok r tasks" and f: "flight_gate (gate_alive tasks) (lt_key q) r = (r', g)"
  shows "gates_ok r' (tasks @ [\<lparr>tk_target = q, tk_gate = g, tk_phase = AtGate\<rparr>])" and "rv_cache r' = rv_cache r"
    and "rv_config r' = rv_config r"
proof -
  define fl where "fl = filter (\<lambda>(_, g). gate_alive tasks g) (rv_flights r)"
  have d: "hm_distinct fl" "distinct (map snd fl)" "\<forall>(_, g) \<in> set fl. g < rv_gates r"
    using ok by (auto simp: fl_def gates_ok_def distinct_map_filter_fst)
  have kept: "hm_get fl (task_key k) = Some (tk_gate k)" if "k \<in> set tasks" for k
    unfolding fl_def using that ok by (intro hm_get_filtered) (auto simp: gates_ok_def gate_alive_def list_ex_iff)
  have holders: "distinct (map tk_gate (filter holds_gate tasks))" using ok by (simp add: gates_ok_def)
  have f: "(case hm_get fl (lt_key q) of Some g \<Rightarrow> (r\<lparr>rv_flights := fl\<rparr>, g)
      | None \<Rightarrow> (r\<lparr>rv_flights := hm_insert (lt_key q) (rv_gates r) fl, rv_gates := rv_gates r + 1\<rparr>, rv_gates r)) = (r', g)"
    using f unfolding flight_gate_def fl_def [symmetric] Let_def by simp
  then show "rv_cache r' = rv_cache r" "rv_config r' = rv_config r" by (auto split: option.splits)
  show "gates_ok r' (tasks @ [\<lparr>tk_target = q, tk_gate = g, tk_phase = AtGate\<rparr>])"
  proof (cases "hm_get fl (lt_key q)")
    case None
    then have r': "r' = r\<lparr>rv_flights := fl @ [(lt_key q, rv_gates r)], rv_gates := rv_gates r + 1\<rparr>" "g = rv_gates r"
      using f by (auto simp: hm_insert_absent)
    have "lt_key q \<notin> fst ` set fl" using None by (simp add: map_of_eq_None_iff)
    moreover have "rv_gates r \<notin> snd ` set fl" using d(3) by fastforce
    moreover have "hm_get (fl @ [(lt_key q, rv_gates r)]) (task_key k) = Some (tk_gate k)" if "k \<in> set tasks" for k
      using kept [OF that] by (simp add: map_add_Some_iff)
    moreover have "hm_get (fl @ [(lt_key q, rv_gates r)]) (lt_key q) = Some g" using None r'(2) by (simp add: map_add_def)
    moreover have "\<forall>(_, g') \<in> set (fl @ [(lt_key q, rv_gates r)]). g' < rv_gates r + 1" using d(3) by auto
    ultimately show ?thesis using d(1,2) holders by (auto simp: gates_ok_def r'(1) holds_gate_def simp del: map_of_append)
  next
    case (Some h)
    then show ?thesis using f d kept holders by (auto simp: gates_ok_def holds_gate_def)
  qed
qed

lemma lookup_fetch_frame:
  "lookup_fetch exchange deadline q r n = (result, r', n') \<Longrightarrow>
     rv_cache r' = rv_cache r \<and> rv_config r' = rv_config r \<and> rv_flights r' = rv_flights r \<and> rv_gates r' = rv_gates r"
  by (auto simp: lookup_fetch_def lookup_remote_def Let_def split: if_splits option.splits prod.splits)

lemma cache_victim_some: "m \<noteq> [] \<Longrightarrow> \<exists>k c. cache_victim m = Some k \<and> hm_get m k = Some c"
  by (induction m rule: cache_victim.induct) (auto split: option.splits)

lemma cache_store_bounded:
  assumes "cache_bounded r" "rf_capacity (rv_config r) \<noteq> 0"
  shows "cache_bounded (cache_store t q ips ttl r)"
proof -
  let ?cap = "rf_capacity (rv_config r)"
  let ?live = "filter (\<lambda>((e, g, _), c). e = lt_epoch q \<and> g = lt_generation q \<and> cd_until c > t 2) (rv_cache r)"
  let ?room = "if length ?live \<ge> ?cap then (case cache_victim ?live of Some k \<Rightarrow> hm_remove k ?live | None \<Rightarrow> ?live) else ?live"
  have d: "hm_distinct ?live" using assms(1) by (simp add: cache_bounded_def distinct_map_filter_fst)
  have "length ?live \<le> ?cap" using assms(1) length_filter_le le_trans unfolding cache_bounded_def by blast
  then have len: "length ?room < ?cap"
  proof (cases "length ?live \<ge> ?cap")
    case True
    then have "?live \<noteq> []" using assms(2) by auto
    from cache_victim_some [OF this] obtain k c where v: "cache_victim ?live = Some k" "hm_get ?live k = Some c" by blast
    then have "Suc (length (hm_remove k ?live)) = length ?live" using length_hm_remove [OF d] by blast
    then show ?thesis using True v(1) \<open>length ?live \<le> ?cap\<close> by simp
  qed simp
  have room: "hm_distinct ?room" using d by (auto split: option.splits)
  have "length (hm_insert (lt_key q) c ?room) \<le> ?cap" for c
    using length_hm_insert_le [of "lt_key q" c ?room] len by linarith
  then show ?thesis using room unfolding cache_bounded_def cache_store_def Let_def by simp
qed

lemma cache_store_frame [simp]:
  "rv_flights (cache_store t q ips ttl r) = rv_flights r" "rv_gates (cache_store t q ips ttl r) = rv_gates r"
  "rv_config (cache_store t q ips ttl r) = rv_config r"
  by (simp_all add: cache_store_def Let_def)

lemma lookup_commit_frame:
  assumes "lookup_commit v t q answer r = (result, r')" "cache_bounded r"
  shows "cache_bounded r'" "rv_flights r' = rv_flights r" "rv_gates r' = rv_gates r" "rv_config r' = rv_config r"
  using assms by (auto simp: lookup_commit_def Let_def cache_store_bounded split: if_splits prod.splits)

lemma lookup_step_ok:
  assumes "lookup_step exchange w w'" "gates_ok (rw_resolver w) (rw_tasks w)" "cache_bounded (rw_resolver w)"
  shows "gates_ok (rw_resolver w') (rw_tasks w') \<and> cache_bounded (rw_resolver w')
    \<and> rv_config (rw_resolver w') = rv_config (rw_resolver w)"
  using assms
proof cases
  case (lookup_begins v host q r g)
  then show ?thesis using assms(2,3) flight_gate_ok [OF assms(2), of q r g] by (simp add: cache_bounded_def)
next
  case (lookup_misses xs k ys v t)
  then show ?thesis using assms(2,3) gates_ok_phase [of "rw_resolver w" xs k ys Fetching] by simp
next
  case (lookup_fetches xs k ys deadline n answer r n')
  then have "gates_ok (rw_resolver w) (xs @ k\<lparr>tk_phase := Fetched answer\<rparr> # ys)"
    using assms(2) gates_ok_phase by (simp add: holds_gate_def)
  then show ?thesis using lookup_fetches assms(3) lookup_fetch_frame [OF lookup_fetches(4)]
    by (auto simp: cache_bounded_def intro: gates_ok_fields)
next
  case (lookup_fails xs k ys deadline n e r n')
  then have "gates_ok (rw_resolver w) (xs @ ys)" using assms(2) by (simp add: gates_ok_drop)
  then show ?thesis using lookup_fails assms(3) lookup_fetch_frame [OF lookup_fails(4)]
    by (auto simp: cache_bounded_def intro: gates_ok_fields)
next
  case (lookup_commits xs k ys answer v t result r)
  then have "gates_ok (rw_resolver w) (xs @ ys)" using assms(2) by (simp add: gates_ok_drop)
  then show ?thesis using lookup_commits lookup_commit_frame [OF lookup_commits(4) assms(3)]
    by (auto intro: gates_ok_fields)
qed (auto dest: gates_ok_drop)

lemma lookup_run_ok:
  "(lookup_step exchange)\<^sup>*\<^sup>* (resolver_start config) w \<Longrightarrow>
     gates_ok (rw_resolver w) (rw_tasks w) \<and> cache_bounded (rw_resolver w) \<and> rv_config (rw_resolver w) = config"
proof (induction rule: rtranclp_induct)
  case base
  show ?case by (simp add: resolver_start_def resolver_new_def gates_ok_def cache_bounded_def)
next
  case (step w w')
  then show ?case using lookup_step_ok by metis
qed

lemma gates_separate:
  assumes "gates_ok r tasks" "a \<in> set tasks" "b \<in> set tasks"
  shows "tk_gate a = tk_gate b \<longleftrightarrow> task_key a = task_key b"
proof -
  have g: "hm_get (rv_flights r) (task_key a) = Some (tk_gate a)" "hm_get (rv_flights r) (task_key b) = Some (tk_gate b)"
    and "distinct (map snd (rv_flights r))" using assms by (auto simp: gates_ok_def)
  then have "(task_key a, tk_gate a) \<in> set (rv_flights r)" "(task_key b, tk_gate b) \<in> set (rv_flights r)"
    and "inj_on snd (set (rv_flights r))" by (auto simp: distinct_map dest: map_of_SomeD)
  then have "tk_gate a = tk_gate b \<Longrightarrow> task_key a = task_key b" by (metis inj_onD prod.inject snd_conv)
  then show ?thesis using g by auto
qed

lemma holders_distinct:
  assumes "gates_ok r tasks"
  shows "distinct (map task_key (filter holds_gate tasks))"
proof -
  have "distinct (map tk_gate (filter holds_gate tasks))" using assms by (simp add: gates_ok_def)
  then show ?thesis using gates_separate [OF assms] by (auto simp: distinct_map inj_on_def)
qed

section \<open>Answers\<close>

lemma hm_get_stored:
  "hm_get (rv_cache (cache_store t q ips ttl r)) (lt_key q) = Some \<lparr>cd_addresses = ips, cd_until = t 3 + ttl\<rparr>"
  by (simp add: cache_store_def Let_def)

lemma lookup_begin_target:
  "lookup_begin v host = Inr (Inr q) \<Longrightarrow> \<exists>name. dns_normalize host = Inr name \<and> lt_host q = name
     \<and> lt_epoch q = ak_epoch (v 1) \<and> lt_snapshot q = rc_current (cs_resources (ak_active (v 2)))
     \<and> lt_generation q = rn_generation (lt_snapshot q)"
  by (auto simp: lookup_begin_def Let_def split: sum.splits option.splits)

lemma cache_frame_gate [simp]:
  "rv_cache (fst (flight_gate alive key r)) = rv_cache r" "rv_config (fst (flight_gate alive key r)) = rv_config r"
  by (simp_all add: flight_gate_def Let_def split: option.splits)

text \<open>An address comes from a reply of one of the servers to the query it was sent.\<close>

definition replied ::
  "(socket_v4 \<Rightarrow> bytes \<Rightarrow> bool \<Rightarrow> 'n \<Rightarrow> (io_error_kind + bytes) \<times> 'n) \<Rightarrow> string \<Rightarrow> socket_v4 list \<Rightarrow> ipv4 list \<Rightarrow> bool" where
  "replied exchange name servers ips \<longleftrightarrow> (\<exists>server \<in> set servers. \<exists>qid query tcp m bs m' ttl.
     dns_query name qid = Inr query \<and> exchange server query tcp m = (Inr bs, m')
     \<and> dns_parse bs name qid = Inr (Addresses ips ttl))"

lemma remote_loop_replied:
  "remote_loop exchange name err ids servers n = (Inr (ips, ttl), ids', n') \<Longrightarrow> replied exchange name servers ips"
proof (induction servers arbitrary: err ids n)
  case (Cons server servers)
  have later: "replied exchange name servers ips \<Longrightarrow> replied exchange name (server # servers) ips"
    by (auto simp: replied_def)
  have here: "replied exchange name (server # servers) ips"
    if "dns_query name ids = Inr query" "exchange server query tcp m = (Inr bs, m')"
      "dns_parse bs name ids = Inr (Addresses ips s)" for query tcp m bs m' s
    unfolding replied_def using that by (intro bexI [of _ server]) (blast, simp)
  from Cons.prems show ?case
    by (auto simp: udp_answer_def split: sum.splits prod.splits dns_answer.splits intro: later [OF Cons.IH] here)
qed simp

lemma lookup_fetch_replied:
  "lookup_fetch exchange deadline q r n = (Inr (ips, ttl), r', n') \<Longrightarrow> static_ips q = [] \<Longrightarrow>
     replied exchange (lt_host q) (lookup_servers (rv_config r) (lt_snapshot q)) ips"
  by (auto simp: lookup_fetch_def lookup_remote_def Let_def split: prod.splits option.splits intro: remote_loop_replied)

text \<open>A resolved destination carries the name it was asked for, normalized when a name policy applies.\<close>

lemma pick_address_named:
  "pick_address v policy host port protocol ips = Inr target \<Longrightarrow> nd_port target = port
    \<and> (if nd_domain_resource target then dns_normalize host = Inr (nd_host target) else nd_host target = host)"
  by (induction v policy host port protocol ips rule: pick_address.induct) (auto split: option.splits sum.splits)

section \<open>Properties\<close>

text \<open>
  C23: However lookups begin, end, fail and are cancelled, two of them share a gate exactly when they
  look for the same name under the same session and resource table, so lookups of different names
  never wait for each other; at most one lookup of a name is past its gate, so a burst of requests
  for a name asks the servers once at a time; and the cache never outgrows its capacity.
\<close>

theorem lookups_coalesce:
  assumes "(lookup_step exchange)\<^sup>*\<^sup>* (resolver_start config) w"
  shows "(\<forall>a \<in> set (rw_tasks w). \<forall>b \<in> set (rw_tasks w). tk_gate a = tk_gate b \<longleftrightarrow> task_key a = task_key b)
    \<and> distinct (map task_key (filter holds_gate (rw_tasks w)))
    \<and> length (rv_cache (rw_resolver w)) \<le> rf_capacity config"
  using lookup_run_ok [OF assms] gates_separate holders_distinct by (auto simp: cache_bounded_def)

text \<open>
  C21: A successful lookup of a name holds the session and the resource table it began with. Either
  the answer was stored under that very session, table and name and has not expired, and neither the
  network nor the cache is touched; or the client is still in the same session and at the same
  table when the answer arrives, its lifetime is within the configured bound, and a table that
  lists addresses for the name is taken at its word, while otherwise a server in use replied with
  them. If the policy changed meanwhile the lookup is
  interrupted and stores nothing. An answer with a lifetime is then repeated without the network
  until it expires.
\<close>

theorem lookup_follows_policy:
  fixes exchange :: "socket_v4 \<Rightarrow> bytes \<Rightarrow> bool \<Rightarrow> 'n \<Rightarrow> (io_error_kind + bytes) \<times> 'n"
  assumes "lookup_begin v host = Inr (Inr q)" and "rf_capacity (rv_config r) \<noteq> 0"
    and "lookup_with_ttl v t alive exchange deadline host r n = (result, r', n')"
  shows "case result of
      Inr (ips, ttl) \<Rightarrow>
        (\<exists>c. hm_get (rv_cache r) (lt_key q) = Some c \<and> ips = cd_addresses c \<and> t 0 < cd_until c \<and> ttl = cd_until c - t 1
             \<and> ak_epoch (v 3) = ak_epoch (v 1) \<and> n' = n \<and> rv_cache r' = rv_cache r)
        \<or> (ak_epoch (v 4) = ak_epoch (v 1) \<and> ttl \<le> rf_max_ttl (rv_config r)
             \<and> rn_generation (rc_current (cs_resources (ak_active (v 5)))) = rn_generation (rc_current (cs_resources (ak_active (v 2))))
             \<and> (static_ips q \<noteq> [] \<longrightarrow> ips = static_ips q \<and> n' = n)
             \<and> (static_ips q = [] \<longrightarrow> replied exchange (lt_host q) (lookup_servers (rv_config r) (lt_snapshot q)) ips)
             \<and> (ttl \<noteq> 0 \<longrightarrow> (\<forall>v' t' alive' deadline' n''. lookup_begin v' host = Inr (Inr q) \<and> ak_epoch (v' 3) = ak_epoch (v 1)
                  \<and> t' 0 < t 3 + ttl \<longrightarrow>
                  (\<exists>r''. lookup_with_ttl v' t' alive' exchange deadline' host r' n'' = (Inr (ips, t 3 + ttl - t' 1), r'', n'')))))
    | Inl e \<Rightarrow> rv_cache r' = rv_cache r"
proof (cases "cache_answer v t q (fst (flight_gate alive (lt_key q) r))")
  case (Some answer)
  then show ?thesis using assms(1,3) lookup_begin_target [OF assms(1)]
    by (auto simp: lookup_with_ttl_def Let_def cache_answer_def split: option.splits if_splits)
next
  case None
  let ?r1 = "fst (flight_gate alive (lt_key q) r)"
  obtain f r2 n2 where f: "lookup_fetch exchange deadline q ?r1 n = (f, r2, n2)" by (metis prod_cases3)
  note frame = lookup_fetch_frame [OF f]
  note run = assms(1,3) None f
  show ?thesis
  proof (cases f)
    case (Inl e)
    with run frame show ?thesis by (auto simp: lookup_with_ttl_def Let_def)
  next
    case (Inr answer)
    with run have c: "lookup_commit v t q answer r2 = (result, r')" and n': "n' = n2"
      by (auto simp: lookup_with_ttl_def Let_def split: prod.splits)
    have static: "static_ips q \<noteq> [] \<longrightarrow> fst answer = static_ips q \<and> n2 = n"
      using f Inr by (auto simp: lookup_fetch_def)
    have remote: "static_ips q = [] \<longrightarrow> replied exchange (lt_host q) (lookup_servers (rv_config r) (lt_snapshot q)) (fst answer)"
      using lookup_fetch_replied [of exchange deadline q ?r1 n "fst answer" "snd answer"] f Inr by simp
    show ?thesis
    proof (cases result)
      case (Inl e)
      with c frame show ?thesis by (auto simp: lookup_commit_def Let_def split: if_splits prod.splits)
    next
      case ok: (Inr a)
      obtain ips ttl where a: "a = (ips, ttl)" by (cases a)
      have r': "ttl \<noteq> 0 \<Longrightarrow> r' = cache_store t q ips ttl r2"
        and now: "ak_epoch (v 4) = lt_epoch q" "rn_generation (rc_current (cs_resources (ak_active (v 5)))) = lt_generation q"
          "ttl \<le> rf_max_ttl (rv_config r)" "ips = fst answer"
        using c ok a frame assms(2) by (auto simp: lookup_commit_def Let_def split: if_splits prod.splits)
      have again: "\<exists>r''. lookup_with_ttl v' t' alive' exchange deadline' host r' n'' = (Inr (ips, t 3 + ttl - t' 1), r'', n'')"
        if "ttl \<noteq> 0" "lookup_begin v' host = Inr (Inr q)" "ak_epoch (v' 3) = ak_epoch (v 1)" "t' 0 < t 3 + ttl"
        for v' t' alive' deadline' n''
        using that lookup_begin_target [OF assms(1)]
        by (auto simp: lookup_with_ttl_def Let_def cache_answer_def r' [OF that(1)] hm_get_stored)
      then show ?thesis using ok a now static remote n' lookup_begin_target [OF assms(1)] by auto
    qed
  qed
qed

subsection \<open>Examples\<close>

definition sample_target :: "string \<Rightarrow> lookup_target" where
  "sample_target name = \<lparr>lt_epoch = 1, lt_generation = 1, lt_host = name,
     lt_snapshot = rc_current (cs_resources (ak_active sample_atrust))\<rparr>"

lemma sample_lookup_begin: "lookup_begin (\<lambda>_. sample_atrust) ''JW.edu.'' = Inr (Inr (sample_target ''jw.edu''))"
proof -
  have "parse_ipv4 ''JW.edu.'' = None" by code_simp
  moreover have "ak_active sample_atrust = sample_active None" "ak_epoch sample_atrust = 1" by (simp_all add: sample_atrust_def)
  moreover have "rn_generation (rc_current (cs_resources (sample_active None))) = 1" by (simp add: sample_client_defs Let_def)
  ultimately show ?thesis
    by (simp add: lookup_begin_def check_session_def client_run_def sample_gate(1) sample_name sample_target_def Let_def)
qed

definition sample_exchange :: "socket_v4 \<Rightarrow> bytes \<Rightarrow> bool \<Rightarrow> nat \<Rightarrow> (io_error_kind + bytes) \<times> nat" where
  "sample_exchange server query tcp n = (Inl TimedOut, Suc n)"

lemma three_steps: "R a b \<Longrightarrow> R b c \<Longrightarrow> R c d \<Longrightarrow> R\<^sup>*\<^sup>* a d"
  by (meson converse_rtranclp_into_rtranclp r_into_rtranclp)

lemma sample_coalesced:
  "\<exists>w. (lookup_step sample_exchange)\<^sup>*\<^sup>* (resolver_start resolver_config_default) w
     \<and> map tk_phase (rw_tasks w) = [Fetching, AtGate]"
proof -
  let ?r = "resolver_new resolver_config_default" and ?q = "sample_target ''jw.edu''"
  let ?a = "\<lparr>tk_target = ?q, tk_gate = 0, tk_phase = AtGate\<rparr>"
  let ?f = "?r\<lparr>rv_flights := [(lt_key ?q, 0)], rv_gates := 1\<rparr>"
  have s1: "lookup_step sample_exchange (resolver_start resolver_config_default) \<lparr>rw_resolver = ?f, rw_tasks = [?a]\<rparr>"
    using lookup_begins [OF sample_lookup_begin, of "resolver_start resolver_config_default" ?f 0 sample_exchange]
    by (simp add: resolver_start_def flight_gate_def resolver_new_def)
  have s2: "lookup_step sample_exchange \<lparr>rw_resolver = ?f, rw_tasks = [?a]\<rparr> \<lparr>rw_resolver = ?f, rw_tasks = [?a, ?a]\<rparr>"
    using lookup_begins [OF sample_lookup_begin, of "\<lparr>rw_resolver = ?f, rw_tasks = [?a]\<rparr>" ?f 0 sample_exchange]
    by (simp add: flight_gate_def gate_alive_def)
  have s3: "lookup_step sample_exchange \<lparr>rw_resolver = ?f, rw_tasks = [?a, ?a]\<rparr>
      \<lparr>rw_resolver = ?f, rw_tasks = [?a\<lparr>tk_phase := Fetching\<rparr>, ?a]\<rparr>"
    using lookup_misses [of "\<lparr>rw_resolver = ?f, rw_tasks = [?a, ?a]\<rparr>" "[]" ?a "[?a]" "\<lambda>_. sample_atrust" "\<lambda>_. 0" sample_exchange]
    by (simp add: gate_free_def holds_gate_def cache_answer_def resolver_new_def)
  have "(lookup_step sample_exchange)\<^sup>*\<^sup>* (resolver_start resolver_config_default)
      \<lparr>rw_resolver = ?f, rw_tasks = [?a\<lparr>tk_phase := Fetching\<rparr>, ?a]\<rparr>"
    by (rule three_steps [where R = "lookup_step sample_exchange", OF s1 s2 s3])
  then show ?thesis by (intro exI [of _ "\<lparr>rw_resolver = ?f, rw_tasks = [?a\<lparr>tk_phase := Fetching\<rparr>, ?a]\<rparr>"]) simp
qed

theorem lookups_coalesce_witness:
  "\<exists>w. (lookup_step sample_exchange)\<^sup>*\<^sup>* (resolver_start resolver_config_default) w \<and> length (rw_tasks w) = 2
     \<and> distinct (map task_key (filter holds_gate (rw_tasks w))) \<and> length (rv_cache (rw_resolver w)) \<le> 1024"
proof -
  obtain w where w: "(lookup_step sample_exchange)\<^sup>*\<^sup>* (resolver_start resolver_config_default) w"
    and len: "map tk_phase (rw_tasks w) = [Fetching, AtGate]" using sample_coalesced by (elim exE conjE)
  have "length (rw_tasks w) = 2" using arg_cong [OF len, of length] by simp
  moreover have "rf_capacity resolver_config_default = 1024" by (simp add: resolver_config_default_def)
  ultimately show ?thesis using w lookups_coalesce [OF w] by (intro exI [of _ w]) simp
qed

definition sample_resolver :: resolver where
  "sample_resolver = (resolver_new resolver_config_default)\<lparr>rv_cache :=
     [((1, 1, ''jw.edu''), \<lparr>cd_addresses = [Ipv4 10 0 0 7], cd_until = 60000\<rparr>)]\<rparr>"

lemma sample_cached_lookup:
  "\<exists>r. lookup_with_ttl (\<lambda>_. sample_atrust) (\<lambda>_. 1000) (\<lambda>_. False) sample_exchange None ''JW.edu.'' sample_resolver 0
     = (Inr ([Ipv4 10 0 0 7], 59000), r, 0)"
proof -
  have "ak_epoch sample_atrust = 1" by (simp add: sample_atrust_def)
  then show ?thesis
    by (simp add: lookup_with_ttl_def sample_lookup_begin Let_def cache_answer_def sample_resolver_def lt_key_def sample_target_def)
qed

theorem lookup_follows_policy_witness:
  "\<exists>r. lookup_with_ttl (\<lambda>_. sample_atrust) (\<lambda>_. 1000) (\<lambda>_. False) sample_exchange None ''JW.edu.'' sample_resolver 0
     = (Inr ([Ipv4 10 0 0 7], 59000), r, 0) \<and> (rv_cache r = rv_cache sample_resolver \<or> 59000 \<le> rf_max_ttl (rv_config sample_resolver))"
proof -
  have cap: "rf_capacity (rv_config sample_resolver) \<noteq> 0"
    by (simp add: sample_resolver_def resolver_new_def resolver_config_default_def)
  obtain r where run: "lookup_with_ttl (\<lambda>_. sample_atrust) (\<lambda>_. 1000) (\<lambda>_. False) sample_exchange None ''JW.edu.''
      sample_resolver 0 = (Inr ([Ipv4 10 0 0 7], 59000), r, 0)" using sample_cached_lookup by blast
  from lookup_follows_policy [OF sample_lookup_begin cap run] show ?thesis using run by auto
qed

end
