(* ===== verification/Net_Dial.thy ===== *)
theory Net_Dial
  imports Net_Resolver Fake_Ip
begin

text \<open>
  The rest of \<open>crates/atrust-net\<close>: the native stack of \<open>lib.rs\<close>, UDP connections over the shared
  L3 session (\<open>udp.rs\<close>), and the dialer of the proxies with its DNS service (\<open>dial.rs\<close>). As in
  \<open>Net_Resolver\<close>, \<open>v i\<close> and \<open>t i\<close> are the client and the clock at the \<open>i\<close>-th reading of an
  operation; a dial acts on the client as it is when the dial happens.

  An L3 session is named by the epoch of the client session it belongs to and its index there;
  two handles are the same session when both agree. A session of an earlier epoch was shut down
  by the handover, so it counts as closed.
\<close>

section \<open>Definitions\<close>

subsection \<open>The native stack\<close>

datatype 's net_stream = NativeTunnel tcp_tunnel | HostStream 's

record 'h stack_world =
  sw_client :: atrust_client
  sw_ports :: "u16 list"
  sw_host :: 'h

definition target_name :: "net_destination \<Rightarrow> string" where
  "target_name target = (if nd_domain_resource target then nd_host target else ipv4_to_string (nd_address target))"

text \<open>\<open>host\<close> is the stack of the embedding application, if it supplied one.\<close>

definition atrust_dial_tcp ::
  "'je dialer \<Rightarrow> ('se, 'de) surroundings \<Rightarrow> (net_destination \<Rightarrow> 'h \<Rightarrow> (io_error_kind + 's) \<times> 'h) option
    \<Rightarrow> (nat \<Rightarrow> atrust_client) \<Rightarrow> net_destination \<Rightarrow> 'h stack_world \<Rightarrow> (io_error_kind + 's net_stream) \<times> 'h stack_world" where
  "atrust_dial_tcp d su host v target w =
     (case snd (check_session (v 0)) :: (unit, unit, unit) client_error + unit of
        Inl e \<Rightarrow> (Inl (net_io_error e), w)
      | Inr _ \<Rightarrow>
          let name = target_name target in
          (case client_route (v 1) name (nd_port target) FpTcp of
             None \<Rightarrow> (Inl PermissionDenied, w)
           | Some route \<Rightarrow>
               if mr_tcp_prefers_l3 route then
                 (case host of
                    None \<Rightarrow> (Inl Unsupported, w)
                  | Some dial \<Rightarrow>
                      (case dial (target\<lparr>nd_resource := route\<rparr>) (sw_host w) of
                         (r, h) \<Rightarrow> (map_sum id HostStream r, w\<lparr>sw_host := h\<rparr>)))
               else
                 (case client_dial_tcp d su name (nd_port target) (sw_client w) of
                    (k, Inl e) \<Rightarrow> (Inl (net_io_error (e :: (unit, _, unit) client_error)), w\<lparr>sw_client := k\<rparr>)
                  | (k, Inr dialed) \<Rightarrow> (Inr (NativeTunnel (dt_tunnel dialed)), w\<lparr>sw_client := k\<rparr>))))"

subsection \<open>UDP connections\<close>

record atrust_udp =
  au_target :: net_destination
  au_session :: "u64 \<times> nat"
  au_receiver :: "flow_key \<times> u64"
  au_source :: socket_v4

abbreviation session_at :: "nat \<Rightarrow> atrust_client \<Rightarrow> session_shared" where
  "session_at q k \<equiv> wo_sessions (ca_world (cs_managers (ak_active k))) ! q"

definition with_session :: "nat \<Rightarrow> (session_shared \<Rightarrow> session_shared) \<Rightarrow> atrust_client \<Rightarrow> atrust_client" where
  "with_session q f k =
     k\<lparr>ak_active := (ak_active k)\<lparr>cs_managers := (cs_managers (ak_active k))
        \<lparr>ca_world := update_session q f (ca_world (cs_managers (ak_active k)))\<rparr>\<rparr>\<rparr>"

text \<open>\<open>connect\<close>; a lease taken by an attempt that fails is given back when it goes out of scope.\<close>

definition udp_connect ::
  "('se, 'de) surroundings \<Rightarrow> atrust_client \<Rightarrow> net_destination \<Rightarrow> 'h stack_world
    \<Rightarrow> (io_error_kind + atrust_udp) \<times> 'h stack_world" where
  "udp_connect su seen target w =
     (case client_route seen (target_name target) (nd_port target) FpUdp of
        None \<Rightarrow> (Inl PermissionDenied, w)
      | Some resource \<Rightarrow>
          (case connect_node_group su (mr_node_group_id resource) (sw_client w) of
             (k, Inl e) \<Rightarrow> (Inl (net_io_error (e :: (unit, unit, _) client_error)), w\<lparr>sw_client := k\<rparr>)
           | (k, Inr q) \<Rightarrow>
               (case port_allocate (sw_ports w) of
                  Inl e \<Rightarrow> (Inl e, w\<lparr>sw_client := k\<rparr>)
                | Inr (port, ports) \<Rightarrow>
                    let source = \<lparr>sv_ip = ss_current_vip (session_at q k), sv_port = port\<rparr>;
                        failed = (\<lambda>e. (Inl e, w\<lparr>sw_client := k, sw_ports := port_release port ports\<rparr>)) in
                    (case udp_encode source \<lparr>sv_ip = nd_address target, sv_port = nd_port target\<rparr> [] of
                       Inl e \<Rightarrow> failed e
                     | Inr packet \<Rightarrow>
                         (case parse_ipv4_flow packet of
                            Inl _ \<Rightarrow> failed OtherKind
                          | Inr flow \<Rightarrow>
                              (case subscribe_flow flow (session_at q k) :: _ \<times> ((unit, unit) l3_session_error + _) of
                                 (s, Inl _) \<Rightarrow> failed OtherKind
                               | (s, Inr receiver) \<Rightarrow>
                                   (Inr \<lparr>au_target = target, au_session = (ak_epoch k, q), au_receiver = receiver,
                                         au_source = source\<rparr>,
                                    w\<lparr>sw_client := with_session q (\<lambda>_. s) k, sw_ports := ports\<rparr>)))))))"

definition udp_stale :: "atrust_client \<Rightarrow> atrust_udp \<Rightarrow> bool" where
  "udp_stale k u =
     (case au_session u of (epoch, q) \<Rightarrow>
        epoch \<noteq> ak_epoch k \<or> ss_closed (session_at q k) \<or> ss_current_vip (session_at q k) \<noteq> sv_ip (au_source u))"

abbreviation udp_remote :: "atrust_udp \<Rightarrow> socket_v4" where
  "udp_remote u \<equiv> \<lparr>sv_ip = nd_address (au_target u), sv_port = nd_port (au_target u)\<rparr>"

definition UDP_MAX_PAYLOAD :: nat where
  "UDP_MAX_PAYLOAD = 1372"

definition udp_send ::
  "('se, 'de) surroundings \<Rightarrow> bytes \<Rightarrow> atrust_udp \<Rightarrow> 'h stack_world \<Rightarrow> (io_error_kind + unit) \<times> 'h stack_world" where
  "udp_send su payload u w =
     (if length payload > UDP_MAX_PAYLOAD then (Inl InvalidInput, w)
      else if udp_stale (sw_client w) u then (Inl ConnectionReset, w)
      else case udp_encode (au_source u) (udp_remote u) payload of
        Inl e \<Rightarrow> (Inl e, w)
      | Inr packet \<Rightarrow>
          (case (if nd_domain_resource (au_target u)
                 then send_ipv4_for_domain su packet (nd_host (au_target u)) (sw_client w)
                 else send_ipv4 su packet (sw_client w)) of
             (k, Inl e) \<Rightarrow> (Inl (net_io_error (e :: (unit, unit, _) client_error)), w\<lparr>sw_client := k\<rparr>)
           | (k, Inr sent) \<Rightarrow>
               (if (ak_epoch k, sf_session sent) \<noteq> au_session u then Inl ConnectionReset else Inr (),
                w\<lparr>sw_client := k\<rparr>)))"

text \<open>\<open>recv\<close>; \<open>None\<close> is a call that waits for the next packet.\<close>

definition udp_recv :: "atrust_udp \<Rightarrow> 'h stack_world \<Rightarrow> (io_error_kind + bytes) option \<times> 'h stack_world" where
  "udp_recv u w =
     (if udp_stale (sw_client w) u then (Some (Inl ConnectionReset), w)
      else case (au_session u, au_receiver u) of ((epoch, q), (key, i)) \<Rightarrow>
        (case hm_get (ss_packet_subscribers (session_at q (sw_client w))) key of
           None \<Rightarrow> (Some (Inl ConnectionReset), w)
         | Some sub \<Rightarrow>
             if ps_id sub \<noteq> i then (Some (Inl ConnectionReset), w)
             else (case ch_queue (ps_sender sub) of
                     [] \<Rightarrow> (None, w)
                   | packet # rest \<Rightarrow>
                       (Some (udp_decode packet (udp_remote u) (au_source u)),
                        w\<lparr>sw_client := with_session q (\<lambda>s. s\<lparr>ss_packet_subscribers :=
                             hm_insert key (sub\<lparr>ps_sender := (ps_sender sub)\<lparr>ch_queue := rest\<rparr>\<rparr>)
                               (ss_packet_subscribers s)\<rparr>) (sw_client w)\<rparr>))))"

definition udp_drop :: "atrust_udp \<Rightarrow> 'h stack_world \<Rightarrow> 'h stack_world" where
  "udp_drop u w =
     (case (au_session u, au_receiver u) of ((epoch, q), (key, i)) \<Rightarrow>
        w\<lparr>sw_ports := port_release (sv_port (au_source u)) (sw_ports w),
          sw_client := (if epoch = ak_epoch (sw_client w)
                        then with_session q (flow_packets_drop key i) (sw_client w) else sw_client w)\<rparr>)"

definition atrust_dial_udp ::
  "('se, 'de) surroundings \<Rightarrow> (nat \<Rightarrow> atrust_client) \<Rightarrow> net_destination \<Rightarrow> 'h stack_world
    \<Rightarrow> (io_error_kind + atrust_udp) \<times> 'h stack_world" where
  "atrust_dial_udp su v target w =
     (case snd (check_session (v 0)) :: (unit, unit, unit) client_error + unit of
        Inl e \<Rightarrow> (Inl (net_io_error e), w)
      | Inr _ \<Rightarrow> udp_connect su (v 1) target w)"

subsection \<open>The dialer of the proxies\<close>

primrec pool_error_kind :: "pool_error \<Rightarrow> io_error_kind" where
  "pool_error_kind PoolExhausted = AddrNotAvailable"
| "pool_error_kind IdentityPoolExhausted = AddrNotAvailable"
| "pool_error_kind TooManyDomains = AddrNotAvailable"

record proxy_dialer =
  pd_resolver :: resolver
  pd_pool :: fake_ip_pool

definition proxy_dialer_new :: "resolver_config \<Rightarrow> proxy_dialer" where
  "proxy_dialer_new config = \<lparr>pd_resolver = resolver_new config, pd_pool = pool_new 8192\<rparr>"

definition original_host ::
  "(nat \<Rightarrow> atrust_client) \<Rightarrow> nat \<Rightarrow> string \<Rightarrow> u16 \<Rightarrow> flow_protocol \<Rightarrow> proxy_dialer
    \<Rightarrow> (io_error_kind + string) \<times> proxy_dialer" where
  "original_host v now host port protocol p =
     (case snd (check_session (v 0)) :: (unit, unit, unit) client_error + unit of
        Inl e \<Rightarrow> (Inl (net_io_error e), p)
      | Inr _ \<Rightarrow>
          (case parse_ipv4 host of
             None \<Rightarrow> (map_sum dns_error_kind id (dns_normalize host), p)
           | Some ip \<Rightarrow>
               let epoch = ak_epoch (v 1);
                   generation = rn_generation (rc_current (cs_resources (ak_active (v 2)))) in
               if is_fake ip then
                 (case pool_lookup ip epoch generation now (pd_pool p) of
                    (pool, Some name) \<Rightarrow> (Inr name, p\<lparr>pd_pool := pool\<rparr>)
                  | (pool, None) \<Rightarrow> (Inl PermissionDenied, p\<lparr>pd_pool := pool\<rparr>))
               else
                 (case real_hosts ip epoch generation now (pd_pool p) of
                    (pool, names) \<Rightarrow>
                      let covered = map snd (filter (\<lambda>(i, name). client_route (v (3 + i)) name port protocol \<noteq> None)
                                               (enumerate 0 names)) in
                      (if length covered = 1 then Inr (hd covered)
                       else if length covered > 1 \<and> client_route (v (3 + length names)) host port protocol = None
                       then Inl PermissionDenied
                       else Inr host,
                       p\<lparr>pd_pool := pool\<rparr>))))"

text \<open>The clock is read for the pool (\<open>0\<close>), by the lookup (\<open>1\<close> to \<open>4\<close>) and for the pool again (\<open>5\<close>).\<close>

definition dns_record ::
  "(nat \<Rightarrow> atrust_client) \<Rightarrow> (nat \<Rightarrow> nat) \<Rightarrow> (nat \<Rightarrow> bool)
    \<Rightarrow> (socket_v4 \<Rightarrow> bytes \<Rightarrow> bool \<Rightarrow> 'n \<Rightarrow> (io_error_kind + bytes) \<times> 'n) \<Rightarrow> nat option \<Rightarrow> string \<Rightarrow> nat \<Rightarrow> proxy_dialer \<Rightarrow> 'n
    \<Rightarrow> (io_error_kind + ipv4 \<times> nat) \<times> proxy_dialer \<times> 'n" where
  "dns_record v t alive exchange deadline host0 max_ttl p n =
     (case snd (check_session (v 0)) :: (unit, unit, unit) client_error + unit of
        Inl e \<Rightarrow> (Inl (net_io_error e), p, n)
      | Inr _ \<Rightarrow>
          (case dns_normalize host0 of
             Inl e \<Rightarrow> (Inl (dns_error_kind e), p, n)
           | Inr host \<Rightarrow>
               let epoch = ak_epoch (v 1);
                   snapshot = rc_current (cs_resources (ak_active (v 2)));
                   policies = domain_resources_for_host (rn_routing snapshot) host in
               if policies \<noteq> [] \<and> dr_addr_pretend (hd policies) then
                 (case pool_assign host epoch (rn_generation snapshot) max_ttl (t 0) (pd_pool p) of
                    (pool, Inl e) \<Rightarrow> (Inl (pool_error_kind e), p\<lparr>pd_pool := pool\<rparr>, n)
                  | (pool, Inr ip) \<Rightarrow> (Inr (ip, max_ttl), p\<lparr>pd_pool := pool\<rparr>, n))
               else
                 (case lookup_with_ttl (\<lambda>i. v (3 + i)) (\<lambda>i. t (1 + i)) alive exchange deadline host (pd_resolver p) n of
                    (Inl e, r, n') \<Rightarrow> (Inl e, p\<lparr>pd_resolver := r\<rparr>, n')
                  | (Inr (ips, ttl0), r, n') \<Rightarrow>
                      let ttl = min ttl0 max_ttl; p1 = p\<lparr>pd_resolver := r\<rparr> in
                      (case ips of
                         [] \<Rightarrow> (Inl AddrNotAvailable, p1, n')
                       | ip # _ \<Rightarrow>
                           if policies = [] then (Inr (ip, ttl), p1, n')
                           else if ak_epoch (v 9) \<noteq> epoch
                             \<or> rn_generation (rc_current (cs_resources (ak_active (v 10)))) \<noteq> rn_generation snapshot
                           then (Inl Interrupted, p1, n')
                           else (case remember_real ip host epoch (rn_generation snapshot) ttl (t 5) (pd_pool p1) of
                                   (pool, Inl e) \<Rightarrow> (Inl (pool_error_kind e), p1\<lparr>pd_pool := pool\<rparr>, n')
                                 | (pool, Inr _) \<Rightarrow> (Inr (ip, ttl), p1\<lparr>pd_pool := pool\<rparr>, n'))))))"

text \<open>\<open>answer_dns\<close>; \<open>None\<close> where building the reply panics.\<close>

definition answer_dns ::
  "(nat \<Rightarrow> atrust_client) \<Rightarrow> (nat \<Rightarrow> nat) \<Rightarrow> (nat \<Rightarrow> bool)
    \<Rightarrow> (socket_v4 \<Rightarrow> bytes \<Rightarrow> bool \<Rightarrow> 'n \<Rightarrow> (io_error_kind + bytes) \<times> 'n) \<Rightarrow> nat option \<Rightarrow> bytes \<Rightarrow> nat \<Rightarrow> proxy_dialer \<Rightarrow> 'n
    \<Rightarrow> (io_error_kind + bytes) option \<times> proxy_dialer \<times> 'n" where
  "answer_dns v t alive exchange deadline request max_ttl p n =
     (case dns_question request of
        Inl e \<Rightarrow> (Some (Inl (dns_error_kind e)), p, n)
      | Inr (host, kind, question_end) \<Rightarrow>
          if kind \<noteq> 1 then (map_option Inr (dns_reply request question_end None 0 0), p, n)
          else (case dns_record v t alive exchange deadline host max_ttl p n of
                  (Inr (ip, ttl), p', n') \<Rightarrow> (map_option Inr (dns_reply request question_end (Some ip) (ttl div 1000) 0), p', n')
                | (Inl _, p', n') \<Rightarrow> (map_option Inr (dns_reply request question_end None 0 2), p', n')))"

text \<open>
  \<open>dial_tcp\<close> and \<open>dial_udp\<close> over any stack; the readings of the client by the three parts are
  \<open>vh\<close>, \<open>k\<close> with \<open>vr\<close>, and those of the stack, which is applied to its readings already.
\<close>

definition proxy_dial_tcp ::
  "(net_destination \<Rightarrow> 'n \<Rightarrow> (io_error_kind + 's) \<times> 'n) \<Rightarrow> (nat \<Rightarrow> atrust_client) \<Rightarrow> atrust_client \<Rightarrow> (nat \<Rightarrow> atrust_client)
    \<Rightarrow> (nat \<Rightarrow> nat) \<Rightarrow> (nat \<Rightarrow> bool) \<Rightarrow> (socket_v4 \<Rightarrow> bytes \<Rightarrow> bool \<Rightarrow> 'n \<Rightarrow> (io_error_kind + bytes) \<times> 'n) \<Rightarrow> nat option
    \<Rightarrow> string \<Rightarrow> u16 \<Rightarrow> proxy_dialer \<Rightarrow> 'n \<Rightarrow> (io_error_kind + 's) \<times> proxy_dialer \<times> 'n" where
  "proxy_dial_tcp dial vh k vr t alive exchange deadline host0 port p n =
     (case original_host vh (t 0) host0 port FpTcp p of
        (Inl e, p1) \<Rightarrow> (Inl e, p1, n)
      | (Inr host, p1) \<Rightarrow>
          let by_name = (if parse_ipv4 host = None then client_route k host port FpTcp else None);
              resolved = (case resolve (vr 0) (\<lambda>i. vr (Suc i)) (\<lambda>i. t (Suc i)) alive exchange deadline host port FpTcp
                                 (pd_resolver p1) n of
                            (Inl e, r, n1) \<Rightarrow> (Inl e, p1\<lparr>pd_resolver := r\<rparr>, n1)
                          | (Inr target, r, n1) \<Rightarrow>
                              (case dial target n1 of (result, n2) \<Rightarrow> (result, p1\<lparr>pd_resolver := r\<rparr>, n2))) in
          (case by_name of
             Some resource \<Rightarrow>
               if mr_tcp_prefers_l3 resource then resolved
               else (case dial \<lparr>nd_host = host, nd_address = Ipv4 0 0 0 0, nd_port = port, nd_domain_resource = True,
                                nd_resource = resource\<rparr> n of
                       (result, n1) \<Rightarrow> (result, p1, n1))
           | None \<Rightarrow> resolved))"

definition proxy_dial_udp ::
  "(net_destination \<Rightarrow> 'n \<Rightarrow> (io_error_kind + 'd) \<times> 'n) \<Rightarrow> (nat \<Rightarrow> atrust_client) \<Rightarrow> (nat \<Rightarrow> atrust_client)
    \<Rightarrow> (nat \<Rightarrow> nat) \<Rightarrow> (nat \<Rightarrow> bool) \<Rightarrow> (socket_v4 \<Rightarrow> bytes \<Rightarrow> bool \<Rightarrow> 'n \<Rightarrow> (io_error_kind + bytes) \<times> 'n) \<Rightarrow> nat option
    \<Rightarrow> string \<Rightarrow> u16 \<Rightarrow> proxy_dialer \<Rightarrow> 'n \<Rightarrow> (io_error_kind + 'd) \<times> proxy_dialer \<times> 'n" where
  "proxy_dial_udp dial vh vr t alive exchange deadline host0 port p n =
     (case original_host vh (t 0) host0 port FpUdp p of
        (Inl e, p1) \<Rightarrow> (Inl e, p1, n)
      | (Inr host, p1) \<Rightarrow>
          (case resolve (vr 0) (\<lambda>i. vr (Suc i)) (\<lambda>i. t (Suc i)) alive exchange deadline host port FpUdp (pd_resolver p1) n of
             (Inl e, r, n1) \<Rightarrow> (Inl e, p1\<lparr>pd_resolver := r\<rparr>, n1)
           | (Inr target, r, n1) \<Rightarrow>
               (case dial target n1 of (result, n2) \<Rightarrow> (result, p1\<lparr>pd_resolver := r\<rparr>, n2))))"

section \<open>Stacks that follow the policy\<close>

text \<open>
  What the dialer relies on: a stack hands out a native tunnel only when the client, at the moment
  of the dial, routes the name of the target and leaves its TCP to the tunnel.
\<close>

locale policy_stack =
  fixes dial :: "net_destination \<Rightarrow> 'n \<Rightarrow> (io_error_kind + 's) \<times> 'n"
    and client_of :: "'n \<Rightarrow> atrust_client"
    and native :: "'s \<Rightarrow> bool"
  assumes native_authorized: "dial target n = (Inr s, n') \<Longrightarrow> native s \<Longrightarrow>
    \<exists>route. client_route (client_of n) (target_name target) (nd_port target) FpTcp = Some route \<and> \<not> mr_tcp_prefers_l3 route"
begin

lemma proxy_dial_authorized:
  assumes "proxy_dial_tcp dial vh k vr t alive exchange deadline host port p n = (Inr s, p', n')" "native s"
  shows "\<exists>name target n1 route. fst (original_host vh (t 0) host port FpTcp p) = Inr name \<and> dial target n1 = (Inr s, n')
    \<and> (if nd_domain_resource target then nd_host target = name \<or> dns_normalize name = Inr (nd_host target) else nd_host target = name)
    \<and> client_route (client_of n1) (target_name target) port FpTcp = Some route \<and> \<not> mr_tcp_prefers_l3 route"
proof -
  obtain name p1 where host: "original_host vh (t 0) host port FpTcp p = (Inr name, p1)"
    using assms(1) by (auto simp: proxy_dial_tcp_def split: prod.splits sum.splits)
  have "\<exists>target n1. dial target n1 = (Inr s, n') \<and> nd_port target = port
    \<and> (if nd_domain_resource target then nd_host target = name \<or> dns_normalize name = Inr (nd_host target) else nd_host target = name)"
    using assms(1) host
    by (fastforce simp: proxy_dial_tcp_def Let_def resolve_def dest: pick_address_named
        split: prod.splits sum.splits option.splits if_splits)
  then obtain target n1 where d: "dial target n1 = (Inr s, n')" "nd_port target = port"
    and named: "if nd_domain_resource target then nd_host target = name \<or> dns_normalize name = Inr (nd_host target)
      else nd_host target = name" by blast
  from native_authorized [OF d(1) assms(2)] obtain route where
    "client_route (client_of n1) (target_name target) port FpTcp = Some route" "\<not> mr_tcp_prefers_l3 route"
    using d(2) by blast
  then show ?thesis using host d(1) named by (intro exI [of _ name] exI [of _ target] exI [of _ n1] exI [of _ route]) simp
qed

end

primrec is_native :: "'s net_stream \<Rightarrow> bool" where
  "is_native (NativeTunnel t) = True"
| "is_native (HostStream s) = False"

lemma client_dial_tcp_authorized:
  assumes "client_dial_tcp d su host port k = (k', Inr dialed)"
  shows "\<exists>route. client_route k host port FpTcp = Some route \<and> \<not> mr_tcp_prefers_l3 route"
  using assms by (rule client_dial_tcp_outcome) (auto simp: client_route_def)

lemma atrust_dial_native:
  "atrust_dial_tcp d su host v target w = (Inr (NativeTunnel t), w') \<Longrightarrow>
     \<exists>k dialed. client_dial_tcp d su (target_name target) (nd_port target) (sw_client w)
       = (k, Inr dialed :: (unit, _, unit) client_error + _)"
  by (auto simp: atrust_dial_tcp_def Let_def map_sum_Inr split: sum.splits option.splits if_splits prod.splits)

interpretation native_stack: policy_stack "atrust_dial_tcp d su host v" sw_client is_native
proof
  fix target w s w'
  assume "atrust_dial_tcp d su host v target w = (Inr s, w')" "is_native s"
  then obtain k dialed where "client_dial_tcp d su (target_name target) (nd_port target) (sw_client w)
      = (k, Inr dialed :: (unit, _, unit) client_error + _)"
    using atrust_dial_native by (cases s) fastforce+
  then show "\<exists>route. client_route (sw_client w) (target_name target) (nd_port target) FpTcp = Some route \<and> \<not> mr_tcp_prefers_l3 route"
    by (rule client_dial_tcp_authorized)
qed

section \<open>UDP connections under way\<close>

text \<open>
  The connections an application holds, with everything else that may happen to the client and
  the host in between.
\<close>

inductive udp_reachable ::
  "(nat \<Rightarrow> ('se, 'de) surroundings) \<Rightarrow> atrust_udp list \<Rightarrow> 'h stack_world \<Rightarrow> bool" for surr where
  udp_none: "sw_ports w = [] \<Longrightarrow> udp_reachable surr [] w"
| udp_connects: "udp_reachable surr us w \<Longrightarrow> udp_connect (surr i) seen target w = (Inr u, w') \<Longrightarrow> udp_reachable surr (u # us) w'"
| udp_refused: "udp_reachable surr us w \<Longrightarrow> udp_connect (surr i) seen target w = (Inl e, w') \<Longrightarrow> udp_reachable surr us w'"
| udp_sends: "udp_reachable surr us w \<Longrightarrow> u \<in> set us \<Longrightarrow> udp_send (surr i) payload u w = (r, w') \<Longrightarrow> udp_reachable surr us w'"
| udp_receives: "udp_reachable surr us w \<Longrightarrow> u \<in> set us \<Longrightarrow> udp_recv u w = (x, w') \<Longrightarrow> udp_reachable surr us w'"
| udp_drops: "udp_reachable surr (xs @ u # ys) w \<Longrightarrow> udp_reachable surr (xs @ ys) (udp_drop u w)"
| udp_others: "udp_reachable surr us w \<Longrightarrow> udp_reachable surr us (w\<lparr>sw_client := k, sw_host := h\<rparr>)"

lemma udp_connect_ports:
  assumes "udp_connect su seen target w = (r, w')"
  shows "case r of Inl e \<Rightarrow> sw_ports w' = sw_ports w
    | Inr u \<Rightarrow> sw_ports w' = sv_port (au_source u) # sw_ports w \<and> sv_port (au_source u) \<notin> set (sw_ports w)
        \<and> 49152 \<le> unat (sv_port (au_source u)) \<and> au_target u = target"
proof -
  have release: "port_release port ports = sw_ports w" if "port_allocate (sw_ports w) = Inr (port, ports)" for port ports
    using port_allocate_fresh [OF that] by (simp add: port_release_def)
  show ?thesis using assms
    by (auto simp: udp_connect_def Let_def release dest: port_allocate_fresh
        split: option.splits prod.splits sum.splits)
qed

lemma udp_ports_frame:
  "udp_send su payload u w = (r, w') \<Longrightarrow> sw_ports w' = sw_ports w"
  "udp_recv u w = (x, w') \<Longrightarrow> sw_ports w' = sw_ports w"
  by (auto simp: udp_send_def udp_recv_def split: if_splits sum.splits prod.splits option.splits list.splits)

lemma udp_drop_ports: "sw_ports (udp_drop u w) = remove1 (sv_port (au_source u)) (sw_ports w)"
  by (simp add: udp_drop_def port_release_def split: prod.splits)

definition leases_ok :: "atrust_udp list \<Rightarrow> 'h stack_world \<Rightarrow> bool" where
  "leases_ok us w \<longleftrightarrow> distinct (sw_ports w) \<and> mset (map (sv_port \<circ> au_source) us) = mset (sw_ports w)
     \<and> (\<forall>u \<in> set us. 49152 \<le> unat (sv_port (au_source u)))"

lemma udp_reachable_leases: "udp_reachable surr us w \<Longrightarrow> leases_ok us w"
proof (induction rule: udp_reachable.induct)
  case (udp_connects us w i seen target u w')
  then show ?case using udp_connect_ports [OF udp_connects(2)] by (auto simp: leases_ok_def)
next
  case (udp_refused us w i seen target e w')
  then show ?case using udp_connect_ports [OF udp_refused(2)] by (simp add: leases_ok_def)
next
  case (udp_drops xs u ys w)
  then have "mset (sw_ports w) = add_mset (sv_port (au_source u)) (mset (map (sv_port \<circ> au_source) (xs @ ys)))"
    by (simp add: leases_ok_def)
  then show ?case using udp_drops by (simp add: leases_ok_def udp_drop_ports distinct_remove1)
qed (auto simp: leases_ok_def udp_ports_frame)

lemma leases_distinct: "leases_ok us w \<Longrightarrow> distinct (map (sv_port \<circ> au_source) us)"
  by (metis leases_ok_def mset_eq_imp_distinct_iff)

lemma udp_recv_sound:
  assumes "udp_recv u w = (Some (Inr payload), w')"
  shows "\<not> udp_stale (sw_client w) u \<and> (\<exists>packet flow. parse_ipv4_flow packet = Inr flow \<and> fl_src_addr flow = nd_address (au_target u)
    \<and> fl_src_port flow = nd_port (au_target u) \<and> fl_dst_addr flow = sv_ip (au_source u) \<and> fl_dst_port flow = sv_port (au_source u)
    \<and> udp_decode packet (udp_remote u) (au_source u) = Inr payload)"
proof -
  obtain packet where "\<not> udp_stale (sw_client w) u" and d: "udp_decode packet (udp_remote u) (au_source u) = Inr payload"
    using assms by (auto simp: udp_recv_def split: if_splits prod.splits option.splits list.splits)
  moreover obtain flow where "parse_ipv4_flow packet = Inr flow" "fl_src_addr flow = nd_address (au_target u)"
    "fl_src_port flow = nd_port (au_target u)" "fl_dst_addr flow = sv_ip (au_source u)" "fl_dst_port flow = sv_port (au_source u)"
    using d by (auto simp: udp_decode_def Let_def split: sum.splits if_splits)
  ultimately show ?thesis by blast
qed

lemma udp_send_sound:
  assumes "udp_send su payload u w = (Inr (), w')"
  shows "\<exists>packet sent. udp_encode (au_source u) (udp_remote u) payload = Inr packet \<and> length payload \<le> 1372
    \<and> udp_decode packet (au_source u) (udp_remote u) = Inr payload
    \<and> client_dispatch su packet True (if nd_domain_resource (au_target u) then Some (nd_host (au_target u)) else None) (sw_client w)
        = (sw_client w', Inr sent :: (unit, unit, _) client_error + _)
    \<and> (ak_epoch (sw_client w'), sf_session sent) = au_session u"
proof -
  have short: "length payload \<le> 1372"
    using assms by (auto simp: udp_send_def UDP_MAX_PAYLOAD_def split: if_splits)
  then obtain packet where e: "udp_encode (au_source u) (udp_remote u) payload = Inr packet"
    and d: "udp_decode packet (au_source u) (udp_remote u) = Inr payload"
    using udp_datagram_decodes [of payload "au_source u" "udp_remote u"] by auto
  then show ?thesis using assms short
    by (auto simp: udp_send_def send_ipv4_def send_ipv4_for_domain_def split: if_splits sum.splits prod.splits)
qed

section \<open>Properties\<close>


text \<open>
  C2: Dialling is fail-closed end to end. When a dial of the proxies over the native stack gives a
  tunnel, it was dialled under the name the dialer found for the requested host, or an address of
  it, and the client, as it was when the dial happened, whatever changed since the name was
  resolved, had a published application one of whose addresses authorizes that destination and
  which leaves TCP to the tunnel.
\<close>

theorem proxy_dial_follows_policy:
  assumes "proxy_dial_tcp (atrust_dial_tcp d su hstack v) vh k vr t alive exchange deadline host port p w = (Inr (NativeTunnel tun), p', w')"
  shows "\<exists>name target w1. fst (original_host vh (t 0) host port FpTcp p) = Inr name
    \<and> atrust_dial_tcp d su hstack v target w1 = (Inr (NativeTunnel tun), w')
    \<and> (nd_host target = name \<or> dns_normalize name = Inr (nd_host target))
    \<and> (\<forall>surr dials env x. client_reachable surr dials env x \<and> cw_client x = sw_client w1 \<longrightarrow>
        (\<exists>body data app address dest. from_envelope body = Inr (table_in_force x) \<and> en_data body = Some data
          \<and> authorizes data app address (target_name target) port FpTcp dest \<and> \<not> app_tcp_prefers_l3 app))"
proof -
  obtain name target w1 route where d: "fst (original_host vh (t 0) host port FpTcp p) = Inr name"
      "atrust_dial_tcp d su hstack v target w1 = (Inr (NativeTunnel tun), w')"
      "if nd_domain_resource target then nd_host target = name \<or> dns_normalize name = Inr (nd_host target) else nd_host target = name"
      "client_route (sw_client w1) (target_name target) port FpTcp = Some route" "\<not> mr_tcp_prefers_l3 route"
    using native_stack.proxy_dial_authorized [OF assms] by (auto simp del: if_split)
  have named: "nd_host target = name \<or> dns_normalize name = Inr (nd_host target)" using d(3) by (auto split: if_splits)
  show ?thesis
  proof (intro exI [of _ name] exI [of _ target] exI [of _ w1] conjI allI impI d(1,2) named)
    fix surr dials env x
    assume x: "client_reachable surr dials env x \<and> cw_client x = sw_client w1"
    obtain body where body: "from_envelope body = Inr (table_in_force x)"
      and index: "rn_routing (rc_current (cs_resources (ak_active (cw_client x)))) = resource_index_build (table_in_force x)"
      by (rule reachable_table [OF conjunct1 [OF x]])
    obtain dest where dest: "match_destination (resource_index_build (table_in_force x)) (target_name target) port FpTcp = Some dest"
      "route = to_matched_resource dest" using d(4) index x by (auto simp: client_route_def)
    from match_destination_authorized [OF body dest(1)] obtain data app address
      where a: "en_data body = Some data" "authorizes data app address (target_name target) port FpTcp dest" by blast
    then have "\<not> app_tcp_prefers_l3 app" using d(5) dest(2) by (simp add: authorizes_def)
    with body a show "\<exists>body data app address dest. from_envelope body = Inr (table_in_force x) \<and> en_data body = Some data
        \<and> authorizes data app address (target_name target) port FpTcp dest \<and> \<not> app_tcp_prefers_l3 app" by blast
  qed
qed


subsection \<open>Examples\<close>

text \<open>A client whose table publishes \<open>jw.edu\<close> with a pretended address.\<close>

definition sample_portal_domain :: domain_resource where
  "sample_portal_domain = (sample_domain ''jw.edu'' ''app'')\<lparr>dr_protocol := RpAll\<rparr>"

definition sample_portal :: atrust_client where
  "sample_portal = sample_atrust\<lparr>ak_active := (sample_active None)\<lparr>cs_resources := resource_cache_new
     (sample_tables\<lparr>cr_ip_resources := [], cr_domain_resources := [sample_portal_domain]\<rparr>)\<rparr>\<rparr>"

abbreviation portal_index :: resource_index where
  "portal_index \<equiv> rn_routing (rc_current (cs_resources (ak_active sample_portal)))"

lemma sample_portal_index: "portal_index = resource_index_build
    (sample_tables\<lparr>cr_ip_resources := [], cr_domain_resources := [sample_portal_domain]\<rparr>)"
  by (simp add: sample_portal_def sample_client_defs Let_def)

lemma sample_portal_fields: "ak_epoch sample_portal = 1" "rn_generation (rc_current (cs_resources (ak_active sample_portal))) = 1"
  "(snd (check_session sample_portal) :: (unit, unit, unit) client_error + unit) = Inr ()"
  by (simp_all add: sample_portal_def check_session_def client_run_def run_gate_def sample_client_defs Let_def)

lemma sample_plain_name: "normalize_host ''jw.edu'' = Some ''jw.edu''" "parse_ipv4 ''jw.edu'' = None"
  by code_simp+

lemma sample_portal_entry: "indexed_domain_of sample_portal_domain =
    Some \<lparr>id_pattern = \<lparr>pat_suffix = ''jw.edu'', pat_wildcard = False\<rparr>, id_resource = sample_portal_domain\<rparr>"
  by (simp add: sample_portal_domain_def sample_domain_def indexed_domain_of_def
      domain_pattern_parse_def trim_eval to_ascii_lowercase_def ascii_lower_def trim_end_char_def strip_prefix_def)

lemma sample_portal_policies: "domain_resources_for_host portal_index ''jw.edu'' = [sample_portal_domain]"
  by (simp add: domain_resources_for_host_def sample_plain_name sample_portal_index resource_index_build_def Let_def
      sample_portal_entry List.map_filter_simps domain_pattern_matches_def)

lemma sample_portal_route:
  assumes "protocol = FpTcp \<or> protocol = FpUdp"
  shows "client_route sample_portal ''jw.edu'' 80 protocol =
     Some \<lparr>mr_app_id = ''app'', mr_node_group_id = ''ng'', mr_tcp_prefers_l3 = False, mr_addr_pretend = True\<rparr>"
proof -
  let ?flow = "\<lparr>df_host = ''jw.edu'', df_port = 80, df_protocol = protocol\<rparr>"
  have trim: "str_trim ''jw.edu'' = ''jw.edu''" by code_simp
  have "domain_entry_matches \<lparr>id_pattern = \<lparr>pat_suffix = ''jw.edu'', pat_wildcard = False\<rparr>, id_resource = sample_portal_domain\<rparr>
      ''jw.edu'' ?flow"
    using assms by (auto simp: domain_entry_matches_def domain_pattern_matches_def sample_portal_domain_def sample_domain_def
        protocol_matches_def port_matches_def has_ports_def)
  moreover have "normalize_host (df_host ?flow) = Some ''jw.edu''" by (simp add: sample_plain_name)
  ultimately have "match_domain portal_index ?flow = Some sample_portal_domain"
    unfolding sample_portal_index by (simp add: match_domain_find List.map_filter_simps sample_portal_entry)
  then have "match_destination portal_index ''jw.edu'' 80 protocol = Some (DestDomain sample_portal_domain)"
    by (simp add: match_destination_def trim sample_plain_name)
  then show ?thesis
    by (simp add: client_route_def to_matched_resource_def sample_portal_domain_def sample_domain_def)
qed


text \<open>A node that accepts the tunnel.\<close>

definition sample_live_dialer :: "unit dialer" where
  "sample_live_dialer = sample_dialer\<lparr>dl_outcomes := (\<lambda>e k. Connected sample_node)\<rparr>"

lemma sample_literal: "parse_ipv4 ''10.1.2.3'' = Some (Ipv4 10 1 2 3)"
  using parse_ipv4_to_string [of "Ipv4 10 1 2 3"] unfolding sample_address .

lemma sample_live_dial:
  "\<exists>t. dial_to sample_live_dialer sample_atrust ''10.1.2.3'' 80 ''app'' sample_node_endpoint = Inr t"
proof -
  let ?r = "dial_request sample_runtime_config (cs_material (sample_active None)) (TargetIpv4 (Ipv4 10 1 2 3) 80 ''app'') sample_node_endpoint"
  have ok: "(validate_request ?r :: unit dial_tcp_error + unit) = Inr ()"
    by (simp add: validate_request_def dial_request_def sample_node_endpoint_def)
  obtain init dest where frames: "build_handshake_frames id append (\<lambda>w. Inr [1] :: unit + bytes) ?r
      (case dr_process ?r of Some p \<Rightarrow> p | None \<Rightarrow> default_for_port (target_port (dr_target ?r))) = Inr (init, dest)"
    and len: "length init + length dest + 4 \<le> 40"
    by (simp add: dial_request_def build_handshake_frames_def build_signed_tcp_init_json_def to_wire_json_def
        tcp_init_unsigned_def tcp_frame_defs u16_to_be_def Let_def)
  have room: "can_write (length init + length dest + 4) sample_node" "flushes_twice sample_node"
    "io_reads sample_node = [Accept [5, 0x81, 0x53], Wait, Accept [0, 0, 2, 79, 75, 5, 0, 1, 0, 0, 1, 65]] @ [Accept []]"
    using len by (simp_all add: sample_node_def can_write_def flushes_twice_def eval_nat_numeral)
  have reply: "script_bytes [Accept [5, 0x81, 0x53], Wait, Accept [0, 0, 2, 79, 75, 5, 0, 1, 0, 0, 1, 65]] =
      status_reply 1 [79, 75] @ [5, 0] @ [1, 0, 0, 1, 65]"
    by (simp add: status_reply_def u16_to_be_def)
  have verdict: "handshake_verdict (\<lambda>_. None) [79, 75] = (Inr () :: unit dial_tcp_error + unit)"
    by (simp add: is_status_ok_def as_bytes_def)
  obtain s' where "(complete_handshake (\<lambda>_. None) sample_node init dest :: (unit dial_tcp_error + unit) poll \<times> io_stream) = (Ready (Inr ()), s')"
    using handshake_exchange [OF room(1,2) _ room(3) reply, of "\<lambda>_. None"] verdict
    by (auto simp del: handshake_verdict.simps)
  then have "dial_tcp_with_underlay id append (\<lambda>w. Inr [1] :: unit + bytes) (\<lambda>_. None) ?r (Connected sample_node) = Inr (from_stream s')"
    using ok frames by (simp add: dial_tcp_with_underlay_def Let_def)
  moreover have "dial_retry_loop f 1 (\<lambda>_. oc) 0 = (Inr tun, 1)" if "f oc = Inr tun"
    for f :: "connect_outcome \<Rightarrow> unit dial_tcp_error + tcp_tunnel" and oc tun
    using that by (simp add: dial_retry_loop.simps [of f "Suc 0" _ 0])
  ultimately show ?thesis
    by (simp add: dial_to_def dial_endpoint_def dial_tcp_with_retry_def tunnel_target_of_def sample_literal sample_live_dialer_def
        sample_dialer_def sample_atrust_def TCP_DIAL_RETRIES_def)
qed

abbreviation sample_stack :: "unit stack_world" where
  "sample_stack \<equiv> \<lparr>sw_client = sample_atrust, sw_ports = [], sw_host = ()\<rparr>"

abbreviation sample_native_dial :: "net_destination \<Rightarrow> unit stack_world \<Rightarrow> (io_error_kind + unit net_stream) \<times> unit stack_world" where
  "sample_native_dial \<equiv> atrust_dial_tcp sample_live_dialer sample_surroundings None (\<lambda>_. sample_atrust)"

lemma sample_route_literal:
  "client_route sample_atrust ''10.1.2.3'' 80 FpTcp = Some (to_matched_resource (DestIp sample_route))"
  "(snd (check_session sample_atrust) :: (unit, unit, unit) client_error + unit) = Inr ()"
  by (simp_all add: client_route_def sample_atrust_def sample_gate sample_served(2) check_session_def client_run_def)

lemma sample_client_dial:
  "\<exists>k dialed. client_dial_tcp sample_live_dialer sample_surroundings ''10.1.2.3'' 80 sample_atrust =
     (k, Inr dialed :: (unit, unit dial_tcp_error, unit) client_error + dialed_tunnel)"
proof -
  obtain t where t: "dial_to sample_live_dialer sample_atrust ''10.1.2.3'' 80 ''app'' sample_node_endpoint = Inr t"
    using sample_live_dial by blast
  have "\<exists>events dialed. dial_endpoints (dial_to sample_live_dialer sample_atrust ''10.1.2.3'' 80 ''app'') display route target
      sample_node_endpoint [] = (events, Inr dialed)" for display route target
    by (subst dial_endpoints.simps) (simp add: t)
  then obtain events dialed where "dial_endpoints (dial_to sample_live_dialer sample_atrust ''10.1.2.3'' 80 ''app'') (dl_display sample_live_dialer)
      \<lparr>mr_app_id = ''app'', mr_node_group_id = ''ng'', mr_tcp_prefers_l3 = False, mr_addr_pretend = True\<rparr>
      (tunnel_target_of ''10.1.2.3'' 80 ''app'') sample_node_endpoint [] = (events, Inr dialed)" by blast
  then show ?thesis
    by (simp add: client_dial_tcp_def client_run_def sample_gate sample_atrust_def sample_served(2) sample_to_matched
        sample_selected Let_def dial_to_def)
qed

lemma sample_proxy_dial:
  "\<exists>t p w. proxy_dial_tcp sample_native_dial (\<lambda>_. sample_atrust)
     sample_atrust (\<lambda>_. sample_atrust) (\<lambda>_. 0) (\<lambda>_. False) (\<lambda>_ _ _ w. (Inl TimedOut, w)) None ''10.1.2.3'' 80
     (proxy_dialer_new resolver_config_default) sample_stack = (Inr (NativeTunnel t), p, w)"
proof -
  obtain k dialed where d: "client_dial_tcp sample_live_dialer sample_surroundings ''10.1.2.3'' 80 sample_atrust =
     (k, Inr dialed :: (unit, unit dial_tcp_error, unit) client_error + dialed_tunnel)" using sample_client_dial by blast
  have "\<not> is_fake (Ipv4 10 1 2 3)" by (simp add: is_fake_def FAKE_BASE_def ipv4_u32_def)
  then have "\<exists>p. original_host (\<lambda>_. sample_atrust) 0 ''10.1.2.3'' 80 FpTcp (proxy_dialer_new resolver_config_default) = (Inr ''10.1.2.3'', p)"
    by (simp add: original_host_def sample_route_literal sample_literal Let_def real_hosts_def pool_prune_def proxy_dialer_new_def pool_new_def)
  then obtain p where p: "original_host (\<lambda>_. sample_atrust) 0 ''10.1.2.3'' 80 FpTcp (proxy_dialer_new resolver_config_default)
      = (Inr ''10.1.2.3'', p)" by blast
  have resolved: "resolve sample_atrust (\<lambda>_. sample_atrust) t alive exchange deadline ''10.1.2.3'' 80 FpTcp r n =
      (Inr \<lparr>nd_host = ''10.1.2.3'', nd_address = Ipv4 10 1 2 3, nd_port = 80, nd_domain_resource = False,
            nd_resource = to_matched_resource (DestIp sample_route)\<rparr>, r, n)" for t alive exchange deadline r and n :: "unit stack_world"
    unfolding resolve_def lookup_with_ttl_def lookup_begin_def sample_literal sample_route_literal(2)
    by (simp add: sample_address sample_route_literal(1) del: ipv4_to_string.simps)
  have "\<not> mr_tcp_prefers_l3 (to_matched_resource (DestIp sample_route))" by (simp add: sample_to_matched)
  then have "\<exists>t w. sample_native_dial
      \<lparr>nd_host = ''10.1.2.3'', nd_address = Ipv4 10 1 2 3, nd_port = 80, nd_domain_resource = False,
       nd_resource = to_matched_resource (DestIp sample_route)\<rparr> sample_stack = (Inr (NativeTunnel t), w)"
    unfolding atrust_dial_tcp_def target_name_def
    by (simp add: sample_address sample_route_literal d Let_def del: ipv4_to_string.simps)
  then show ?thesis by (auto simp: proxy_dial_tcp_def p resolved sample_literal Let_def)
qed

theorem proxy_dial_follows_policy_witness:
  "\<exists>t p w target w1. proxy_dial_tcp sample_native_dial (\<lambda>_. sample_atrust)
     sample_atrust (\<lambda>_. sample_atrust) (\<lambda>_. 0) (\<lambda>_. False) (\<lambda>_ _ _ w. (Inl TimedOut, w)) None ''10.1.2.3'' 80
     (proxy_dialer_new resolver_config_default) sample_stack = (Inr (NativeTunnel t), p, w)
   \<and> sample_native_dial target w1 = (Inr (NativeTunnel t), w)"
proof -
  obtain t p w where d: "proxy_dial_tcp sample_native_dial (\<lambda>_. sample_atrust)
     sample_atrust (\<lambda>_. sample_atrust) (\<lambda>_. 0) (\<lambda>_. False) (\<lambda>_ _ _ w. (Inl TimedOut, w)) None ''10.1.2.3'' 80
     (proxy_dialer_new resolver_config_default) sample_stack = (Inr (NativeTunnel t), p, w)" using sample_proxy_dial by blast
  from proxy_dial_follows_policy [OF d] show ?thesis using d by blast
qed

text \<open>A connection to \<open>10.0.0.7\<close> under the name \<open>jw.edu\<close>.\<close>

definition sample_udp_target :: net_destination where
  "sample_udp_target = \<lparr>nd_host = ''jw.edu'', nd_address = Ipv4 10 0 0 7, nd_port = 80, nd_domain_resource = True,
     nd_resource = \<lparr>mr_app_id = ''app'', mr_node_group_id = ''ng'', mr_tcp_prefers_l3 = False, mr_addr_pretend = True\<rparr>\<rparr>"

lemma sample_connected:
  "\<exists>k. connect_node_group sample_surroundings ''ng'' sample_atrust =
     (k, Inr 0 :: (unit, unit, (unit, unit) manager_error) client_error + nat)
   \<and> ss_current_vip (session_at 0 k) = Ipv4 10 0 0 1 \<and> \<not> ss_closed (session_at 0 k) \<and> ss_packet_subscribers (session_at 0 k) = []"
  by (simp add: connect_node_group_def client_run_def sample_gate on_active_def manager_for_snapshot_def sample_selected
      sample_atrust_def manager_for_generation_def cache_entry_def cache_new_def with_manager_def on_manager_def
      sample_surroundings_def sample_network_def manager_session_def current_session_def
      drop_closed_session_def manager_new_def update_endpoints_def state_default_def deduplicate_endpoints_def
      attempt_order_def report_established_def shared_new_def publish_def Let_def)

lemma sample_udp_connect:
  "\<exists>u w. udp_connect sample_surroundings sample_portal sample_udp_target sample_stack = (Inr u, w)"
proof -
  obtain k where k: "connect_node_group sample_surroundings ''ng'' sample_atrust =
     (k, Inr 0 :: (unit, unit, (unit, unit) manager_error) client_error + nat)"
    "ss_current_vip (session_at 0 k) = Ipv4 10 0 0 1" "\<not> ss_closed (session_at 0 k)" "ss_packet_subscribers (session_at 0 k) = []"
    using sample_connected by blast
  have route: "client_route sample_portal (target_name sample_udp_target) (nd_port sample_udp_target) FpUdp =
     Some \<lparr>mr_app_id = ''app'', mr_node_group_id = ''ng'', mr_tcp_prefers_l3 = False, mr_addr_pretend = True\<rparr>"
    using sample_portal_route [of FpUdp] by (simp add: target_name_def sample_udp_target_def)
  have "UDP_PORTS \<noteq> []" unfolding UDP_PORTS_def map_is_Nil_conv upt_eq_Nil_conv by simp
  then obtain first others where ports: "UDP_PORTS = first # others" by (meson list.exhaust)
  have "port_allocate [] = Inr (first, [first])" unfolding port_allocate_def ports by simp
  then obtain port ports where port: "port_allocate [] = Inr (port, ports)" by blast
  let ?source = "\<lparr>sv_ip = Ipv4 10 0 0 1, sv_port = port\<rparr>" and ?dest = "\<lparr>sv_ip = Ipv4 10 0 0 7, sv_port = 80\<rparr>"
  obtain packet flow where packet: "udp_encode ?source ?dest [] = Inr packet" "parse_ipv4_flow packet = Inr flow"
    "fl_src_addr flow = Ipv4 10 0 0 1"
    using udp_encoded_flow [of "[]" ?source ?dest] by auto
  obtain s receiver where "subscribe_flow flow (session_at 0 k) = (s, Inr receiver :: (unit, unit) l3_session_error + _)"
    using k(2-4) packet(3) by (simp add: subscribe_flow_def Let_def)
  then show ?thesis
    by (simp add: udp_connect_def route k(1,2) port packet(1,2) Let_def sample_udp_target_def [symmetric])
       (simp add: sample_udp_target_def packet(1,2))
qed


end
