(* ===== verification/Socks_Proxy.thy ===== *)
theory Socks_Proxy
  imports Net_Dial
begin

text \<open>
  \<open>crates/hermes-proxy/src/socks.rs\<close> and the parts of \<open>lib.rs\<close> both proxies share: the SOCKS5
  handshake with its credentials, addresses, CONNECT and UDP ASSOCIATE. The connection of the
  client is a byte stream of \<open>Async_Io\<close>; a handshake that would wait for ever is ended by its
  timeout. The connector acts on a state of any type. Copying bytes between the two connections
  after a successful CONNECT is the library's; serving ends with handing them over.
\<close>

section \<open>Addresses as text\<close>

text \<open>\<open>IpAddr\<close>, with \<open>Display\<close> and \<open>FromStr\<close> of the standard library; an IPv6 address is its eight groups.\<close>

datatype ip_addr = IpV4 ipv4 | IpV6 "u16 list"

fun hex_text :: "nat \<Rightarrow> string" where
  "hex_text n = (if n < 16 then [hex_digit False n] else hex_text (n div 16) @ [hex_digit False (n mod 16)])"

declare hex_text.simps [simp del]

fun join_colons :: "u16 list \<Rightarrow> string" where
  "join_colons [] = []"
| "join_colons [g] = hex_text (unat g)"
| "join_colons (g # gs) = hex_text (unat g) @ CHR '':'' # join_colons gs"

text \<open>The first longest run of zero groups as start and length.\<close>

fun zero_run :: "nat \<Rightarrow> u16 list \<Rightarrow> nat \<times> nat \<Rightarrow> nat \<times> nat \<Rightarrow> nat \<times> nat" where
  "zero_run i [] longest current = longest"
| "zero_run i (g # gs) longest current =
     (if g = 0 then
        let run = (if snd current = 0 then (i, 1) else (fst current, snd current + 1))
        in zero_run (i + 1) gs (if snd run > snd longest then run else longest) run
      else zero_run (i + 1) gs longest (0, 0))"

definition ipv6_to_string :: "u16 list \<Rightarrow> string" where
  "ipv6_to_string gs =
     (if take 6 gs = [0, 0, 0, 0, 0, 0xffff] then
        ''::ffff:'' @ (case concat (map u16_to_be (drop 6 gs)) of
           [a, b, c, d] \<Rightarrow> ipv4_to_string (Ipv4 a b c d) | _ \<Rightarrow> [])
      else case zero_run 0 gs (0, 0) (0, 0) of
        (start, len) \<Rightarrow>
          if len > 1 then join_colons (take start gs) @ ''::'' @ join_colons (drop (start + len) gs)
          else join_colons gs)"

definition ip_to_string :: "ip_addr \<Rightarrow> string" where
  "ip_to_string a = (case a of IpV4 ip \<Rightarrow> ipv4_to_string ip | IpV6 gs \<Rightarrow> ipv6_to_string gs)"

definition hex_value :: "char \<Rightarrow> nat option" where
  "hex_value c =
     (let n = of_char c :: nat in
      if 48 \<le> n \<and> n \<le> 57 then Some (n - 48)
      else if 97 \<le> n \<and> n \<le> 102 then Some (n - 87)
      else if 65 \<le> n \<and> n \<le> 70 then Some (n - 55) else None)"

definition read_group :: "string \<Rightarrow> (u16 \<times> string) option" where
  "read_group s =
     (let ds = takeWhile (\<lambda>c. hex_value c \<noteq> None) s in
      if ds = [] \<or> length ds > 4 then None
      else Some (word_of_nat (fold (\<lambda>c n. n * 16 + the (hex_value c)) ds 0), drop (length ds) s))"

definition read_octet :: "string \<Rightarrow> (byte \<times> string) option" where
  "read_octet s =
     (let ds = takeWhile is_digit s in map_option (\<lambda>b. (b, drop (length ds) s)) (parse_octet ds))"

definition after_char :: "char \<Rightarrow> (string \<Rightarrow> 'a option) \<Rightarrow> string \<Rightarrow> 'a option" where
  "after_char c f s = (case s of [] \<Rightarrow> None | x # r \<Rightarrow> if x = c then f r else None)"

definition read_ipv4 :: "string \<Rightarrow> (ipv4 \<times> string) option" where
  "read_ipv4 s =
     Option.bind (read_octet s) (\<lambda>(a, s1). Option.bind (after_char CHR ''.'' read_octet s1) (\<lambda>(b, s2).
       Option.bind (after_char CHR ''.'' read_octet s2) (\<lambda>(c, s3). Option.bind (after_char CHR ''.'' read_octet s3)
         (\<lambda>(d, s4). Some (Ipv4 a b c d, s4)))))"

fun read_groups :: "nat \<Rightarrow> bool \<Rightarrow> string \<Rightarrow> u16 list \<times> bool \<times> string" where
  "read_groups 0 first s = ([], False, s)"
| "read_groups (Suc k) first s =
     (case (if 0 < k then (if first then read_ipv4 s else after_char CHR '':'' read_ipv4 s) else None) of
        Some (Ipv4 a b c d, rest) \<Rightarrow> ([u16_from_be a b, u16_from_be c d], True, rest)
      | None \<Rightarrow>
          (case (if first then read_group s else after_char CHR '':'' read_group s) of
             None \<Rightarrow> ([], False, s)
           | Some (g, rest) \<Rightarrow> (case read_groups k False rest of (gs, v4, r) \<Rightarrow> (g # gs, v4, r))))"

definition parse_ipv6 :: "string \<Rightarrow> u16 list option" where
  "parse_ipv6 s =
     (case read_groups 8 True s of
        (head, v4, rest) \<Rightarrow>
          if length head = 8 then (if rest = [] then Some head else None)
          else if v4 then None
          else (case rest of
                  c1 # c2 # r \<Rightarrow>
                    if c1 = CHR '':'' \<and> c2 = CHR '':'' then
                      (case read_groups (7 - length head) True r of
                         (tail, _, r') \<Rightarrow>
                           if r' = [] then Some (head @ replicate (8 - length head - length tail) 0 @ tail) else None)
                    else None
                | _ \<Rightarrow> None))"

definition parse_ip :: "string \<Rightarrow> ip_addr option" where
  "parse_ip s =
     (case parse_ipv4 s of Some ip \<Rightarrow> Some (IpV4 ip) | None \<Rightarrow> map_option IpV6 (parse_ipv6 s))"

definition ip_unspecified :: "ip_addr \<Rightarrow> bool" where
  "ip_unspecified a = (case a of IpV4 ip \<Rightarrow> ip = Ipv4 0 0 0 0 | IpV6 gs \<Rightarrow> list_all (\<lambda>g. g = 0) gs)"

section \<open>Definitions\<close>

record credentials =
  cr_username :: string
  cr_password :: string

record proxy_config =
  pc_max_connections :: nat
  pc_handshake_timeout :: nat
  pc_connect_timeout :: nat
  pc_credentials :: "credentials option"

definition proxy_config_default :: proxy_config where
  "proxy_config_default = \<lparr>pc_max_connections = 256, pc_handshake_timeout = 10 * 1000,
     pc_connect_timeout = 45 * 1000, pc_credentials = None\<rparr>"

text \<open>\<open>connect\<close>; \<open>elapsed\<close> says that the budget ran out first.\<close>

definition proxy_connect ::
  "(string \<Rightarrow> u16 \<Rightarrow> 'n \<Rightarrow> (io_error_kind + 's) \<times> 'n) \<Rightarrow> bool \<Rightarrow> string \<Rightarrow> u16 \<Rightarrow> 'n \<Rightarrow> (io_error_kind + 's) \<times> 'n" where
  "proxy_connect dial elapsed host port n =
     (case dial host port n of (r, n') \<Rightarrow> (if elapsed then Inl TimedOut else r, n'))"

type_synonym socket_addr = "ip_addr \<times> u16"

subsection \<open>The handshake\<close>

text \<open>\<open>.await?\<close> on the client's stream.\<close>

definition sock_then ::
  "(io_error + 'a) poll \<times> io_stream \<Rightarrow> ('a \<Rightarrow> io_stream \<Rightarrow> (io_error_kind + 'b) poll \<times> io_stream)
    \<Rightarrow> (io_error_kind + 'b) poll \<times> io_stream" where
  "sock_then m f =
     (case m of
        (Ready (Inr a), s) \<Rightarrow> f a s
      | (Ready (Inl e), s) \<Rightarrow> (Ready (Inl (io_kind e)), s)
      | (PollPending, s) \<Rightarrow> (PollPending, s))"

abbreviation invalid :: "io_stream \<Rightarrow> (io_error_kind + 'b) poll \<times> io_stream" where
  "invalid s \<equiv> (Ready (Inl InvalidData), s)"

definition read_u8 :: "io_stream \<Rightarrow> (byte \<Rightarrow> io_stream \<Rightarrow> (io_error_kind + 'b) poll \<times> io_stream) \<Rightarrow> (io_error_kind + 'b) poll \<times> io_stream" where
  "read_u8 s f = sock_then (stream_read_exact 1 s) (\<lambda>bs. f (hd bs))"

definition ipv6_of_bytes :: "bytes \<Rightarrow> u16 list" where
  "ipv6_of_bytes bs = map (\<lambda>i. u16_from_be (bs ! (2 * i)) (bs ! (2 * i + 1))) [0..<8]"

definition socks_address :: "io_stream \<Rightarrow> (io_error_kind + string \<times> u16) poll \<times> io_stream" where
  "socks_address s =
     (let finish = (\<lambda>host s1. sock_then (stream_read_exact 2 s1)
            (\<lambda>p s2. (Ready (Inr (host, u16_from_be (p ! 0) (p ! 1))), s2))) in
      read_u8 s (\<lambda>kind s1.
        if kind = 1 then
          sock_then (stream_read_exact 4 s1) (\<lambda>ip. finish (ipv4_to_string (Ipv4 (ip ! 0) (ip ! 1) (ip ! 2) (ip ! 3))))
        else if kind = 4 then
          sock_then (stream_read_exact 16 s1) (\<lambda>ip. finish (ipv6_to_string (ipv6_of_bytes ip)))
        else if kind = 3 then
          read_u8 s1 (\<lambda>n s2.
            if n = 0 then invalid s2
            else sock_then (stream_read_exact (unat n) s2) (\<lambda>host s3.
              case from_utf8 host of None \<Rightarrow> invalid s3 | Some name \<Rightarrow> finish name s3))
        else invalid s1))"

text \<open>The user and password message, answered with zero when both agree.\<close>

definition socks_authenticate :: "credentials \<Rightarrow> io_stream \<Rightarrow> (io_error_kind + unit) poll \<times> io_stream" where
  "socks_authenticate c s =
     read_u8 s (\<lambda>version s1.
       if version \<noteq> 1 then invalid s1
       else read_u8 s1 (\<lambda>user_len s2. sock_then (stream_read_exact (unat user_len) s2) (\<lambda>user s3.
         read_u8 s3 (\<lambda>pass_len s4. sock_then (stream_read_exact (unat pass_len) s4) (\<lambda>password s5.
           let valid = user = as_bytes (cr_username c) \<and> password = as_bytes (cr_password c) in
           sock_then (stream_write_all [1, if valid then 0 else 1] s5) (\<lambda>_ s6.
             (Ready (if valid then Inr () else Inl PermissionDenied), s6)))))))"

definition socks_request :: "io_stream \<Rightarrow> (io_error_kind + byte \<times> string \<times> u16) poll \<times> io_stream" where
  "socks_request s =
     sock_then (stream_read_exact 3 s) (\<lambda>header s1.
       if header ! 0 \<noteq> 5 \<or> header ! 2 \<noteq> 0 then invalid s1
       else (case socks_address s1 of
               (Ready (Inr (host, port)), s2) \<Rightarrow> (Ready (Inr (header ! 1, host, port)), s2)
             | (Ready (Inl e), s2) \<Rightarrow> (Ready (Inl e), s2)
             | (PollPending, s2) \<Rightarrow> (PollPending, s2)))"

definition socks_handshake :: "proxy_config \<Rightarrow> io_stream \<Rightarrow> (io_error_kind + byte \<times> string \<times> u16) poll \<times> io_stream" where
  "socks_handshake config s =
     read_u8 s (\<lambda>version s1.
       if version \<noteq> 5 then invalid s1
       else read_u8 s1 (\<lambda>count s2. sock_then (stream_read_exact (unat count) s2) (\<lambda>methods s3.
         let auth_method = (if pc_credentials config \<noteq> None then 2 else 0) in
         if auth_method \<notin> set methods then sock_then (stream_write_all [5, 255] s3) (\<lambda>_ s4. invalid s4)
         else sock_then (stream_write_all [5, auth_method] s3) (\<lambda>_ s4.
           case pc_credentials config of
             None \<Rightarrow> socks_request s4
           | Some c \<Rightarrow>
               (case socks_authenticate c s4 of
                  (Ready (Inr _), s5) \<Rightarrow> socks_request s5
                | (Ready (Inl e), s5) \<Rightarrow> (Ready (Inl e), s5)
                | (PollPending, s5) \<Rightarrow> (PollPending, s5))))))"

subsection \<open>Requests\<close>

definition encode_address :: "string \<Rightarrow> u16 \<Rightarrow> io_error_kind + bytes" where
  "encode_address host port =
     map_sum id (\<lambda>bs. bs @ u16_to_be port)
       (case parse_ip host of
          Some (IpV4 ip) \<Rightarrow> Inr (1 # octets ip)
        | Some (IpV6 gs) \<Rightarrow> Inr (4 # concat (map u16_to_be gs))
        | None \<Rightarrow>
            if length host > 255 \<or> length host = 0 then Inl InvalidData
            else Inr ([3, word_of_nat (length host)] @ as_bytes host))"

definition socks_reply :: "io_stream \<Rightarrow> byte \<Rightarrow> socket_addr \<Rightarrow> (io_error_kind + unit) poll \<times> io_stream" where
  "socks_reply s status bound =
     (case encode_address (ip_to_string (fst bound)) (snd bound) of
        Inl e \<Rightarrow> (Ready (Inl e), s)
      | Inr address \<Rightarrow> sock_then (stream_write_all ([5, status, 0] @ address) s) (\<lambda>u s1. (Ready (Inr u), s1)))"

datatype 's socks_end = SocksRelay 's | SocksAssociate string u16 | SocksDone

text \<open>
  \<open>serve\<close> up to the copying or the association. \<open>bound\<close> is what \<open>local_addr\<close> answers. A write of the
  reply that waits for ever leaves the task waiting.
\<close>

definition socks_serve ::
  "proxy_config \<Rightarrow> (string \<Rightarrow> u16 \<Rightarrow> 'n \<Rightarrow> (io_error_kind + 's) \<times> 'n) \<Rightarrow> bool \<Rightarrow> io_error_kind + socket_addr
    \<Rightarrow> io_stream \<Rightarrow> 'n \<Rightarrow> (io_error_kind + 's socks_end) poll \<times> io_stream \<times> 'n" where
  "socks_serve config dial elapsed local s n =
     (let replied = (\<lambda>finished r n'. case r of
            (Ready (Inr _), s') \<Rightarrow> (Ready (Inr finished), s', n')
          | (Ready (Inl e), s') \<Rightarrow> (Ready (Inl e), s', n')
          | (PollPending, s') \<Rightarrow> (PollPending, s', n')) in
      case socks_handshake config s of
        (PollPending, s1) \<Rightarrow> (Ready (Inl TimedOut), s1, n)
      | (Ready (Inl e), s1) \<Rightarrow> (Ready (Inl e), s1, n)
      | (Ready (Inr (command, host, port)), s1) \<Rightarrow>
          (case local of
             Inl e \<Rightarrow> (Ready (Inl e), s1, n)
           | Inr bound \<Rightarrow>
               if command = 1 then
                 (case proxy_connect dial elapsed host port n of
                    (Inr target, n1) \<Rightarrow> replied (SocksRelay target) (socks_reply s1 0 bound) n1
                  | (Inl e, n1) \<Rightarrow> replied SocksDone (socks_reply s1 (if e = PermissionDenied then 2 else 5) bound) n1)
               else if command = 3 then (Ready (Inr (SocksAssociate host port)), s1, n)
               else replied SocksDone (socks_reply s1 7 bound) n))"

subsection \<open>UDP associations\<close>

definition socks_datagram :: "bytes \<Rightarrow> io_error_kind + string \<times> u16 \<times> nat" where
  "socks_datagram packet =
     (if length packet < 4 \<or> take 3 packet \<noteq> [0, 0, 0] then Inl InvalidData
      else let name = (if packet ! 3 = 1 then
               (if length packet < 8 then Inl InvalidData
                else Inr (ipv4_to_string (Ipv4 (packet ! 4) (packet ! 5) (packet ! 6) (packet ! 7)), 8))
             else if packet ! 3 = 3 then
               (if length packet < 5 then Inl InvalidData
                else let n = unat (packet ! 4) in
                  if n = 0 then Inl InvalidData
                  else if length packet < 5 + n then Inl InvalidData
                  else (case from_utf8 (slice packet 5 (5 + n)) of
                          None \<Rightarrow> Inl InvalidData | Some host \<Rightarrow> Inr (host, 5 + n)))
             else Inl InvalidData) in
        case name of
          Inl e \<Rightarrow> Inl e
        | Inr (host, end_of_name) \<Rightarrow>
            if length packet < end_of_name + 2 then Inl InvalidData
            else Inr (host, u16_from_be (packet ! end_of_name) (packet ! (end_of_name + 1)), end_of_name + 2))"

record 'd udp_peer =
  up_connection :: 'd
  up_last_used :: nat

record 'd association =
  as_peer :: ip_addr
  as_client :: "socket_addr option"
  as_peers :: "(string \<times> u16, 'd udp_peer) hmap"

text \<open>
  Before the loop: whether the request is refused, and the reply that announces the socket. The
  clients of other addresses are refused.
\<close>

definition associate_begin ::
  "string \<Rightarrow> u16 \<Rightarrow> ip_addr \<Rightarrow> io_error_kind + socket_addr \<Rightarrow> io_error_kind + socket_addr \<Rightarrow> io_stream
    \<Rightarrow> (io_error_kind + 'd association option) poll \<times> io_stream" where
  "associate_begin requested_host requested_port peer local socket s =
     (let answer = (\<lambda>status bound r. case bound of
            Inl e \<Rightarrow> (Ready (Inl e), s)
          | Inr address \<Rightarrow> (case socks_reply s status address of
               (Ready (Inr _), s1) \<Rightarrow> (Ready (Inr r), s1)
             | (Ready (Inl e), s1) \<Rightarrow> (Ready (Inl e), s1)
             | (PollPending, s1) \<Rightarrow> (PollPending, s1))) in
      if (case parse_ip requested_host of None \<Rightarrow> False | Some ip \<Rightarrow> \<not> ip_unspecified ip \<and> ip \<noteq> peer)
      then answer 2 local None
      else (case local of
              Inl e \<Rightarrow> (Ready (Inl e), s)
            | Inr _ \<Rightarrow>
                answer 0 socket (Some \<lparr>as_peer = peer,
                  as_client = (if requested_port = 0 then None else Some (peer, requested_port)), as_peers = []\<rparr>)))"

text \<open>Peers that were used in the last two minutes and whose receiver has not ended.\<close>

definition live_peers ::
  "nat \<Rightarrow> (string \<times> u16 \<Rightarrow> bool) \<Rightarrow> (string \<times> u16, 'd udp_peer) hmap \<Rightarrow> (string \<times> u16, 'd udp_peer) hmap" where
  "live_peers now finished peers = filter (\<lambda>(k, p). now - up_last_used p < 120 * 1000 \<and> \<not> finished k) peers"

text \<open>Sending to the peer of a key; the loop has made sure that there is one.\<close>

definition assoc_deliver ::
  "(bytes \<Rightarrow> 'd \<Rightarrow> 'n \<Rightarrow> (io_error_kind + unit) \<times> 'n) \<Rightarrow> nat \<Rightarrow> string \<times> u16 \<Rightarrow> bytes \<Rightarrow> 'd association \<Rightarrow> 'n
    \<Rightarrow> 'd association \<times> 'n" where
  "assoc_deliver send now key payload a n =
     (case hm_get (as_peers a) key of
        None \<Rightarrow> (a, n)
      | Some p \<Rightarrow>
          let used = hm_insert key (p\<lparr>up_last_used := now\<rparr>) (as_peers a) in
          (case send payload (up_connection p) n of
             (Inl _, n') \<Rightarrow> (a\<lparr>as_peers := hm_remove key used\<rparr>, n')
           | (Inr _, n') \<Rightarrow> (a\<lparr>as_peers := used\<rparr>, n')))"

text \<open>
  One datagram of the loop. \<open>now\<close> is the clock, \<open>finished\<close> the receivers that have ended, \<open>dial\<close> the
  connector with its timeout, and \<open>send\<close> the connection it hands out.
\<close>

definition assoc_packet ::
  "(string \<Rightarrow> u16 \<Rightarrow> 'n \<Rightarrow> (io_error_kind + 'd) \<times> 'n) \<Rightarrow> (bytes \<Rightarrow> 'd \<Rightarrow> 'n \<Rightarrow> (io_error_kind + unit) \<times> 'n)
    \<Rightarrow> nat \<Rightarrow> (string \<times> u16 \<Rightarrow> bool) \<Rightarrow> socket_addr \<Rightarrow> bytes \<Rightarrow> 'd association \<Rightarrow> 'n
    \<Rightarrow> (io_error_kind + 'd association) \<times> 'n" where
  "assoc_packet dial send now finished source packet a n =
     (if fst source \<noteq> as_peer a \<or> (case as_client a of None \<Rightarrow> False | Some c \<Rightarrow> c \<noteq> source) then (Inr a, n)
      else case socks_datagram packet of
        Inl _ \<Rightarrow> (Inr a, n)
      | Inr (host, port, start) \<Rightarrow>
          let key = (host, port);
              live = live_peers now finished (as_peers a);
              a1 = a\<lparr>as_client := Some (case as_client a of Some c \<Rightarrow> c | None \<Rightarrow> source), as_peers := live\<rparr> in
          if hm_get live key \<noteq> None then apfst Inr (assoc_deliver send now key (drop start packet) a1 n)
          else if length live \<ge> 64 then (Inr a1, n)
          else (case dial host port n of
                  (Inl _, n1) \<Rightarrow> (Inr a1, n1)
                | (Inr connection, n1) \<Rightarrow>
                    (case encode_address host port of
                       Inl e \<Rightarrow> (Inl e, n1)
                     | Inr _ \<Rightarrow>
                         apfst Inr (assoc_deliver send now key (drop start packet)
                           (a1\<lparr>as_peers := hm_insert key \<lparr>up_connection = connection, up_last_used = now\<rparr> live\<rparr>) n1))))"

text \<open>What the receiver of a peer sends back to the client for a payload.\<close>

definition socks_return :: "string \<Rightarrow> u16 \<Rightarrow> bytes \<Rightarrow> io_error_kind + bytes" where
  "socks_return host port payload = map_sum id (\<lambda>address. [0, 0, 0] @ address @ payload) (encode_address host port)"

section \<open>What a conversation reads and writes\<close>

lemma stream_read_exact_script:
  "stream_read_exact k s = (Ready (Inr bs), s') \<Longrightarrow> length bs = k
     \<and> script_bytes (io_reads s) = bs @ script_bytes (io_reads s') \<and> io_wire s' = io_wire s \<and> io_writes s' = io_writes s"
proof (induction k s arbitrary: bs s' rule: stream_read_exact.induct)
  case (1 k s)
  show ?case
  proof (cases "k = 0 \<or> io_reads s = []")
    case True
    with "1.prems" show ?thesis by (auto simp: stream_read_exact.simps [of k s] split: if_splits)
  next
    case False
    then have ne: "k \<noteq> 0" "io_reads s \<noteq> []" by auto
    obtain p s1 where p: "stream_poll_read k s = (p, s1)" by force
    have one: "script_bytes (io_reads s) = (case p of Ready (Inr bs) \<Rightarrow> bs | _ \<Rightarrow> []) @ script_bytes (io_reads s1)
        \<and> io_wire s1 = io_wire s \<and> io_writes s1 = io_writes s" if "\<And>e. p \<noteq> Ready (Inl e)"
      using p that by (auto simp: stream_poll_read_def split: list.splits io_answer.splits)
    have short: "length bs \<le> k" if "p = Ready (Inr bs)" for bs
      using p that by (auto simp: stream_poll_read_def split: list.splits io_answer.splits)
    consider (wait) "p = PollPending" | (err) e where "p = Ready (Inl e)" | (ok) cs where "p = Ready (Inr cs)"
      by (metis poll.exhaust sum.exhaust)
    then show ?thesis
    proof cases
      case wait
      then have "stream_read_exact k s1 = (Ready (Inr bs), s')"
        using "1.prems" ne p by (simp add: stream_read_exact.simps [of k s])
      from "1.IH"(2) [OF ne p [symmetric] wait this] one wait show ?thesis by simp
    next
      case err
      with "1.prems" ne p show ?thesis by (simp add: stream_read_exact.simps [of k s])
    next
      case ok
      with "1.prems" ne p obtain rest where "cs \<noteq> []" and r: "stream_read_exact (k - length cs) s1 = (Ready (Inr rest), s')" "bs = cs @ rest"
        by (auto simp: stream_read_exact.simps [of k s] split: prod.splits poll.splits sum.splits if_splits)
      from "1.IH"(1) [OF ne p [symmetric] ok refl this(1,2)] one ok r(2) short [OF ok] show ?thesis by simp
    qed
  qed
qed

lemma stream_write_all_reads: "stream_write_all bs s = (r, s') \<Longrightarrow> io_reads s' = io_reads s"
proof (induction bs s arbitrary: r s' rule: stream_write_all.induct)
  case (1 bs s)
  show ?case
  proof (cases "bs = [] \<or> io_writes s = []")
    case True
    with "1.prems" show ?thesis by (auto simp: stream_write_all.simps [of bs s] split: if_splits)
  next
    case False
    then have ne: "bs \<noteq> []" "io_writes s \<noteq> []" by auto
    obtain p s1 where p: "stream_poll_write bs s = (p, s1)" by force
    note w = stream_poll_write_wire(2) [OF p]
    consider (wait) "p = PollPending" | (err) e where "p = Ready (Inl e)" | (ok) n where "p = Ready (Inr n)"
      by (metis poll.exhaust sum.exhaust)
    then show ?thesis
    proof cases
      case wait
      then have "stream_write_all bs s1 = (r, s')" using "1.prems" ne p by (simp add: stream_write_all.simps [of bs s])
      from "1.IH"(2) [OF ne p [symmetric] wait this] w show ?thesis by simp
    next
      case err
      with "1.prems" ne p w show ?thesis by (auto simp: stream_write_all.simps [of bs s])
    next
      case ok
      show ?thesis
      proof (cases "n = 0")
        case True
        with "1.prems" ne p ok w show ?thesis by (auto simp: stream_write_all.simps [of bs s])
      next
        case False
        then have "stream_write_all (drop n bs) s1 = (r, s')" using "1.prems" ne p ok by (simp add: stream_write_all.simps [of bs s])
        from "1.IH"(1) [OF ne p [symmetric] ok refl False this] w show ?thesis by simp
      qed
    qed
  qed
qed

lemma sock_then_ok:
  "sock_then m f = (Ready (Inr b), s') \<longleftrightarrow> (\<exists>a s1. m = (Ready (Inr a), s1) \<and> f a s1 = (Ready (Inr b), s'))"
  by (auto simp: sock_then_def split: prod.splits poll.splits sum.splits)

text \<open>\<open>heard s bs s'\<close>: between the two states the client said \<open>bs\<close>.\<close>

definition heard :: "io_stream \<Rightarrow> bytes \<Rightarrow> io_stream \<Rightarrow> bool" where
  "heard s bs s' \<longleftrightarrow> script_bytes (io_reads s) = bs @ script_bytes (io_reads s')"

lemma heard_refl [simp]: "heard s [] s"
  by (simp add: heard_def)

lemma heard_trans: "heard s bs s1 \<Longrightarrow> heard s1 cs s2 \<Longrightarrow> heard s (bs @ cs) s2"
  by (simp add: heard_def)

lemma read_ok: "stream_read_exact k s = (Ready (Inr bs), s') \<Longrightarrow> length bs = k \<and> heard s bs s' \<and> io_wire s' = io_wire s"
  using stream_read_exact_script by (auto simp: heard_def)

lemma write_ok: "stream_write_all bs s = (Ready (Inr u), s') \<Longrightarrow> heard s [] s' \<and> io_wire s' = io_wire s @ bs"
  using stream_write_all_reads stream_write_all_ok by (fastforce simp: heard_def)

lemma read_u8_ok:
  "read_u8 s f = (Ready (Inr b), s') \<Longrightarrow> \<exists>x s1. heard s [x] s1 \<and> io_wire s1 = io_wire s \<and> f x s1 = (Ready (Inr b), s')"
proof -
  assume "read_u8 s f = (Ready (Inr b), s')"
  then obtain bs s1 where "stream_read_exact 1 s = (Ready (Inr bs), s1)" "f (hd bs) s1 = (Ready (Inr b), s')"
    by (auto simp: read_u8_def sock_then_ok)
  then show ?thesis using read_ok [of 1 s bs s1] by (cases bs) auto
qed

text \<open>What a client has to say before its request is read.\<close>

definition credential_bytes :: "credentials \<Rightarrow> bytes" where
  "credential_bytes c = [1, word_of_nat (length (cr_username c))] @ as_bytes (cr_username c)
     @ [word_of_nat (length (cr_password c))] @ as_bytes (cr_password c)"

definition admitted :: "proxy_config \<Rightarrow> bytes \<Rightarrow> bool" where
  "admitted config said \<longleftrightarrow> (\<exists>methods rest.
     said = [5, word_of_nat (length methods)] @ methods
       @ (case pc_credentials config of None \<Rightarrow> [] | Some c \<Rightarrow> credential_bytes c) @ rest
     \<and> (if pc_credentials config = None then 0 else 2) \<in> set methods)"

lemma unat_back: "word_of_nat (unat (n :: byte)) = n"
  by simp

lemma heard_length: "unat n = length xs \<Longrightarrow> (n :: byte) = word_of_nat (length xs)"
  by (metis unat_back)

lemma socks_authenticate_ok:
  assumes "socks_authenticate c s = (Ready (Inr ()), s')"
  shows "heard s (credential_bytes c) s' \<and> io_wire s' = io_wire s @ [1, 0]"
proof -
  obtain s1 where h1: "heard s [1] s1" "io_wire s1 = io_wire s"
    and c1: "read_u8 s1 (\<lambda>user_len s2. sock_then (stream_read_exact (unat user_len) s2) (\<lambda>user s3.
         read_u8 s3 (\<lambda>pass_len s4. sock_then (stream_read_exact (unat pass_len) s4) (\<lambda>password s5.
           let valid = user = as_bytes (cr_username c) \<and> password = as_bytes (cr_password c) in
           sock_then (stream_write_all [1, if valid then 0 else 1] s5) (\<lambda>_ s6.
             (Ready (if valid then Inr () else Inl PermissionDenied), s6)))))) = (Ready (Inr ()), s')"
    using assms read_u8_ok unfolding socks_authenticate_def by (fastforce split: if_splits)
  obtain ul s2 user s3 where h2: "heard s1 [ul] s2" "io_wire s2 = io_wire s1" "stream_read_exact (unat ul) s2 = (Ready (Inr user), s3)"
    and c2: "read_u8 s3 (\<lambda>pass_len s4. sock_then (stream_read_exact (unat pass_len) s4) (\<lambda>password s5.
           let valid = user = as_bytes (cr_username c) \<and> password = as_bytes (cr_password c) in
           sock_then (stream_write_all [1, if valid then 0 else 1] s5) (\<lambda>_ s6.
             (Ready (if valid then Inr () else Inl PermissionDenied), s6)))) = (Ready (Inr ()), s')"
    using read_u8_ok [OF c1] by (auto simp: sock_then_ok)
  obtain pl s4 pass s5 where h3: "heard s3 [pl] s4" "io_wire s4 = io_wire s3" "stream_read_exact (unat pl) s4 = (Ready (Inr pass), s5)"
    and c3: "user = as_bytes (cr_username c)" "pass = as_bytes (cr_password c)" "stream_write_all [1, 0] s5 = (Ready (Inr ()), s')"
    using read_u8_ok [OF c2] by (auto simp: sock_then_ok Let_def split: if_splits)
  note r2 = read_ok [OF h2(3)] and r3 = read_ok [OF h3(3)] and w = write_ok [OF c3(3)]
  have "ul = word_of_nat (length (cr_username c))" "pl = word_of_nat (length (cr_password c))"
    using heard_length [of ul user] heard_length [of pl pass] r2 r3 c3(1,2) by simp_all
  then show ?thesis using h1 h2(1,2) h3(1,2) r2 r3 w c3(1,2) by (simp add: heard_def credential_bytes_def)
qed

lemma socks_address_wire: "socks_address s = (Ready (Inr x), s') \<Longrightarrow> io_wire s' = io_wire s"
  by (auto simp: socks_address_def sock_then_ok Let_def dest!: read_u8_ok read_ok split: if_splits option.splits)

lemma socks_request_wire: "socks_request s = (Ready (Inr x), s') \<Longrightarrow> io_wire s' = io_wire s"
  by (auto simp: socks_request_def sock_then_ok dest!: read_ok socks_address_wire
      split: if_splits prod.splits poll.splits sum.splits)

lemma socks_handshake_ok:
  assumes "socks_handshake config s = (Ready (Inr r), s')"
  shows "admitted config (script_bytes (io_reads s))"
    and "\<exists>m. io_wire s' = io_wire s @ [5, m] @ (if pc_credentials config = None then [] else [1, 0])"
proof -
  let ?m = "if pc_credentials config \<noteq> None then 2 else 0 :: byte"
  obtain s1 where h1: "heard s [5] s1" "io_wire s1 = io_wire s"
    and c1: "read_u8 s1 (\<lambda>count s2. sock_then (stream_read_exact (unat count) s2) (\<lambda>methods s3.
         let auth_method = ?m in
         if auth_method \<notin> set methods then sock_then (stream_write_all [5, 255] s3) (\<lambda>_ s4. invalid s4)
         else sock_then (stream_write_all [5, auth_method] s3) (\<lambda>_ s4.
           case pc_credentials config of
             None \<Rightarrow> socks_request s4
           | Some c \<Rightarrow>
               (case socks_authenticate c s4 of
                  (Ready (Inr _), s5) \<Rightarrow> socks_request s5
                | (Ready (Inl e), s5) \<Rightarrow> (Ready (Inl e), s5)
                | (PollPending, s5) \<Rightarrow> (PollPending, s5))))) = (Ready (Inr r), s')"
    using read_u8_ok [OF assms [unfolded socks_handshake_def]] by (auto split: if_splits)
  obtain n s2 ms s3 s4 where h2: "heard s1 [n] s2" "io_wire s2 = io_wire s1" "stream_read_exact (unat n) s2 = (Ready (Inr ms), s3)"
    and m: "?m \<in> set ms" and w: "stream_write_all [5, ?m] s3 = (Ready (Inr ()), s4)"
    and c2: "(case pc_credentials config of None \<Rightarrow> socks_request s4 | Some c \<Rightarrow>
               (case socks_authenticate c s4 of
                  (Ready (Inr _), s5) \<Rightarrow> socks_request s5
                | (Ready (Inl e), s5) \<Rightarrow> (Ready (Inl e), s5)
                | (PollPending, s5) \<Rightarrow> (PollPending, s5))) = (Ready (Inr r), s')"
    using read_u8_ok [OF c1] by (auto simp: sock_then_ok Let_def split: if_splits)
  note r2 = read_ok [OF h2(3)] and w4 = write_ok [OF w]
  have n: "n = word_of_nat (length ms)" using heard_length [of n ms] r2 by simp
  have request: "io_wire s'' = io_wire t" if "socks_request t = (Ready (Inr x), s'')" for t x s''
    using that by (rule socks_request_wire)
  have "\<exists>s5. heard s4 (case pc_credentials config of None \<Rightarrow> [] | Some c \<Rightarrow> credential_bytes c) s5
      \<and> io_wire s5 = io_wire s4 @ (if pc_credentials config = None then [] else [1, 0]) \<and> socks_request s5 = (Ready (Inr r), s')"
  proof (cases "pc_credentials config")
    case None
    with c2 show ?thesis by (intro exI [of _ s4]) simp
  next
    case (Some c)
    with c2 obtain s5 where "socks_authenticate c s4 = (Ready (Inr ()), s5)" "socks_request s5 = (Ready (Inr r), s')"
      by (auto split: prod.splits poll.splits sum.splits)
    then show ?thesis using socks_authenticate_ok Some by (intro exI [of _ s5]) auto
  qed
  then obtain s5 where auth: "heard s4 (case pc_credentials config of None \<Rightarrow> [] | Some c \<Rightarrow> credential_bytes c) s5"
    "io_wire s5 = io_wire s4 @ (if pc_credentials config = None then [] else [1, 0])" "socks_request s5 = (Ready (Inr r), s')" by blast
  have "script_bytes (io_reads s) = [5, word_of_nat (length ms)] @ ms
      @ (case pc_credentials config of None \<Rightarrow> [] | Some c \<Rightarrow> credential_bytes c) @ script_bytes (io_reads s5)"
    unfolding n [symmetric] using h1(1) h2(1) conjunct1 [OF conjunct2 [OF r2]] conjunct1 [OF w4] auth(1) by (simp add: heard_def)
  with m show "admitted config (script_bytes (io_reads s))" unfolding admitted_def by (auto split: if_splits)
  have "io_wire s' = io_wire s @ [5, ?m] @ (if pc_credentials config = None then [] else [1, 0])"
    using request [OF auth(3)] auth(2) w4 r2 h2(2) h1(2) by simp
  then show "\<exists>m. io_wire s' = io_wire s @ [5, m] @ (if pc_credentials config = None then [] else [1, 0])" by blast
qed

section \<open>A client that keeps talking\<close>

text \<open>The client will say \<open>w\<close>, in any pieces, before \<open>later\<close>, and takes \<open>k\<close> more bytes.\<close>

definition talks :: "bytes io_answer list \<Rightarrow> bytes \<Rightarrow> nat \<Rightarrow> io_stream \<Rightarrow> bool" where
  "talks later w k s \<longleftrightarrow> (\<exists>as. io_reads s = as @ later \<and> live_reads as \<and> script_bytes as = w) \<and> can_write k s"

lemma talks_read:
  assumes "talks later (bs @ w) k s"
  shows "\<exists>s1. stream_read_exact (length bs) s = (Ready (Inr bs), s1) \<and> talks later w k s1 \<and> io_wire s1 = io_wire s"
proof -
  obtain as where as: "io_reads s = as @ later" "live_reads as" "script_bytes as = bs @ w" and wr: "can_write k s"
    using assms by (auto simp: talks_def)
  have s: "s\<lparr>io_reads := as @ later\<rparr> = s" by (simp flip: as(1))
  from read_exact_live [OF as(2), where k = "length bs" and s = s and tl_as = later] as(3) obtain as' where
    "stream_read_exact (length bs) s = (Ready (Inr bs), s\<lparr>io_reads := as' @ later\<rparr>)" "live_reads as'" "script_bytes as' = w"
    by (auto simp: s)
  then show ?thesis using wr by (auto simp: talks_def can_write_def)
qed

lemma talks_take:
  "talks later (bs @ w) k s \<Longrightarrow> length bs = m \<Longrightarrow>
     \<exists>s1. sock_then (stream_read_exact m s) f = f bs s1 \<and> talks later w k s1 \<and> io_wire s1 = io_wire s"
  using talks_read [of later bs w k s] by (auto simp: sock_then_def)

lemma talks_answer:
  "talks later w (length bs + k) s \<Longrightarrow>
     \<exists>s1. sock_then (stream_write_all bs s) f = f () s1 \<and> talks later w k s1 \<and> io_wire s1 = io_wire s @ bs"
  using stream_write_all_live [of bs k s] by (auto simp: talks_def sock_then_def)

text \<open>The hosts whose text survives a trip through an address: dotted addresses and names.\<close>

definition plain_host :: "string \<Rightarrow> bool" where
  "plain_host host \<longleftrightarrow> (\<exists>ip. host = ipv4_to_string ip)
     \<or> parse_ip host = None \<and> host \<noteq> [] \<and> length host \<le> 255 \<and> utf8_valid (as_bytes host)"

lemma from_utf8_bytes: "utf8_valid (as_bytes s) \<Longrightarrow> from_utf8 (as_bytes s) = Some s"
  by (auto simp: from_utf8_def as_bytes_def intro: map_idI)

lemma encode_plain:
  assumes "plain_host host"
  obtains (address) ip where "host = ipv4_to_string ip" "encode_address host port = Inr (1 # octets ip @ u16_to_be port)"
  | (name) "from_utf8 (as_bytes host) = Some host" "unat (word_of_nat (length host) :: byte) = length host" "host \<noteq> []"
      "encode_address host port = Inr ([3, word_of_nat (length host)] @ as_bytes host @ u16_to_be port)"
proof -
  consider ip where "host = ipv4_to_string ip" | "parse_ip host = None" "host \<noteq> []" "length host \<le> 255" "utf8_valid (as_bytes host)"
    using assms by (auto simp: plain_host_def)
  then show ?thesis
  proof cases
    case 1
    then show ?thesis by (intro address [OF 1]) (simp add: encode_address_def parse_ip_def)
  next
    case 2
    then show ?thesis
      by (intro name) (simp_all add: encode_address_def from_utf8_bytes unat_of_nat take_bit_nat_eq_self)
  qed
qed

lemma talks_address:
  assumes "plain_host host" "encode_address host port = Inr address" "talks later (address @ w) k s"
  shows "\<exists>s1. socks_address s = (Ready (Inr (host, port)), s1) \<and> talks later w k s1 \<and> io_wire s1 = io_wire s"
proof -
  obtain a b where port: "u16_to_be port = [a, b]" "u16_from_be a b = port" by (rule u16_bytes)
  have finish: "\<exists>s2. sock_then (stream_read_exact 2 s1) (\<lambda>p s2. (Ready (Inr (h, u16_from_be (p ! 0) (p ! 1))), s2)) = (Ready (Inr (h, port)), s2)
      \<and> talks later w k s2 \<and> io_wire s2 = io_wire s1" if "talks later ([a, b] @ w) k s1" for h :: string and s1
    using talks_take [OF that, of 2 "\<lambda>p s2. (Ready (Inr (h, u16_from_be (p ! 0) (p ! 1))), s2)"] port(2) by auto
  from assms(1) show ?thesis
  proof (cases rule: encode_plain [where port = port])
    case (address ip)
    obtain i j x y where ip: "ip = Ipv4 i j x y" by (cases ip)
    have t: "talks later ([1] @ [i, j, x, y] @ [a, b] @ w) k s" using assms(2,3) address(2) port(1) ip by auto
    obtain s1 where s1: "stream_read_exact 1 s = (Ready (Inr [1]), s1)"
      and t1: "talks later ([i, j, x, y] @ [a, b] @ w) k s1" "io_wire s1 = io_wire s"
      using talks_read [OF t] by auto
    have "length [i, j, x, y] = 4" by simp
    then obtain s2 where s2: "stream_read_exact 4 s1 = (Ready (Inr [i, j, x, y]), s2)"
      and t2: "talks later ([a, b] @ w) k s2" "io_wire s2 = io_wire s1" using talks_read [OF t1(1)] by metis
    from finish [OF t2(1), of "ipv4_to_string ip"] show ?thesis
      using address(1) s1 s2 t1(2) t2(2) ip
      by (auto simp: socks_address_def sock_then_def read_u8_def Let_def simp del: ipv4_to_string.simps)
  next
    case name
    have t: "talks later ([3] @ [word_of_nat (length host)] @ as_bytes host @ [a, b] @ w) k s" using assms(2,3) name(4) port(1) by auto
    obtain s1 where s1: "stream_read_exact 1 s = (Ready (Inr [3]), s1)"
      and t1: "talks later ([word_of_nat (length host)] @ as_bytes host @ [a, b] @ w) k s1" "io_wire s1 = io_wire s"
      using talks_read [OF t] by auto
    obtain s2 where s2: "stream_read_exact 1 s1 = (Ready (Inr [word_of_nat (length host)]), s2)"
      and t2: "talks later (as_bytes host @ [a, b] @ w) k s2" "io_wire s2 = io_wire s1"
      using talks_read [OF t1(1)] by auto
    obtain s3 where s3: "stream_read_exact (length host) s2 = (Ready (Inr (as_bytes host)), s3)"
      and t3: "talks later ([a, b] @ w) k s3" "io_wire s3 = io_wire s2"
      using talks_read [OF t2(1)] by auto
    have "(word_of_nat (length host) :: byte) \<noteq> 0" using name(2,3) by (metis length_0_conv unsigned_0)
    then show ?thesis using finish [OF t3(1), of host] s1 s2 s3 t1(2) t2(2) t3(2) name(1,2)
      by (auto simp: socks_address_def sock_then_def read_u8_def Let_def)
  qed
qed

lemma talks_request:
  assumes "plain_host host" "encode_address host port = Inr address" "talks later ([5, command, 0] @ address @ w) k s"
  shows "\<exists>s1. socks_request s = (Ready (Inr (command, host, port)), s1) \<and> talks later w k s1 \<and> io_wire s1 = io_wire s"
proof -
  have "length [5, command, 0] = 3" by simp
  then obtain s1 where s1: "stream_read_exact 3 s = (Ready (Inr [5, command, 0]), s1)"
    and t1: "talks later (address @ w) k s1" "io_wire s1 = io_wire s" using talks_read [OF assms(3)] by metis
  from talks_address [OF assms(1,2) t1(1)] s1 t1(2) show ?thesis by (auto simp: socks_request_def sock_then_def)
qed

lemma talks_credentials:
  assumes "length (cr_username c) \<le> 255" "length (cr_password c) \<le> 255" "talks later (credential_bytes c @ w) (2 + k) s"
  shows "\<exists>s1. socks_authenticate c s = (Ready (Inr ()), s1) \<and> talks later w k s1 \<and> io_wire s1 = io_wire s @ [1, 0]"
proof -
  let ?u = "as_bytes (cr_username c)" and ?p = "as_bytes (cr_password c)"
  have len: "unat (word_of_nat (length (cr_username c)) :: byte) = length ?u" "unat (word_of_nat (length (cr_password c)) :: byte) = length ?p"
    using assms(1,2) by (simp_all add: unat_of_nat take_bit_nat_eq_self)
  have "talks later ([1] @ [word_of_nat (length (cr_username c))] @ ?u @ [word_of_nat (length (cr_password c))] @ ?p @ w) (2 + k) s"
    using assms(3) by (simp add: credential_bytes_def)
  note step = talks_read [OF this]
  obtain s1 where 1: "stream_read_exact 1 s = (Ready (Inr [1]), s1)" "io_wire s1 = io_wire s"
    "talks later ([word_of_nat (length (cr_username c))] @ ?u @ [word_of_nat (length (cr_password c))] @ ?p @ w) (2 + k) s1"
    using step by auto
  obtain s2 where 2: "stream_read_exact 1 s1 = (Ready (Inr [word_of_nat (length (cr_username c))]), s2)" "io_wire s2 = io_wire s1"
    "talks later (?u @ [word_of_nat (length (cr_password c))] @ ?p @ w) (2 + k) s2" using talks_read [OF 1(3)] by auto
  obtain s3 where 3: "stream_read_exact (length ?u) s2 = (Ready (Inr ?u), s3)" "io_wire s3 = io_wire s2"
    "talks later ([word_of_nat (length (cr_password c))] @ ?p @ w) (2 + k) s3" using talks_read [OF 2(3)] by blast
  obtain s4 where 4: "stream_read_exact 1 s3 = (Ready (Inr [word_of_nat (length (cr_password c))]), s4)" "io_wire s4 = io_wire s3"
    "talks later (?p @ w) (2 + k) s4" using talks_read [OF 3(3)] by auto
  obtain s5 where 5: "stream_read_exact (length ?p) s4 = (Ready (Inr ?p), s5)" "io_wire s5 = io_wire s4" "talks later w (2 + k) s5"
    using talks_read [OF 4(3)] by blast
  note r = 1(1) 2(1) 3(1) 4(1) 5(1)
  have t: "talks later w (2 + k) s5" "io_wire s5 = io_wire s" using 1(2) 2(2) 3(2) 4(2) 5(2,3) by simp_all
  have "talks later w (length [1, 0 :: byte] + k) s5" using t(1) by simp
  from talks_answer [OF this] obtain s6 where
    w: "\<And>f :: unit \<Rightarrow> io_stream \<Rightarrow> (io_error_kind + unit) poll \<times> io_stream. sock_then (stream_write_all [1, 0] s5) f = f () s6"
      "talks later w k s6" "io_wire s6 = io_wire s5 @ [1, 0]"
    using stream_write_all_live [of "[1, 0]" k s5] t(1) by (auto simp: talks_def sock_then_def)
  then show ?thesis using r len t(2) by (simp add: socks_authenticate_def read_u8_def sock_then_def [of "(_, _)"] Let_def)
qed

lemma talks_handshake:
  assumes "plain_host host" "encode_address host port = Inr address" "length methods \<le> 255"
    and "(if pc_credentials config = None then 0 else 2) \<in> set methods"
    and "case pc_credentials config of None \<Rightarrow> True | Some c \<Rightarrow> length (cr_username c) \<le> 255 \<and> length (cr_password c) \<le> 255"
    and "talks later ([5, word_of_nat (length methods)] @ methods
      @ (case pc_credentials config of None \<Rightarrow> [] | Some c \<Rightarrow> credential_bytes c) @ [5, command, 0] @ address @ w) (4 + k) s"
  shows "\<exists>s1. socks_handshake config s = (Ready (Inr (command, host, port)), s1) \<and> talks later w k s1
    \<and> io_wire s1 = io_wire s @ [5, if pc_credentials config = None then 0 else 2] @ (if pc_credentials config = None then [] else [1, 0])"
proof -
  let ?m = "if pc_credentials config = None then 0 else 2 :: byte"
  let ?auth = "case pc_credentials config of None \<Rightarrow> [] | Some c \<Rightarrow> credential_bytes c"
  let ?rest = "[5, command, 0] @ address @ w"
  have len: "unat (word_of_nat (length methods) :: byte) = length methods"
    using assms(3) by (simp add: unat_of_nat take_bit_nat_eq_self)
  have "talks later ([5] @ [word_of_nat (length methods)] @ methods @ ?auth @ ?rest) (4 + k) s" using assms(6) by simp
  then obtain s1 where 1: "stream_read_exact 1 s = (Ready (Inr [5]), s1)" "io_wire s1 = io_wire s"
    "talks later ([word_of_nat (length methods)] @ methods @ ?auth @ ?rest) (4 + k) s1" using talks_read by fastforce
  obtain s2 where 2: "stream_read_exact 1 s1 = (Ready (Inr [word_of_nat (length methods)]), s2)" "io_wire s2 = io_wire s1"
    "talks later (methods @ ?auth @ ?rest) (4 + k) s2" using talks_read [OF 1(3)] by auto
  obtain s3 where 3: "stream_read_exact (length methods) s2 = (Ready (Inr methods), s3)" "io_wire s3 = io_wire s2"
    "talks later (?auth @ ?rest) (4 + k) s3" using talks_read [OF 2(3)] by auto
  have "4 + k = length [5, ?m] + (2 + k)" by simp
  then have room: "can_write (length [5, ?m] + (2 + k)) s3" using 3(3) by (metis talks_def)
  obtain s4 where 4: "stream_write_all [5, ?m] s3 = (Ready (Inr ()), s4)" "io_wire s4 = io_wire s3 @ [5, ?m]"
    "talks later (?auth @ ?rest) (2 + k) s4"
    using stream_write_all_live [OF room] 3(3) by (auto simp: talks_def)
  have greeted: "socks_handshake config s = (case pc_credentials config of None \<Rightarrow> socks_request s4 | Some c \<Rightarrow>
      (case socks_authenticate c s4 of (Ready (Inr _), s5) \<Rightarrow> socks_request s5
       | (Ready (Inl e), s5) \<Rightarrow> (Ready (Inl e), s5) | (PollPending, s5) \<Rightarrow> (PollPending, s5)))"
    using 1(1) 2(1) 3(1) 4(1) len assms(4) by (auto simp: socks_handshake_def read_u8_def sock_then_def Let_def)
  have wire: "io_wire s4 = io_wire s @ [5, ?m]" using 1(2) 2(2) 3(2) 4(2) by simp
  show ?thesis
  proof (cases "pc_credentials config")
    case None
    then have "talks later ?rest k s4" using 4(3) by (auto simp: talks_def can_write_def)
    from talks_request [OF assms(1,2) this] show ?thesis using greeted None wire by auto
  next
    case (Some c)
    then have "talks later (credential_bytes c @ ?rest) (2 + k) s4" using 4(3) by simp
    from talks_credentials [OF _ _ this] obtain s5 where
      5: "socks_authenticate c s4 = (Ready (Inr ()), s5)" "talks later ?rest k s5" "io_wire s5 = io_wire s4 @ [1, 0]"
      using assms(5) Some by auto
    from talks_request [OF assms(1,2) 5(2)] show ?thesis using greeted Some wire 5 by auto
  qed
qed

lemma talks_reply:
  assumes "encode_address (ip_to_string (fst bound)) (snd bound) = Inr own" "talks later w (3 + length own) s"
  shows "\<exists>s1. socks_reply s status bound = (Ready (Inr ()), s1) \<and> talks later w 0 s1 \<and> io_wire s1 = io_wire s @ [5, status, 0] @ own"
proof -
  have "3 + length own = length ([5, status, 0] @ own) + 0" by simp
  then have "can_write (length ([5, status, 0] @ own) + 0) s" using assms(2) by (metis talks_def)
  from stream_write_all_live [OF this] show ?thesis using assms by (auto simp: talks_def socks_reply_def sock_then_def)
qed

section \<open>Associations\<close>

lemma hm_distinct_filter: "hm_distinct m \<Longrightarrow> hm_distinct (filter P m)"
  by (induction m) auto

definition association_ok :: "'d association \<Rightarrow> bool" where
  "association_ok a \<longleftrightarrow> hm_distinct (as_peers a) \<and> length (as_peers a) \<le> 64
     \<and> (case as_client a of None \<Rightarrow> True | Some c \<Rightarrow> fst c = as_peer a)"

lemma live_peers_ok:
  assumes "hm_distinct peers" "length peers \<le> 64"
  shows "hm_distinct (live_peers now finished peers)" "length (live_peers now finished peers) \<le> 64"
  using assms by (simp_all add: live_peers_def hm_distinct_filter order_trans [OF length_filter_le])

lemma length_hm_remove_le: "length (hm_remove key m) \<le> length m"
  by (induction m) auto

lemma apfst_Inr: "apfst Inr x = (Inr a, n) \<longleftrightarrow> x = (a, n)"
  by (cases x) auto

lemma apfst_total: "\<exists>a n. apfst Inr x = (Inr a, n)"
  by (cases x) simp

lemma assoc_deliver_ok:
  assumes "association_ok a" "assoc_deliver send now key payload a n = (a', n')"
  shows "association_ok a' \<and> as_peer a' = as_peer a \<and> as_client a' = as_client a"
  using assms
  by (auto simp: assoc_deliver_def association_ok_def Let_def length_hm_insert_present AList.delete_update_same
      intro: order_trans [OF length_hm_remove_le] split: option.splits prod.splits sum.splits)

lemma assoc_packet_ok:
  assumes "association_ok a" "assoc_packet dial send now finished source packet a n = (Inr a', n')"
  shows "association_ok a' \<and> as_peer a' = as_peer a
    \<and> (as_client a' = as_client a \<or> as_client a = None \<and> as_client a' = Some source)
    \<and> (n' \<noteq> n \<longrightarrow> as_client a' = Some source)"
proof (cases "fst source \<noteq> as_peer a \<or> (case as_client a of None \<Rightarrow> False | Some c \<Rightarrow> c \<noteq> source)")
  case True
  with assms show ?thesis by (auto simp: assoc_packet_def)
next
  case False
  let ?live = "live_peers now finished (as_peers a)"
  define a1 where "a1 = a\<lparr>as_client := Some source, as_peers := ?live\<rparr>"
  have a1: "Some (case as_client a of Some c \<Rightarrow> c | None \<Rightarrow> source) = Some source" using False by (auto split: option.splits)
  have ok: "association_ok a1" using assms(1) False live_peers_ok [of "as_peers a"] by (auto simp: a1_def association_ok_def)
  have new: "association_ok (a1\<lparr>as_peers := hm_insert key p ?live\<rparr>)" if "length ?live < 64" for key p
    using ok that length_hm_insert_le [of key p ?live] by (auto simp: a1_def association_ok_def)
  have fields: "as_peer a1 = as_peer a" "as_client a1 = Some source" by (simp_all add: a1_def)
  consider (ignored) "a' = a" "n' = n" | (kept) "a' = a1"
    | (sent) b key payload m where "association_ok b" "as_peer b = as_peer a" "as_client b = Some source"
        "assoc_deliver send now key payload b m = (a', n')"
  proof (cases "socks_datagram packet")
    case (Inl e)
    with assms False show ?thesis using ignored by (auto simp: assoc_packet_def)
  next
    case (Inr x)
    obtain host port start where x: "x = (host, port, start)" by (metis prod_cases3)
    let ?new = "\<lambda>c. a1\<lparr>as_peers := hm_insert (host, port) \<lparr>up_connection = c, up_last_used = now\<rparr> ?live\<rparr>"
    have "a' = a1 \<or> assoc_deliver send now (host, port) (drop start packet) a1 n = (a', n')
      \<or> (\<exists>c m. length ?live < 64 \<and> assoc_deliver send now (host, port) (drop start packet) (?new c) m = (a', n'))"
      using assms(2) False
      by (auto simp: assoc_packet_def Let_def Inr x a1 a1_def [symmetric] not_le apfst_Inr split: if_splits prod.splits sum.splits)
    then show ?thesis using kept sent [OF ok fields] sent [OF new, of "(host, port)"] fields by auto
  qed
  then show ?thesis
  proof cases
    case sent
    then show ?thesis using assoc_deliver_ok [OF sent(1,4)] False by (auto split: option.splits)
  qed (use assms(1) ok False in \<open>auto simp: a1_def split: option.splits\<close>)
qed

lemma datagram_host:
  assumes "socks_datagram packet = Inr (host, port, start)"
  shows "\<exists>address. encode_address host port = Inr address"
proof -
  consider ip where "host = ipv4_to_string ip" | "0 < length host" "length host \<le> 255"
  proof (cases "packet ! 3 = 1")
    case True
    then have "\<exists>ip. host = ipv4_to_string ip"
      using assms by (auto simp: socks_datagram_def Let_def simp del: ipv4_to_string.simps split: if_splits)
    then show ?thesis using that(1) by blast
  next
    case False
    then have "from_utf8 (slice packet 5 (5 + unat (packet ! 4))) = Some host" "packet ! 4 \<noteq> 0" "5 + unat (packet ! 4) \<le> length packet"
      using assms by (auto simp: socks_datagram_def Let_def unat_eq_0 split: if_splits option.splits)
    then have "length host = unat (packet ! 4)" by (auto simp: from_utf8_def split: if_splits)
    then show ?thesis using that(2) unat_byte_le [of "packet ! 4"] \<open>packet ! 4 \<noteq> 0\<close> by (simp add: unat_gt_0)
  qed
  then show ?thesis
  proof cases
    case 1
    then show ?thesis by (simp add: encode_address_def parse_ip_def)
  next
    case 2
    then show ?thesis by (auto simp: encode_address_def split: option.splits ip_addr.splits)
  qed
qed

lemma assoc_packet_total: "\<exists>a' n'. assoc_packet dial send now finished source packet a n = (Inr a', n')"
proof (cases "socks_datagram packet")
  case (Inr x)
  obtain host port start where x: "x = (host, port, start)" by (metis prod_cases3)
  obtain address where "encode_address host port = Inr address" using datagram_host Inr x by blast
  then show ?thesis by (auto simp: assoc_packet_def Inr x Let_def apfst_total split: sum.splits prod.splits)
qed (simp add: assoc_packet_def)

text \<open>A packet of the loop with everything it takes from outside.\<close>

record assoc_event =
  ae_now :: nat
  ae_finished :: "string \<times> u16 \<Rightarrow> bool"
  ae_source :: socket_addr
  ae_packet :: bytes

fun assoc_run ::
  "(string \<Rightarrow> u16 \<Rightarrow> 'n \<Rightarrow> (io_error_kind + 'd) \<times> 'n) \<Rightarrow> (bytes \<Rightarrow> 'd \<Rightarrow> 'n \<Rightarrow> (io_error_kind + unit) \<times> 'n)
    \<Rightarrow> assoc_event list \<Rightarrow> 'd association \<Rightarrow> 'n \<Rightarrow> (io_error_kind + 'd association) \<times> 'n" where
  "assoc_run dial send [] a n = (Inr a, n)"
| "assoc_run dial send (e # es) a n =
     (case assoc_packet dial send (ae_now e) (ae_finished e) (ae_source e) (ae_packet e) a n of
        (Inl err, n1) \<Rightarrow> (Inl err, n1)
      | (Inr a1, n1) \<Rightarrow> assoc_run dial send es a1 n1)"

lemma assoc_run_ok:
  "association_ok a \<Longrightarrow> \<exists>a' n'. assoc_run dial send es a n = (Inr a', n') \<and> association_ok a' \<and> as_peer a' = as_peer a
     \<and> (as_client a \<noteq> None \<longrightarrow> as_client a' = as_client a)
     \<and> (as_client a' \<noteq> as_client a \<longrightarrow> (\<exists>e \<in> set es. as_client a' = Some (ae_source e)))
     \<and> (n' \<noteq> n \<longrightarrow> (\<exists>e \<in> set es. as_client a' = Some (ae_source e)))"
proof (induction es arbitrary: a n)
  case (Cons e es)
  obtain a1 n1 where p: "assoc_packet dial send (ae_now e) (ae_finished e) (ae_source e) (ae_packet e) a n = (Inr a1, n1)"
    using assoc_packet_total [of dial send "ae_now e" "ae_finished e" "ae_source e" "ae_packet e" a n] by blast
  note ok = assoc_packet_ok [OF Cons.prems p]
  obtain a' n' where r: "assoc_run dial send es a1 n1 = (Inr a', n')" "association_ok a'" "as_peer a' = as_peer a1"
    "as_client a1 \<noteq> None \<longrightarrow> as_client a' = as_client a1"
    "as_client a' \<noteq> as_client a1 \<longrightarrow> (\<exists>e \<in> set es. as_client a' = Some (ae_source e))"
    "n' \<noteq> n1 \<longrightarrow> (\<exists>e \<in> set es. as_client a' = Some (ae_source e))" using Cons.IH [of a1 n1] ok by blast
  have "assoc_run dial send (e # es) a n = (Inr a', n')" using p r(1) by simp
  moreover have "as_client a \<noteq> None \<longrightarrow> as_client a' = as_client a" using ok r(4) by auto
  moreover have "\<exists>x \<in> set (e # es). as_client a' = Some (ae_source x)" if "as_client a' \<noteq> as_client a \<or> n' \<noteq> n"
    using that ok r(4-6) by (cases "as_client a1") auto
  ultimately show ?case using r(2,3) ok by auto
qed auto

lemma association_begins:
  "associate_begin requested_host requested_port peer local socket s = (Ready (Inr (Some a)), s') \<Longrightarrow>
     association_ok a \<and> as_peer a = peer \<and> as_client a = (if requested_port = 0 then None else Some (peer, requested_port))"
  by (auto simp: associate_begin_def association_ok_def Let_def split: if_splits sum.splits prod.splits poll.splits option.splits)

lemma foreign_packet_ignored:
  "fst source \<noteq> as_peer a \<or> (\<exists>c. as_client a = Some c \<and> c \<noteq> source) \<Longrightarrow>
     assoc_packet dial send now finished source packet a n = (Inr a, n)"
  by (auto simp: assoc_packet_def)

lemma datagram_returned:
  assumes "plain_host host"
  shows "\<exists>packet start. socks_return host port payload = Inr packet
    \<and> socks_datagram packet = Inr (host, port, start) \<and> drop start packet = payload"
proof -
  obtain a b where port: "u16_to_be port = [a, b]" "u16_from_be a b = port" by (rule u16_bytes)
  from assms show ?thesis
  proof (cases rule: encode_plain [where port = port])
    case (address ip)
    obtain i j x y where "ip = Ipv4 i j x y" by (cases ip)
    then show ?thesis using address port
      by (intro exI [of _ "[0, 0, 0, 1, i, j, x, y, a, b] @ payload"] exI [of _ 10])
         (simp add: socks_return_def socks_datagram_def Let_def del: ipv4_to_string.simps)
  next
    case name
    let ?h = "as_bytes host" and ?n = "word_of_nat (length host) :: byte"
    let ?packet = "[0, 0, 0, 3, ?n] @ ?h @ [a, b] @ payload"
    have "slice ?packet 5 (5 + length host) = ?h" by (simp add: slice_def)
    moreover have "?packet ! (5 + length host) = a" "?packet ! (5 + length host + 1) = b"
      by (simp_all add: nth_append nth_Cons')
    moreover have "drop (5 + length host + 2) ?packet = payload"
      by (simp add: eval_nat_numeral)
    ultimately have "socks_datagram ?packet = Inr (host, port, 5 + length host + 2)"
      unfolding socks_datagram_def Let_def using name(1-3) port(2) by simp
    then show ?thesis using name(4) port(1) \<open>drop (5 + length host + 2) ?packet = payload\<close>
      by (intro exI [of _ ?packet] exI [of _ "5 + length host + 2"]) (simp add: socks_return_def)
  qed
qed

section \<open>Properties\<close>

text \<open>
  C0: Nothing happens before the client has proved who it is. If serving a SOCKS connection dialled
  anything, handed over a connection or began an association, then the client opened with a
  greeting that offers the method the configuration asks for, and, where credentials are
  configured, sent exactly that user name and password, before anything else of its request was read.
\<close>

theorem socks_requires_credentials:
  assumes "socks_serve config dial elapsed local s n = (r, s', n')"
    and "n' \<noteq> n \<or> (\<exists>target. r = Ready (Inr (SocksRelay target))) \<or> (\<exists>host port. r = Ready (Inr (SocksAssociate host port)))"
  shows "admitted config (script_bytes (io_reads s))"
proof -
  obtain x s1 where "socks_handshake config s = (Ready (Inr x), s1)"
    using assms by (auto simp: socks_serve_def Let_def split: prod.splits poll.splits sum.splits)
  then show ?thesis by (rule socks_handshake_ok(1))
qed

text \<open>
  C0: A client that follows the protocol is served. Whatever pieces its bytes arrive in, a client that
  offers the right method, sends the configured credentials and asks to connect to a name or a
  dotted address has exactly that host and port dialled, once. It is told success and the
  connections are handed over with every byte that followed the request still to be read; or it is
  told that policy forbids the destination, or that the connection failed.
\<close>

theorem socks_connect_completes:
  assumes host: "plain_host host" "encode_address host port = Inr address"
    and offer: "length methods \<le> 255" "(if pc_credentials config = None then 0 else 2) \<in> set methods"
    and creds: "case pc_credentials config of None \<Rightarrow> True | Some c \<Rightarrow> length (cr_username c) \<le> 255 \<and> length (cr_password c) \<le> 255"
    and own: "encode_address (ip_to_string (fst bound)) (snd bound) = Inr own"
    and says: "talks later ([5, word_of_nat (length methods)] @ methods
      @ (case pc_credentials config of None \<Rightarrow> [] | Some c \<Rightarrow> credential_bytes c) @ [5, 1, 0] @ address @ w) (4 + (3 + length own)) s"
  shows "\<exists>s1 status. (case dial host port n of (result, n1) \<Rightarrow>
      socks_serve config dial False (Inr bound) s n
        = (Ready (Inr (case result of Inr target \<Rightarrow> SocksRelay target | Inl _ \<Rightarrow> SocksDone)), s1, n1)
      \<and> status = (case result of Inr _ \<Rightarrow> 0 | Inl e \<Rightarrow> if e = PermissionDenied then 2 else 5))
    \<and> io_wire s1 = io_wire s @ [5, if pc_credentials config = None then 0 else 2]
        @ (if pc_credentials config = None then [] else [1, 0]) @ [5, status, 0] @ own
    \<and> talks later w 0 s1"
proof -
  obtain s1 where h: "socks_handshake config s = (Ready (Inr (1, host, port)), s1)" "talks later w (3 + length own) s1"
    "io_wire s1 = io_wire s @ [5, if pc_credentials config = None then 0 else 2] @ (if pc_credentials config = None then [] else [1, 0])"
    using talks_handshake [OF host offer creds says] by blast
  obtain result n1 where d: "dial host port n = (result, n1)" by force
  let ?status = "(case result of Inr _ \<Rightarrow> 0 | Inl e \<Rightarrow> if e = PermissionDenied then 2 else 5) :: byte"
  from talks_reply [OF own h(2), of ?status] obtain s2 where
    "socks_reply s1 ?status bound = (Ready (Inr ()), s2)" "talks later w 0 s2" "io_wire s2 = io_wire s1 @ [5, ?status, 0] @ own" by blast
  then show ?thesis using h(1,3) d
    by (intro exI [of _ s2] exI [of _ ?status]) (auto simp: socks_serve_def proxy_connect_def Let_def split: sum.splits)
qed

text \<open>
  C0: Associations are private and bounded. From the moment an association begins, and through any
  datagrams from anywhere, it keeps at most 64 peers; it serves one client only, at the address the
  control connection came from, fixed by the request or by the first valid datagram and never
  changed; datagrams from elsewhere change nothing; and no datagram ends it. What a peer sends back
  is wrapped so that the client reads host, port and payload out of it again.
\<close>

theorem associations_private:
  assumes "associate_begin requested_host requested_port peer local socket s = (Ready (Inr (Some a0)), s')"
  shows "\<exists>a n'. assoc_run dial send es a0 n = (Inr a, n') \<and> length (as_peers a) \<le> 64 \<and> hm_distinct (as_peers a)
    \<and> (\<forall>c. as_client a = Some c \<longrightarrow> fst c = peer \<and> (if requested_port = 0 then \<exists>e \<in> set es. c = ae_source e else snd c = requested_port))
    \<and> (\<forall>now finished source packet m. fst source \<noteq> peer \<or> (\<exists>c. as_client a = Some c \<and> c \<noteq> source) \<longrightarrow>
         assoc_packet dial send now finished source packet a m = (Inr a, m))
    \<and> (\<forall>host port payload. plain_host host \<longrightarrow> (\<exists>packet start. socks_return host port payload = Inr packet
         \<and> socks_datagram packet = Inr (host, port, start) \<and> drop start packet = payload))"
proof -
  note begins = association_begins [OF assms]
  obtain a n' where r: "assoc_run dial send es a0 n = (Inr a, n')" "association_ok a" "as_peer a = peer"
    "as_client a0 \<noteq> None \<longrightarrow> as_client a = as_client a0"
    "as_client a \<noteq> as_client a0 \<longrightarrow> (\<exists>e \<in> set es. as_client a = Some (ae_source e))"
    using assoc_run_ok [of a0 dial send es n] begins by auto
  have "fst c = peer \<and> (if requested_port = 0 then \<exists>e \<in> set es. c = ae_source e else snd c = requested_port)"
    if "as_client a = Some c" for c
    using that r(2-5) begins by (auto simp: association_ok_def split: if_splits)
  moreover have "assoc_packet dial send now finished source packet a m = (Inr a, m)"
    if "fst source \<noteq> peer \<or> (\<exists>c. as_client a = Some c \<and> c \<noteq> source)" for now finished source packet m
    using that r(3) by (intro foreign_packet_ignored) simp
  ultimately show ?thesis using r(1,2) datagram_returned by (intro exI [of _ a] exI [of _ n']) (auto simp: association_ok_def)
qed

subsection \<open>Examples\<close>

definition sample_proxy_config :: proxy_config where
  "sample_proxy_config = proxy_config_default\<lparr>pc_credentials := Some \<lparr>cr_username = ''u'', cr_password = ''p''\<rparr>\<rparr>"

text \<open>A client that sends the credentials and asks for \<open>jw.edu:80\<close>, in two pieces.\<close>

definition sample_socks_client :: io_stream where
  "sample_socks_client = \<lparr>io_reads = [Accept [5, 2, 0, 2, 1, 1, 117], Wait, Accept [1, 112, 5, 1, 0, 3, 6, 106, 119, 46, 101, 100, 117, 0, 80, 9]],
     io_writes = replicate 40 (Accept 9), io_flushes = [], io_shutdowns = [], io_wire = []\<rparr>"

abbreviation sample_bound :: socket_addr where
  "sample_bound \<equiv> (IpV4 (Ipv4 127 0 0 1), 1080)"

abbreviation sample_connector :: "string \<Rightarrow> u16 \<Rightarrow> (string \<times> u16) list \<Rightarrow> (io_error_kind + unit) \<times> (string \<times> u16) list" where
  "sample_connector \<equiv> \<lambda>host port log. (Inr (), log @ [(host, port)])"

lemma sample_socks_host: "plain_host ''jw.edu''" "encode_address ''jw.edu'' 80 = Inr [3, 6, 106, 119, 46, 101, 100, 117, 0, 80]"
  "encode_address (ip_to_string (fst sample_bound)) (snd sample_bound) = Inr [1, 127, 0, 0, 1, 4, 56]"
proof -
  show "plain_host ''jw.edu''"
  proof -
    have "parse_ip ''jw.edu'' = None" "utf8_valid (as_bytes ''jw.edu'')" by code_simp+
    then show ?thesis by (simp add: plain_host_def)
  qed
  show "encode_address ''jw.edu'' 80 = Inr [3, 6, 106, 119, 46, 101, 100, 117, 0, 80]" by code_simp
  show "encode_address (ip_to_string (fst sample_bound)) (snd sample_bound) = Inr [1, 127, 0, 0, 1, 4, 56]" by code_simp
qed

lemma sample_socks_talks:
  "talks [] ([5, word_of_nat (length [0, 2 :: byte])] @ [0, 2]
     @ (case pc_credentials sample_proxy_config of None \<Rightarrow> [] | Some c \<Rightarrow> credential_bytes c) @ [5, 1, 0]
     @ [3, 6, 106, 119, 46, 101, 100, 117, 0, 80] @ [9]) (4 + (3 + length [1, 127, 0, 0, 1, 4, 56 :: byte])) sample_socks_client"
  by (simp add: talks_def sample_socks_client_def can_write_def sample_proxy_config_def credential_bytes_def as_bytes_def eval_nat_numeral)

theorem socks_connect_completes_witness:
  "\<exists>s1. socks_serve sample_proxy_config sample_connector False (Inr sample_bound) sample_socks_client []
      = (Ready (Inr (SocksRelay ())), s1, [(''jw.edu'', 80)])
    \<and> io_wire s1 = [5, 2, 1, 0, 5, 0, 0, 1, 127, 0, 0, 1, 4, 56] \<and> talks [] [9] 0 s1"
proof -
  have offer: "length [0, 2 :: byte] \<le> 255" "(if pc_credentials sample_proxy_config = None then 0 else 2) \<in> set [0, 2 :: byte]"
    "case pc_credentials sample_proxy_config of None \<Rightarrow> True | Some c \<Rightarrow> length (cr_username c) \<le> 255 \<and> length (cr_password c) \<le> 255"
    by (simp_all add: sample_proxy_config_def)
  from socks_connect_completes [OF sample_socks_host(1,2) offer sample_socks_host(3) sample_socks_talks, of sample_connector "[]"]
  show ?thesis by (auto simp: sample_proxy_config_def sample_socks_client_def)
qed

theorem socks_requires_credentials_witness:
  "\<exists>s1. socks_serve sample_proxy_config sample_connector False (Inr sample_bound) sample_socks_client []
      = (Ready (Inr (SocksRelay ())), s1, [(''jw.edu'', 80)])
    \<and> admitted sample_proxy_config (script_bytes (io_reads sample_socks_client))"
proof -
  have offer: "length [0, 2 :: byte] \<le> 255" "(if pc_credentials sample_proxy_config = None then 0 else 2) \<in> set [0, 2 :: byte]"
    "case pc_credentials sample_proxy_config of None \<Rightarrow> True | Some c \<Rightarrow> length (cr_username c) \<le> 255 \<and> length (cr_password c) \<le> 255"
    by (simp_all add: sample_proxy_config_def)
  obtain s1 where h: "socks_handshake sample_proxy_config sample_socks_client = (Ready (Inr (1, ''jw.edu'', 80)), s1)"
    and t: "talks [] [9] (3 + length [1, 127, 0, 0, 1, 4, 56 :: byte]) s1"
    using talks_handshake [OF sample_socks_host(1,2) offer sample_socks_talks] by blast
  from talks_reply [OF sample_socks_host(3) t, of 0] h
  obtain s2 where s2: "socks_serve sample_proxy_config sample_connector False (Inr sample_bound) sample_socks_client []
      = (Ready (Inr (SocksRelay ())), s2, [(''jw.edu'', 80)])"
    by (auto simp: socks_serve_def proxy_connect_def Let_def)
  from socks_requires_credentials [OF s2] s2 show ?thesis by blast
qed

definition sample_assoc_event :: assoc_event where
  "sample_assoc_event = \<lparr>ae_now = 0, ae_finished = (\<lambda>_. False), ae_source = (IpV4 (Ipv4 127 0 0 1), 5000),
     ae_packet = [0, 0, 0, 1, 10, 0, 0, 7, 0, 53, 65]\<rparr>"

lemma sample_association:
  "\<exists>(a :: unit association) s'. associate_begin ''0.0.0.0'' 0 (IpV4 (Ipv4 127 0 0 1)) (Inr sample_bound) (Inr sample_bound) sample_socks_client
      = (Ready (Inr (Some a)), s')"
proof -
  have "talks [] (script_bytes (io_reads sample_socks_client)) (3 + length [1, 127, 0, 0, 1, 4, 56 :: byte]) sample_socks_client"
    by (simp add: talks_def sample_socks_client_def can_write_def eval_nat_numeral)
  from talks_reply [OF sample_socks_host(3) this, of 0] obtain s1 where
    "socks_reply sample_socks_client 0 sample_bound = (Ready (Inr ()), s1)" by blast
  moreover have "parse_ip ''0.0.0.0'' = Some (IpV4 (Ipv4 0 0 0 0))" by code_simp
  ultimately show ?thesis by (simp add: associate_begin_def ip_unspecified_def Let_def)
qed

theorem associations_private_witness:
  "\<exists>(a :: unit association) s' b n. associate_begin ''0.0.0.0'' 0 (IpV4 (Ipv4 127 0 0 1)) (Inr sample_bound) (Inr sample_bound)
       sample_socks_client = (Ready (Inr (Some a)), s')
    \<and> assoc_run sample_connector (\<lambda>_ _ m. (Inr (), m)) [sample_assoc_event] a [] = (Inr b, n) \<and> length (as_peers b) \<le> 64"
proof -
  obtain a :: "unit association" and s' where a: "associate_begin ''0.0.0.0'' 0 (IpV4 (Ipv4 127 0 0 1)) (Inr sample_bound)
      (Inr sample_bound) sample_socks_client = (Ready (Inr (Some a)), s')" using sample_association by blast
  from associations_private [OF a, of sample_connector "\<lambda>_ _ m. (Inr (), m)" "[sample_assoc_event]" "[]"] a show ?thesis by blast
qed

end
