(* ===== verification/Spec2Isabelle.thy ===== *)
theory Spec2Isabelle
  imports L3_Correctness Fake_Ip Dns_Wire Client_Correctness Udp_Packet Net_Dial Socks_Proxy
begin

text \<open>
  A verification of the core of Hermes, a client for a zero-trust network gateway. Sources are named
  relative to \<open>src/crates\<close>.

  \<^bold>\<open>The program.\<close> After a login the client fetches the gateway's resource body. It lists
  applications with the addresses and names they cover, and groups of nodes that carry the
  traffic (\<open>atrust-auth/resource.rs\<close>). A routing index built from it decides for every flow
  whether it may enter the tunnel and under which application and node group
  (\<open>atrust-auth/routing.rs\<close>, \<open>index.rs\<close>). Traffic then goes over a TCP tunnel per connection or
  over one layer 3 session per node group. A session obtains a virtual address (\<open>atrust-l3/get_ip.rs\<close>),
  authorizes each flow by a signed request (\<open>atrust-protocol/l3_auth.rs\<close>, \<open>atrust-l3/auth.rs\<close>), remembers
  verdicts in a connection table (\<open>conntrack.rs\<close>) and exchanges IP packets in frames
  (\<open>atrust-protocol/l3_frame.rs\<close>); caller, reader, writer, heartbeat and retry tasks share its state
  (\<open>session.rs\<close>). A manager reconnects the session of a group and a cache keeps the managers
  (\<open>manager.rs\<close>). Name resolution speaks DNS (\<open>atrust-net/dns_wire.rs\<close>) and hands out fake addresses
  that stand for names (\<open>fake_ip.rs\<close>). State changes are published as events (\<open>hermes-events\<close>).

  \<^bold>\<open>Theories and sources.\<close>
  \<^item> \<open>Prelude\<close>, \<open>Strings\<close>, \<open>Framing\<close>: bytes and words, strings as lists of UTF-8 bytes, decimal and address
    notation, hash maps as association lists whose order is any iteration order, bounded channels,
    and the interface of a stream splitter (locale \<open>framing\<close>): whoever implements it reads the same
    frames however the stream is cut.
  \<^item> \<open>Tcp_Frame\<close>, \<open>L3_Frame\<close>, \<open>Signed_Json\<close>: the crate \<open>atrust-protocol\<close>. Frames of both tunnels with both
    layouts of data responses, and the signed requests; hashing and JSON printing are parameters.
  \<^item> \<open>Ipv4_Packet\<close>, \<open>Conntrack\<close>, \<open>Verdict_Store\<close>, \<open>Flow_Auth\<close>, \<open>Get_Ip\<close>: packets and flow keys, the table with
    its two indexes, expiry and eviction, replies applied to it (stated against the locale of a
    verdict store), and the virtual address exchange.
  \<^item> \<open>L3_Session\<close>, \<open>L3_Reader\<close>, \<open>L3_Driver\<close>: the shared state with its operations, the reader with its
    dispatch, and the sections of the other tasks. \<open>L3_Driver\<close> ends with the relation \<open>session_step\<close>, in
    which the tasks interleave. \<open>L3_Invariant\<close>, \<open>L3_Closing\<close>, \<open>L3_Correctness\<close>: its invariant, what closing
    does to waiting callers, and the properties of a session.
  \<^item> \<open>Events\<close>: the published events. \<open>L3_Manager\<close>, \<open>L3_Cache\<close>: reconnecting, rotation, retries, the cache with
    generation stamps, and the relation \<open>cache_step\<close>.
  \<^item> \<open>Resource\<close>, \<open>Candidate_Index\<close>, \<open>Routing\<close>, \<open>Routing_Correctness\<close>: the tables, the interval tree and the
    trie behind the locale \<open>candidate_index\<close>, the index and its properties.
  \<^item> \<open>Fake_Ip\<close>, \<open>Dns_Wire\<close>: the address pool with its runs, and the DNS wire format.

  \<^bold>\<open>Correspondence.\<close> A Rust struct is a record, an enum a datatype, an operation a function that returns
  the updated state; errors are the left side of a sum, and an option stands for a source
  function that can fail in one way only. Integers that can wrap are words. Where a name clashes
  with a constant of the library, or a method name is used by several types, the definition carries
  the type as prefix (\<open>pool_assign\<close>, \<open>manager_retire\<close>, \<open>cache_close\<close>). Clocks, random data, network
  results and third-party code are arguments. An \<open>Arc\<close> to a session or a manager is its position in
  a store. A step of \<open>session_step\<close> is a critical section of the source together with the answers it
  triggers; closing, an address update and the dispatch of one frame, which take several locks in
  a row, are one step each. Claims of new flows assume that the 64-bit id counter has not been
  used up.

  \<^bold>\<open>What is shown.\<close> Sessions: a waiting caller always waits on an authorization in flight and is answered
  exactly once, concurrent claims share one request, closing wakes everybody and is final, a
  changed address retires every flow, frames do not depend on chunking. Table: pruning never
  touches flows in flight and accounts for every entry; late replies revive nothing. Routing: both
  indexes agree with linear search, the result is the most specific match in the gateway's order,
  and a decision carries application and group of one published address. Managers: every endpoint
  is tried once per round, retries are bounded, a retired cache never reconnects, old generations
  never overwrite new ones. Pool: an address stands for one name for the lifetime of the pool. DNS
  and frames: round trips. Five theorems record behaviour that differs from what the comments
  say or the code intends: a duplicate reply miscounts, surplus heartbeat replies hide silence, a
  long connect token is misread, an inverted port range still matches ICMP, and names of 64 or
  more labels are never answered.

  \<^bold>\<open>Bounds and fuel.\<close> The loops of the source that carry a count keep it as fuel: eight frames for the
  virtual address, 64 steps for a DNS name, 16 aliases, one turn per endpoint. Running out is the
  source's own error. The retry loops recurse on what is left of their budget. All other functions
  are total by structural recursion or a measure, so no claim depends on fuel being large enough.

  \<^bold>\<open>Not modelled.\<close> Sockets, TLS, files, the browser and the HTTP client (\<open>hermes-transport\<close>,
  \<open>atrust-auth/client.rs\<close>, \<open>store.rs\<close>, \<open>atrust-browser\<close>), the broadcast channel behind the event bus, task
  spawning and joining, logging, and the command line program \<open>apps/atrust-probe\<close>. The TCP stream
  state machine (\<open>atrust-tcp\<close>), node selection and the resource cache (\<open>atrust-auth\<close>), resolution and
  dialing (\<open>atrust-net\<close>), the client runtime (\<open>atrust-client\<close>) and the local proxies
  (\<open>hermes-proxy\<close>) build on the parts above and come next, in this order.
\<close>

end
